(* ===== verification/Bellhop_Prelude.thy ===== *)
theory Bellhop_Prelude
  imports Main "HOL-Library.AList" "HOL-Library.Sublist"
begin

text \<open>
  Shared vocabulary of the development: the shapes the TypeScript sources use everywhere and the
  facts about them that the component theories need.

  \<^item> An SQLite table is the list of its rows; \<open>sql_find\<close> is a \<open>SELECT ... WHERE key = ?\<close> of one row,
    \<open>sql_update\<close> an \<open>UPDATE ... WHERE key = ?\<close>, \<open>sql_delete\<close> a \<open>DELETE ... WHERE\<close>.  The locale
    \<open>keyed_update\<close> is the contract of a statement that leaves the key column alone.
  \<^item> A JavaScript \<open>Map\<close> is an association list in insertion order (\<open>jm_set\<close> keeps the position of
    a key that is already there), a \<open>Set\<close> a list without repetitions.
  \<^item> Process owner strings (\<open>web\<close>, \<open>mcp:<pid>\<close>), decimal rendering and parsing.
  \<^item> Instants are epoch milliseconds (\<open>int\<close>).  The code stores them as ISO-8601 UTC strings, which
    compare as the instants do.
\<close>

named_theorems row_simps \<open>effect of one statement on a table, a map or a set\<close>
named_theorems store_frame \<open>what an operation leaves alone\<close>

type_synonym ms = int

section \<open>Tables\<close>

definition sql_find :: "('r \<Rightarrow> 'k) \<Rightarrow> 'k \<Rightarrow> 'r list \<Rightarrow> 'r option" where
  "sql_find key k rows = find (\<lambda>r. key r = k) rows"

definition sql_update :: "('r \<Rightarrow> 'k) \<Rightarrow> 'k \<Rightarrow> ('r \<Rightarrow> 'r) \<Rightarrow> 'r list \<Rightarrow> 'r list" where
  "sql_update key k f rows = map (\<lambda>r. if key r = k then f r else r) rows"

definition sql_delete :: "('r \<Rightarrow> bool) \<Rightarrow> 'r list \<Rightarrow> 'r list" where
  "sql_delete P rows = filter (\<lambda>r. \<not> P r) rows"

lemma sql_find_Nil [simp]: "sql_find key k [] = None"
  by (simp add: sql_find_def)

lemma sql_find_Cons [row_simps]:
  "sql_find key k (r # rows) = (if key r = k then Some r else sql_find key k rows)"
  by (simp add: sql_find_def)

lemma sql_find_SomeD: "sql_find key k rows = Some r \<Longrightarrow> r \<in> set rows \<and> key r = k"
  by (auto simp: sql_find_def find_Some_iff)

lemma sql_find_None_iff: "sql_find key k rows = None \<longleftrightarrow> k \<notin> key ` set rows"
  by (auto simp: sql_find_def find_None_iff)

lemma sql_find_append [row_simps]:
  "sql_find key k (xs @ ys) = (case sql_find key k xs of None \<Rightarrow> sql_find key k ys | Some r \<Rightarrow> Some r)"
  by (induction xs) (auto simp: row_simps)

lemma sql_find_distinct:
  "distinct (map key rows) \<Longrightarrow> r \<in> set rows \<Longrightarrow> sql_find key (key r) rows = Some r"
  by (induction rows) (auto simp: row_simps rev_image_eqI)

lemma sql_find_distinct_iff:
  "distinct (map key rows) \<Longrightarrow> sql_find key k rows = Some r \<longleftrightarrow> r \<in> set rows \<and> key r = k"
  using sql_find_SomeD sql_find_distinct by metis

lemma set_sql_update:
  "set (sql_update key k f rows) = (\<lambda>r. if key r = k then f r else r) ` set rows"
  by (simp add: sql_update_def)

lemma length_sql_update [simp]: "length (sql_update key k f rows) = length rows"
  by (simp add: sql_update_def)

lemma sql_update_append [row_simps]:
  "sql_update key k f (xs @ ys) = sql_update key k f xs @ sql_update key k f ys"
  by (simp add: sql_update_def)

lemma sql_update_absent: "k \<notin> key ` set rows \<Longrightarrow> sql_update key k f rows = rows"
  by (auto simp: sql_update_def intro!: map_idI)

lemma set_sql_delete [row_simps]: "set (sql_delete P rows) = {r \<in> set rows. \<not> P r}"
  by (auto simp: sql_delete_def)

lemma sql_delete_distinct: "distinct (map key rows) \<Longrightarrow> distinct (map key (sql_delete P rows))"
  by (induction rows) (auto simp: sql_delete_def)

lemma sql_find_delete_key:
  "sql_find key k' (sql_delete (\<lambda>r. key r = k) rows) = (if k' = k then None else sql_find key k' rows)"
  by (induction rows) (auto simp: sql_delete_def row_simps)

lemma sql_find_delete:
  "distinct (map key rows) \<Longrightarrow>
   sql_find key k (sql_delete P rows) =
     (case sql_find key k rows of None \<Rightarrow> None | Some r \<Rightarrow> if P r then None else Some r)"
proof (induction rows)
  case Nil
  then show ?case by (simp add: sql_delete_def)
next
  case (Cons r rows)
  show ?case
  proof (cases "key r = k")
    case True
    with Cons.prems have "k \<notin> key ` set rows" by auto
    then have "sql_find key k (sql_delete P rows) = None"
      by (auto simp: sql_find_None_iff row_simps)
    with True show ?thesis by (simp add: sql_delete_def row_simps)
  next
    case False
    with Cons show ?thesis by (auto simp: sql_delete_def row_simps split: option.splits)
  qed
qed

lemma key_mem_filter:
  assumes "distinct (map key rows)" and "r \<in> set rows"
  shows "key r \<in> key ` {x \<in> set rows. P x} \<longleftrightarrow> P r"
  using assms by (auto simp: distinct_map dest: inj_onD)

text \<open>An \<open>UPDATE\<close> that does not write the key column of its table.\<close>

locale keyed_update =
  fixes key :: "'r \<Rightarrow> 'k" and f :: "'r \<Rightarrow> 'r"
  assumes key_kept: "key (f r) = key r"
begin

lemma keys_kept: "map key (sql_update key k f rows) = map key rows"
  by (simp add: sql_update_def key_kept)

lemma find_same: "sql_find key k (sql_update key k f rows) = map_option f (sql_find key k rows)"
  by (induction rows) (auto simp: sql_update_def row_simps key_kept)

lemma find_other: "k' \<noteq> k \<Longrightarrow> sql_find key k' (sql_update key k f rows) = sql_find key k' rows"
  by (induction rows) (auto simp: sql_update_def row_simps key_kept)

lemma find_any:
  "sql_find key k' (sql_update key k f rows) =
     (if k' = k then map_option f (sql_find key k rows) else sql_find key k' rows)"
  by (simp add: find_same find_other)

lemma fold_update:
  "distinct ks \<Longrightarrow> fold (\<lambda>k. sql_update key k f) ks rows = map (\<lambda>r. if key r \<in> set ks then f r else r) rows"
proof (induction ks arbitrary: rows)
  case Nil
  then show ?case by simp
next
  case (Cons k ks)
  then have "fold (\<lambda>k. sql_update key k f) (k # ks) rows =
      map (\<lambda>r. if key r \<in> set ks then f r else r) (sql_update key k f rows)"
    by simp
  also have "\<dots> = map (\<lambda>r. if key r \<in> set (k # ks) then f r else r) rows"
    using Cons.prems by (auto simp: sql_update_def key_kept)
  finally show ?case .
qed

lemma key_image: "key ` set (sql_update key k f rows) = key ` set rows"
  using keys_kept [of k rows] by (metis set_map)

end

section \<open>Maps and sets of the JavaScript runtime\<close>

definition jm_set :: "'k \<Rightarrow> 'v \<Rightarrow> ('k \<times> 'v) list \<Rightarrow> ('k \<times> 'v) list" where
  "jm_set k v m = AList.update k v m"

definition jm_delete :: "'k \<Rightarrow> ('k \<times> 'v) list \<Rightarrow> ('k \<times> 'v) list" where
  "jm_delete k m = filter (\<lambda>kv. fst kv \<noteq> k) m"

definition jm_get :: "('k \<times> 'v) list \<Rightarrow> 'k \<Rightarrow> 'v option" where
  "jm_get m k = map_of m k"

definition jm_has :: "('k \<times> 'v) list \<Rightarrow> 'k \<Rightarrow> bool" where
  "jm_has m k \<longleftrightarrow> map_of m k \<noteq> None"

definition js_add :: "'a \<Rightarrow> 'a list \<Rightarrow> 'a list" where
  "js_add x s = (if x \<in> set s then s else s @ [x])"

definition js_remove :: "'a \<Rightarrow> 'a list \<Rightarrow> 'a list" where
  "js_remove x s = filter (\<lambda>y. y \<noteq> x) s"

lemma jm_get_set [row_simps]: "jm_get (jm_set k v m) k' = (if k' = k then Some v else jm_get m k')"
  by (simp add: jm_get_def jm_set_def update_conv)

lemma jm_get_delete [row_simps]: "jm_get (jm_delete k m) k' = (if k' = k then None else jm_get m k')"
  by (induction m) (auto simp: jm_get_def jm_delete_def)

lemma jm_has_get: "jm_has m k \<longleftrightarrow> jm_get m k \<noteq> None"
  by (simp add: jm_has_def jm_get_def)

lemma jm_has_set [row_simps]: "jm_has (jm_set k v m) k' \<longleftrightarrow> k' = k \<or> jm_has m k'"
  by (simp add: jm_has_get row_simps)

lemma jm_has_delete [row_simps]: "jm_has (jm_delete k m) k' \<longleftrightarrow> k' \<noteq> k \<and> jm_has m k'"
  by (simp add: jm_has_get row_simps)

lemma jm_has_dom: "jm_has m k \<longleftrightarrow> k \<in> fst ` set m"
  by (simp add: jm_has_def map_of_eq_None_iff)

lemma jm_empty [simp]: "jm_get [] k = None" "\<not> jm_has [] k"
  by (simp_all add: jm_get_def jm_has_def)

lemma jm_nonempty: "jm_has m k \<Longrightarrow> m \<noteq> []"
  by (auto simp: jm_has_def)

lemma jm_set_nonempty [simp]: "jm_set k v m \<noteq> []"
  by (cases m) (auto simp: jm_set_def)

lemma jm_distinct_set: "distinct (map fst m) \<Longrightarrow> distinct (map fst (jm_set k v m))"
  by (simp add: jm_set_def distinct_update)

lemma jm_distinct_delete: "distinct (map fst m) \<Longrightarrow> distinct (map fst (jm_delete k m))"
  by (induction m) (auto simp: jm_delete_def)

lemma set_js_add [row_simps]: "set (js_add x s) = insert x (set s)"
  by (auto simp: js_add_def)

lemma set_js_remove [row_simps]: "set (js_remove x s) = set s - {x}"
  by (auto simp: js_remove_def)

lemma distinct_js_add: "distinct s \<Longrightarrow> distinct (js_add x s)"
  by (simp add: js_add_def)

lemma distinct_js_remove: "distinct s \<Longrightarrow> distinct (js_remove x s)"
  by (simp add: js_remove_def)

section \<open>Decimal numbers\<close>

definition digit_char :: "nat \<Rightarrow> char" where
  "digit_char d = char_of (48 + d)"

definition char_digit :: "char \<Rightarrow> nat" where
  "char_digit c = of_char c - 48"

definition is_digit :: "char \<Rightarrow> bool" where
  "is_digit c \<longleftrightarrow> 48 \<le> (of_char c :: nat) \<and> (of_char c :: nat) \<le> 57"

fun show_nat :: "nat \<Rightarrow> string" where
  "show_nat n = (if n < 10 then [digit_char n] else show_nat (n div 10) @ [digit_char (n mod 10)])"

declare show_nat.simps [simp del]

definition show_int :: "int \<Rightarrow> string" where
  "show_int i = (if i < 0 then ''-'' @ show_nat (nat (- i)) else show_nat (nat i))"

definition read_nat :: "string \<Rightarrow> nat" where
  "read_nat s = foldl (\<lambda>a c. 10 * a + char_digit c) 0 s"

lemma digit_char_props:
  "d < 10 \<Longrightarrow> is_digit (digit_char d) \<and> char_digit (digit_char d) = d"
  by (simp add: is_digit_def digit_char_def char_digit_def)

lemma show_nat_digits: "list_all is_digit (show_nat n) \<and> show_nat n \<noteq> []"
proof (induction n rule: show_nat.induct)
  case (1 n)
  then show ?case
    by (subst (1 2) show_nat.simps) (auto simp: digit_char_props)
qed

lemma read_show_nat: "read_nat (show_nat n) = n"
proof (induction n rule: show_nat.induct)
  case (1 n)
  then show ?case
    by (subst show_nat.simps) (auto simp: read_nat_def digit_char_props)
qed

lemma show_nat_inj: "show_nat a = show_nat b \<longleftrightarrow> a = b"
  by (metis read_show_nat)

lemma read_nat_zeros: "read_nat (replicate m (CHR ''0'') @ s) = read_nat s"
proof (induction m)
  case 0
  then show ?case by simp
next
  case (Suc m)
  then show ?case by (simp add: read_nat_def char_digit_def)
qed

section \<open>Process owners\<close>

text \<open>\<open>/^mcp:(\d+)$/.exec(owner)\<close> followed by \<open>Number(match[1])\<close>.\<close>

definition mcp_pid :: "string \<Rightarrow> nat option" where
  "mcp_pid owner =
     (if take 4 owner = ''mcp:'' \<and> drop 4 owner \<noteq> [] \<and> list_all is_digit (drop 4 owner)
      then Some (read_nat (drop 4 owner)) else None)"

lemma mcp_pid_web [simp]: "mcp_pid ''web'' = None"
  by (simp add: mcp_pid_def)

lemma mcp_pid_owner [simp]: "mcp_pid (''mcp:'' @ show_nat p) = Some p"
  using show_nat_digits [of p] by (simp add: mcp_pid_def read_show_nat)

definition ends_with_newline :: "string \<Rightarrow> bool" where
  "ends_with_newline s \<longleftrightarrow> s \<noteq> [] \<and> last s = CHR 10"

definition with_newline :: "string \<Rightarrow> string" where
  "with_newline s = (if ends_with_newline s then s else s @ [CHR 10])"

text \<open>The source's messages hold an em dash; the log is written as UTF-8.\<close>

definition em_dash :: string where
  "em_dash = [CHR 0xE2, CHR 0x80, CHR 0x94]"

text \<open>A single quote inside a message.\<close>

definition quoted :: "string \<Rightarrow> string" where
  "quoted s = CHR 39 # s @ [CHR 39]"

text \<open>\<open>s.split(c)\<close> for a one-character separator.\<close>

fun split_on :: "char \<Rightarrow> string \<Rightarrow> string list" where
  "split_on c [] = [[]]"
| "split_on c (x # xs) =
     (if x = c then [] # split_on c xs
      else (case split_on c xs of [] \<Rightarrow> [[x]] | w # ws \<Rightarrow> (x # w) # ws))"

end
