(* ===== verification/Job_Store.thy ===== *)
theory Job_Store
  imports Bellhop_Prelude "HOL-Library.Option_ord" "HOL-Library.Product_Lexorder"
begin

text \<open>
  The job database, \<open>src/src/web/jobs/job-store.ts\<close>: the tables \<open>jobs\<close> and
  \<open>job_control_requests\<close> and every statement the class \<open>JobStore\<close> runs on them.  A row of a table
  is a record, a table the list of its rows in insertion order, an \<open>AUTOINCREMENT\<close> counter a field.
  The lemmas give each statement's effect on a row looked up by id, the well-formedness invariant
  \<open>store_wf\<close> every operation keeps, and what survives of an answer once its request is handled.
\<close>

section \<open>Rows\<close>

datatype triggered_via = ViaWeb | ViaMcp

datatype job_status = Queued | Running | AwaitingInput | Success | Failed | Cancelled | Interrupted

datatype job_category = Provisioning | Maintenance

datatype prompt_origin = OExpected | OHeuristic | OStall

datatype control_action = ACancel | AAnswer | ADismiss

datatype control_outcome = Applied | NotApplicable

record job_row =
  j_id :: nat
  j_command :: string
  j_category :: job_category
  j_target :: "string option"
  j_argsJson :: string
  j_status :: job_status
  j_logFile :: string
  j_startedAt :: "ms option"
  j_finishedAt :: "ms option"
  j_exitCode :: "int option"
  j_errorMessage :: "string option"
  j_promptText :: "string option"
  j_expectedPrompts :: "string list option"
  j_promptOrigin :: "prompt_origin option"
  j_promptMatchedIndex :: "nat option"
  j_triggeredByUsername :: "string option"
  j_triggeredByImpersonating :: "string option"
  j_triggeredVia :: "triggered_via option"
  j_owner :: "string option"

record ctl_row =
  c_id :: nat
  c_jobId :: nat
  c_action :: control_action
  c_text :: "string option"
  c_requestedByOwner :: string
  c_requestedByUsername :: "string option"
  c_createdAt :: ms
  c_handledAt :: "ms option"
  c_result :: "control_outcome option"

record create_ctl_input =
  cc_jobId :: nat
  cc_action :: control_action
  cc_text :: "string option"
  cc_requestedByOwner :: string
  cc_requestedByUsername :: "string option"

record create_job_input =
  cj_command :: string
  cj_category :: job_category
  cj_target :: "string option"
  cj_argsJson :: string
  cj_expectedPrompts :: "string list option"
  cj_triggeredByUsername :: "string option"
  cj_triggeredByImpersonating :: "string option"
  cj_triggeredVia :: "triggered_via option"
  cj_owner :: "string option"

record finish_input =
  fi_status :: job_status
  fi_exitCode :: int
  fi_errorMessage :: "string option"

record job_store =
  js_jobs :: "job_row list"
  js_ctl :: "ctl_row list"
  js_jobSeq :: nat
  js_ctlSeq :: nat
  js_lastLogFileMs :: ms

definition empty_store :: job_store where
  "empty_store = \<lparr>js_jobs = [], js_ctl = [], js_jobSeq = 0, js_ctlSeq = 0, js_lastLogFileMs = 0\<rparr>"

fun status_text :: "job_status \<Rightarrow> string" where
  "status_text Queued = ''queued''"
| "status_text Running = ''running''"
| "status_text AwaitingInput = ''awaiting_input''"
| "status_text Success = ''success''"
| "status_text Failed = ''failed''"
| "status_text Cancelled = ''cancelled''"
| "status_text Interrupted = ''interrupted''"

definition active_statuses :: "job_status list" where
  "active_statuses = [Queued, Running, AwaitingInput]"

definition terminal_statuses :: "job_status list" where
  "terminal_statuses = [Success, Failed, Cancelled, Interrupted]"

lemma active_iff_not_terminal: "s \<in> set active_statuses \<longleftrightarrow> s \<notin> set terminal_statuses"
  by (cases s) (auto simp: active_statuses_def terminal_statuses_def)

section \<open>Log file names\<close>

text \<open>
  The getters of a \<open>Date\<close> in the service's local time zone.  Which instant has which local fields is
  the runtime's; the store takes it as the argument \<open>local\<close>.
\<close>

record local_fields =
  lf_year :: nat
  lf_month :: nat
  lf_day :: nat
  lf_hours :: nat
  lf_minutes :: nat
  lf_seconds :: nat
  lf_millis :: nat

definition pad :: "nat \<Rightarrow> nat \<Rightarrow> string" where
  "pad width n = replicate (width - length (show_nat n)) (CHR ''0'') @ show_nat n"

definition formatLogFileName :: "local_fields \<Rightarrow> string" where
  "formatLogFileName d =
     show_nat (lf_year d) @ ''-'' @ pad 2 (lf_month d + 1) @ ''-'' @ pad 2 (lf_day d) @ ''_'' @
     pad 2 (lf_hours d) @ ''-'' @ pad 2 (lf_minutes d) @ ''-'' @ pad 2 (lf_seconds d) @ ''-'' @
     pad 3 (lf_millis d)"

section \<open>Operations\<close>

definition createJob ::
  "(ms \<Rightarrow> local_fields) \<Rightarrow> ms \<Rightarrow> create_job_input \<Rightarrow> job_store \<Rightarrow> job_store \<times> nat" where
  "createJob local now input s =
     (let nowMs = max now (js_lastLogFileMs s + 1);
          newId = js_jobSeq s + 1;
          row = \<lparr>j_id = newId, j_command = cj_command input, j_category = cj_category input,
                 j_target = cj_target input, j_argsJson = cj_argsJson input, j_status = Queued,
                 j_logFile = formatLogFileName (local nowMs), j_startedAt = None,
                 j_finishedAt = None, j_exitCode = None, j_errorMessage = None,
                 j_promptText = None, j_expectedPrompts = cj_expectedPrompts input,
                 j_promptOrigin = None, j_promptMatchedIndex = None,
                 j_triggeredByUsername = cj_triggeredByUsername input,
                 j_triggeredByImpersonating = cj_triggeredByImpersonating input,
                 j_triggeredVia = cj_triggeredVia input, j_owner = cj_owner input\<rparr>
      in (s\<lparr>js_jobs := js_jobs s @ [row], js_jobSeq := newId, js_lastLogFileMs := nowMs\<rparr>, newId))"

definition running_row :: "ms \<Rightarrow> job_row \<Rightarrow> job_row" where
  "running_row now r =
     r\<lparr>j_status := Running,
       j_startedAt := (case j_startedAt r of None \<Rightarrow> Some now | Some t \<Rightarrow> Some t),
       j_promptText := None, j_promptOrigin := None, j_promptMatchedIndex := None\<rparr>"

definition markRunning :: "ms \<Rightarrow> nat \<Rightarrow> job_store \<Rightarrow> job_store" where
  "markRunning now i s = s\<lparr>js_jobs := sql_update j_id i (running_row now) (js_jobs s)\<rparr>"

definition awaiting_row :: "string \<Rightarrow> prompt_origin \<Rightarrow> nat option \<Rightarrow> job_row \<Rightarrow> job_row" where
  "awaiting_row ptext orig idx r =
     r\<lparr>j_status := AwaitingInput, j_promptText := Some ptext, j_promptOrigin := Some orig,
       j_promptMatchedIndex := idx\<rparr>"

definition markAwaitingInput ::
  "nat \<Rightarrow> string \<Rightarrow> prompt_origin \<Rightarrow> nat option \<Rightarrow> job_store \<Rightarrow> job_store" where
  "markAwaitingInput i ptext orig idx s =
     s\<lparr>js_jobs := sql_update j_id i (awaiting_row ptext orig idx) (js_jobs s)\<rparr>"

definition finished_row :: "ms \<Rightarrow> finish_input \<Rightarrow> job_row \<Rightarrow> job_row" where
  "finished_row now res r =
     r\<lparr>j_status := fi_status res, j_finishedAt := Some now, j_exitCode := Some (fi_exitCode res),
       j_errorMessage := fi_errorMessage res\<rparr>"

definition markFinished :: "ms \<Rightarrow> nat \<Rightarrow> finish_input \<Rightarrow> job_store \<Rightarrow> job_store" where
  "markFinished now i res s = s\<lparr>js_jobs := sql_update j_id i (finished_row now res) (js_jobs s)\<rparr>"

definition owner_of :: "string option \<Rightarrow> string" where
  "owner_of ow = (case ow of None \<Rightarrow> ''web'' | Some w \<Rightarrow> w)"

definition dead_mcp :: "(nat \<Rightarrow> bool) \<Rightarrow> string \<Rightarrow> bool" where
  "dead_mcp alive ow = (case mcp_pid ow of None \<Rightarrow> False | Some p \<Rightarrow> \<not> alive p)"

definition isOrphanFor :: "string option \<Rightarrow> string \<Rightarrow> (nat \<Rightarrow> bool) \<Rightarrow> bool" where
  "isOrphanFor rowOwner caller alive =
     (let ow = owner_of rowOwner in if ow = caller then True else dead_mcp alive ow)"

definition interrupted_row :: "ms \<Rightarrow> job_row \<Rightarrow> job_row" where
  "interrupted_row now r =
     r\<lparr>j_status := Interrupted, j_finishedAt := Some now,
       j_errorMessage := Some (''Interrupted by service restart while '' @ status_text (j_status r)),
       j_promptText := None, j_promptOrigin := None, j_promptMatchedIndex := None\<rparr>"

definition interruptOrphaned ::
  "ms \<Rightarrow> string \<Rightarrow> (nat \<Rightarrow> bool) \<Rightarrow> job_store \<Rightarrow> job_store \<times> job_row list" where
  "interruptOrphaned now caller alive s =
     (let candidates = filter (\<lambda>r. j_status r \<in> set active_statuses) (js_jobs s);
          orphaned = filter (\<lambda>r. isOrphanFor (j_owner r) caller alive) candidates
      in (s\<lparr>js_jobs := fold (\<lambda>r. sql_update j_id (j_id r) (interrupted_row now)) orphaned (js_jobs s)\<rparr>,
          orphaned))"

definition get_job :: "nat \<Rightarrow> job_store \<Rightarrow> job_row option" where
  "get_job i s = sql_find j_id i (js_jobs s)"

definition list_jobs :: "nat \<Rightarrow> job_store \<Rightarrow> job_row list" where
  "list_jobs limit s = take limit (rev (sort_key j_id (js_jobs s)))"

definition listSuccessfulByCommands :: "string list \<Rightarrow> job_store \<Rightarrow> job_row list" where
  "listSuccessfulByCommands commands s =
     (if commands = [] then []
      else rev (sort_key (\<lambda>r. (j_startedAt r, j_id r))
                 (filter (\<lambda>r. j_status r = Success \<and> j_command r \<in> set commands) (js_jobs s))))"

definition createControlRequest ::
  "ms \<Rightarrow> create_ctl_input \<Rightarrow> job_store \<Rightarrow> job_store \<times> nat" where
  "createControlRequest now input s =
     (let newId = js_ctlSeq s + 1;
          row = \<lparr>c_id = newId, c_jobId = cc_jobId input, c_action = cc_action input,
                 c_text = cc_text input, c_requestedByOwner = cc_requestedByOwner input,
                 c_requestedByUsername = cc_requestedByUsername input, c_createdAt = now,
                 c_handledAt = None, c_result = None\<rparr>
      in (s\<lparr>js_ctl := js_ctl s @ [row], js_ctlSeq := newId\<rparr>, newId))"

definition pendingControlRequests :: "string \<Rightarrow> job_store \<Rightarrow> ctl_row list" where
  "pendingControlRequests ow s =
     sort_key c_id
       (filter (\<lambda>c. c_handledAt c = None \<and>
          (case get_job (c_jobId c) s of None \<Rightarrow> False | Some j \<Rightarrow> owner_of (j_owner j) = ow)) (js_ctl s))"

definition handled_ctl :: "ms \<Rightarrow> control_outcome \<Rightarrow> ctl_row \<Rightarrow> ctl_row" where
  "handled_ctl now res c = c\<lparr>c_handledAt := Some now, c_result := Some res, c_text := None\<rparr>"

definition markControlRequestHandled :: "ms \<Rightarrow> nat \<Rightarrow> control_outcome \<Rightarrow> job_store \<Rightarrow> job_store" where
  "markControlRequestHandled now i res s =
     s\<lparr>js_ctl := sql_update c_id i (handled_ctl now res) (js_ctl s)\<rparr>"

definition stale_request :: "(nat \<Rightarrow> bool) \<Rightarrow> job_store \<Rightarrow> ctl_row \<Rightarrow> bool" where
  "stale_request alive s c =
     (case get_job (c_jobId c) s of
        None \<Rightarrow> True
      | Some j \<Rightarrow> j_status j \<in> set terminal_statuses \<or> dead_mcp alive (owner_of (j_owner j)))"

definition closeStaleControlRequests :: "ms \<Rightarrow> (nat \<Rightarrow> bool) \<Rightarrow> job_store \<Rightarrow> job_store" where
  "closeStaleControlRequests now alive s =
     (let staleIds = map c_id (filter (\<lambda>c. c_handledAt c = None \<and> stale_request alive s c) (js_ctl s))
      in if staleIds = [] then s
         else s\<lparr>js_ctl := fold (\<lambda>i. sql_update c_id i (handled_ctl now NotApplicable)) staleIds (js_ctl s)\<rparr>)"

section \<open>Row updates and lookups\<close>

interpretation running_upd: keyed_update j_id "running_row now" for now
  by unfold_locales (simp add: running_row_def)

interpretation awaiting_upd: keyed_update j_id "awaiting_row ptext orig idx"
  for ptext orig idx
  by unfold_locales (simp add: awaiting_row_def)

interpretation finished_upd: keyed_update j_id "finished_row now res" for now res
  by unfold_locales (simp add: finished_row_def)

interpretation interrupted_upd: keyed_update j_id "interrupted_row now" for now
  by unfold_locales (simp add: interrupted_row_def)

interpretation handled_upd: keyed_update c_id "handled_ctl now res" for now res
  by unfold_locales (simp add: handled_ctl_def)

lemma get_markRunning [row_simps]:
  "get_job k (markRunning now i s) =
     (if k = i then map_option (running_row now) (get_job i s) else get_job k s)"
  by (simp add: get_job_def markRunning_def running_upd.find_any)

lemma get_markAwaitingInput [row_simps]:
  "get_job k (markAwaitingInput i ptext orig idx s) =
     (if k = i then map_option (awaiting_row ptext orig idx) (get_job i s) else get_job k s)"
  by (simp add: get_job_def markAwaitingInput_def awaiting_upd.find_any)

lemma get_markFinished [row_simps]:
  "get_job k (markFinished now i res s) =
     (if k = i then map_option (finished_row now res) (get_job i s) else get_job k s)"
  by (simp add: get_job_def markFinished_def finished_upd.find_any)

lemma get_job_ctl_only [row_simps]:
  "get_job k (markControlRequestHandled now i res s) = get_job k s"
  "get_job k (closeStaleControlRequests now alive s) = get_job k s"
  "get_job k (fst (createControlRequest now inp s)) = get_job k s"
  by (simp_all add: get_job_def markControlRequestHandled_def closeStaleControlRequests_def
      createControlRequest_def Let_def)

lemma jobs_ctl_only [row_simps]:
  "js_jobs (markControlRequestHandled now i res s) = js_jobs s"
  "js_jobs (closeStaleControlRequests now alive s) = js_jobs s"
  "js_jobs (fst (createControlRequest now inp s)) = js_jobs s"
  by (simp_all add: markControlRequestHandled_def closeStaleControlRequests_def
      createControlRequest_def Let_def)

lemma seq_kept [row_simps]:
  "js_jobSeq (closeStaleControlRequests now alive s) = js_jobSeq s"
  "js_ctlSeq (closeStaleControlRequests now alive s) = js_ctlSeq s"
  "js_lastLogFileMs (closeStaleControlRequests now alive s) = js_lastLogFileMs s"
  by (simp_all add: closeStaleControlRequests_def Let_def)

section \<open>Well-formedness\<close>

definition ctl_ok :: "ctl_row \<Rightarrow> bool" where
  "ctl_ok c \<longleftrightarrow> (c_handledAt c = None \<longleftrightarrow> c_result c = None) \<and> (c_handledAt c \<noteq> None \<longrightarrow> c_text c = None)"

definition store_wf :: "job_store \<Rightarrow> bool" where
  "store_wf s \<longleftrightarrow>
     sorted_wrt (<) (map j_id (js_jobs s)) \<and> list_all (\<lambda>i. 0 < i \<and> i \<le> js_jobSeq s) (map j_id (js_jobs s)) \<and>
     sorted_wrt (<) (map c_id (js_ctl s)) \<and> list_all (\<lambda>i. 0 < i \<and> i \<le> js_ctlSeq s) (map c_id (js_ctl s)) \<and>
     list_all ctl_ok (js_ctl s)"

lemma store_wf_empty: "store_wf empty_store"
  by (simp add: store_wf_def empty_store_def)

lemma store_wf_distinct: "store_wf s \<Longrightarrow> distinct (map j_id (js_jobs s))"
  by (simp add: store_wf_def strict_sorted_iff)

lemma store_wf_distinct_ctl: "store_wf s \<Longrightarrow> distinct (map c_id (js_ctl s))"
  by (simp add: store_wf_def strict_sorted_iff)

lemma get_job_in: "store_wf s \<Longrightarrow> r \<in> set (js_jobs s) \<Longrightarrow> get_job (j_id r) s = Some r"
  unfolding get_job_def by (rule sql_find_distinct [OF store_wf_distinct])

lemma get_job_SomeD: "get_job i s = Some r \<Longrightarrow> r \<in> set (js_jobs s) \<and> j_id r = i"
  unfolding get_job_def by (rule sql_find_SomeD)

lemma fresh_id_absent: "store_wf s \<Longrightarrow> get_job (Suc (js_jobSeq s)) s = None"
  by (auto simp: get_job_def sql_find_None_iff store_wf_def list_all_iff)

lemma store_wf_createJob: "store_wf s \<Longrightarrow> store_wf (fst (createJob local now inp s))"
  by (auto simp: store_wf_def createJob_def Let_def sorted_wrt_append list_all_iff less_Suc_eq_le)

lemma store_wf_createControlRequest:
  "store_wf s \<Longrightarrow> store_wf (fst (createControlRequest now inp s))"
  by (auto simp: store_wf_def createControlRequest_def Let_def sorted_wrt_append list_all_iff
      ctl_ok_def less_Suc_eq_le)

lemma store_wf_jobs_update:
  "map j_id rows = map j_id (js_jobs s) \<Longrightarrow> store_wf s \<Longrightarrow> store_wf (s\<lparr>js_jobs := rows\<rparr>)"
  by (simp add: store_wf_def)

lemma store_wf_row_updates:
  "store_wf s \<Longrightarrow> store_wf (markRunning now i s)"
  "store_wf s \<Longrightarrow> store_wf (markAwaitingInput i ptext orig idx s)"
  "store_wf s \<Longrightarrow> store_wf (markFinished now i res s)"
  by (simp_all add: markRunning_def markAwaitingInput_def markFinished_def store_wf_jobs_update
      running_upd.keys_kept awaiting_upd.keys_kept finished_upd.keys_kept)

lemma ctl_ok_handled: "ctl_ok (handled_ctl now res c)"
  by (simp add: ctl_ok_def handled_ctl_def)

lemma store_wf_markHandled:
  "store_wf s \<Longrightarrow> store_wf (markControlRequestHandled now i res s)"
  by (auto simp: store_wf_def markControlRequestHandled_def handled_upd.keys_kept list_all_iff
      set_sql_update ctl_ok_handled)

lemma interruptOrphaned_jobs:
  assumes "store_wf s"
  shows "js_jobs (fst (interruptOrphaned now caller alive s)) =
    map (\<lambda>r. if j_status r \<in> set active_statuses \<and> isOrphanFor (j_owner r) caller alive
             then interrupted_row now r else r) (js_jobs s)"
proof -
  define orphans where "orphans = filter (\<lambda>r. isOrphanFor (j_owner r) caller alive)
    (filter (\<lambda>r. j_status r \<in> set active_statuses) (js_jobs s))"
  have d: "distinct (map j_id (js_jobs s))" by (rule store_wf_distinct [OF assms])
  then have "distinct (map j_id orphans)"
    by (simp add: orphans_def distinct_map_filter)
  then have "fold (\<lambda>r. sql_update j_id (j_id r) (interrupted_row now)) orphans (js_jobs s) =
      map (\<lambda>r. if j_id r \<in> set (map j_id orphans) then interrupted_row now r else r) (js_jobs s)"
    using interrupted_upd.fold_update [of "map j_id orphans" now "js_jobs s"]
    by (simp add: fold_map comp_def)
  also have "\<dots> = map (\<lambda>r. if j_status r \<in> set active_statuses \<and> isOrphanFor (j_owner r) caller alive
             then interrupted_row now r else r) (js_jobs s)"
    using key_mem_filter [OF d, of _ "\<lambda>r. j_status r \<in> set active_statuses \<and> isOrphanFor (j_owner r) caller alive"]
    by (auto simp: orphans_def)
  finally show ?thesis by (simp add: interruptOrphaned_def Let_def orphans_def)
qed

lemma closeStale_ctl:
  assumes "store_wf s"
  shows "js_ctl (closeStaleControlRequests now alive s) =
    map (\<lambda>c. if c_handledAt c = None \<and> stale_request alive s c
             then handled_ctl now NotApplicable c else c) (js_ctl s)"
proof -
  define ids where "ids = map c_id (filter (\<lambda>c. c_handledAt c = None \<and> stale_request alive s c) (js_ctl s))"
  have d: "distinct (map c_id (js_ctl s))" by (rule store_wf_distinct_ctl [OF assms])
  then have "distinct ids" by (simp add: ids_def distinct_map_filter)
  then have "fold (\<lambda>i. sql_update c_id i (handled_ctl now NotApplicable)) ids (js_ctl s) =
      map (\<lambda>c. if c_id c \<in> set ids then handled_ctl now NotApplicable c else c) (js_ctl s)"
    by (rule handled_upd.fold_update)
  also have "\<dots> = map (\<lambda>c. if c_handledAt c = None \<and> stale_request alive s c
             then handled_ctl now NotApplicable c else c) (js_ctl s)"
    using key_mem_filter [OF d, of _ "\<lambda>c. c_handledAt c = None \<and> stale_request alive s c"]
    by (auto simp: ids_def)
  finally have "fold (\<lambda>i. sql_update c_id i (handled_ctl now NotApplicable)) ids (js_ctl s) = \<dots>" .
  moreover have "js_ctl (closeStaleControlRequests now alive s) =
      fold (\<lambda>i. sql_update c_id i (handled_ctl now NotApplicable)) ids (js_ctl s)"
    unfolding closeStaleControlRequests_def Let_def ids_def [symmetric] by simp
  ultimately show ?thesis by simp
qed

lemma store_wf_interruptOrphaned:
  assumes "store_wf s"
  shows "store_wf (fst (interruptOrphaned now caller alive s))"
proof -
  have "map j_id (js_jobs (fst (interruptOrphaned now caller alive s))) = map j_id (js_jobs s)"
    by (auto simp: interruptOrphaned_jobs [OF assms] interrupted_row_def)
  then show ?thesis
    using assms by (simp add: interruptOrphaned_def Let_def store_wf_jobs_update)
qed

lemma store_wf_closeStale:
  assumes "store_wf s"
  shows "store_wf (closeStaleControlRequests now alive s)"
proof -
  have ids: "map c_id (js_ctl (closeStaleControlRequests now alive s)) = map c_id (js_ctl s)"
    by (auto simp: closeStale_ctl [OF assms] handled_ctl_def)
  have ok: "list_all ctl_ok (js_ctl (closeStaleControlRequests now alive s))"
    using assms by (auto simp: closeStale_ctl list_all_iff store_wf_def ctl_ok_handled)
  show ?thesis
    using assms ids ok by (simp add: store_wf_def row_simps)
qed

lemmas store_wf_intros [intro] =
  store_wf_createJob store_wf_createControlRequest store_wf_row_updates store_wf_markHandled
  store_wf_interruptOrphaned store_wf_closeStale

lemma get_interruptOrphaned:
  assumes "store_wf s"
  shows "get_job i (fst (interruptOrphaned now caller alive s)) =
    map_option (\<lambda>r. if j_status r \<in> set active_statuses \<and> isOrphanFor (j_owner r) caller alive
                    then interrupted_row now r else r) (get_job i s)"
proof -
  have "sql_find j_id i (map g rows) = map_option g (sql_find j_id i rows)"
    if "\<And>r. j_id (g r) = j_id r" for g :: "job_row \<Rightarrow> job_row" and rows
    using that by (induction rows) (auto simp: row_simps)
  then show ?thesis
    by (simp add: get_job_def interruptOrphaned_jobs [OF assms] interrupted_row_def)
qed

section \<open>Every operation sequence keeps the database well formed\<close>

datatype store_op =
    SCreateJob ms create_job_input
  | SMarkRunning ms nat
  | SMarkAwaiting nat string prompt_origin "nat option"
  | SMarkFinished ms nat finish_input
  | SInterrupt ms string "nat list"
  | SCreateRequest ms create_ctl_input
  | SMarkHandled ms nat control_outcome
  | SCloseStale ms "nat list"

fun store_apply :: "(ms \<Rightarrow> local_fields) \<Rightarrow> store_op \<Rightarrow> job_store \<Rightarrow> job_store" where
  "store_apply local (SCreateJob now inp) s = fst (createJob local now inp s)"
| "store_apply local (SMarkRunning now i) s = markRunning now i s"
| "store_apply local (SMarkAwaiting i ptext orig idx) s = markAwaitingInput i ptext orig idx s"
| "store_apply local (SMarkFinished now i res) s = markFinished now i res s"
| "store_apply local (SInterrupt now caller pids) s = fst (interruptOrphaned now caller (\<lambda>p. p \<in> set pids) s)"
| "store_apply local (SCreateRequest now inp) s = fst (createControlRequest now inp s)"
| "store_apply local (SMarkHandled now i res) s = markControlRequestHandled now i res s"
| "store_apply local (SCloseStale now pids) s = closeStaleControlRequests now (\<lambda>p. p \<in> set pids) s"

definition store_run :: "(ms \<Rightarrow> local_fields) \<Rightarrow> store_op list \<Rightarrow> job_store" where
  "store_run local ops = fold (store_apply local) ops empty_store"

definition store_ids :: "job_store \<Rightarrow> bool" where
  "store_ids s \<longleftrightarrow> map j_id (js_jobs s) = [1..<Suc (js_jobSeq s)] \<and> map c_id (js_ctl s) = [1..<Suc (js_ctlSeq s)]"

lemma store_apply_inv:
  assumes "store_wf s" and "store_ids s"
  shows "store_wf (store_apply local opn s) \<and> store_ids (store_apply local opn s)"
proof -
  have wf: "store_wf (store_apply local opn s)"
    using assms(1) by (cases opn) auto
  have "store_ids (store_apply local opn s)"
  proof (cases opn)
    case (SInterrupt now caller pids)
    then show ?thesis
      using assms interruptOrphaned_jobs [OF assms(1)]
      by (auto simp: store_ids_def interruptOrphaned_def Let_def interrupted_row_def comp_def if_distrib
          cong: if_cong)
  next
    case (SCloseStale now pids)
    have "map c_id (js_ctl (store_apply local opn s)) = map c_id (js_ctl s)"
      using SCloseStale by (auto simp: closeStale_ctl [OF assms(1)] handled_ctl_def)
    then show ?thesis
      using assms SCloseStale by (simp add: store_ids_def jobs_ctl_only seq_kept del: upt_Suc)
  qed (use assms in \<open>auto simp: store_ids_def createJob_def createControlRequest_def Let_def markRunning_def
      markAwaitingInput_def markFinished_def markControlRequestHandled_def running_upd.keys_kept
      awaiting_upd.keys_kept finished_upd.keys_kept handled_upd.keys_kept\<close>)
  with wf show ?thesis by blast
qed

lemma store_run_inv: "store_wf (store_run local ops) \<and> store_ids (store_run local ops)"
proof -
  have "store_wf (fold (store_apply local) ops s) \<and> store_ids (fold (store_apply local) ops s)"
    if "store_wf s \<and> store_ids s" for s
    using that by (induction ops arbitrary: s) (auto dest: store_apply_inv)
  moreover have "store_wf empty_store \<and> store_ids empty_store"
    by (simp add: store_wf_empty store_ids_def) (simp add: empty_store_def)
  ultimately show ?thesis by (simp add: store_run_def)
qed

section \<open>Log file names are unique\<close>

lemma pad_length: "n < 10 ^ w \<Longrightarrow> 0 < w \<Longrightarrow> length (pad w n) = w"
proof -
  have "length (show_nat n) \<le> w" if "n < 10 ^ w" "0 < w" for w
    using that
  proof (induction n arbitrary: w rule: show_nat.induct)
    case (1 n)
    show ?case
    proof (cases "n < 10")
      case True
      with 1 show ?thesis by (simp add: show_nat.simps [of n] Suc_leI)
    next
      case False
      obtain v where w: "w = Suc v" using "1.prems" by (cases w) auto
      with 1 False have "0 < v" by (cases v) auto
      with w have v: "w = Suc v" "0 < v" by simp_all
      with 1 False have "length (show_nat (n div 10)) \<le> v" by auto
      with v False show ?thesis by (simp add: show_nat.simps [of n])
    qed
  qed
  then show "n < 10 ^ w \<Longrightarrow> 0 < w \<Longrightarrow> length (pad w n) = w"
    by (simp add: pad_def)
qed

lemma read_pad: "read_nat (pad w n) = n"
  by (simp add: pad_def read_nat_zeros read_show_nat)

lemma pad_inj: "pad w a = pad w b \<Longrightarrow> a = b"
  by (metis read_pad)

definition fields_ok :: "local_fields \<Rightarrow> bool" where
  "fields_ok d \<longleftrightarrow> lf_month d < 12 \<and> 1 \<le> lf_day d \<and> lf_day d \<le> 31 \<and> lf_hours d < 24 \<and>
     lf_minutes d < 60 \<and> lf_seconds d < 60 \<and> lf_millis d < 1000"

lemma formatLogFileName_inj:
  assumes "fields_ok a" and "fields_ok b" and "formatLogFileName a = formatLogFileName b"
  shows "a = b"
proof -
  have len: "length (pad 2 (lf_month d + 1)) = 2" "length (pad 2 (lf_day d)) = 2"
    "length (pad 2 (lf_hours d)) = 2" "length (pad 2 (lf_minutes d)) = 2"
    "length (pad 2 (lf_seconds d)) = 2" "length (pad 3 (lf_millis d)) = 3" if "fields_ok d" for d
    using that by (auto simp: fields_ok_def intro!: pad_length)
  note lens = len [OF assms(1)] len [OF assms(2)]
  have "show_nat (lf_year a) = show_nat (lf_year b)"
    and "pad 2 (lf_month a + 1) = pad 2 (lf_month b + 1)" and "pad 2 (lf_day a) = pad 2 (lf_day b)"
    and "pad 2 (lf_hours a) = pad 2 (lf_hours b)" and "pad 2 (lf_minutes a) = pad 2 (lf_minutes b)"
    and "pad 2 (lf_seconds a) = pad 2 (lf_seconds b)" and "pad 3 (lf_millis a) = pad 3 (lf_millis b)"
    using assms(3) lens by (simp_all add: formatLogFileName_def)
  then have "lf_year a = lf_year b" "lf_month a = lf_month b" "lf_day a = lf_day b" "lf_hours a = lf_hours b"
    "lf_minutes a = lf_minutes b" "lf_seconds a = lf_seconds b" "lf_millis a = lf_millis b"
    by (auto simp: show_nat_inj dest: pad_inj)
  then show ?thesis by (cases a; cases b) simp
qed

text \<open>The instants behind the log files of the jobs one process created, in order.\<close>

definition log_times :: "(ms \<Rightarrow> local_fields) \<Rightarrow> ms list \<Rightarrow> job_store \<Rightarrow> bool" where
  "log_times local ts s \<longleftrightarrow>
     sorted_wrt (<) ts \<and> 0 \<le> js_lastLogFileMs s \<and> list_all (\<lambda>t. 0 < t \<and> t \<le> js_lastLogFileMs s) ts \<and>
     map j_logFile (js_jobs s) = map (\<lambda>t. formatLogFileName (local t)) ts"

lemma log_times_createJob:
  assumes "log_times local ts s"
  shows "log_times local (ts @ [max now (js_lastLogFileMs s + 1)]) (fst (createJob local now inp s))"
  using assms by (auto simp: log_times_def createJob_def Let_def sorted_wrt_append list_all_iff)

lemma log_times_other:
  assumes "store_wf s" and "log_times local ts s" and "\<And>now inp. opn \<noteq> SCreateJob now inp"
  shows "log_times local ts (store_apply local opn s)"
proof (cases opn)
  case (SInterrupt now caller pids)
  have "map j_logFile (js_jobs (store_apply local opn s)) = map j_logFile (js_jobs s)"
    using SInterrupt by (auto simp: interruptOrphaned_jobs [OF assms(1)] interrupted_row_def)
  then show ?thesis
    using assms SInterrupt by (simp add: log_times_def interruptOrphaned_def Let_def)
qed (use assms in \<open>auto simp: log_times_def createControlRequest_def closeStaleControlRequests_def Let_def
    markRunning_def markAwaitingInput_def markFinished_def markControlRequestHandled_def sql_update_def
    running_row_def awaiting_row_def finished_row_def comp_def if_distrib cong: if_cong\<close>)

lemma log_times_run: "\<exists>ts. log_times local ts (store_run local ops)"
proof (induction ops rule: rev_induct)
  case Nil
  have "log_times local [] (store_run local [])"
    by (simp add: log_times_def store_run_def empty_store_def)
  then show ?case by blast
next
  case (snoc opn ops)
  then obtain ts where ts: "log_times local ts (store_run local ops)" by blast
  have wf: "store_wf (store_run local ops)" using store_run_inv by blast
  have step: "store_run local (ops @ [opn]) = store_apply local opn (store_run local ops)"
    by (simp add: store_run_def)
  show ?case
  proof (cases "\<exists>now inp. opn = SCreateJob now inp")
    case True
    then show ?thesis using log_times_createJob [OF ts] step by fastforce
  next
    case False
    then show ?thesis using log_times_other [OF wf ts] step by metis
  qed
qed

section \<open>Properties\<close>

text \<open>
  Whatever sequence of statements runs from an empty database, job and request ids are 1, 2, 3, ...
  in creation order, and every handled control request has a result and no answer text any more.
\<close>

theorem store_ids_and_secrets:
  "map j_id (js_jobs (store_run local ops)) = [1..<Suc (js_jobSeq (store_run local ops))] \<and>
   map c_id (js_ctl (store_run local ops)) = [1..<Suc (js_ctlSeq (store_run local ops))] \<and>
   list_all (\<lambda>c. (c_handledAt c = None) = (c_result c = None) \<and> (c_handledAt c = None \<or> c_text c = None))
     (js_ctl (store_run local ops))"
  using store_run_inv [of local ops] by (auto simp: store_ids_def store_wf_def ctl_ok_def list_all_iff)

text \<open>
  The log files of the jobs one process creates are pairwise distinct, provided the local calendar
  shows different times at different instants.
\<close>

theorem log_files_distinct:
  assumes "inj_on local {t. 0 < t}" and "\<And>t. 0 < t \<Longrightarrow> fields_ok (local t)"
  shows "distinct (map j_logFile (js_jobs (store_run local ops)))"
proof -
  obtain ts where ts: "log_times local ts (store_run local ops)" using log_times_run by blast
  have pos: "set ts \<subseteq> {t. 0 < t}" and "sorted_wrt (<) ts" using ts by (auto simp: log_times_def list_all_iff)
  then have "distinct ts" using strict_sorted_iff by blast
  have "inj_on (\<lambda>t. formatLogFileName (local t)) {t. 0 < t}"
    using formatLogFileName_inj assms by (auto simp: inj_on_def)
  then have "distinct (map (\<lambda>t. formatLogFileName (local t)) ts)"
    using \<open>distinct ts\<close> pos by (auto simp: distinct_map intro: inj_on_subset)
  then show ?thesis using ts by (simp add: log_times_def)
qed

definition years_of_seconds :: "ms \<Rightarrow> local_fields" where
  "years_of_seconds t = \<lparr>lf_year = nat (t div 1000), lf_month = 0, lf_day = 1, lf_hours = 0, lf_minutes = 0,
     lf_seconds = 0, lf_millis = nat (t mod 1000)\<rparr>"

definition sample_input :: create_job_input where
  "sample_input = \<lparr>cj_command = ''add-proxy'', cj_category = Provisioning, cj_target = None, cj_argsJson = '''',
     cj_expectedPrompts = None, cj_triggeredByUsername = None, cj_triggeredByImpersonating = None,
     cj_triggeredVia = None, cj_owner = None\<rparr>"

lemma years_of_seconds_ok:
  "inj_on years_of_seconds {t. 0 < t}" "0 < t \<Longrightarrow> fields_ok (years_of_seconds t)"
proof -
  have "t = u" if "nat (t div 1000) = nat (u div 1000)" "nat (t mod 1000) = nat (u mod 1000)" "0 < t" "0 < u" for t u :: ms
  proof -
    have "0 \<le> t div 1000" "0 \<le> u div 1000" using that(3,4) by (simp_all add: pos_imp_zdiv_nonneg_iff)
    then have "t div 1000 = u div 1000" "t mod 1000 = u mod 1000"
      using that(1,2) by (simp_all add: eq_nat_nat_iff)
    then show ?thesis by (metis div_mult_mod_eq)
  qed
  then show "inj_on years_of_seconds {t. 0 < t}" by (auto simp: inj_on_def years_of_seconds_def)
  have "nat (t mod 1000) < 1000" by (simp add: nat_less_iff)
  then show "fields_ok (years_of_seconds t)" by (simp add: fields_ok_def years_of_seconds_def)
qed

theorem log_files_distinct_witness:
  "distinct (map j_logFile (js_jobs (store_run years_of_seconds
     [SCreateJob 5 sample_input, SCreateJob 5 sample_input])))"
  by (rule log_files_distinct) (simp_all add: years_of_seconds_ok)

text \<open>
  Where the calendar shows the same local time at two instants, as in the hour repeated when
  daylight saving ends, two jobs created at them share one log file.
\<close>

theorem log_file_collision:
  assumes "0 < t1" and "t1 < t2" and "local t1 = local t2"
  shows "case map j_logFile (js_jobs (store_run local [SCreateJob t1 a, SCreateJob t2 b])) of
    [f1, f2] \<Rightarrow> f1 = f2 | _ \<Rightarrow> False"
proof -
  have "max t1 1 = t1" "max t2 (t1 + 1) = t2" using assms(1,2) by simp_all
  then show ?thesis using assms(3) by (simp add: store_run_def createJob_def Let_def empty_store_def)
qed

theorem log_file_collision_witness:
  "case map j_logFile (js_jobs (store_run (\<lambda>t. years_of_seconds (t mod 3600000))
     [SCreateJob 60000 sample_input, SCreateJob 3660000 sample_input])) of
    [f1, f2] \<Rightarrow> f1 = f2 | _ \<Rightarrow> False"
  by (rule log_file_collision) simp_all

end
