(* ===== verification/Job_Runner.thy ===== *)
theory Job_Runner
  imports Job_Store
begin

text \<open>
  The job runner of one process, \<open>src/src/web/jobs/job-runner.ts\<close>.  The class's fields are the record
  \<open>runner\<close>; what it shares or emits (database, log files, events, text written into exec channels,
  warnings) is the record \<open>world\<close>.  Every method is a function of the pair; the clock reading and the
  process-liveness probe a method uses are arguments.  \<open>execute\<close> is cut where it awaits: \<open>executeStart\<close>
  runs up to \<open>def.run(...)\<close>, \<open>executeEnd\<close> from the settling of that promise, and the callbacks
  \<open>onPromptDetected\<close>/\<open>onPromptCleared\<close> are the calls the SSH client makes in between.
\<close>

section \<open>State\<close>

datatype stream = Stdout | Stderr

datatype event =
    EvStatus nat job_status
  | EvChunk nat stream string
  | EvPrompt nat string "string list" prompt_origin "nat option"
  | EvPromptCleared nat

record world =
  w_store :: job_store
  w_log :: "string \<Rightarrow> string"
  w_events :: "event list"
  w_stdin :: "(nat \<times> string) list"
  w_warnings :: "string list"

text \<open>
  \<open>r_queue\<close> holds the executions chained onto the promise \<open>queue\<close> and not begun, \<open>r_current\<close> the one
  in progress.  \<open>r_abandon\<close> is the map \<open>abandonTimers\<close> (job to timer handle), \<open>r_timeouts\<close> the timers
  armed in the event loop (handle and job), which a handle dropped from the map does not disarm.
\<close>

record runner =
  r_owner :: string
  r_controllers :: "(nat \<times> bool) list"
  r_started :: "nat list"
  r_queue :: "(nat \<times> string) list"
  r_current :: "(nat \<times> string) option"
  r_pendingPrompts :: "nat list"
  r_abandon :: "(nat \<times> nat) list"
  r_timeouts :: "(nat \<times> nat) list"
  r_timerSeq :: nat
  r_poller :: bool

record job_def =
  d_command :: string
  d_category :: job_category
  d_target :: "string option"
  d_argsJson :: string
  d_expectedPrompts :: "string list option"
  d_triggeredByUsername :: "string option"
  d_triggeredByImpersonating :: "string option"
  d_triggeredVia :: "triggered_via option"

type_synonym proc = "world \<times> runner"

definition new_runner :: "string \<Rightarrow> runner" where
  "new_runner ow = \<lparr>r_owner = ow, r_controllers = [], r_started = [], r_queue = [], r_current = None,
     r_pendingPrompts = [], r_abandon = [], r_timeouts = [], r_timerSeq = 0, r_poller = False\<rparr>"

section \<open>Attribution\<close>

definition controlSource :: "string \<Rightarrow> string" where
  "controlSource ow =
     (if ow = ''mcp:http'' then ''MCP''
      else if ow = ''web'' then ''web UI'' else ''MCP ('' @ ow @ '')'')"

definition controlAttributionLine :: "control_action \<Rightarrow> string \<Rightarrow> string option \<Rightarrow> string" where
  "controlAttributionLine action requestedByOwner requestedByUsername =
     (let source = controlSource requestedByOwner;
          suffix = (case requestedByUsername of None \<Rightarrow> '''' | Some u \<Rightarrow> if u = '''' then '''' else '' by '' @ u)
      in case action of
           ACancel \<Rightarrow> ''Stop requested from '' @ source @ suffix
         | AAnswer \<Rightarrow> ''Answer sent from '' @ source @ suffix
         | ADismiss \<Rightarrow> ''Prompt dismissed from '' @ source @ suffix)"

section \<open>Methods\<close>

definition emitLogChunk :: "nat \<Rightarrow> string \<Rightarrow> string \<Rightarrow> stream \<Rightarrow> world \<Rightarrow> world" where
  "emitLogChunk jobId logFile text strm w =
     w\<lparr>w_log := (w_log w)(logFile := w_log w logFile @ with_newline text),
       w_events := w_events w @ [EvChunk jobId strm text]\<rparr>"

definition emit :: "event \<Rightarrow> world \<Rightarrow> world" where
  "emit e w = w\<lparr>w_events := w_events w @ [e]\<rparr>"

definition on_store :: "(job_store \<Rightarrow> job_store) \<Rightarrow> world \<Rightarrow> world" where
  "on_store f w = w\<lparr>w_store := f (w_store w)\<rparr>"

definition enqueue :: "(ms \<Rightarrow> local_fields) \<Rightarrow> ms \<Rightarrow> job_def \<Rightarrow> proc \<Rightarrow> proc \<times> nat" where
  "enqueue local now def p =
     (case p of (w, r) \<Rightarrow>
       (case createJob local now
          \<lparr>cj_command = d_command def, cj_category = d_category def, cj_target = d_target def,
           cj_argsJson = d_argsJson def, cj_expectedPrompts = d_expectedPrompts def,
           cj_triggeredByUsername = d_triggeredByUsername def,
           cj_triggeredByImpersonating = d_triggeredByImpersonating def,
           cj_triggeredVia = d_triggeredVia def, cj_owner = Some (r_owner r)\<rparr> (w_store w) of
          (s, i) \<Rightarrow>
            let logFile = (case get_job i s of None \<Rightarrow> '''' | Some row \<Rightarrow> j_logFile row)
            in ((w\<lparr>w_store := s\<rparr>,
                 r\<lparr>r_controllers := jm_set i False (r_controllers r), r_poller := True,
                   r_queue := r_queue r @ [(i, logFile)]\<rparr>), i)))"

definition clearAbandon :: "nat \<Rightarrow> runner \<Rightarrow> runner" where
  "clearAbandon i r =
     (case jm_get (r_abandon r) i of
        None \<Rightarrow> r
      | Some h \<Rightarrow> r\<lparr>r_abandon := jm_delete i (r_abandon r), r_timeouts := jm_delete h (r_timeouts r)\<rparr>)"

definition finishCleanup :: "ms \<Rightarrow> (nat \<Rightarrow> bool) \<Rightarrow> nat \<Rightarrow> proc \<Rightarrow> proc" where
  "finishCleanup now alive i p =
     (case p of (w, r) \<Rightarrow>
       let r1 = clearAbandon i
             (r\<lparr>r_controllers := jm_delete i (r_controllers r), r_started := js_remove i (r_started r),
                r_pendingPrompts := js_remove i (r_pendingPrompts r)\<rparr>)
       in if r_controllers r1 = []
          then (on_store (closeStaleControlRequests now alive) w, r1\<lparr>r_poller := False\<rparr>)
          else (w, r1))"

definition cancelled_result :: finish_input where
  "cancelled_result = \<lparr>fi_status = Cancelled, fi_exitCode = 1, fi_errorMessage = Some ''Cancelled by operator''\<rparr>"

definition cancel :: "ms \<Rightarrow> (nat \<Rightarrow> bool) \<Rightarrow> nat \<Rightarrow> proc \<Rightarrow> proc \<times> bool" where
  "cancel now alive i p =
     (case p of (w, r) \<Rightarrow>
       if \<not> jm_has (r_controllers r) i then ((w, r), False)
       else
         let r1 = r\<lparr>r_controllers := jm_set i True (r_controllers r)\<rparr>
         in if i \<in> set (r_started r) then ((w, r1), True)
            else
              let w1 = (case get_job i (w_store w) of
                          None \<Rightarrow> w
                        | Some job \<Rightarrow> emitLogChunk i (j_logFile job) ''Job cancelled by operator'' Stderr w);
                  w2 = on_store (markFinished now i cancelled_result) w1;
                  w3 = emit (EvStatus i Cancelled) w2
              in (finishCleanup now alive i (w3, r1), True))"

definition onPromptDetected ::
  "nat \<Rightarrow> string \<Rightarrow> string list \<Rightarrow> prompt_origin \<Rightarrow> nat option \<Rightarrow> proc \<Rightarrow> proc" where
  "onPromptDetected i text expected orig idx p =
     (case p of (w, r) \<Rightarrow>
       let h = r_timerSeq r + 1;
           r1 = r\<lparr>r_pendingPrompts := js_add i (r_pendingPrompts r), r_timerSeq := h,
                  r_timeouts := jm_set h i (r_timeouts r), r_abandon := jm_set i h (r_abandon r)\<rparr>;
           w1 = on_store (markAwaitingInput i text orig idx) w
       in (emit (EvPrompt i text expected orig idx) (emit (EvStatus i AwaitingInput) w1), r1))"

definition onPromptCleared :: "ms \<Rightarrow> nat \<Rightarrow> proc \<Rightarrow> proc" where
  "onPromptCleared now i p =
     (case p of (w, r) \<Rightarrow>
       let r1 = clearAbandon i (r\<lparr>r_pendingPrompts := js_remove i (r_pendingPrompts r)\<rparr>);
           w1 = on_store (markRunning now i) w
       in (emit (EvPromptCleared i) (emit (EvStatus i Running) w1), r1))"

text \<open>
  \<open>pending.write\<close> may throw when the exec channel is already closing (\<open>writable i\<close> is false); the
  exception passes through \<open>answerPrompt\<close> before \<open>pending.resume\<close> is reached.
\<close>

definition answerPrompt ::
  "ms \<Rightarrow> (nat \<Rightarrow> bool) \<Rightarrow> nat \<Rightarrow> string \<Rightarrow> proc \<Rightarrow> string + (proc \<times> bool)" where
  "answerPrompt now writable i text p =
     (case p of (w, r) \<Rightarrow>
       if i \<notin> set (r_pendingPrompts r) then Inr ((w, r), False)
       else if \<not> writable i then Inl ''write after end''
       else Inr (onPromptCleared now i (w\<lparr>w_stdin := w_stdin w @ [(i, with_newline text)]\<rparr>, r), True))"

definition dismissPrompt :: "ms \<Rightarrow> nat \<Rightarrow> proc \<Rightarrow> proc \<times> bool" where
  "dismissPrompt now i p =
     (case p of (w, r) \<Rightarrow>
       if i \<notin> set (r_pendingPrompts r) then ((w, r), False)
       else (onPromptCleared now i (w, r), True))"

definition abandonFires :: "ms \<Rightarrow> (nat \<Rightarrow> bool) \<Rightarrow> nat \<Rightarrow> proc \<Rightarrow> proc" where
  "abandonFires now alive h p =
     (case p of (w, r) \<Rightarrow>
       case jm_get (r_timeouts r) h of
         None \<Rightarrow> (w, r)
       | Some i \<Rightarrow>
           let r1 = r\<lparr>r_timeouts := jm_delete h (r_timeouts r)\<rparr>;
               lf = (case get_job i (w_store w) of None \<Rightarrow> '''' | Some job \<Rightarrow> j_logFile job);
               w1 = emitLogChunk i lf
                 (''Job cancelled '' @ em_dash @ '' no answer to prompt within 15 minutes'') Stderr w
           in fst (cancel now alive i (w1, r1)))"

definition executeStart :: "ms \<Rightarrow> proc \<Rightarrow> proc" where
  "executeStart now p =
     (case p of (w, r) \<Rightarrow>
       case r_current r of
         Some _ \<Rightarrow> (w, r)
       | None \<Rightarrow>
           (case r_queue r of
              [] \<Rightarrow> (w, r)
            | (i, lf) # q \<Rightarrow>
                if \<not> jm_has (r_controllers r) i then (w, r\<lparr>r_queue := q\<rparr>)
                else (emit (EvStatus i Running) (on_store (markRunning now i) w),
                      r\<lparr>r_queue := q, r_current := Some (i, lf), r_started := js_add i (r_started r)\<rparr>)))"

datatype run_outcome = Returned | Threw string

definition executeEnd :: "ms \<Rightarrow> (nat \<Rightarrow> bool) \<Rightarrow> run_outcome \<Rightarrow> proc \<Rightarrow> proc" where
  "executeEnd now alive outcome p =
     (case p of (w, r) \<Rightarrow>
       case r_current r of
         None \<Rightarrow> (w, r)
       | Some (i, lf) \<Rightarrow>
           let w1 = (case outcome of
               Returned \<Rightarrow>
                 emit (EvStatus i Success)
                   (on_store (markFinished now i \<lparr>fi_status = Success, fi_exitCode = 0, fi_errorMessage = None\<rparr>) w)
             | Threw message \<Rightarrow>
                 let cancelled = (jm_get (r_controllers r) i = Some True);
                     wa = emitLogChunk i lf
                       (if cancelled then ''Job cancelled by operator'' else ''ERROR: '' @ message) Stderr w;
                     st = (if cancelled then Cancelled else Failed);
                     wb = on_store (markFinished now i
                       \<lparr>fi_status = st, fi_exitCode = 1,
                        fi_errorMessage = Some (if cancelled then ''Cancelled by operator'' else message)\<rparr>) wa
                 in emit (EvStatus i st) wb)
           in finishCleanup now alive i (w1, r\<lparr>r_current := None\<rparr>))"

text \<open>One pending request: a job this runner holds no controller for, a throwing apply, an applied one.\<close>

definition applyRequest ::
  "ms \<Rightarrow> (nat \<Rightarrow> bool) \<Rightarrow> (nat \<Rightarrow> bool) \<Rightarrow> ctl_row \<Rightarrow> proc \<Rightarrow> string + (proc \<times> bool)" where
  "applyRequest now alive writable req p =
     (case c_action req of
        ACancel \<Rightarrow> Inr (cancel now alive (c_jobId req) p)
      | AAnswer \<Rightarrow> answerPrompt now writable (c_jobId req)
                    (case c_text req of None \<Rightarrow> '''' | Some t \<Rightarrow> t) p
      | ADismiss \<Rightarrow> Inr (dismissPrompt now (c_jobId req) p))"

definition action_text :: "control_action \<Rightarrow> string" where
  "action_text a = (case a of ACancel \<Rightarrow> ''cancel'' | AAnswer \<Rightarrow> ''answer'' | ADismiss \<Rightarrow> ''dismiss'')"

definition processRequest ::
  "ms \<Rightarrow> (nat \<Rightarrow> bool) \<Rightarrow> (nat \<Rightarrow> bool) \<Rightarrow> ctl_row \<Rightarrow> proc \<Rightarrow> proc" where
  "processRequest now alive writable req p =
     (case p of (w, r) \<Rightarrow>
       if \<not> jm_has (r_controllers r) (c_jobId req)
       then (on_store (markControlRequestHandled now (c_id req) NotApplicable) w, r)
       else
         (case applyRequest now alive writable req (w, r) of
            Inl message \<Rightarrow>
              (on_store (markControlRequestHandled now (c_id req) NotApplicable)
                 (w\<lparr>w_warnings := w_warnings w @
                     [''Control request '' @ show_nat (c_id req) @ '' for job '' @ show_nat (c_jobId req) @
                      '' ('' @ action_text (c_action req) @ '') failed to apply: '' @ message @
                      '' -- marking not-applicable'']\<rparr>), r)
          | Inr ((w1, r1), applied) \<Rightarrow>
              let w2 = on_store (markControlRequestHandled now (c_id req)
                          (if applied then Applied else NotApplicable)) w1
              in if \<not> applied then (w2, r1)
                 else (case get_job (c_jobId req) (w_store w2) of
                         None \<Rightarrow> (w2, r1)
                       | Some job \<Rightarrow>
                           (emitLogChunk (c_jobId req) (j_logFile job)
                              (controlAttributionLine (c_action req) (c_requestedByOwner req)
                                 (c_requestedByUsername req)) Stdout w2, r1))))"

definition processControlRequests ::
  "ms \<Rightarrow> (nat \<Rightarrow> bool) \<Rightarrow> (nat \<Rightarrow> bool) \<Rightarrow> proc \<Rightarrow> proc" where
  "processControlRequests now alive writable p =
     (case p of (w, r) \<Rightarrow>
       let w1 = on_store (closeStaleControlRequests now alive) w
       in fold (processRequest now alive writable)
            (pendingControlRequests (r_owner r) (w_store w1)) (w1, r))"

definition reconcile_note :: "job_row \<Rightarrow> string" where
  "reconcile_note row =
     (if j_status row = Queued
      then ''Interrupted: service restarted before this job started running. No remote work was performed.'' @ [CHR 10]
      else ''Interrupted: service restarted while this job was '' @ status_text (j_status row) @
           ''. Remote work may have completed '' @ em_dash @ '' check the log above and verify manually.'' @ [CHR 10])"

definition reconcileOrphanedJobs :: "ms \<Rightarrow> (nat \<Rightarrow> bool) \<Rightarrow> proc \<Rightarrow> proc" where
  "reconcileOrphanedJobs now alive p =
     (case p of (w, r) \<Rightarrow>
       case interruptOrphaned now (r_owner r) alive (w_store w) of
         (s, orphaned) \<Rightarrow>
           (w\<lparr>w_store := closeStaleControlRequests now alive s,
              w_log := fold (\<lambda>row l. l(j_logFile row := l (j_logFile row) @ reconcile_note row)) orphaned (w_log w)\<rparr>,
            r))"

text \<open>\<open>shutdown\<close> up to its wait, and from the end of the wait.\<close>

definition shutdownStart :: "ms \<Rightarrow> (nat \<Rightarrow> bool) \<Rightarrow> proc \<Rightarrow> proc" where
  "shutdownStart now alive p = fold (\<lambda>i q. fst (cancel now alive i q)) (map fst (r_controllers (snd p))) p"

definition shutdownEnd :: "ms \<Rightarrow> (nat \<Rightarrow> bool) \<Rightarrow> proc \<Rightarrow> proc" where
  "shutdownEnd now alive p =
     (case p of (w, r) \<Rightarrow> reconcileOrphanedJobs now alive (w, r\<lparr>r_poller := False\<rparr>))"

end
