(* ===== verification/Job_Runner_Inv.thy ===== *)
theory Job_Runner_Inv
  imports Job_Runner
begin

text \<open>
  What the runner of \<open>Job_Runner\<close> maintains.  \<open>own_row ow s i\<close> is the row of job \<open>i\<close> when the process
  \<open>ow\<close> owns it; \<open>active_view ow s\<close> abstracts the database to the non-terminal jobs of that process and
  their statuses, \<open>memory_view r\<close> says the same from the runner's own maps and sets.  The invariant
  \<open>proc_inv\<close> is that the two agree, with what the maps and sets owe each other.  Each method has one
  lemma for the invariant and one for the rows of other processes.
\<close>

section \<open>Views\<close>

definition own_row :: "string \<Rightarrow> job_store \<Rightarrow> nat \<Rightarrow> job_row option" where
  "own_row ow s i =
     (case get_job i s of None \<Rightarrow> None | Some row \<Rightarrow> if owner_of (j_owner row) = ow then Some row else None)"

definition active_view :: "string \<Rightarrow> job_store \<Rightarrow> nat \<Rightarrow> job_status option" where
  "active_view ow s i =
     (case own_row ow s i of None \<Rightarrow> None
      | Some row \<Rightarrow> if j_status row \<in> set active_statuses then Some (j_status row) else None)"

definition memory_view :: "runner \<Rightarrow> nat \<Rightarrow> job_status option" where
  "memory_view r i =
     (if \<not> jm_has (r_controllers r) i then None
      else if i \<notin> set (r_started r) then Some Queued
      else if i \<in> set (r_pendingPrompts r) then Some AwaitingInput else Some Running)"

definition runner_wf :: "runner \<Rightarrow> bool" where
  "runner_wf r \<longleftrightarrow>
     sorted_wrt (<) (map fst (case r_current r of None \<Rightarrow> r_queue r | Some c \<Rightarrow> c # r_queue r)) \<and>
     r_started r = (case r_current r of None \<Rightarrow> [] | Some c \<Rightarrow> [fst c]) \<and>
     (case r_current r of None \<Rightarrow> True | Some c \<Rightarrow> jm_has (r_controllers r) (fst c)) \<and>
     (\<forall>i. jm_has (r_controllers r) i \<longrightarrow> i \<in> set (r_started r) \<union> fst ` set (r_queue r)) \<and>
     set (r_pendingPrompts r) \<subseteq> set (r_started r) \<and>
     fst ` set (r_abandon r) = set (r_pendingPrompts r) \<and>
     (r_poller r \<longleftrightarrow> r_controllers r \<noteq> [])"

definition known_jobs :: "runner \<Rightarrow> job_store \<Rightarrow> bool" where
  "known_jobs r s \<longleftrightarrow>
     (\<forall>c \<in> set_option (r_current r) \<union> set (r_queue r).
        \<exists>row. own_row (r_owner r) s (fst c) = Some row \<and> j_logFile row = snd c)"

definition proc_inv :: "proc \<Rightarrow> bool" where
  "proc_inv p \<longleftrightarrow> store_wf (w_store (fst p)) \<and> runner_wf (snd p) \<and>
     active_view (r_owner (snd p)) (w_store (fst p)) = memory_view (snd p) \<and>
     known_jobs (snd p) (w_store (fst p))"

lemma proc_invI:
  "store_wf (w_store w) \<Longrightarrow> runner_wf r \<Longrightarrow> active_view (r_owner r) (w_store w) = memory_view r \<Longrightarrow>
   known_jobs r (w_store w) \<Longrightarrow> proc_inv (w, r)"
  by (simp add: proc_inv_def)

section \<open>Views after a statement\<close>

lemma own_row_markRunning [row_simps]:
  "own_row ow (markRunning now i s) k =
     (if k = i then map_option (running_row now) (own_row ow s k) else own_row ow s k)"
  by (auto simp: own_row_def row_simps running_row_def split: option.splits)

lemma own_row_markAwaitingInput [row_simps]:
  "own_row ow (markAwaitingInput i ptext orig idx s) k =
     (if k = i then map_option (awaiting_row ptext orig idx) (own_row ow s k) else own_row ow s k)"
  by (auto simp: own_row_def row_simps awaiting_row_def split: option.splits)

lemma own_row_markFinished [row_simps]:
  "own_row ow (markFinished now i res s) k =
     (if k = i then map_option (finished_row now res) (own_row ow s k) else own_row ow s k)"
  by (auto simp: own_row_def row_simps finished_row_def split: option.splits)

lemma own_row_ctl_only [row_simps]:
  "own_row ow (markControlRequestHandled now i res s) = own_row ow s"
  "own_row ow (closeStaleControlRequests now alive s) = own_row ow s"
  "own_row ow (fst (createControlRequest now inp s)) = own_row ow s"
  by (simp_all add: own_row_def row_simps fun_eq_iff)

lemma get_createJob:
  assumes "store_wf s"
  shows "get_job k (fst (createJob local now inp s)) =
    (if k = Suc (js_jobSeq s) then Some (last (js_jobs (fst (createJob local now inp s)))) else get_job k s)"
  using fresh_id_absent [OF assms]
  by (auto simp: get_job_def createJob_def Let_def sql_find_append sql_find_Cons split: option.splits)

lemma createJob_row:
  "snd (createJob local now inp s) = Suc (js_jobSeq s)"
  "j_status (last (js_jobs (fst (createJob local now inp s)))) = Queued"
  "j_owner (last (js_jobs (fst (createJob local now inp s)))) = cj_owner inp"
  by (simp_all add: createJob_def Let_def)

lemma active_view_eqI:
  "own_row ow s' = own_row ow s \<Longrightarrow> active_view ow s' = active_view ow s"
  by (simp add: active_view_def fun_eq_iff)

lemma active_view_own: "active_view ow s i = Some st \<Longrightarrow> \<exists>row. own_row ow s i = Some row \<and> j_status row = st"
  by (auto simp: active_view_def split: option.splits if_splits)

lemma active_view_markRunning:
  "own_row ow s i \<noteq> None \<Longrightarrow> active_view ow (markRunning now i s) = (active_view ow s)(i := Some Running)"
  by (auto simp: active_view_def row_simps running_row_def active_statuses_def fun_eq_iff)

lemma active_view_markAwaitingInput:
  "own_row ow s i \<noteq> None \<Longrightarrow>
   active_view ow (markAwaitingInput i ptext orig idx s) = (active_view ow s)(i := Some AwaitingInput)"
  by (auto simp: active_view_def row_simps awaiting_row_def active_statuses_def fun_eq_iff)

lemma active_view_markFinished:
  "fi_status res \<in> set terminal_statuses \<Longrightarrow>
   active_view ow (markFinished now i res s) = (active_view ow s)(i := None)"
  by (auto simp: active_view_def row_simps finished_row_def active_iff_not_terminal fun_eq_iff
      split: option.splits)

lemma own_row_foreign:
  "ow \<noteq> ow' \<Longrightarrow> own_row ow' s i \<noteq> None \<Longrightarrow> own_row ow s i = None"
  by (auto simp: own_row_def split: option.splits if_splits)

lemma own_row_get: "own_row ow s i = Some row \<Longrightarrow> get_job i s = Some row \<and> owner_of (j_owner row) = ow"
  by (auto simp: own_row_def split: option.splits if_splits)

section \<open>Projections of the methods\<close>

lemma emit_simps [simp]:
  "w_store (emit e w) = w_store w" "w_log (emit e w) = w_log w" "w_stdin (emit e w) = w_stdin w"
  "w_events (emit e w) = w_events w @ [e]" "w_warnings (emit e w) = w_warnings w"
  by (simp_all add: emit_def)

lemma emitLogChunk_simps [simp]:
  "w_store (emitLogChunk i lf t st w) = w_store w" "w_stdin (emitLogChunk i lf t st w) = w_stdin w"
  "w_warnings (emitLogChunk i lf t st w) = w_warnings w"
  "w_log (emitLogChunk i lf t st w) = (w_log w)(lf := w_log w lf @ with_newline t)"
  "w_events (emitLogChunk i lf t st w) = w_events w @ [EvChunk i st t]"
  by (simp_all add: emitLogChunk_def)

lemma on_store_simps [simp]:
  "w_store (on_store f w) = f (w_store w)" "w_log (on_store f w) = w_log w"
  "w_stdin (on_store f w) = w_stdin w" "w_events (on_store f w) = w_events w"
  "w_warnings (on_store f w) = w_warnings w"
  by (simp_all add: on_store_def)

lemma clearAbandon_simps [simp]:
  "r_owner (clearAbandon i r) = r_owner r" "r_controllers (clearAbandon i r) = r_controllers r"
  "r_started (clearAbandon i r) = r_started r" "r_queue (clearAbandon i r) = r_queue r"
  "r_current (clearAbandon i r) = r_current r" "r_pendingPrompts (clearAbandon i r) = r_pendingPrompts r"
  "r_poller (clearAbandon i r) = r_poller r" "r_timerSeq (clearAbandon i r) = r_timerSeq r"
  by (simp_all add: clearAbandon_def split: option.splits)

lemma clearAbandon_keys: "fst ` set (r_abandon (clearAbandon i r)) = fst ` set (r_abandon r) - {i}"
proof (cases "jm_get (r_abandon r) i")
  case None
  then have "i \<notin> fst ` set (r_abandon r)" by (simp add: jm_get_def map_of_eq_None_iff)
  with None show ?thesis by (simp add: clearAbandon_def)
next
  case (Some h)
  then show ?thesis by (force simp: clearAbandon_def jm_delete_def)
qed

text \<open>The runner after \<open>finishCleanup\<close>, and the database: only control requests may have changed.\<close>

lemma finishCleanup_runner:
  "r_owner (snd (finishCleanup now alive i (w, r))) = r_owner r"
  "r_controllers (snd (finishCleanup now alive i (w, r))) = jm_delete i (r_controllers r)"
  "r_started (snd (finishCleanup now alive i (w, r))) = js_remove i (r_started r)"
  "r_queue (snd (finishCleanup now alive i (w, r))) = r_queue r"
  "r_current (snd (finishCleanup now alive i (w, r))) = r_current r"
  "r_pendingPrompts (snd (finishCleanup now alive i (w, r))) = js_remove i (r_pendingPrompts r)"
  "fst ` set (r_abandon (snd (finishCleanup now alive i (w, r)))) = fst ` set (r_abandon r) - {i}"
  "r_poller (snd (finishCleanup now alive i (w, r))) \<longleftrightarrow> jm_delete i (r_controllers r) \<noteq> [] \<and> r_poller r"
  by (auto simp: finishCleanup_def Let_def clearAbandon_keys)

lemma finishCleanup_store:
  "own_row ow (w_store (fst (finishCleanup now alive i (w, r)))) = own_row ow (w_store w)"
  "get_job k (w_store (fst (finishCleanup now alive i (w, r)))) = get_job k (w_store w)"
  "js_jobs (w_store (fst (finishCleanup now alive i (w, r)))) = js_jobs (w_store w)"
  "store_wf (w_store w) \<Longrightarrow> store_wf (w_store (fst (finishCleanup now alive i (w, r))))"
  by (auto simp: finishCleanup_def Let_def row_simps)

lemmas finishCleanup_facts = finishCleanup_runner finishCleanup_store

section \<open>Facts of a process that satisfies the invariant\<close>

lemma memory_view_some: "jm_has (r_controllers r) i \<longleftrightarrow> memory_view r i \<noteq> None"
  by (simp add: memory_view_def)

lemma proc_inv_views: "proc_inv (w, r) \<Longrightarrow> active_view (r_owner r) (w_store w) i = memory_view r i"
  by (simp add: proc_inv_def)

lemma proc_inv_controller_row:
  assumes "proc_inv (w, r)" and "jm_has (r_controllers r) i"
  shows "\<exists>row. own_row (r_owner r) (w_store w) i = Some row"
proof -
  obtain st where "active_view (r_owner r) (w_store w) i = Some st"
    using assms(2) proc_inv_views [OF assms(1), of i] by (auto simp: memory_view_some)
  then show ?thesis by (blast dest: active_view_own)
qed

lemma proc_invD:
  assumes "proc_inv (w, r)"
  shows "store_wf (w_store w)" "runner_wf r" "active_view (r_owner r) (w_store w) = memory_view r"
    "known_jobs r (w_store w)"
  using assms by (simp_all add: proc_inv_def)

lemma runner_wf_current:
  "runner_wf r \<Longrightarrow> r_current r = Some (i, lf) \<Longrightarrow>
   jm_has (r_controllers r) i \<and> r_started r = [i] \<and> i \<notin> fst ` set (r_queue r)"
  by (auto simp: runner_wf_def)

lemma known_jobs_current:
  "known_jobs r s \<Longrightarrow> r_current r = Some (i, lf) \<Longrightarrow>
   \<exists>row. own_row (r_owner r) s i = Some row \<and> j_logFile row = lf"
  by (auto simp: known_jobs_def)

lemma proc_inv_current:
  assumes "proc_inv (w, r)" and "r_current r = Some (i, lf)"
  shows "jm_has (r_controllers r) i" "r_started r = [i]" "i \<notin> fst ` set (r_queue r)"
    "\<exists>row. own_row (r_owner r) (w_store w) i = Some row \<and> j_logFile row = lf"
  using runner_wf_current [OF proc_invD(2) [OF assms(1)] assms(2)]
    known_jobs_current [OF proc_invD(4) [OF assms(1)] assms(2)] by blast+

lemma runner_wf_idle: "runner_wf r \<Longrightarrow> r_current r = None \<Longrightarrow> r_started r = [] \<and> r_pendingPrompts r = []"
  by (auto simp: runner_wf_def)

lemma runner_wf_started: "runner_wf r \<Longrightarrow> i \<in> set (r_started r) \<Longrightarrow> \<exists>lf. r_current r = Some (i, lf)"
  by (auto simp: runner_wf_def split: option.splits)

lemma runner_wf_pending: "runner_wf r \<Longrightarrow> i \<in> set (r_pendingPrompts r) \<Longrightarrow> \<exists>lf. r_current r = Some (i, lf)"
  by (rule runner_wf_started) (auto simp: runner_wf_def)

lemma proc_inv_new: "store_wf (w_store w) \<Longrightarrow> active_view ow (w_store w) = (\<lambda>_. None) \<Longrightarrow>
   proc_inv (w, new_runner ow)"
  by (simp add: proc_inv_def new_runner_def runner_wf_def memory_view_def known_jobs_def fun_eq_iff)

section \<open>Preservation\<close>

lemma jm_delete_absent: "\<not> jm_has m k \<Longrightarrow> jm_delete k m = m"
  by (auto simp: jm_has_dom jm_delete_def filter_id_conv)

lemma known_id_le:
  assumes "store_wf s" and "own_row ow s i = Some row"
  shows "i \<le> js_jobSeq s"
proof -
  have "row \<in> set (js_jobs s)" "j_id row = i"
    using assms(2) by (auto simp: own_row_def split: option.splits if_splits dest: get_job_SomeD)
  with assms(1) show ?thesis by (auto simp: store_wf_def list_all_iff)
qed

definition job_input :: "string \<Rightarrow> job_def \<Rightarrow> create_job_input" where
  "job_input ow def = \<lparr>cj_command = d_command def, cj_category = d_category def, cj_target = d_target def,
     cj_argsJson = d_argsJson def, cj_expectedPrompts = d_expectedPrompts def,
     cj_triggeredByUsername = d_triggeredByUsername def,
     cj_triggeredByImpersonating = d_triggeredByImpersonating def,
     cj_triggeredVia = d_triggeredVia def, cj_owner = Some ow\<rparr>"

lemma enqueue_eq:
  assumes "store_wf (w_store w)"
  shows "enqueue local now def (w, r) =
    (let s = fst (createJob local now (job_input (r_owner r) def) (w_store w)); i = Suc (js_jobSeq (w_store w))
     in ((w\<lparr>w_store := s\<rparr>,
          r\<lparr>r_controllers := jm_set i False (r_controllers r), r_poller := True,
            r_queue := r_queue r @ [(i, j_logFile (last (js_jobs s)))]\<rparr>), i))"
  using get_createJob [OF assms, of "Suc (js_jobSeq (w_store w))" local now "job_input (r_owner r) def"]
  by (auto simp: enqueue_def job_input_def Let_def createJob_row(1) split: prod.splits)
     (auto simp: createJob_def Let_def)

lemma own_row_createJob:
  assumes "store_wf s"
  shows "own_row ow (fst (createJob local now inp s)) k =
    (if k = Suc (js_jobSeq s)
     then (if owner_of (cj_owner inp) = ow then Some (last (js_jobs (fst (createJob local now inp s)))) else None)
     else own_row ow s k)"
  by (simp add: own_row_def get_createJob [OF assms] createJob_row)

lemma enqueue_inv:
  assumes inv: "proc_inv (w, r)"
  shows "proc_inv (fst (enqueue local now def (w, r)))"
proof -
  note I = proc_invD [OF inv]
  define s where "s = fst (createJob local now (job_input (r_owner r) def) (w_store w))"
  define i where "i = Suc (js_jobSeq (w_store w))"
  have own: "own_row (r_owner r) s = (own_row (r_owner r) (w_store w))(i := Some (last (js_jobs s)))"
    by (auto simp: s_def i_def own_row_createJob [OF I(1)] fun_eq_iff job_input_def owner_of_def)
  have st: "j_status (last (js_jobs s)) = Queued" by (simp add: s_def createJob_row)
  have lt: "fst c < i" if "c \<in> set_option (r_current r) \<union> set (r_queue r)" for c
    using that I(4) known_id_le [OF I(1)] by (fastforce simp: known_jobs_def i_def less_Suc_eq_le)
  have fresh: "i \<notin> set (r_started r)"
    using lt runner_wf_started [OF I(2), of i] by fastforce
  have wf: "runner_wf (r\<lparr>r_controllers := jm_set i False (r_controllers r), r_poller := True,
      r_queue := r_queue r @ [(i, j_logFile (last (js_jobs s)))]\<rparr>)"
    using I(2) lt by (auto simp: runner_wf_def row_simps sorted_wrt_append split: option.splits)
  have view: "active_view (r_owner r) s = memory_view (r\<lparr>r_controllers := jm_set i False (r_controllers r),
      r_poller := True, r_queue := r_queue r @ [(i, j_logFile (last (js_jobs s)))]\<rparr>)"
    using I(3) st fresh
    by (auto simp: active_view_def own memory_view_def row_simps active_statuses_def fun_eq_iff)
  have known: "known_jobs (r\<lparr>r_controllers := jm_set i False (r_controllers r), r_poller := True,
      r_queue := r_queue r @ [(i, j_logFile (last (js_jobs s)))]\<rparr>) s"
    using I(4) lt by (fastforce simp: known_jobs_def own)
  have "store_wf s" by (simp add: s_def store_wf_createJob I(1))
  with wf view known show ?thesis
    by (simp add: enqueue_eq [OF I(1)] Let_def s_def [symmetric] i_def [symmetric] proc_inv_def)
qed

lemma jm_delete_Nil [simp]: "jm_delete k [] = []"
  by (simp add: jm_delete_def)

lemma active_view_cleanup:
  "active_view ow (w_store (fst (finishCleanup now alive i (w, r)))) = active_view ow (w_store w)"
  by (rule active_view_eqI) (simp add: finishCleanup_facts)

lemma memory_view_cleanup:
  "memory_view (snd (finishCleanup now alive i (w, r))) = (memory_view r)(i := None)"
  by (auto simp: memory_view_def finishCleanup_facts row_simps fun_eq_iff)

lemma known_jobs_cleanup:
  "known_jobs (snd (finishCleanup now alive i (w, r))) (w_store (fst (finishCleanup now alive i (w, r)))) =
   known_jobs r (w_store w)"
  by (simp add: known_jobs_def finishCleanup_facts)

lemma runner_wf_cleanup_current:
  assumes "runner_wf r" and "r_current r = Some (i, lf)"
  shows "runner_wf (snd (finishCleanup now alive i (w, r\<lparr>r_current := None\<rparr>)))"
proof -
  have "r_started r = [i]" "set (r_pendingPrompts r) \<subseteq> {i}" "fst ` set (r_abandon r) \<subseteq> {i}"
    using assms by (auto simp: runner_wf_def)
  with assms show ?thesis
    by (auto simp: runner_wf_def finishCleanup_facts row_simps js_remove_def)
qed

lemma runner_wf_cleanup_queued:
  assumes "runner_wf r" and "i \<notin> set (r_started r)"
  shows "runner_wf (snd (finishCleanup now alive i (w, r)))"
proof -
  have "i \<notin> set (r_pendingPrompts r)" "i \<notin> fst ` set (r_abandon r)"
    using assms by (auto simp: runner_wf_def)
  moreover have "js_remove i (r_started r) = r_started r" "js_remove i (r_pendingPrompts r) = r_pendingPrompts r"
    using assms calculation by (auto simp: js_remove_def filter_id_conv)
  moreover have "jm_has (jm_delete i (r_controllers r)) (fst c)" if "r_current r = Some c" for c
    using that assms by (auto simp: runner_wf_def row_simps)
  ultimately show ?thesis
    using assms(1)
    by (auto simp: runner_wf_def finishCleanup_facts row_simps split: option.splits)
qed

lemma runner_wf_abort: "runner_wf r \<Longrightarrow> jm_has (r_controllers r) i \<Longrightarrow>
    runner_wf (r\<lparr>r_controllers := jm_set i True (r_controllers r)\<rparr>)"
  by (auto simp: runner_wf_def row_simps split: option.splits)

lemma memory_view_abort: "jm_has (r_controllers r) i \<Longrightarrow>
    memory_view (r\<lparr>r_controllers := jm_set i True (r_controllers r)\<rparr>) = memory_view r"
  by (auto simp: memory_view_def row_simps fun_eq_iff)

lemma known_jobs_cong: "r_owner r' = r_owner r \<Longrightarrow> r_current r' = r_current r \<Longrightarrow> r_queue r' = r_queue r \<Longrightarrow>
   own_row (r_owner r) s' = own_row (r_owner r) s \<Longrightarrow> known_jobs r' s' = known_jobs r s"
  by (simp add: known_jobs_def)

lemma finished_row_logFile [simp]: "j_logFile (finished_row now res row) = j_logFile row"
  "j_logFile (running_row now row) = j_logFile row" "j_logFile (awaiting_row a b c row) = j_logFile row"
  by (simp_all add: finished_row_def running_row_def awaiting_row_def)

lemma known_jobs_update:
  assumes "known_jobs r s"
    and "\<And>k row. own_row (r_owner r) s k = Some row \<Longrightarrow>
      \<exists>row'. own_row (r_owner r) s' k = Some row' \<and> j_logFile row' = j_logFile row"
  shows "known_jobs r s'"
  using assms unfolding known_jobs_def by metis

lemma known_jobs_mark:
  "known_jobs r s \<Longrightarrow> known_jobs r (markRunning now i s)"
  "known_jobs r s \<Longrightarrow> known_jobs r (markAwaitingInput i ptext orig idx s)"
  "known_jobs r s \<Longrightarrow> known_jobs r (markFinished now i res s)"
  by (erule known_jobs_update, auto simp: row_simps)+

lemma proc_inv_store:
  "proc_inv (w, r) \<Longrightarrow> w_store w' = w_store w \<Longrightarrow> proc_inv (w', r)"
  by (simp add: proc_inv_def)

lemma cancel_absent: "\<not> jm_has (r_controllers r) i \<Longrightarrow> cancel now alive i (w, r) = ((w, r), False)"
  by (simp add: cancel_def)

lemma cancel_started:
  "jm_has (r_controllers r) i \<Longrightarrow> i \<in> set (r_started r) \<Longrightarrow>
   cancel now alive i (w, r) = ((w, r\<lparr>r_controllers := jm_set i True (r_controllers r)\<rparr>), True)"
  by (simp add: cancel_def)

definition cancel_queued_world :: "ms \<Rightarrow> nat \<Rightarrow> world \<Rightarrow> world" where
  "cancel_queued_world now i w =
     emit (EvStatus i Cancelled) (on_store (markFinished now i cancelled_result)
       (case get_job i (w_store w) of None \<Rightarrow> w
        | Some job \<Rightarrow> emitLogChunk i (j_logFile job) ''Job cancelled by operator'' Stderr w))"

lemma cancel_queued:
  "jm_has (r_controllers r) i \<Longrightarrow> i \<notin> set (r_started r) \<Longrightarrow>
   cancel now alive i (w, r) =
     (finishCleanup now alive i (cancel_queued_world now i w, r\<lparr>r_controllers := jm_set i True (r_controllers r)\<rparr>), True)"
  by (simp add: cancel_def cancel_queued_world_def Let_def)

lemma cancel_queued_world_store [simp]:
  "w_store (cancel_queued_world now i w) = markFinished now i cancelled_result (w_store w)"
  by (simp add: cancel_queued_world_def split: option.splits)

lemma cancel_snd: "snd (cancel now alive i (w, r)) = jm_has (r_controllers r) i"
  by (simp add: cancel_def Let_def)

lemma cancelled_terminal: "fi_status cancelled_result \<in> set terminal_statuses"
  by (simp add: cancelled_result_def terminal_statuses_def)

lemma cancel_inv:
  assumes inv: "proc_inv (w, r)"
  shows "proc_inv (fst (cancel now alive i (w, r)))"
proof (cases "jm_has (r_controllers r) i")
  case False
  then show ?thesis using inv by (simp add: cancel_absent)
next
  case has: True
  note I = proc_invD [OF inv]
  let ?r1 = "r\<lparr>r_controllers := jm_set i True (r_controllers r)\<rparr>"
  have wf1: "runner_wf ?r1" by (rule runner_wf_abort [OF I(2) has])
  show ?thesis
  proof (cases "i \<in> set (r_started r)")
    case True
    then show ?thesis
      using I wf1 has by (simp add: cancel_started proc_inv_def memory_view_abort known_jobs_def)
  next
    case False
    have "runner_wf (snd (finishCleanup now alive i (cancel_queued_world now i w, ?r1)))"
      by (rule runner_wf_cleanup_queued [OF wf1]) (simp add: False)
    moreover have "known_jobs ?r1 (w_store (cancel_queued_world now i w))"
      using known_jobs_mark(3) [OF I(4)] by (simp add: known_jobs_def)
    ultimately show ?thesis
      using I has False
      by (simp add: cancel_queued proc_inv_def finishCleanup_facts memory_view_cleanup known_jobs_cleanup
          store_wf_row_updates active_view_markFinished cancelled_terminal memory_view_abort
          active_view_cleanup)
  qed
qed
lemma jm_set_keys: "fst ` set (jm_set k v m) = insert k (fst ` set m)"
  using jm_has_set [of k v m] by (auto simp: jm_has_dom)

lemma active_view_ctl_only [row_simps]:
  "active_view ow (markControlRequestHandled now i res s) = active_view ow s"
  "active_view ow (closeStaleControlRequests now alive s) = active_view ow s"
  "active_view ow (fst (createControlRequest now inp s)) = active_view ow s"
  by (rule active_view_eqI, simp add: row_simps)+

lemma onPromptDetected_inv:
  assumes inv: "proc_inv (w, r)" and cur: "r_current r = Some (i, lf)"
  shows "proc_inv (onPromptDetected i text expected orig idx (w, r))"
proof -
  note I = proc_invD [OF inv] and C = proc_inv_current [OF inv cur]
  have "runner_wf (snd (onPromptDetected i text expected orig idx (w, r)))"
    using I(2) cur C by (auto simp: runner_wf_def onPromptDetected_def Let_def row_simps jm_set_keys)
  moreover have "memory_view (snd (onPromptDetected i text expected orig idx (w, r))) =
      (memory_view r)(i := Some AwaitingInput)"
    using C by (auto simp: memory_view_def onPromptDetected_def Let_def row_simps fun_eq_iff)
  moreover have "known_jobs r (markAwaitingInput i text orig idx (w_store w))"
    by (rule known_jobs_mark [OF I(4)])
  ultimately show ?thesis
    using I C by (auto simp: proc_inv_def onPromptDetected_def Let_def store_wf_row_updates
        active_view_markAwaitingInput known_jobs_def)
qed

lemma onPromptCleared_inv:
  assumes inv: "proc_inv (w, r)" and cur: "r_current r = Some (i, lf)"
  shows "proc_inv (onPromptCleared now i (w, r))"
proof -
  note I = proc_invD [OF inv] and C = proc_inv_current [OF inv cur]
  have "runner_wf (snd (onPromptCleared now i (w, r)))"
    using I(2) cur C by (auto simp: runner_wf_def onPromptCleared_def Let_def row_simps clearAbandon_keys)
  moreover have "memory_view (snd (onPromptCleared now i (w, r))) = (memory_view r)(i := Some Running)"
    using C by (auto simp: memory_view_def onPromptCleared_def Let_def row_simps fun_eq_iff)
  moreover have "known_jobs r (markRunning now i (w_store w))"
    by (rule known_jobs_mark [OF I(4)])
  ultimately show ?thesis
    using I C by (auto simp: proc_inv_def onPromptCleared_def Let_def store_wf_row_updates
        active_view_markRunning known_jobs_def)
qed

lemma answerPrompt_inv:
  assumes inv: "proc_inv (w, r)" and "answerPrompt now writable i text (w, r) = Inr (p', b)"
  shows "proc_inv p'"
proof (cases "i \<in> set (r_pendingPrompts r)")
  case True
  then obtain lf where cur: "r_current r = Some (i, lf)"
    using runner_wf_pending [OF proc_invD(2) [OF inv]] by blast
  have "proc_inv (w\<lparr>w_stdin := w_stdin w @ [(i, with_newline text)]\<rparr>, r)"
    by (rule proc_inv_store [OF inv]) simp
  from onPromptCleared_inv [OF this cur] show ?thesis
    using assms(2) True by (auto simp: answerPrompt_def split: if_splits)
next
  case False
  then show ?thesis using assms by (simp add: answerPrompt_def)
qed

lemma dismissPrompt_inv:
  assumes inv: "proc_inv (w, r)"
  shows "proc_inv (fst (dismissPrompt now i (w, r)))"
proof (cases "i \<in> set (r_pendingPrompts r)")
  case True
  then obtain lf where cur: "r_current r = Some (i, lf)"
    using runner_wf_pending [OF proc_invD(2) [OF inv]] by blast
  then show ?thesis using onPromptCleared_inv [OF inv cur] True by (simp add: dismissPrompt_def)
next
  case False
  then show ?thesis using inv by (simp add: dismissPrompt_def)
qed

lemma proc_inv_timeouts:
  assumes "proc_inv (w, r)"
  shows "proc_inv (w, r\<lparr>r_timeouts := t\<rparr>)"
proof -
  have "runner_wf (r\<lparr>r_timeouts := t\<rparr>) = runner_wf r" by (cases "r_current r") (simp_all add: runner_wf_def)
  moreover have "memory_view (r\<lparr>r_timeouts := t\<rparr>) = memory_view r" by (simp add: memory_view_def fun_eq_iff)
  moreover have "known_jobs (r\<lparr>r_timeouts := t\<rparr>) s = known_jobs r s" for s by (simp add: known_jobs_def)
  ultimately show ?thesis using assms by (simp add: proc_inv_def)
qed

lemma abandonFires_inv:
  assumes inv: "proc_inv (w, r)"
  shows "proc_inv (abandonFires now alive h (w, r))"
proof (cases "jm_get (r_timeouts r) h")
  case None
  then show ?thesis using inv by (simp add: abandonFires_def)
next
  case (Some i)
  have "proc_inv (emitLogChunk i lf t st w, r\<lparr>r_timeouts := m\<rparr>)" for lf t st m
    by (rule proc_inv_store [OF proc_inv_timeouts [OF inv]]) simp
  then show ?thesis
    using Some cancel_inv by (simp add: abandonFires_def Let_def)
qed

lemma executeStart_inv:
  assumes inv: "proc_inv (w, r)"
  shows "proc_inv (executeStart now (w, r))"
proof (cases "r_current r = None \<and> r_queue r \<noteq> []")
  case False
  then show ?thesis using inv by (auto simp: executeStart_def split: option.splits list.splits)
next
  case True
  then obtain i lf q where q: "r_queue r = (i, lf) # q" and cur: "r_current r = None"
    by (metis neq_Nil_conv surj_pair)
  note I = proc_invD [OF inv]
  have idle: "r_started r = []" "r_pendingPrompts r = []" using runner_wf_idle [OF I(2) cur] by auto
  show ?thesis
  proof (cases "jm_has (r_controllers r) i")
    case False
    have "runner_wf (r\<lparr>r_queue := q\<rparr>)"
      using I(2) cur q False idle by (auto simp: runner_wf_def)
    moreover have "memory_view (r\<lparr>r_queue := q\<rparr>) = memory_view r"
      by (simp add: memory_view_def fun_eq_iff)
    moreover have "known_jobs (r\<lparr>r_queue := q\<rparr>) (w_store w)"
      using I(4) q by (auto simp: known_jobs_def)
    ultimately show ?thesis using I False q cur by (simp add: executeStart_def proc_inv_def)
  next
    case has: True
    let ?r = "r\<lparr>r_queue := q, r_current := Some (i, lf), r_started := js_add i (r_started r)\<rparr>"
    have "runner_wf ?r"
      using I(2) cur q has idle by (auto simp: runner_wf_def row_simps js_add_def)
    moreover have "memory_view ?r = (memory_view r)(i := Some Running)"
      using has idle by (auto simp: memory_view_def row_simps js_add_def fun_eq_iff)
    moreover have "known_jobs ?r (markRunning now i (w_store w))"
      using known_jobs_mark(1) [OF I(4)] q by (auto simp: known_jobs_def)
    moreover obtain row where "own_row (r_owner r) (w_store w) i = Some row"
      using I(4) q by (auto simp: known_jobs_def)
    ultimately show ?thesis
      using I has q cur by (simp add: executeStart_def proc_inv_def store_wf_row_updates active_view_markRunning)
  qed
qed

definition end_result :: "bool \<Rightarrow> run_outcome \<Rightarrow> finish_input" where
  "end_result aborted outcome =
     (case outcome of
        Returned \<Rightarrow> \<lparr>fi_status = Success, fi_exitCode = 0, fi_errorMessage = None\<rparr>
      | Threw m \<Rightarrow> \<lparr>fi_status = (if aborted then Cancelled else Failed), fi_exitCode = 1,
                    fi_errorMessage = Some (if aborted then ''Cancelled by operator'' else m)\<rparr>)"

definition end_world :: "ms \<Rightarrow> bool \<Rightarrow> nat \<Rightarrow> string \<Rightarrow> run_outcome \<Rightarrow> world \<Rightarrow> world" where
  "end_world now aborted i lf outcome w =
     emit (EvStatus i (fi_status (end_result aborted outcome)))
       (on_store (markFinished now i (end_result aborted outcome))
         (case outcome of Returned \<Rightarrow> w
          | Threw m \<Rightarrow> emitLogChunk i lf (if aborted then ''Job cancelled by operator'' else ''ERROR: '' @ m) Stderr w))"

lemma executeEnd_eq:
  "r_current r = Some (i, lf) \<Longrightarrow> executeEnd now alive outcome (w, r) =
     finishCleanup now alive i
       (end_world now (jm_get (r_controllers r) i = Some True) i lf outcome w, r\<lparr>r_current := None\<rparr>)"
  by (cases outcome) (auto simp: executeEnd_def end_world_def end_result_def Let_def)

lemma end_world_store [simp]:
  "w_store (end_world now aborted i lf outcome w) = markFinished now i (end_result aborted outcome) (w_store w)"
  by (simp add: end_world_def split: run_outcome.splits)

lemma end_result_terminal: "fi_status (end_result aborted outcome) \<in> set terminal_statuses"
  by (simp add: end_result_def terminal_statuses_def split: run_outcome.splits)

lemma executeEnd_inv:
  assumes inv: "proc_inv (w, r)"
  shows "proc_inv (executeEnd now alive outcome (w, r))"
proof (cases "r_current r")
  case None
  then show ?thesis using inv by (simp add: executeEnd_def)
next
  case (Some c)
  obtain i lf where cur: "r_current r = Some (i, lf)" using Some by (cases c) auto
  note I = proc_invD [OF inv]
  define w1 where "w1 = end_world now (jm_get (r_controllers r) i = Some True) i lf outcome w"
  have st: "w_store w1 = markFinished now i (end_result (jm_get (r_controllers r) i = Some True) outcome) (w_store w)"
    by (simp add: w1_def)
  have "memory_view (r\<lparr>r_current := None\<rparr>) = memory_view r"
    by (simp add: memory_view_def fun_eq_iff)
  moreover have "known_jobs (r\<lparr>r_current := None\<rparr>) (w_store w1)"
    using known_jobs_mark(3) [OF I(4)] by (auto simp: known_jobs_def st)
  ultimately show ?thesis
    using I runner_wf_cleanup_current [OF I(2) cur, of now alive w1]
    by (simp add: proc_inv_def finishCleanup_facts memory_view_cleanup known_jobs_cleanup
        store_wf_row_updates active_view_markFinished active_view_cleanup executeEnd_eq [OF cur]
        w1_def [symmetric] st end_result_terminal)
qed

lemma processRequest_inv:
  assumes inv: "proc_inv p"
  shows "proc_inv (processRequest now alive writable req p)"
proof -
  obtain w r where p: "p = (w, r)" by (cases p)
  have mark: "proc_inv (on_store (markControlRequestHandled now i res) w', r')"
    if "proc_inv (w', r')" for w' r' i res
    using that by (simp add: proc_inv_def store_wf_markHandled known_jobs_def row_simps)
  have log: "proc_inv (emitLogChunk i lf t st w', r')" if "proc_inv (w', r')" for i lf t st w' r'
    by (rule proc_inv_store [OF that]) simp
  have warn: "proc_inv (w'\<lparr>w_warnings := m\<rparr>, r')" if "proc_inv (w', r')" for m w' r'
    by (rule proc_inv_store [OF that]) simp
  have applied: "proc_inv p'" if "applyRequest now alive writable req (w, r) = Inr (p', b)" for p' b
    using that cancel_inv [OF inv [unfolded p]] dismissPrompt_inv [OF inv [unfolded p]]
      answerPrompt_inv [OF inv [unfolded p]]
    by (auto simp: applyRequest_def split: control_action.splits) (metis fst_conv)+
  show ?thesis
    using inv applied unfolding p
    by (auto simp: processRequest_def Let_def mark log warn split: sum.splits prod.splits option.splits)
qed

lemma fold_proc_inv:
  "(\<And>x q. proc_inv q \<Longrightarrow> proc_inv (f x q)) \<Longrightarrow> proc_inv p \<Longrightarrow> proc_inv (fold f xs p)"
  by (induction xs arbitrary: p) auto

lemma proc_inv_closeStale:
  "proc_inv (w, r) \<Longrightarrow> proc_inv (on_store (closeStaleControlRequests now alive) w, r)"
  by (simp add: proc_inv_def store_wf_closeStale known_jobs_def row_simps)

lemma processControlRequests_inv:
  "proc_inv p \<Longrightarrow> proc_inv (processControlRequests now alive writable p)"
  by (cases p) (simp add: processControlRequests_def Let_def fold_proc_inv processRequest_inv proc_inv_closeStale)

lemma shutdownStart_inv: "proc_inv p \<Longrightarrow> proc_inv (shutdownStart now alive p)"
  unfolding shutdownStart_def by (rule fold_proc_inv) (metis cancel_inv surj_pair)

section \<open>Startup\<close>

lemma reconcile_store:
  "w_store (fst (reconcileOrphanedJobs now alive (w, r))) =
     closeStaleControlRequests now alive (fst (interruptOrphaned now (r_owner r) alive (w_store w)))"
  "snd (reconcileOrphanedJobs now alive (w, r)) = r"
  by (simp_all add: reconcileOrphanedJobs_def split: prod.splits)

lemma own_row_interrupt:
  assumes "store_wf s"
  shows "own_row ow (fst (interruptOrphaned now caller alive s)) i =
     map_option (\<lambda>row. if j_status row \<in> set active_statuses \<and> isOrphanFor (j_owner row) caller alive
                      then interrupted_row now row else row) (own_row ow s i)"
  by (auto simp: own_row_def get_interruptOrphaned [OF assms] interrupted_row_def split: option.splits)

lemma active_view_reconcile_self:
  assumes "store_wf s"
  shows "active_view ow (fst (interruptOrphaned now ow alive s)) = (\<lambda>_. None)"
proof
  fix i
  show "active_view ow (fst (interruptOrphaned now ow alive s)) i = None"
    using own_row_get [of ow s i]
    by (auto simp: active_view_def own_row_interrupt [OF assms] isOrphanFor_def interrupted_row_def
        active_statuses_def split: option.splits)
qed

lemma startup_inv:
  assumes "store_wf (w_store w)"
  shows "proc_inv (reconcileOrphanedJobs now alive (w, new_runner ow))"
proof -
  let ?p = "reconcileOrphanedJobs now alive (w, new_runner ow)"
  have "active_view ow (w_store (fst ?p)) = (\<lambda>_. None)"
    using active_view_reconcile_self [OF assms, of ow now alive]
    by (simp add: reconcile_store new_runner_def row_simps)
  moreover have "store_wf (w_store (fst ?p))"
    by (simp add: reconcile_store store_wf_closeStale store_wf_interruptOrphaned assms)
  ultimately have "proc_inv (fst ?p, new_runner ow)" by (rule proc_inv_new [rotated])
  then show ?thesis by (metis reconcile_store(2) surjective_pairing)
qed

end
