(* ===== verification/Job_System.thy ===== *)
theory Job_System
  imports Job_Runner_Inv
begin

text \<open>
  The processes that share the job database: the web server, one MCP server per stdio client and the CLI
  (\<open>src/src/web/server.ts\<close>, \<open>src/src/mcp/server.ts\<close>) each hold a \<open>JobRunner\<close> over the same SQLite file.
  A \<open>sys_step\<close> is one method call of a live runner, or a process that crashes, exits or starts.  The
  lemmas prove of every reachable state that each live runner's memory mirrors its own rows, that rows
  only move forward through the job state machine, and that no process touches a live peer's rows.
\<close>

section \<open>How a job row may evolve\<close>

definition leads_to :: "job_status \<Rightarrow> job_status \<Rightarrow> bool" where
  "leads_to a b \<longleftrightarrow> a = b \<or> (a \<in> set active_statuses \<and> b \<noteq> Queued)"

definition row_le :: "job_row \<Rightarrow> job_row \<Rightarrow> bool" where
  "row_le a b \<longleftrightarrow>
     j_id b = j_id a \<and> j_command b = j_command a \<and> j_category b = j_category a \<and> j_target b = j_target a \<and>
     j_argsJson b = j_argsJson a \<and> j_logFile b = j_logFile a \<and> j_owner b = j_owner a \<and>
     leads_to (j_status a) (j_status b) \<and>
     (j_startedAt a \<noteq> None \<longrightarrow> j_startedAt b = j_startedAt a) \<and>
     (j_status a \<in> set terminal_statuses \<longrightarrow> b = a)"

definition store_le :: "job_store \<Rightarrow> job_store \<Rightarrow> bool" where
  "store_le s s' \<longleftrightarrow> (\<forall>i a. get_job i s = Some a \<longrightarrow> (\<exists>b. get_job i s' = Some b \<and> row_le a b))"

lemma row_le_refl [simp]: "row_le a a"
  by (simp add: row_le_def leads_to_def)

lemma row_le_trans: "row_le a b \<Longrightarrow> row_le b c \<Longrightarrow> row_le a c"
  by (auto simp: row_le_def leads_to_def active_iff_not_terminal)

lemma store_le_refl [simp]: "store_le s s"
  by (auto simp: store_le_def)

lemma store_le_trans: "store_le a b \<Longrightarrow> store_le b c \<Longrightarrow> store_le a c"
  unfolding store_le_def by (meson row_le_trans)

lemma store_le_ctl_only [simp]:
  "store_le s (markControlRequestHandled now i res s)" "store_le s (closeStaleControlRequests now alive s)"
  "store_le s (fst (createControlRequest now inp s))"
  by (simp_all add: store_le_def row_simps)

lemma store_le_createJob: "store_wf s \<Longrightarrow> store_le s (fst (createJob local now inp s))"
  using fresh_id_absent [of s] by (auto simp: store_le_def get_createJob)

lemma store_le_mark:
  assumes "get_job i s = Some a" and "j_status a \<in> set active_statuses"
  shows "store_le s (markRunning now i s)" "store_le s (markAwaitingInput i ptext orig idx s)"
    "fi_status res \<in> set terminal_statuses \<Longrightarrow> store_le s (markFinished now i res s)"
  using assms
  by (auto simp: store_le_def row_simps row_le_def leads_to_def running_row_def awaiting_row_def finished_row_def
      active_iff_not_terminal split: option.splits) (auto simp: terminal_statuses_def)

lemma store_le_interrupt: "store_wf s \<Longrightarrow> store_le s (fst (interruptOrphaned now caller alive s))"
  by (auto simp: store_le_def get_interruptOrphaned row_le_def leads_to_def interrupted_row_def
      active_iff_not_terminal)

lemma proc_inv_active_row:
  assumes "proc_inv (w, r)" and "jm_has (r_controllers r) i"
  obtains a where "get_job i (w_store w) = Some a" and "j_status a \<in> set active_statuses"
    and "owner_of (j_owner a) = r_owner r"
proof -
  obtain st where st: "active_view (r_owner r) (w_store w) i = Some st"
    using assms proc_inv_views [OF assms(1), of i] by (auto simp: memory_view_some)
  then obtain a where "own_row (r_owner r) (w_store w) i = Some a" "j_status a \<in> set active_statuses"
    by (auto simp: active_view_def split: option.splits if_splits)
  then show thesis using that own_row_get by blast
qed

section \<open>What a method leaves of the rows\<close>

text \<open>The rows only move forward, and those of another process are the same.\<close>

definition keeps :: "string \<Rightarrow> job_store \<Rightarrow> job_store \<Rightarrow> bool" where
  "keeps me s s' \<longleftrightarrow> store_le s s' \<and> (\<forall>ow. ow \<noteq> me \<longrightarrow> own_row ow s' = own_row ow s)"

lemma keeps_refl [simp]: "keeps me s s"
  by (simp add: keeps_def)

lemma keeps_trans: "keeps me a b \<Longrightarrow> keeps me b c \<Longrightarrow> keeps me a c"
  unfolding keeps_def by (metis store_le_trans)

lemma keeps_ctl_only [simp]:
  "keeps me s (markControlRequestHandled now i res s)" "keeps me s (closeStaleControlRequests now alive s)"
  "keeps me s (fst (createControlRequest now inp s))"
  by (simp_all add: keeps_def row_simps)

lemma keeps_mark:
  assumes "get_job i s = Some a" and "j_status a \<in> set active_statuses" and "owner_of (j_owner a) = me"
  shows "keeps me s (markRunning now i s)" "keeps me s (markAwaitingInput i ptext orig idx s)"
    "fi_status res \<in> set terminal_statuses \<Longrightarrow> keeps me s (markFinished now i res s)"
  using store_le_mark [OF assms(1,2)] assms
  by (auto simp: keeps_def fun_eq_iff row_simps own_row_def running_row_def awaiting_row_def finished_row_def)

lemma keeps_createJob:
  "store_wf s \<Longrightarrow> owner_of (cj_owner inp) = me \<Longrightarrow> keeps me s (fst (createJob local now inp s))"
  using fresh_id_absent [of s]
  by (auto simp: keeps_def store_le_createJob own_row_createJob fun_eq_iff) (simp add: own_row_def)

lemma keeps_finishCleanup:
  "keeps me s (w_store w) \<Longrightarrow> keeps me s (w_store (fst (finishCleanup now alive i (w, r))))"
  by (auto simp: keeps_def store_le_def finishCleanup_facts)

lemma keeps_enqueue:
  "proc_inv (w, r) \<Longrightarrow> keeps (r_owner r) (w_store w) (w_store (fst (fst (enqueue local now def (w, r)))))"
  using proc_invD(1) [of w r]
  by (simp add: enqueue_eq Let_def keeps_createJob job_input_def owner_of_def)

lemma keeps_cancel:
  assumes inv: "proc_inv (w, r)"
  shows "keeps (r_owner r) (w_store w) (w_store (fst (fst (cancel now alive i (w, r)))))"
proof (cases "jm_has (r_controllers r) i \<and> i \<notin> set (r_started r)")
  case True
  obtain a where a: "get_job i (w_store w) = Some a" "j_status a \<in> set active_statuses" "owner_of (j_owner a) = r_owner r"
    using proc_inv_active_row [OF inv] True by blast
  show ?thesis
    using True by (simp add: cancel_queued keeps_finishCleanup keeps_mark(3) [OF a] cancelled_terminal)
next
  case False
  then show ?thesis by (cases "jm_has (r_controllers r) i") (auto simp: cancel_absent cancel_started)
qed

lemma keeps_onPrompt:
  assumes inv: "proc_inv (w, r)" and cur: "r_current r = Some (i, lf)" and st: "w_store w' = w_store w"
  shows "keeps (r_owner r) (w_store w) (w_store (fst (onPromptDetected i text expected orig idx (w', r))))"
    "keeps (r_owner r) (w_store w) (w_store (fst (onPromptCleared now i (w', r))))"
proof -
  obtain a where a: "get_job i (w_store w) = Some a" "j_status a \<in> set active_statuses" "owner_of (j_owner a) = r_owner r"
    using proc_inv_active_row [OF inv proc_inv_current(1) [OF inv cur]] by blast
  show "keeps (r_owner r) (w_store w) (w_store (fst (onPromptDetected i text expected orig idx (w', r))))"
    "keeps (r_owner r) (w_store w) (w_store (fst (onPromptCleared now i (w', r))))"
    by (simp_all add: onPromptDetected_def onPromptCleared_def Let_def st keeps_mark [OF a])
qed

lemma keeps_answer:
  assumes inv: "proc_inv (w, r)" and ans: "answerPrompt now writable i text (w, r) = Inr (p', b)"
  shows "keeps (r_owner r) (w_store w) (w_store (fst p'))"
proof (cases "i \<in> set (r_pendingPrompts r)")
  case True
  then obtain lf where "r_current r = Some (i, lf)"
    using runner_wf_pending [OF proc_invD(2) [OF inv]] by blast
  from keeps_onPrompt(2) [OF inv this] show ?thesis
    using ans True by (auto simp: answerPrompt_def split: if_splits)
next
  case False
  then show ?thesis using ans by (auto simp: answerPrompt_def)
qed

lemma keeps_dismiss:
  assumes inv: "proc_inv (w, r)"
  shows "keeps (r_owner r) (w_store w) (w_store (fst (fst (dismissPrompt now i (w, r)))))"
proof (cases "i \<in> set (r_pendingPrompts r)")
  case True
  then obtain lf where "r_current r = Some (i, lf)"
    using runner_wf_pending [OF proc_invD(2) [OF inv]] by blast
  from keeps_onPrompt(2) [OF inv this] show ?thesis using True by (simp add: dismissPrompt_def)
next
  case False
  then show ?thesis by (simp add: dismissPrompt_def)
qed

lemma keeps_abandonFires:
  assumes inv: "proc_inv (w, r)"
  shows "keeps (r_owner r) (w_store w) (w_store (fst (abandonFires now alive h (w, r))))"
proof (cases "jm_get (r_timeouts r) h")
  case None
  then show ?thesis by (simp add: abandonFires_def)
next
  case (Some i)
  have "proc_inv (emitLogChunk i lf t st w, r\<lparr>r_timeouts := m\<rparr>)" for lf t st m
    by (rule proc_inv_store [OF proc_inv_timeouts [OF inv]]) simp
  from keeps_cancel [OF this] show ?thesis using Some by (simp add: abandonFires_def Let_def)
qed

lemma keeps_executeStart:
  assumes inv: "proc_inv (w, r)"
  shows "keeps (r_owner r) (w_store w) (w_store (fst (executeStart now (w, r))))"
proof (cases "\<exists>i lf q. r_current r = None \<and> r_queue r = (i, lf) # q \<and> jm_has (r_controllers r) i")
  case True
  then obtain i lf q where q: "r_current r = None" "r_queue r = (i, lf) # q" "jm_has (r_controllers r) i" by blast
  obtain a where a: "get_job i (w_store w) = Some a" "j_status a \<in> set active_statuses" "owner_of (j_owner a) = r_owner r"
    using proc_inv_active_row [OF inv q(3)] by blast
  show ?thesis by (simp add: executeStart_def q keeps_mark [OF a])
next
  case False
  then show ?thesis by (auto simp: executeStart_def split: option.splits list.splits)
qed

lemma keeps_executeEnd:
  assumes inv: "proc_inv (w, r)"
  shows "keeps (r_owner r) (w_store w) (w_store (fst (executeEnd now alive outcome (w, r))))"
proof (cases "r_current r")
  case None
  then show ?thesis by (simp add: executeEnd_def)
next
  case (Some c)
  then obtain i lf where cur: "r_current r = Some (i, lf)" by (cases c) auto
  obtain a where a: "get_job i (w_store w) = Some a" "j_status a \<in> set active_statuses" "owner_of (j_owner a) = r_owner r"
    using proc_inv_active_row [OF inv proc_inv_current(1) [OF inv cur]] by blast
  show ?thesis
    by (simp add: executeEnd_eq [OF cur] keeps_finishCleanup keeps_mark(3) [OF a] end_result_terminal)
qed

text \<open>A runner keeps its name.\<close>

lemma owner_kept [simp]:
  "r_owner (snd (fst (enqueue local now def (w, r)))) = r_owner r"
  "r_owner (snd (fst (cancel now alive i (w, r)))) = r_owner r"
  "r_owner (snd (onPromptDetected i text expected orig idx (w, r))) = r_owner r"
  "r_owner (snd (onPromptCleared now i (w, r))) = r_owner r"
  "r_owner (snd (fst (dismissPrompt now i (w, r)))) = r_owner r"
  "r_owner (snd (executeStart now (w, r))) = r_owner r"
  "r_owner (snd (executeEnd now alive outcome (w, r))) = r_owner r"
  "r_owner (snd (abandonFires now alive h (w, r))) = r_owner r"
  by (auto simp: enqueue_def cancel_def onPromptDetected_def onPromptCleared_def dismissPrompt_def executeStart_def
      executeEnd_def abandonFires_def Let_def finishCleanup_runner split: prod.splits option.splits list.splits)

lemma owner_kept_answer: "answerPrompt now writable i text (w, r) = Inr (p', b) \<Longrightarrow> r_owner (snd p') = r_owner r"
  by (auto simp: answerPrompt_def split: if_splits)


lemma applyRequest_keeps:
  assumes inv: "proc_inv (w, r)" and "applyRequest now alive writable req (w, r) = Inr (p', b)"
  shows "proc_inv p' \<and> r_owner (snd p') = r_owner r \<and> keeps (r_owner r) (w_store w) (w_store (fst p'))"
proof (cases "c_action req")
  case ACancel
  then have "p' = fst (cancel now alive (c_jobId req) (w, r))" using assms(2) by (auto simp: applyRequest_def)
  then show ?thesis using cancel_inv [OF inv] keeps_cancel [OF inv] by simp
next
  case AAnswer
  then show ?thesis
    using assms(2) answerPrompt_inv [OF inv] keeps_answer [OF inv] owner_kept_answer
    by (auto simp: applyRequest_def)
next
  case ADismiss
  then have "p' = fst (dismissPrompt now (c_jobId req) (w, r))" using assms(2) by (auto simp: applyRequest_def)
  then show ?thesis using dismissPrompt_inv [OF inv] keeps_dismiss [OF inv] by simp
qed

lemma processRequest_keeps:
  assumes inv: "proc_inv (w, r)"
  shows "r_owner (snd (processRequest now alive writable req (w, r))) = r_owner r \<and>
    keeps (r_owner r) (w_store w) (w_store (fst (processRequest now alive writable req (w, r))))"
proof (cases "jm_has (r_controllers r) (c_jobId req)")
  case False
  then show ?thesis by (simp add: processRequest_def)
next
  case True
  show ?thesis
  proof (cases "applyRequest now alive writable req (w, r)")
    case (Inl m)
    then show ?thesis using True by (simp add: processRequest_def)
  next
    case (Inr x)
    obtain w1 r1 b where x: "x = ((w1, r1), b)" by (metis surj_pair)
    have "proc_inv (w1, r1) \<and> r_owner r1 = r_owner r \<and> keeps (r_owner r) (w_store w) (w_store w1)"
      using applyRequest_keeps [OF inv Inr [unfolded x]] by simp
    then show ?thesis
      using True Inr x by (auto simp: processRequest_def Let_def intro: keeps_trans split: option.splits)
  qed
qed

lemma fold_keeps:
  assumes "\<And>x w r. proc_inv (w, r) \<Longrightarrow> proc_inv (f x (w, r)) \<and> r_owner (snd (f x (w, r))) = r_owner r \<and>
      keeps (r_owner r) (w_store w) (w_store (fst (f x (w, r))))"
    and "proc_inv p"
  shows "proc_inv (fold f xs p) \<and> r_owner (snd (fold f xs p)) = r_owner (snd p) \<and>
      keeps (r_owner (snd p)) (w_store (fst p)) (w_store (fst (fold f xs p)))"
  using assms(2)
proof (induction xs arbitrary: p)
  case Nil
  then show ?case by simp
next
  case (Cons x xs)
  obtain w r where p: "p = (w, r)" by (cases p)
  have step: "proc_inv (f x p) \<and> r_owner (snd (f x p)) = r_owner r \<and> keeps (r_owner r) (w_store w) (w_store (fst (f x p)))"
    using assms(1) Cons.prems unfolding p by blast
  with Cons.IH [of "f x p"] show ?case unfolding p by (auto intro: keeps_trans)
qed

lemma processControlRequests_keeps:
  assumes inv: "proc_inv (w, r)"
  shows "r_owner (snd (processControlRequests now alive writable (w, r))) = r_owner r \<and>
    keeps (r_owner r) (w_store w) (w_store (fst (processControlRequests now alive writable (w, r))))"
  using fold_keeps [of "processRequest now alive writable", OF _ proc_inv_closeStale [OF inv, of now alive]]
    processRequest_inv processRequest_keeps
  by (simp add: processControlRequests_def Let_def) (metis keeps_ctl_only(2) keeps_trans)

lemma shutdownStart_keeps:
  assumes inv: "proc_inv (w, r)"
  shows "r_owner (snd (shutdownStart now alive (w, r))) = r_owner r \<and>
    keeps (r_owner r) (w_store w) (w_store (fst (shutdownStart now alive (w, r))))"
  unfolding shutdownStart_def
  using fold_keeps [of "\<lambda>i q. fst (cancel now alive i q)", OF _ inv] cancel_inv keeps_cancel
  by simp

section \<open>One step of a live process\<close>

datatype proc_event =
    PEnqueue ms job_def
  | PStart ms
  | POutput string stream
  | PDetected string "string list" prompt_origin "nat option"
  | PSelfResume ms
  | PEnd ms run_outcome
  | PCancel ms nat
  | PAnswer ms nat string
  | PDismiss ms nat
  | PAbandon ms nat
  | PPoll ms
  | PRequest ms create_ctl_input
  | PShutdown ms

text \<open>
  The SSH client of the running job reports a detected prompt, or withdraws a stall by itself, only
  while the job's \<open>run\<close> is in progress; the other events are calls of the methods.
\<close>

fun proc_step ::
  "(ms \<Rightarrow> local_fields) \<Rightarrow> (nat \<Rightarrow> bool) \<Rightarrow> (nat \<Rightarrow> bool) \<Rightarrow> proc_event \<Rightarrow> proc \<Rightarrow> proc" where
  "proc_step local alive writable (PEnqueue now def) p = fst (enqueue local now def p)"
| "proc_step local alive writable (PStart now) p = executeStart now p"
| "proc_step local alive writable (POutput text strm) p =
     (case r_current (snd p) of None \<Rightarrow> p
      | Some (i, lf) \<Rightarrow> (emitLogChunk i lf text strm (fst p), snd p))"
| "proc_step local alive writable (PDetected text expected orig idx) p =
     (case r_current (snd p) of None \<Rightarrow> p
      | Some (i, lf) \<Rightarrow> onPromptDetected i text expected orig idx p)"
| "proc_step local alive writable (PSelfResume now) p =
     (case r_current (snd p) of None \<Rightarrow> p
      | Some (i, lf) \<Rightarrow> if i \<in> set (r_pendingPrompts (snd p)) then onPromptCleared now i p else p)"
| "proc_step local alive writable (PEnd now outcome) p = executeEnd now alive outcome p"
| "proc_step local alive writable (PCancel now i) p = fst (cancel now alive i p)"
| "proc_step local alive writable (PAnswer now i text) p =
     (case answerPrompt now writable i text p of Inl _ \<Rightarrow> p | Inr (p', _) \<Rightarrow> p')"
| "proc_step local alive writable (PDismiss now i) p = fst (dismissPrompt now i p)"
| "proc_step local alive writable (PAbandon now h) p = abandonFires now alive h p"
| "proc_step local alive writable (PPoll now) p = processControlRequests now alive writable p"
| "proc_step local alive writable (PRequest now inp) p =
     (on_store (\<lambda>s. fst (createControlRequest now inp s)) (fst p), snd p)"
| "proc_step local alive writable (PShutdown now) p = shutdownStart now alive p"

lemma proc_step_sound:
  assumes inv: "proc_inv (w, r)"
  shows "proc_inv (proc_step local alive writable ev (w, r)) \<and>
    r_owner (snd (proc_step local alive writable ev (w, r))) = r_owner r \<and>
    keeps (r_owner r) (w_store w) (w_store (fst (proc_step local alive writable ev (w, r))))"
proof (cases ev)
  case (POutput t strm)
  then show ?thesis using inv proc_inv_store [OF inv] by (auto split: option.splits)
next
  case (PDetected t expected orig idx)
  then show ?thesis
    using inv onPromptDetected_inv [OF inv] keeps_onPrompt(1) [OF inv] by (auto split: option.splits)
next
  case (PSelfResume now)
  then show ?thesis
    using inv onPromptCleared_inv [OF inv] keeps_onPrompt(2) [OF inv] by (auto split: option.splits)
next
  case (PAnswer now i t)
  then show ?thesis
    using inv answerPrompt_inv [OF inv, of now writable i t] keeps_answer [OF inv, of now writable i t]
      owner_kept_answer [of now writable i t w r] by (auto split: sum.splits)
next
  case (PRequest now inp)
  then show ?thesis
    using inv by (simp add: proc_inv_def store_wf_createControlRequest known_jobs_def row_simps)
qed (use inv in \<open>simp_all add: enqueue_inv keeps_enqueue executeStart_inv keeps_executeStart executeEnd_inv
    keeps_executeEnd cancel_inv keeps_cancel dismissPrompt_inv keeps_dismiss abandonFires_inv keeps_abandonFires
    processControlRequests_inv processControlRequests_keeps shutdownStart_inv shutdownStart_keeps\<close>)

section \<open>Several processes on one database\<close>

definition live :: "(nat \<Rightarrow> bool) \<Rightarrow> runner list \<Rightarrow> bool" where
  "live alive rs \<longleftrightarrow> (\<forall>r \<in> set rs. \<not> dead_mcp alive (r_owner r))"

text \<open>
  A system is the shared world and the live processes.  A process may act, crash, exit through the end
  of \<open>shutdown\<close>, or start: \<open>reconcileOrphanedJobs\<close> runs before anything else.  The liveness probe may
  answer anything for other pids, but says of each live process that it is alive.  The field
  \<open>lastLogFileMs\<close> belongs to each process's own \<open>JobStore\<close> object and not to the shared file, so an
  acting process may find any value in it.
\<close>

definition with_last :: "ms \<Rightarrow> world \<Rightarrow> world" where
  "with_last m w = w\<lparr>w_store := (w_store w)\<lparr>js_lastLogFileMs := m\<rparr>\<rparr>"

inductive sys_step :: "(ms \<Rightarrow> local_fields) \<Rightarrow> world \<times> runner list \<Rightarrow> world \<times> runner list \<Rightarrow> bool"
  for local :: "ms \<Rightarrow> local_fields" where
  act: "k < length rs \<Longrightarrow> live alive rs \<Longrightarrow> proc_step local alive writable ev (with_last m w, rs ! k) = (w', r') \<Longrightarrow>
    sys_step local (w, rs) (w', rs[k := r'])"
| crash: "sys_step local (w, rs) (w, take k rs @ drop (Suc k) rs)"
| leave: "k < length rs \<Longrightarrow> live alive rs \<Longrightarrow> shutdownEnd now alive (w, rs ! k) = (w', r') \<Longrightarrow>
    sys_step local (w, rs) (w', take k rs @ drop (Suc k) rs)"
| spawn: "ow \<notin> r_owner ` set rs \<Longrightarrow> live alive rs \<Longrightarrow>
    reconcileOrphanedJobs now alive (w, new_runner ow) = (w', r') \<Longrightarrow>
    sys_step local (w, rs) (w', rs @ [r'])"

inductive reachable :: "(ms \<Rightarrow> local_fields) \<Rightarrow> world \<times> runner list \<Rightarrow> bool"
  for local :: "ms \<Rightarrow> local_fields" where
  start: "w_store w = empty_store \<Longrightarrow> reachable local (w, [])"
| step: "reachable local c \<Longrightarrow> sys_step local c c' \<Longrightarrow> reachable local c'"

inductive_cases sys_stepE: "sys_step local (w, rs) c'"

definition sys_inv :: "world \<times> runner list \<Rightarrow> bool" where
  "sys_inv c \<longleftrightarrow> store_wf (w_store (fst c)) \<and> distinct (map r_owner (snd c)) \<and>
     (\<forall>r \<in> set (snd c). proc_inv (fst c, r))"

lemma with_last_rows [simp]:
  "get_job i (w_store (with_last m w)) = get_job i (w_store w)" "own_row ow (w_store (with_last m w)) = own_row ow (w_store w)"
  "store_wf (w_store (with_last m w)) = store_wf (w_store w)" "with_last (js_lastLogFileMs (w_store w)) w = w"
  by (simp_all add: with_last_def get_job_def own_row_def fun_eq_iff store_wf_def)

lemma proc_inv_frame:
  assumes "proc_inv (w, r)" and "own_row (r_owner r) (w_store w') = own_row (r_owner r) (w_store w)"
    and "store_wf (w_store w')"
  shows "proc_inv (w', r)"
  using assms active_view_eqI [OF assms(2)] by (simp add: proc_inv_def known_jobs_def)


lemma own_row_reconcile:
  assumes wf: "store_wf (w_store w)" and "ow \<noteq> r_owner r" and "\<not> dead_mcp alive ow"
  shows "own_row ow (w_store (fst (reconcileOrphanedJobs now alive (w, r)))) = own_row ow (w_store w)"
proof
  fix i
  have "owner_of (j_owner row) = ow" if "own_row ow (w_store w) i = Some row" for row
    using own_row_get [OF that] by simp
  then show "own_row ow (w_store (fst (reconcileOrphanedJobs now alive (w, r)))) i = own_row ow (w_store w) i"
    using assms(2,3)
    by (cases "own_row ow (w_store w) i")
      (auto simp: reconcile_store row_simps own_row_interrupt [OF wf] isOrphanFor_def)
qed

lemma keeps_reconcile: "store_wf (w_store w) \<Longrightarrow>
    store_le (w_store w) (w_store (fst (reconcileOrphanedJobs now alive (w, r))))"
  unfolding reconcile_store by (rule store_le_trans [OF store_le_interrupt store_le_ctl_only(2)])

lemma store_wf_reconcile: "store_wf (w_store w) \<Longrightarrow> store_wf (w_store (fst (reconcileOrphanedJobs now alive (w, r))))"
  by (simp add: reconcile_store store_wf_closeStale store_wf_interruptOrphaned)

lemma nth_owner_distinct:
  "distinct (map r_owner rs) \<Longrightarrow> k < length rs \<Longrightarrow> j < length rs \<Longrightarrow> j \<noteq> k \<Longrightarrow> r_owner (rs ! j) \<noteq> r_owner (rs ! k)"
  by (metis distinct_conv_nth length_map nth_map)

lemma drop_nth_eq: "set (take k rs @ drop (Suc k) rs) \<subseteq> set rs"
  by (auto dest: in_set_takeD in_set_dropD)

lemma drop_nth_owner:
  assumes "distinct (map r_owner rs)" and "k < length rs" and "r \<in> set (take k rs @ drop (Suc k) rs)"
  shows "r_owner r \<noteq> r_owner (rs ! k)"
proof -
  have "distinct (map r_owner (take k rs @ rs ! k # drop (Suc k) rs))"
    using assms(1) id_take_nth_drop [OF assms(2)] by simp
  then have "r_owner (rs ! k) \<notin> r_owner ` set (take k rs @ drop (Suc k) rs)" by auto
  then show ?thesis using assms(3) by (metis imageI)
qed

lemma distinct_drop_nth:
  assumes "distinct (map r_owner rs)"
  shows "distinct (map r_owner (take k rs @ drop (Suc k) rs))"
proof (cases "k < length rs")
  case True
  then have "distinct (map r_owner (take k rs @ rs ! k # drop (Suc k) rs))"
    using assms id_take_nth_drop [OF True] by simp
  then show ?thesis by auto
next
  case False
  then show ?thesis using assms by simp
qed

lemma proc_inv_spawn:
  assumes "store_wf (w_store w)" and "reconcileOrphanedJobs now alive (w, new_runner ow) = (w', r')"
  shows "proc_inv (w', r')" "r_owner r' = ow"
  using startup_inv [OF assms(1), of now alive ow] reconcile_store(2) [of now alive w "new_runner ow"] assms(2)
  by (auto simp: new_runner_def)

lemma sys_inv_others:
  assumes "sys_inv (w, rs)" and "store_wf (w_store w')" and "set rs' \<subseteq> set rs" and "distinct (map r_owner rs')"
    and "\<And>r. r \<in> set rs' \<Longrightarrow> own_row (r_owner r) (w_store w') = own_row (r_owner r) (w_store w)"
  shows "sys_inv (w', rs')"
  using assms unfolding sys_inv_def by (auto intro: proc_inv_frame)

lemma shutdownEnd_reconcile:
  "shutdownEnd now alive (w, r) = reconcileOrphanedJobs now alive (w, r\<lparr>r_poller := False\<rparr>)"
  by (simp add: shutdownEnd_def)

lemma sys_step_inv:
  assumes "sys_step local c c'" and "sys_inv c"
  shows "sys_inv c'"
  using assms
proof (cases rule: sys_step.cases)
  case (act k rs alive writable ev m w w' r')
  have inv0: "proc_inv (w, rs ! k)" and dist: "distinct (map r_owner rs)"
    using assms(2) act(1,3) by (auto simp: sys_inv_def)
  have inv: "proc_inv (with_last m w, rs ! k)"
    using proc_inv_frame [OF inv0, of "with_last m w"] proc_invD(1) [OF inv0] by simp
  have s: "proc_inv (w', r')" "r_owner r' = r_owner (rs ! k)"
    "keeps (r_owner (rs ! k)) (w_store (with_last m w)) (w_store w')"
    using proc_step_sound [OF inv, of local alive writable ev] act(5) by auto
  have "proc_inv (w', rs[k := r'] ! j)" if "j < length rs" for j
  proof (cases "j = k")
    case True
    then show ?thesis using s(1) that by simp
  next
    case False
    then have "own_row (r_owner (rs ! j)) (w_store w') = own_row (r_owner (rs ! j)) (w_store w)"
      using nth_owner_distinct [OF dist act(3) that False] s(3) by (simp add: keeps_def)
    moreover have "proc_inv (w, rs ! j)" using assms(2) act(1) that by (simp add: sys_inv_def)
    ultimately show ?thesis using False s(1) by (auto intro: proc_inv_frame dest: proc_invD(1))
  qed
  then have "\<forall>r \<in> set (rs[k := r']). proc_inv (w', r)" by (auto simp: in_set_conv_nth)
  moreover have "map r_owner (rs[k := r']) = map r_owner rs"
    using s(2) act(3) by (simp add: map_update list_update_same_conv)
  ultimately show ?thesis using s(1) dist act(2) by (auto simp: sys_inv_def dest: proc_invD(1))
next
  case (crash w rs k)
  then show ?thesis
    using assms(2) drop_nth_eq [of k rs] distinct_drop_nth by (auto simp: sys_inv_def)
next
  case (leave k rs alive now w w' r')
  have wf: "store_wf (w_store w)" and dist: "distinct (map r_owner rs)" and inv: "sys_inv (w, rs)"
    using assms(2) leave(1) by (auto simp: sys_inv_def)
  have w': "w' = fst (reconcileOrphanedJobs now alive (w, (rs ! k)\<lparr>r_poller := False\<rparr>))"
    using leave(5) by (simp add: shutdownEnd_reconcile)
  have "sys_inv (w', take k rs @ drop (Suc k) rs)"
  proof (rule sys_inv_others [OF inv])
    show "store_wf (w_store w')" unfolding w' by (rule store_wf_reconcile [OF wf])
    show "set (take k rs @ drop (Suc k) rs) \<subseteq> set rs" by (rule drop_nth_eq)
    show "distinct (map r_owner (take k rs @ drop (Suc k) rs))" by (rule distinct_drop_nth [OF dist])
    fix r assume r: "r \<in> set (take k rs @ drop (Suc k) rs)"
    then have "\<not> dead_mcp alive (r_owner r)" using leave(4) drop_nth_eq [of k rs] unfolding live_def by blast
    with drop_nth_owner [OF dist leave(3) r]
    show "own_row (r_owner r) (w_store w') = own_row (r_owner r) (w_store w)"
      unfolding w' by (intro own_row_reconcile [OF wf]) simp_all
  qed
  then show ?thesis using leave(2) by simp
next
  case (spawn ow rs alive now w w' r')
  have wf: "store_wf (w_store w)" and inv: "sys_inv (w, rs)"
    using assms(2) spawn(1) by (auto simp: sys_inv_def)
  have w': "w' = fst (reconcileOrphanedJobs now alive (w, new_runner ow))" using spawn(5) by simp
  have "sys_inv (w', rs)"
  proof (rule sys_inv_others [OF inv])
    show "store_wf (w_store w')" unfolding w' by (rule store_wf_reconcile [OF wf])
    show "distinct (map r_owner rs)" using inv by (simp add: sys_inv_def)
    fix r assume r: "r \<in> set rs"
    then have "\<not> dead_mcp alive (r_owner r)" "r_owner r \<noteq> ow" using spawn(3,4) by (auto simp: live_def)
    then show "own_row (r_owner r) (w_store w') = own_row (r_owner r) (w_store w)"
      unfolding w' by (intro own_row_reconcile [OF wf]) (simp_all add: new_runner_def)
  qed simp
  then show ?thesis
    using proc_inv_spawn [OF wf spawn(5)] spawn(2,3) by (auto simp: sys_inv_def)
qed

lemma reachable_inv:
  "reachable local c \<Longrightarrow> sys_inv c"
proof (induction rule: reachable.induct)
  case (start w)
  then show ?case by (simp add: sys_inv_def store_wf_empty)
next
  case (step c c')
  then show ?case by (blast intro: sys_step_inv)
qed

lemma sys_step_store_le:
  assumes "sys_step local c c'" and "sys_inv c"
  shows "store_le (w_store (fst c)) (w_store (fst c'))"
  using assms
proof (cases rule: sys_step.cases)
  case (act k rs alive writable ev m w w' r')
  then have inv: "proc_inv (w, rs ! k)" using assms(2) by (auto simp: sys_inv_def)
  have "proc_inv (with_last m w, rs ! k)"
    using proc_inv_frame [OF inv, of "with_last m w"] proc_invD(1) [OF inv] by simp
  from proc_step_sound [OF this, of local alive writable ev] act show ?thesis
    by (auto simp: keeps_def store_le_def)
next
  case (leave k rs alive now w w' r')
  then show ?thesis using assms(2) keeps_reconcile [of w now alive "(rs ! k)\<lparr>r_poller := False\<rparr>"]
    by (auto simp: sys_inv_def shutdownEnd_reconcile)
next
  case (spawn ow rs alive now w w' r')
  then show ?thesis using assms(2) keeps_reconcile [of w now alive "new_runner ow"] by (auto simp: sys_inv_def)
qed simp


lemma reachable_proc: "reachable local (w, rs) \<Longrightarrow> r \<in> set rs \<Longrightarrow> proc_inv (w, r)"
  using reachable_inv [of local "(w, rs)"] by (simp add: sys_inv_def)

end
