(* ===== verification/Job_Theorems.thy ===== *)
theory Job_Theorems
  imports Job_System
begin

text \<open>
  What the job system guarantees (\<open>src/src/web/jobs/job-runner.ts\<close>, \<open>job-store.ts\<close>), stated over every
  reachable state of the processes sharing the database.  \<open>demo_run\<close> is a concrete process on which each
  property is instantiated; \<open>demo_eval\<close> evaluates it.
\<close>

section \<open>Control requests only get handled\<close>

definition unhandled_for :: "string \<Rightarrow> job_store \<Rightarrow> ctl_row set" where
  "unhandled_for ow s = {c \<in> set (js_ctl s). c_handledAt c = None \<and>
     (case get_job (c_jobId c) s of None \<Rightarrow> False | Some j \<Rightarrow> owner_of (j_owner j) = ow)}"

definition ctl_le :: "job_store \<Rightarrow> job_store \<Rightarrow> bool" where
  "ctl_le s s' \<longleftrightarrow>
     (\<forall>c \<in> set (js_ctl s'). c_handledAt c = None \<longrightarrow> c \<in> set (js_ctl s)) \<and>
     (\<forall>i. map_option j_owner (get_job i s') = map_option j_owner (get_job i s))"

lemma set_pendingControlRequests: "set (pendingControlRequests ow s) = unhandled_for ow s"
  by (auto simp: pendingControlRequests_def unhandled_for_def)

lemma ctl_le_refl [simp]: "ctl_le s s"
  by (simp add: ctl_le_def)

lemma ctl_le_trans: "ctl_le a b \<Longrightarrow> ctl_le b c \<Longrightarrow> ctl_le a c"
  by (auto simp: ctl_le_def)

lemma ctl_le_unhandled:
  assumes "ctl_le s s'"
  shows "unhandled_for ow s' \<subseteq> unhandled_for ow s"
proof
  fix c assume c: "c \<in> unhandled_for ow s'"
  have "map_option j_owner (get_job (c_jobId c) s') = map_option j_owner (get_job (c_jobId c) s)"
    using assms by (simp add: ctl_le_def)
  moreover have "c \<in> set (js_ctl s)" using c assms by (auto simp: unhandled_for_def ctl_le_def)
  ultimately show "c \<in> unhandled_for ow s"
    using c by (cases "get_job (c_jobId c) s"; cases "get_job (c_jobId c) s'") (auto simp: unhandled_for_def)
qed

lemma ctl_kept [simp]:
  "js_ctl (markRunning now i s) = js_ctl s" "js_ctl (markAwaitingInput i ptext orig idx s) = js_ctl s"
  "js_ctl (markFinished now i res s) = js_ctl s"
  by (simp_all add: markRunning_def markAwaitingInput_def markFinished_def)

lemma ctl_le_mark [simp]:
  "ctl_le s (markRunning now i s)" "ctl_le s (markAwaitingInput i ptext orig idx s)"
  "ctl_le s (markFinished now i res s)"
  by (auto simp: ctl_le_def row_simps running_row_def awaiting_row_def finished_row_def option.map_comp comp_def)

lemma ctl_le_handled [simp]: "ctl_le s (markControlRequestHandled now i res s)"
  by (auto simp: ctl_le_def row_simps) (auto simp: markControlRequestHandled_def sql_update_def handled_ctl_def split: if_splits)

lemma ctl_le_closeStale [simp]: "ctl_le s (closeStaleControlRequests now alive s)"
proof -
  have "c \<in> set (js_ctl s)"
    if "c \<in> set (fold (\<lambda>i. sql_update c_id i (handled_ctl now NotApplicable)) ids (js_ctl s))" "c_handledAt c = None"
    for c ids
    using that
  proof (induction ids arbitrary: c rule: rev_induct)
    case (snoc i ids)
    then show ?case by (auto simp: sql_update_def handled_ctl_def split: if_splits)
  qed simp
  then have "\<forall>c \<in> set (js_ctl (closeStaleControlRequests now alive s)). c_handledAt c = None \<longrightarrow> c \<in> set (js_ctl s)"
    by (auto simp: closeStaleControlRequests_def Let_def)
  then show ?thesis by (simp add: ctl_le_def row_simps)
qed

lemma ctl_le_finishCleanup:
  "ctl_le s (w_store w) \<Longrightarrow> ctl_le s (w_store (fst (finishCleanup now alive i (w, r))))"
  by (simp add: finishCleanup_def Let_def ctl_le_trans [OF _ ctl_le_closeStale])

lemma ctl_le_cancel: "ctl_le (w_store w) (w_store (fst (fst (cancel now alive i (w, r)))))"
  by (cases "jm_has (r_controllers r) i"; cases "i \<in> set (r_started r)")
    (simp_all add: cancel_absent cancel_started cancel_queued ctl_le_finishCleanup)

lemma ctl_le_applyRequest:
  "applyRequest now alive writable req (w, r) = Inr ((w', r'), b) \<Longrightarrow> ctl_le (w_store w) (w_store w')"
  using ctl_le_cancel [of w now alive "c_jobId req" r]
  by (auto simp: applyRequest_def answerPrompt_def dismissPrompt_def onPromptCleared_def Let_def
      split: control_action.splits if_splits)

definition handled_id :: "nat \<Rightarrow> job_store \<Rightarrow> bool" where
  "handled_id i s \<longleftrightarrow> (\<forall>c \<in> set (js_ctl s). c_id c = i \<longrightarrow> c_handledAt c \<noteq> None)"

lemma handled_ctl_simps [simp]:
  "c_handledAt (handled_ctl now res c) = Some now" "c_id (handled_ctl now res c) = c_id c"
  by (simp_all add: handled_ctl_def)

lemma handled_id_mark: "handled_id i (markControlRequestHandled now i res s)"
  unfolding handled_id_def
proof (intro ballI impI)
  fix c assume c: "c \<in> set (js_ctl (markControlRequestHandled now i res s))" and i: "c_id c = i"
  have "c \<in> (\<lambda>r. if c_id r = i then handled_ctl now res r else r) ` set (js_ctl s)"
    using c by (simp add: markControlRequestHandled_def set_sql_update del: if_image_distrib)
  then obtain c0 where "c = (if c_id c0 = i then handled_ctl now res c0 else c0)" by (rule imageE)
  with i show "c_handledAt c \<noteq> None" by (cases "c_id c0 = i") simp_all
qed

lemma ctl_le_handled_id: "ctl_le s s' \<Longrightarrow> handled_id i s \<Longrightarrow> handled_id i s'"
  by (auto simp: ctl_le_def handled_id_def)

lemma processRequest_handles:
  "ctl_le (w_store w) (w_store (fst (processRequest now alive writable req (w, r)))) \<and>
   handled_id (c_id req) (w_store (fst (processRequest now alive writable req (w, r))))"
proof (cases "applyRequest now alive writable req (w, r)")
  case (Inl m)
  then show ?thesis by (simp add: processRequest_def handled_id_mark)
next
  case (Inr x)
  obtain w1 r1 b where x: "x = ((w1, r1), b)" by (metis surj_pair)
  show ?thesis
    using ctl_le_applyRequest [OF Inr [unfolded x]] Inr x ctl_le_trans [OF _ ctl_le_handled]
    by (auto simp: processRequest_def Let_def handled_id_mark split: option.splits)
qed

lemma fold_processRequest_handles:
  "ctl_le (w_store (fst p)) (w_store (fst (fold (processRequest now alive writable) reqs p))) \<and>
   (\<forall>req \<in> set reqs. handled_id (c_id req) (w_store (fst (fold (processRequest now alive writable) reqs p))))"
proof (induction reqs arbitrary: p)
  case (Cons req reqs)
  obtain w r where p: "p = (w, r)" by (cases p)
  note step = processRequest_handles [of w now alive writable req r]
  from Cons.IH [of "processRequest now alive writable req p"] step show ?case
    unfolding p by (auto intro: ctl_le_trans ctl_le_handled_id)
qed simp

lemma pending_drained:
  "pendingControlRequests (r_owner r) (w_store (fst (processControlRequests now alive writable (w, r)))) = []"
proof -
  let ?w1 = "on_store (closeStaleControlRequests now alive) w"
  let ?reqs = "pendingControlRequests (r_owner r) (w_store ?w1)"
  let ?s = "w_store (fst (fold (processRequest now alive writable) ?reqs (?w1, r)))"
  have "unhandled_for (r_owner r) ?s \<subseteq> unhandled_for (r_owner r) (w_store ?w1)"
    using fold_processRequest_handles [of "(?w1, r)" now alive writable ?reqs] ctl_le_unhandled by simp
  moreover have "c \<notin> unhandled_for (r_owner r) ?s" if "c \<in> set ?reqs" for c
    using fold_processRequest_handles [of "(?w1, r)" now alive writable ?reqs] that
    by (auto simp: handled_id_def unhandled_for_def)
  ultimately have "unhandled_for (r_owner r) ?s = {}"
    by (auto simp: set_pendingControlRequests)
  then show ?thesis
    using set_pendingControlRequests [of "r_owner r" ?s] by (simp add: processControlRequests_def Let_def)
qed

lemma isOrphanFor_iff:
  "isOrphanFor rowOwner caller alive \<longleftrightarrow> owner_of rowOwner = caller \<or> dead_mcp alive (owner_of rowOwner)"
  by (simp add: isOrphanFor_def Let_def)

section \<open>A concrete process\<close>

definition demo_local :: "ms \<Rightarrow> local_fields" where
  "demo_local t = \<lparr>lf_year = 2026, lf_month = 6, lf_day = 3, lf_hours = 0, lf_minutes = 0, lf_seconds = 0,
     lf_millis = nat t\<rparr>"

definition demo_job :: job_def where
  "demo_job = \<lparr>d_command = ''install-app'', d_category = Provisioning, d_target = None, d_argsJson = '''',
     d_expectedPrompts = None, d_triggeredByUsername = None, d_triggeredByImpersonating = None,
     d_triggeredVia = None\<rparr>"

definition demo_start :: proc where
  "demo_start = reconcileOrphanedJobs 0 (\<lambda>_. True)
     (\<lparr>w_store = empty_store, w_log = (\<lambda>_. ''''), w_events = [], w_stdin = [], w_warnings = []\<rparr>,
      new_runner ''web'')"

definition demo_run :: "proc_event list \<Rightarrow> proc" where
  "demo_run evs = fold (proc_step demo_local (\<lambda>_. True) (\<lambda>_. True)) evs demo_start"

lemma live_all: "live (\<lambda>_. True) rs"
  by (auto simp: live_def dead_mcp_def split: option.splits)

lemma demo_reachable: "reachable demo_local (fst (demo_run evs), [snd (demo_run evs)])"
proof (induction evs rule: rev_induct)
  case Nil
  have "sys_step demo_local (\<lparr>w_store = empty_store, w_log = (\<lambda>_. ''''), w_events = [], w_stdin = [], w_warnings = []\<rparr>, [])
      (fst demo_start, [] @ [snd demo_start])"
    by (rule sys_step.spawn [of "''web''" _ "\<lambda>_. True" 0])
      (simp_all add: live_all demo_start_def)
  from reachable.step [OF reachable.start this] show ?case by (simp add: demo_run_def)
next
  case (snoc ev evs)
  have "sys_step demo_local (fst (demo_run evs), [snd (demo_run evs)])
      (fst (demo_run (evs @ [ev])), [snd (demo_run evs)][0 := snd (demo_run (evs @ [ev]))])"
    by (rule sys_step.act [where alive = "\<lambda>_. True" and writable = "\<lambda>_. True" and ev = ev
          and m = "js_lastLogFileMs (w_store (fst (demo_run evs)))"])
      (simp_all add: live_all demo_run_def)
  from reachable.step [OF snoc.IH this] show ?case by simp
qed

lemma demo_proc_inv: "proc_inv (demo_run evs)"
  using reachable_proc [OF demo_reachable, of "snd (demo_run evs)" evs] by simp

definition demo_evs :: "proc_event list" where
  "demo_evs = [PEnqueue 5 demo_job, PEnqueue 6 demo_job, PEnqueue 7 demo_job, PStart 8,
     PDetected ''Continue? '' [] OHeuristic None]"

lemmas demo_eval = demo_run_def demo_evs_def demo_start_def demo_job_def demo_local_def Let_def
  enqueue_def createJob_def get_job_def sql_find_def sql_update_def executeStart_def onPromptDetected_def
  onPromptCleared_def emit_def emitLogChunk_def on_store_def markRunning_def markAwaitingInput_def running_row_def
  awaiting_row_def reconcileOrphanedJobs_def interruptOrphaned_def closeStaleControlRequests_def empty_store_def
  new_runner_def jm_set_def jm_delete_def jm_get_def jm_has_def js_add_def js_remove_def cancel_def
  finishCleanup_def clearAbandon_def markFinished_def finished_row_def cancelled_result_def executeEnd_def
  answerPrompt_def dismissPrompt_def own_row_def owner_of_def memory_view_def active_view_def
  createControlRequest_def processControlRequests_def pendingControlRequests_def processRequest_def applyRequest_def
  markControlRequestHandled_def handled_ctl_def stale_request_def terminal_statuses_def active_statuses_def

lemma demo_log_name: "formatLogFileName (demo_local 5) = ''2026-07-03_00-00-00-005''"
  by code_simp

section \<open>Properties\<close>





text \<open>
  The control-request poller of a live runner is armed exactly while the runner has an active row.
\<close>

theorem poller_runs_iff_jobs_active:
  assumes "reachable local (w, rs)" and "r \<in> set rs"
  shows "r_poller r \<longleftrightarrow> (\<exists>i st. active_view (r_owner r) (w_store w) i = Some st)"
proof -
  have inv: "proc_inv (w, r)" using reachable_proc [OF assms] .
  have "r_poller r \<longleftrightarrow> r_controllers r \<noteq> []" using proc_invD(2) [OF inv] by (simp add: runner_wf_def)
  also have "\<dots> \<longleftrightarrow> (\<exists>i. jm_has (r_controllers r) i)" by (cases "r_controllers r") (auto simp: jm_has_dom)
  also have "\<dots> \<longleftrightarrow> (\<exists>i st. memory_view r i = Some st)" by (simp add: memory_view_some)
  finally show ?thesis by (simp add: proc_inv_views [OF inv])
qed

theorem poller_runs_iff_jobs_active_witness:
  "\<exists>i st. active_view ''web'' (w_store (fst (demo_run demo_evs))) i = Some st"
proof -
  have "r_poller (snd (demo_run demo_evs)) \<and> r_owner (snd (demo_run demo_evs)) = ''web''" by (simp add: demo_eval)
  then show ?thesis using poller_runs_iff_jobs_active [OF demo_reachable [of demo_evs]] by auto
qed


lemma demo_step: "sys_step demo_local (fst (demo_run evs), [snd (demo_run evs)])
    (fst (demo_run (evs @ [ev])), [snd (demo_run (evs @ [ev]))])"
  using sys_step.act [of 0 "[snd (demo_run evs)]" "\<lambda>_. True" demo_local "\<lambda>_. True" ev "js_lastLogFileMs (w_store (fst (demo_run evs)))"
      "fst (demo_run evs)" "fst (demo_run (evs @ [ev]))" "snd (demo_run (evs @ [ev]))"]
  by (simp add: live_all demo_run_def)


text \<open>
  C4: A method call of one live runner leaves every row of every other owner exactly as it was.
\<close>

theorem other_owners_rows_untouched:
  assumes "reachable local (w, rs)" and "k < length rs"
    and "proc_step local alive writable ev (w, rs ! k) = (w', r')" and "ow \<noteq> r_owner (rs ! k)"
  shows "own_row ow (w_store w') = own_row ow (w_store w)"
  using proc_step_sound [OF reachable_proc [OF assms(1) nth_mem [OF assms(2)]], of local alive writable ev] assms(3,4)
  by (simp add: keeps_def)

theorem other_owners_rows_untouched_witness:
  "own_row ''mcp:7'' (w_store (fst (demo_run (demo_evs @ [PEnd 9 Returned])))) =
   own_row ''mcp:7'' (w_store (fst (demo_run demo_evs)))"
proof -
  have "r_owner (snd (demo_run demo_evs)) = ''web''" by (simp add: demo_eval)
  then show ?thesis
    by (intro other_owners_rows_untouched [OF demo_reachable [of demo_evs], of 0 "\<lambda>_. True" "\<lambda>_. True" "PEnd 9 Returned"
          _ "snd (demo_run (demo_evs @ [PEnd 9 Returned]))"]) (simp_all add: demo_run_def)
qed

text \<open>
  A process that starts closes out what its predecessor left: every active row of its own owner, and
  every active row of an MCP process that is gone, becomes interrupted; every other row, those of the
  live processes included, is unchanged.
\<close>

theorem startup_interrupts_orphans:
  assumes "reachable local (w, rs)" and "live alive rs" and "ow \<notin> r_owner ` set rs"
    and "reconcileOrphanedJobs now alive (w, new_runner ow) = (w', r')"
  shows "get_job i (w_store w') = map_option (\<lambda>row.
           if j_status row \<in> {Queued, Running, AwaitingInput} \<and>
              (owner_of (j_owner row) = ow \<or> dead_mcp alive (owner_of (j_owner row)))
           then interrupted_row now row else row) (get_job i (w_store w)) \<and>
     (\<forall>r \<in> set rs. own_row (r_owner r) (w_store w') = own_row (r_owner r) (w_store w))"
proof
  have wf: "store_wf (w_store w)" using reachable_inv [OF assms(1)] by (simp add: sys_inv_def)
  have w': "w' = fst (reconcileOrphanedJobs now alive (w, new_runner ow))" using assms(4) by simp
  have ow: "r_owner (new_runner ow) = ow" by (simp add: new_runner_def)
  show "get_job i (w_store w') = map_option (\<lambda>row.
           if j_status row \<in> {Queued, Running, AwaitingInput} \<and>
              (owner_of (j_owner row) = ow \<or> dead_mcp alive (owner_of (j_owner row)))
           then interrupted_row now row else row) (get_job i (w_store w))"
    unfolding w' reconcile_store
    by (simp add: row_simps get_interruptOrphaned [OF wf] isOrphanFor_iff ow active_statuses_def)
  have "r_owner r \<noteq> ow \<and> \<not> dead_mcp alive (r_owner r)" if "r \<in> set rs" for r
    using assms(2,3) that by (auto simp: live_def)
  then show "\<forall>r \<in> set rs. own_row (r_owner r) (w_store w') = own_row (r_owner r) (w_store w)"
    unfolding w' by (auto intro!: own_row_reconcile [OF wf] simp: ow)
qed

theorem startup_interrupts_orphans_witness:
  "case get_job 1 (w_store (fst (reconcileOrphanedJobs 20 (\<lambda>_. True)
     (fst (demo_run demo_evs), new_runner ''web'')))) of None \<Rightarrow> False | Some row \<Rightarrow> j_status row = Interrupted"
proof -
  let ?w = "fst (demo_run demo_evs)"
  have r: "reachable demo_local (?w, [])"
    using reachable.step [OF demo_reachable sys_step.crash [of demo_local ?w "[snd (demo_run demo_evs)]" 0]] by simp
  have l: "live (\<lambda>_. True) []" "''web'' \<notin> r_owner ` set []" by (simp_all add: live_def)
  have "get_job 1 (w_store ?w) \<noteq> None \<and> j_status (the (get_job 1 (w_store ?w))) = AwaitingInput \<and>
    owner_of (j_owner (the (get_job 1 (w_store ?w)))) = ''web''" by (simp add: demo_eval)
  then show ?thesis
    using startup_interrupts_orphans [OF r l surjective_pairing, where now = 20 and i = 1] by (auto simp: interrupted_row_def)
qed

text \<open>
  \<open>cancel\<close> reports whether the runner has the job active; a queued job is finished as cancelled at
  once and its controller dropped, a running one is only signalled to abort, any other id is left alone.
\<close>

theorem cancel_by_status:
  assumes "reachable local (w, rs)" and "r \<in> set rs" and "cancel now alive i (w, r) = ((w', r'), found)"
  shows "case active_view (r_owner r) (w_store w) i of
      None \<Rightarrow> \<not> found \<and> w' = w \<and> r' = r
    | Some Queued \<Rightarrow> found \<and> \<not> jm_has (r_controllers r') i \<and>
        get_job i (w_store w') = map_option (finished_row now cancelled_result) (get_job i (w_store w)) \<and>
        w_events w' = w_events w @ [EvChunk i Stderr ''Job cancelled by operator'', EvStatus i Cancelled]
    | Some _ \<Rightarrow> found \<and> w' = w \<and> jm_get (r_controllers r') i = Some True"
proof -
  have inv: "proc_inv (w, r)" using reachable_proc [OF assms(1,2)] .
  note view = proc_inv_views [OF inv, of i]
  show ?thesis
  proof (cases "jm_has (r_controllers r) i")
    case False
    then show ?thesis using assms(3) view by (simp add: cancel_absent memory_view_def)
  next
    case has: True
    show ?thesis
    proof (cases "i \<in> set (r_started r)")
      case True
      then show ?thesis
        using has assms(3) view by (auto simp: cancel_started memory_view_def row_simps)
    next
      case False
      obtain a where "get_job i (w_store w) = Some a" using proc_inv_active_row [OF inv has] by blast
      then have ev: "w_events (cancel_queued_world now i w) =
          w_events w @ [EvChunk i Stderr ''Job cancelled by operator'', EvStatus i Cancelled]"
        by (simp add: cancel_queued_world_def)
      from False has have c: "w' = fst (finishCleanup now alive i (cancel_queued_world now i w,
            r\<lparr>r_controllers := jm_set i True (r_controllers r)\<rparr>))"
        "r' = snd (finishCleanup now alive i (cancel_queued_world now i w,
            r\<lparr>r_controllers := jm_set i True (r_controllers r)\<rparr>))" found
        using assms(3) by (auto simp: cancel_queued)
      have "w_events w' = w_events (cancel_queued_world now i w)"
        unfolding c(1) by (simp add: finishCleanup_def Let_def)
      then show ?thesis
        using c(3) False has view ev
        by (simp add: memory_view_def c(1,2) finishCleanup_facts row_simps)
    qed
  qed
qed

theorem cancel_by_status_witness:
  "(let ((w', r'), found) = cancel 9 (\<lambda>_. True) 2 (demo_run demo_evs)
    in found \<and> \<not> jm_has (r_controllers r') 2 \<and>
       get_job 2 (w_store w') = map_option (finished_row 9 cancelled_result)
         (get_job 2 (w_store (fst (demo_run demo_evs)))))"
proof -
  obtain w' r' found where c: "cancel 9 (\<lambda>_. True) 2 (demo_run demo_evs) = ((w', r'), found)" by (metis surj_pair)
  then have c': "cancel 9 (\<lambda>_. True) 2 (fst (demo_run demo_evs), snd (demo_run demo_evs)) = ((w', r'), found)" by simp
  have "active_view (r_owner (snd (demo_run demo_evs))) (w_store (fst (demo_run demo_evs))) 2 = Some Queued"
    by (simp add: demo_eval)
  then show ?thesis using cancel_by_status [OF demo_reachable _ c'] c by simp
qed

text \<open>
  When the running job's \<open>run\<close> settles, its row gets the final status the outcome and the abort
  signal dictate, and the runner forgets the job: nothing is current, and no controller, pending prompt
  or abandon-timer entry for it is left.
\<close>

theorem run_settles_job:
  assumes "reachable local (w, rs)" and "r \<in> set rs" and "r_current r = Some (i, lf)"
    and "executeEnd now alive outcome (w, r) = (w', r')"
  shows "get_job i (w_store w') = map_option (finished_row now (case outcome of
           Returned \<Rightarrow> \<lparr>fi_status = Success, fi_exitCode = 0, fi_errorMessage = None\<rparr>
         | Threw m \<Rightarrow> if jm_get (r_controllers r) i = Some True
             then \<lparr>fi_status = Cancelled, fi_exitCode = 1, fi_errorMessage = Some ''Cancelled by operator''\<rparr>
             else \<lparr>fi_status = Failed, fi_exitCode = 1, fi_errorMessage = Some m\<rparr>)) (get_job i (w_store w)) \<and>
    r_current r' = None \<and> \<not> jm_has (r_controllers r') i \<and> r_started r' = [] \<and> r_pendingPrompts r' = [] \<and>
    r_abandon r' = []"
proof -
  have inv: "proc_inv (w, r)" using reachable_proc [OF assms(1,2)] .
  have e: "w' = fst (executeEnd now alive outcome (w, r))" "r' = snd (executeEnd now alive outcome (w, r))"
    using assms(4) by simp_all
  have inv': "proc_inv (w', r')" using executeEnd_inv [OF inv, of now alive outcome] assms(4) by simp
  have cur: "r_current r' = None" unfolding e by (simp add: executeEnd_eq [OF assms(3)] finishCleanup_facts)
  have "r_started r' = []" "r_pendingPrompts r' = []"
    using runner_wf_idle [OF proc_invD(2) [OF inv'] cur] by simp_all
  moreover have "r_abandon r' = []" using proc_invD(2) [OF inv'] calculation by (simp add: runner_wf_def)
  moreover have "\<not> jm_has (r_controllers r') i"
    unfolding e by (simp add: executeEnd_eq [OF assms(3)] finishCleanup_facts row_simps)
  moreover have "get_job i (w_store w') = map_option (finished_row now
      (end_result (jm_get (r_controllers r) i = Some True) outcome)) (get_job i (w_store w))"
    unfolding e by (simp add: executeEnd_eq [OF assms(3)] finishCleanup_facts row_simps)
  ultimately show ?thesis using cur by (auto simp: end_result_def split: run_outcome.splits)
qed

theorem run_settles_job_witness:
  "case get_job 1 (w_store (fst (executeEnd 9 (\<lambda>_. True) (Threw ''boom'') (demo_run demo_evs)))) of
     None \<Rightarrow> False | Some row \<Rightarrow> j_status row = Failed \<and> j_errorMessage row = Some ''boom''"
proof -
  let ?p = "demo_run demo_evs"
  have c: "r_current (snd ?p) = Some (1, snd (the (r_current (snd ?p))))" "jm_get (r_controllers (snd ?p)) 1 = Some False"
    by (simp_all add: demo_eval)
  have "get_job 1 (w_store (fst ?p)) \<noteq> None" by (simp add: demo_eval)
  then show ?thesis
    using run_settles_job [OF demo_reachable [of demo_evs] _ c(1) surjective_pairing, of 9 "\<lambda>_. True" "Threw ''boom''"] c(2)
    by (auto simp: finished_row_def)
qed

text \<open>
  Jobs start in the order they were enqueued: the job a runner takes up next has the smallest id of
  all its queued rows.
\<close>

theorem jobs_start_in_order:
  assumes "reachable local (w, rs)" and "r \<in> set rs" and "r_current r = None"
    and "executeStart now (w, r) = (w', r')" and "r_current r' = Some (i, lf)"
    and "own_row (r_owner r) (w_store w) j = Some b" and "j_status b = Queued"
  shows "active_view (r_owner r) (w_store w) i = Some Queued \<and> i \<le> j"
proof -
  have inv: "proc_inv (w, r)" using reachable_proc [OF assms(1,2)] .
  note wf = proc_invD(2) [OF inv]
  obtain q where q: "r_queue r = (i, lf) # q" "jm_has (r_controllers r) i"
    using assms(3-5) by (auto simp: executeStart_def split: list.splits if_splits)
  have idle: "r_started r = []" using runner_wf_idle [OF wf assms(3)] by simp
  have "memory_view r j = Some Queued"
    using assms(6,7) proc_inv_views [OF inv, of j] by (simp add: active_view_def active_statuses_def)
  then have "jm_has (r_controllers r) j" by (simp add: memory_view_some)
  then have "j \<in> fst ` set (r_queue r)" using wf idle by (auto simp: runner_wf_def)
  then have "i \<le> j" using wf assms(3) q(1) by (fastforce simp: runner_wf_def)
  moreover have "active_view (r_owner r) (w_store w) i = Some Queued"
    using proc_inv_views [OF inv, of i] q(2) idle by (simp add: memory_view_def)
  ultimately show ?thesis by simp
qed

definition two_queued :: "proc_event list" where
  "two_queued = [PEnqueue 5 demo_job, PEnqueue 6 demo_job]"

theorem jobs_start_in_order_witness:
  "fst (the (r_current (snd (executeStart 8 (demo_run two_queued))))) \<le> 2"
proof -
  let ?p = "demo_run two_queued"
  let ?b = "the (own_row ''web'' (w_store (fst ?p)) 2)"
  let ?c = "the (r_current (snd (executeStart 8 ?p)))"
  have b: "own_row (r_owner (snd ?p)) (w_store (fst ?p)) 2 = Some ?b" "j_status ?b = Queued" "r_current (snd ?p) = None"
    "r_current (snd (executeStart 8 ?p)) \<noteq> None"
    by (simp_all add: demo_eval two_queued_def)
  have c: "r_current (snd (executeStart 8 ?p)) = Some (fst ?c, snd ?c)" using b(4) by auto
  show ?thesis
    using jobs_start_in_order [OF demo_reachable [of two_queued] _ b(3) surjective_pairing _ b(1,2), of 8 "fst ?c" "snd ?c"] c
    by simp
qed

text \<open>
  C5: One poll drains the requests addressed to the runner: afterwards none is pending for its jobs, and
  no handled request still carries an answer's text.
\<close>

theorem poll_drains_requests:
  assumes "reachable local (w, rs)" and "r \<in> set rs"
    and "processControlRequests now alive writable (w, r) = (w', r')"
  shows "pendingControlRequests (r_owner r) (w_store w') = [] \<and>
    (\<forall>c \<in> set (js_ctl (w_store w')). c_handledAt c \<noteq> None \<longrightarrow> c_text c = None)"
proof -
  have "proc_inv (w', r')"
    using processControlRequests_inv [OF reachable_proc [OF assms(1,2)], of now alive writable] assms(3) by simp
  then have "list_all ctl_ok (js_ctl (w_store w'))" using proc_invD(1) by (simp add: store_wf_def)
  then show ?thesis
    using pending_drained [of r now alive writable w] assms(3) by (auto simp: list_all_iff ctl_ok_def)
qed

definition answer_pending :: "proc_event list" where
  "answer_pending = [PEnqueue 5 demo_job, PStart 6, PDetected ''Password:'' [] OHeuristic None,
     PRequest 7 \<lparr>cc_jobId = 1, cc_action = AAnswer, cc_text = Some ''s3cret'',
       cc_requestedByOwner = ''mcp:http'', cc_requestedByUsername = None\<rparr>]"

theorem poll_drains_requests_witness:
  "length (pendingControlRequests ''web'' (w_store (fst (demo_run answer_pending)))) = 1 \<and>
   pendingControlRequests ''web''
     (w_store (fst (processControlRequests 8 (\<lambda>_. True) (\<lambda>_. True) (demo_run answer_pending)))) = []"
proof -
  have "r_owner (snd (demo_run answer_pending)) = ''web''"
    "length (pendingControlRequests ''web'' (w_store (fst (demo_run answer_pending)))) = 1"
    by (simp_all add: demo_eval answer_pending_def)
  then show ?thesis
    using poll_drains_requests [OF demo_reachable [of answer_pending] _ surjective_pairing,
        where now = 8 and alive = "\<lambda>_. True" and writable = "\<lambda>_. True"] by simp
qed

end
