(* ===== verification/Job_Control.thy ===== *)
theory Job_Control
  imports Job_Theorems
begin

text \<open>
  \<open>src/src/web/jobs/job-control.ts\<close>: the one place that decides what happens when an operator asks to
  cancel, answer or dismiss a job, from whichever process.  The dependencies the code takes
  (\<open>Pick<JobRunner, ...>\<close> and the store) are the record \<open>control_deps\<close> over an abstract process state; the
  laws the decision rests on are the locale \<open>job_controls\<close>, interpreted on the job runner's model.
\<close>

section \<open>The request\<close>

datatype control_result = CDone | CRequested string | CRefused string

record 'p control_deps =
  cd_owner :: "'p \<Rightarrow> string"
  cd_cancel :: "nat \<Rightarrow> 'p \<Rightarrow> 'p \<times> bool"
  cd_answer :: "nat \<Rightarrow> string \<Rightarrow> 'p \<Rightarrow> string + ('p \<times> bool)"
  cd_dismiss :: "nat \<Rightarrow> 'p \<Rightarrow> 'p \<times> bool"
  cd_create :: "create_ctl_input \<Rightarrow> 'p \<Rightarrow> 'p"

record control_request =
  cr_job :: job_row
  cr_action :: control_action
  cr_text :: "string option"
  cr_requestedByUsername :: "string option"
  cr_requestedByOwner :: "string option"

definition refusalMessage :: "job_row \<Rightarrow> control_action \<Rightarrow> string" where
  "refusalMessage job action =
     (case action of
        ACancel \<Rightarrow> ''Job '' @ show_nat (j_id job) @ '' is already '' @ status_text (j_status job) @
                   '' '' @ em_dash @ '' nothing to cancel''
      | AAnswer \<Rightarrow> ''Job '' @ show_nat (j_id job) @ '' is not awaiting input '' @ em_dash @ '' nothing to answer''
      | ADismiss \<Rightarrow> ''Job '' @ show_nat (j_id job) @ '' is not awaiting input '' @ em_dash @ '' nothing to dismiss'')"

definition actionApplies :: "job_status \<Rightarrow> control_action \<Rightarrow> bool" where
  "actionApplies status action =
     (if action = ACancel then status = Queued \<or> status = Running \<or> status = AwaitingInput
      else status = AwaitingInput)"

text \<open>\<open>Inl\<close> is an exception the runner's \<open>answerPrompt\<close> lets through.\<close>

definition requestJobControl ::
  "'p control_deps \<Rightarrow> (nat \<Rightarrow> bool) \<Rightarrow> control_request \<Rightarrow> 'p \<Rightarrow> string + ('p \<times> control_result)" where
  "requestJobControl deps isPidAlive req p =
     (let job = cr_job req;
          action = cr_action req;
          ow = owner_of (j_owner job)
      in if ow = cd_owner deps p then
           (case (case action of
                    ACancel \<Rightarrow> Inr (cd_cancel deps (j_id job) p)
                  | AAnswer \<Rightarrow> cd_answer deps (j_id job) (case cr_text req of None \<Rightarrow> '''' | Some t \<Rightarrow> t) p
                  | ADismiss \<Rightarrow> Inr (cd_dismiss deps (j_id job) p)) of
              Inl e \<Rightarrow> Inl e
            | Inr (p', applied) \<Rightarrow>
                Inr (p', if applied then CDone else CRefused (refusalMessage job action)))
         else if dead_mcp isPidAlive ow then
           Inr (p, CRefused (''job '' @ show_nat (j_id job) @ [CHR 39] @ ''s owning process '' @ ow @ '' has exited''))
         else if \<not> actionApplies (j_status job) action then
           Inr (p, CRefused (refusalMessage job action))
         else
           Inr (cd_create deps
                  \<lparr>cc_jobId = j_id job, cc_action = action, cc_text = cr_text req,
                   cc_requestedByOwner = (case cr_requestedByOwner req of None \<Rightarrow> cd_owner deps p | Some ow' \<Rightarrow> ow'),
                   cc_requestedByUsername = cr_requestedByUsername req\<rparr> p,
                CRequested ow))"

section \<open>The interface it relies on\<close>

text \<open>
  \<open>status p i\<close> is the status of job \<open>i\<close> among the jobs the process runs, \<open>None\<close> when it runs no such job.
\<close>

locale job_controls =
  fixes deps :: "'p control_deps"
    and ok :: "'p \<Rightarrow> bool"
    and status :: "'p \<Rightarrow> nat \<Rightarrow> job_status option"
  assumes cancel_law: "ok p \<Longrightarrow> cd_cancel deps i p = (p', b) \<Longrightarrow>
      ok p' \<and> (b \<longleftrightarrow> status p i \<noteq> None) \<and> (\<not> b \<longrightarrow> p' = p)"
    and answer_law: "ok p \<Longrightarrow> cd_answer deps i t p = Inr (p', b) \<Longrightarrow>
      ok p' \<and> (b \<longleftrightarrow> status p i = Some AwaitingInput) \<and> (\<not> b \<longrightarrow> p' = p)"
    and dismiss_law: "ok p \<Longrightarrow> cd_dismiss deps i p = (p', b) \<Longrightarrow>
      ok p' \<and> (b \<longleftrightarrow> status p i = Some AwaitingInput) \<and> (\<not> b \<longrightarrow> p' = p)"
    and create_law: "ok p \<Longrightarrow> ok (cd_create deps c p) \<and> status (cd_create deps c p) = status p"
    and active_law: "ok p \<Longrightarrow> status p i = Some st \<Longrightarrow> st \<in> {Queued, Running, AwaitingInput}"
begin

lemma request_ok:
  assumes "ok p" and "requestJobControl deps alive req p = Inr (p', res)"
  shows "ok p'"
  using assms cancel_law [OF assms(1)] answer_law [OF assms(1)] dismiss_law [OF assms(1)] create_law [OF assms(1)]
  by (auto simp: requestJobControl_def Let_def split: control_action.splits sum.splits if_splits prod.splits)

lemma own_job_decision:
  assumes "ok p" and "owner_of (j_owner (cr_job req)) = cd_owner deps p"
    and "requestJobControl deps alive req p = Inr (p', res)"
  shows "res = (if (case status p (j_id (cr_job req)) of None \<Rightarrow> False | Some st \<Rightarrow> actionApplies st (cr_action req))
                then CDone else CRefused (refusalMessage (cr_job req) (cr_action req))) \<and>
    (res \<noteq> CDone \<longrightarrow> p' = p)"
proof (cases "cr_action req")
  case ACancel
  then show ?thesis
    using assms cancel_law [OF assms(1), of "j_id (cr_job req)"] active_law [OF assms(1), of "j_id (cr_job req)"]
    by (auto simp: requestJobControl_def Let_def actionApplies_def split: prod.splits option.splits if_splits)
next
  case AAnswer
  then show ?thesis
    using assms answer_law [OF assms(1), of "j_id (cr_job req)"]
    by (auto simp: requestJobControl_def Let_def actionApplies_def split: prod.splits option.splits if_splits sum.splits)
next
  case ADismiss
  then show ?thesis
    using assms dismiss_law [OF assms(1), of "j_id (cr_job req)"]
    by (auto simp: requestJobControl_def Let_def actionApplies_def split: prod.splits option.splits if_splits)
qed

lemma foreign_job_decision:
  assumes "owner_of (j_owner (cr_job req)) \<noteq> cd_owner deps p"
    and "requestJobControl deps alive req p = Inr (p', res)"
  shows "(res = CRequested (owner_of (j_owner (cr_job req)))) =
      (\<not> dead_mcp alive (owner_of (j_owner (cr_job req))) \<and> actionApplies (j_status (cr_job req)) (cr_action req)) \<and>
    res \<noteq> CDone \<and> ((\<exists>m. res = CRefused m) \<longrightarrow> p' = p)"
  using assms by (auto simp: requestJobControl_def Let_def split: if_splits)

lemma foreign_job_total:
  assumes "owner_of (j_owner (cr_job req)) \<noteq> cd_owner deps p"
  shows "\<exists>p' res. requestJobControl deps alive req p = Inr (p', res)"
  using assms by (auto simp: requestJobControl_def Let_def)

end

section \<open>The job runner provides it\<close>

definition runner_deps :: "ms \<Rightarrow> (nat \<Rightarrow> bool) \<Rightarrow> (nat \<Rightarrow> bool) \<Rightarrow> proc control_deps" where
  "runner_deps now alive writable =
     \<lparr>cd_owner = (\<lambda>p. r_owner (snd p)), cd_cancel = cancel now alive, cd_answer = answerPrompt now writable,
      cd_dismiss = dismissPrompt now,
      cd_create = (\<lambda>c p. (on_store (\<lambda>s. fst (createControlRequest now c s)) (fst p), snd p))\<rparr>"

definition run_status :: "proc \<Rightarrow> nat \<Rightarrow> job_status option" where
  "run_status p = active_view (r_owner (snd p)) (w_store (fst p))"

lemma pending_iff_awaiting:
  "proc_inv (w, r) \<Longrightarrow> i \<in> set (r_pendingPrompts r) \<longleftrightarrow> run_status (w, r) i = Some AwaitingInput"
proof -
  assume inv: "proc_inv (w, r)"
  have "i \<in> set (r_pendingPrompts r) \<Longrightarrow> i \<in> set (r_started r) \<and> jm_has (r_controllers r) i"
    using runner_wf_pending [OF proc_invD(2) [OF inv]] proc_inv_current [OF inv] by fastforce
  then show ?thesis by (auto simp: run_status_def proc_inv_views [OF inv] memory_view_def)
qed

interpretation runner_controls: job_controls "runner_deps now alive writable" proc_inv run_status
  for now alive writable
proof
  fix p p' :: proc and i b
  assume ok: "proc_inv p" and c: "cd_cancel (runner_deps now alive writable) i p = (p', b)"
  obtain w r where p: "p = (w, r)" by (cases p)
  show "proc_inv p' \<and> (b \<longleftrightarrow> run_status p i \<noteq> None) \<and> (\<not> b \<longrightarrow> p' = p)"
    using cancel_inv [of w r now alive i] cancel_snd [of now alive i w r] cancel_absent [of r i now alive w] c ok
    unfolding p by (auto simp: runner_deps_def run_status_def proc_inv_views memory_view_some)
next
  fix p p' :: proc and i t b
  assume ok: "proc_inv p" and c: "cd_answer (runner_deps now alive writable) i t p = Inr (p', b)"
  obtain w r where p: "p = (w, r)" by (cases p)
  have c': "answerPrompt now writable i t (w, r) = Inr (p', b)" using c by (simp add: runner_deps_def p)
  show "proc_inv p' \<and> (b \<longleftrightarrow> run_status p i = Some AwaitingInput) \<and> (\<not> b \<longrightarrow> p' = p)"
    using answerPrompt_inv [OF ok [unfolded p] c'] c' pending_iff_awaiting [OF ok [unfolded p], of i]
    unfolding p by (auto simp: answerPrompt_def split: if_splits)
next
  fix p p' :: proc and i b
  assume ok: "proc_inv p" and c: "cd_dismiss (runner_deps now alive writable) i p = (p', b)"
  obtain w r where p: "p = (w, r)" by (cases p)
  have c': "dismissPrompt now i (w, r) = (p', b)" using c by (simp add: runner_deps_def p)
  show "proc_inv p' \<and> (b \<longleftrightarrow> run_status p i = Some AwaitingInput) \<and> (\<not> b \<longrightarrow> p' = p)"
    using dismissPrompt_inv [OF ok [unfolded p], of now i] c' pending_iff_awaiting [OF ok [unfolded p], of i]
    unfolding p by (auto simp: dismissPrompt_def split: if_splits)
next
  fix p :: proc and c
  assume ok: "proc_inv p"
  obtain w r where p: "p = (w, r)" by (cases p)
  show "proc_inv (cd_create (runner_deps now alive writable) c p) \<and>
      run_status (cd_create (runner_deps now alive writable) c p) = run_status p"
    using ok unfolding p
    by (simp add: runner_deps_def run_status_def proc_inv_def store_wf_createControlRequest known_jobs_def row_simps)
next
  fix p :: proc and i st
  assume "proc_inv p" "run_status p i = Some st"
  then show "st \<in> {Queued, Running, AwaitingInput}"
    by (auto simp: run_status_def active_view_def active_statuses_def split: option.splits if_splits)
qed

section \<open>A poll carries a cancel request out\<close>

definition stopped :: "nat \<Rightarrow> runner \<Rightarrow> bool" where
  "stopped i r \<longleftrightarrow> jm_get (r_controllers r) i \<noteq> Some False"

lemma cleared_controllers [simp]: "r_controllers (snd (onPromptCleared now j (w, r))) = r_controllers r"
  by (simp add: onPromptCleared_def Let_def)

lemma cancel_controllers:
  "stopped i r \<or> i = j \<Longrightarrow> stopped i (snd (fst (cancel now alive j (w, r))))"
  by (auto simp: stopped_def cancel_def Let_def finishCleanup_runner row_simps jm_has_get)

lemma applyRequest_stopped:
  assumes "applyRequest now alive writable req (w, r) = Inr ((w', r'), b)"
    and "stopped i r \<or> (c_action req = ACancel \<and> c_jobId req = i)"
  shows "stopped i r'"
proof (cases "c_action req")
  case ACancel
  then show ?thesis
    using assms cancel_controllers [of i r "c_jobId req" now alive w] by (auto simp: applyRequest_def)
next
  case AAnswer
  then have "r_controllers r' = r_controllers r"
    using assms(1) by (auto simp: applyRequest_def answerPrompt_def split: if_splits) (metis cleared_controllers snd_conv)
  then show ?thesis using assms(2) AAnswer by (simp add: stopped_def)
next
  case ADismiss
  then have "r_controllers r' = r_controllers r"
    using assms(1)
    by (auto simp: applyRequest_def dismissPrompt_def split: if_splits) (metis cleared_controllers snd_conv)
  then show ?thesis using assms(2) ADismiss by (simp add: stopped_def)
qed

lemma processRequest_stopped:
  assumes "stopped i r \<or> (c_action req = ACancel \<and> c_jobId req = i)"
  shows "stopped i (snd (processRequest now alive writable req (w, r)))"
proof (cases "jm_has (r_controllers r) (c_jobId req)")
  case False
  then show ?thesis using assms by (auto simp: processRequest_def stopped_def jm_has_get)
next
  case True
  show ?thesis
  proof (cases "applyRequest now alive writable req (w, r)")
    case (Inl m)
    then show ?thesis using assms True by (auto simp: processRequest_def applyRequest_def split: control_action.splits)
  next
    case (Inr x)
    obtain w1 r1 b where x: "x = ((w1, r1), b)" by (metis surj_pair)
    show ?thesis
      using applyRequest_stopped [OF Inr [unfolded x] assms] True Inr x
      by (auto simp: processRequest_def Let_def split: option.splits)
  qed
qed

lemma fold_stopped:
  "stopped i (snd p) \<or> (\<exists>req \<in> set reqs. c_action req = ACancel \<and> c_jobId req = i) \<Longrightarrow>
   stopped i (snd (fold (processRequest now alive writable) reqs p))"
proof (induction reqs arbitrary: p)
  case (Cons req reqs)
  obtain w r where p: "p = (w, r)" by (cases p)
  show ?case
    using Cons.IH [of "processRequest now alive writable req p"] Cons.prems processRequest_stopped [of i r req now alive writable w]
    unfolding p by auto
qed simp

lemma terminal_not_held:
  assumes "proc_inv (w, r)" and "get_job i (w_store w) = Some j" and "j_status j \<in> set terminal_statuses"
  shows "stopped i r"
proof -
  have "active_view (r_owner r) (w_store w) i = None"
    using assms(2,3) by (auto simp: active_view_def own_row_def active_iff_not_terminal)
  then have "\<not> jm_has (r_controllers r) i" using proc_inv_views [OF assms(1), of i] by (simp add: memory_view_some)
  then show ?thesis by (simp add: stopped_def jm_has_get)
qed

lemma kept_pending_after_sweep:
  assumes "c \<in> unhandled_for ow s" and "store_wf s" and "\<not> stale_request alive s c"
  shows "c \<in> unhandled_for ow (closeStaleControlRequests now alive s)"
  using assms by (auto simp: unhandled_for_def closeStale_ctl row_simps)

lemma pending_sorted:
  assumes "store_wf s"
  shows "pendingControlRequests ow s = filter (\<lambda>c. c_handledAt c = None \<and>
     (case get_job (c_jobId c) s of None \<Rightarrow> False | Some j \<Rightarrow> owner_of (j_owner j) = ow)) (js_ctl s)"
proof -
  have "sorted (map c_id (js_ctl s))" using assms by (simp add: store_wf_def strict_sorted_imp_sorted)
  then have "sorted (map c_id (filter P (js_ctl s)))" for P by (rule sorted_filter)
  then show ?thesis by (simp add: pendingControlRequests_def sort_key_id_if_sorted)
qed

section \<open>Properties\<close>

text \<open>
  For a job the requesting process runs itself, \<open>requestJobControl\<close> answers done exactly when the
  action applies to the status of the job's row at that moment, and otherwise refuses with the action's
  message and changes nothing.
\<close>

theorem own_job_control:
  assumes "reachable local (w, rs)" and "r \<in> set rs"
    and "owner_of (j_owner (cr_job req)) = r_owner r"
    and "requestJobControl (runner_deps now alive writable) alive req (w, r) = Inr (p', res)"
  shows "res = (if (case active_view (r_owner r) (w_store w) (j_id (cr_job req)) of
                      None \<Rightarrow> False | Some st \<Rightarrow> actionApplies st (cr_action req))
                then CDone else CRefused (refusalMessage (cr_job req) (cr_action req))) \<and>
    (res \<noteq> CDone \<longrightarrow> p' = (w, r))"
  using runner_controls.own_job_decision [OF reachable_proc [OF assms(1,2)] _ assms(4)] assms(3)
  by (simp add: run_status_def runner_deps_def)

definition demo_request :: "control_action \<Rightarrow> nat \<Rightarrow> proc \<Rightarrow> control_request" where
  "demo_request action i p =
     \<lparr>cr_job = the (get_job i (w_store (fst p))), cr_action = action, cr_text = None,
      cr_requestedByUsername = Some ''root'', cr_requestedByOwner = None\<rparr>"

theorem own_job_control_witness:
  "\<exists>p'. requestJobControl (runner_deps 9 (\<lambda>_. True) (\<lambda>_. True)) (\<lambda>_. True)
     (demo_request ADismiss 2 (demo_run demo_evs)) (demo_run demo_evs) =
     Inr (p', CRefused (''Job 2 is not awaiting input '' @ em_dash @ '' nothing to dismiss''))"
proof -
  let ?p = "demo_run demo_evs" let ?req = "demo_request ADismiss 2 ?p"
  have o: "owner_of (j_owner (cr_job ?req)) = r_owner (snd ?p)" "j_id (cr_job ?req) = 2" "cr_action ?req = ADismiss"
    "active_view (r_owner (snd ?p)) (w_store (fst ?p)) 2 = Some Queued"
    by (simp_all add: demo_eval demo_request_def)
  have n: "show_nat 2 = ''2''" by code_simp
  obtain p' res where r: "requestJobControl (runner_deps 9 (\<lambda>_. True) (\<lambda>_. True)) (\<lambda>_. True) ?req
      (fst ?p, snd ?p) = Inr (p', res)"
    using o(1,3) by (cases "dismissPrompt 9 (j_id (cr_job ?req)) ?p") (auto simp: requestJobControl_def runner_deps_def Let_def)
  have "res = CRefused (refusalMessage (cr_job ?req) ADismiss)"
    using own_job_control [OF demo_reachable _ o(1) r] o by (simp add: actionApplies_def)
  then show ?thesis using r o(2) n by (simp add: refusalMessage_def)
qed

text \<open>
  For a job of another process, \<open>requestJobControl\<close> never fails: it refuses, changing nothing, when
  the owning MCP process is gone or the action cannot apply to the row's status, and otherwise leaves
  exactly one more pending request for the owner, last in its order.
\<close>

theorem foreign_job_control:
  assumes "reachable local (w, rs)" and "r \<in> set rs"
    and "get_job (j_id (cr_job req)) (w_store w) = Some (cr_job req)"
    and "owner_of (j_owner (cr_job req)) = ow" and "ow \<noteq> r_owner r"
  shows "\<exists>p' res. requestJobControl (runner_deps now alive writable) alive req (w, r) = Inr (p', res) \<and>
     (if dead_mcp alive ow \<or> \<not> actionApplies (j_status (cr_job req)) (cr_action req)
      then (\<exists>m. res = CRefused m) \<and> p' = (w, r)
      else res = CRequested ow \<and> snd p' = r \<and>
        (\<exists>c. pendingControlRequests ow (w_store (fst p')) = pendingControlRequests ow (w_store w) @ [c] \<and>
           c_jobId c = j_id (cr_job req) \<and> c_action c = cr_action req \<and> c_text c = cr_text req))"
proof -
  have wf: "store_wf (w_store w)" using reachable_proc [OF assms(1,2)] by (rule proc_invD(1))
  have append: "\<exists>c. pendingControlRequests ow (fst (createControlRequest now inp (w_store w))) =
      pendingControlRequests ow (w_store w) @ [c] \<and> c_jobId c = cc_jobId inp \<and> c_action c = cc_action inp \<and>
      c_text c = cc_text inp" if "cc_jobId inp = j_id (cr_job req)" for inp
  proof -
    show ?thesis
      using that assms(3,4)
      by (simp add: pending_sorted [OF wf] pending_sorted [OF store_wf_createControlRequest [OF wf]])
        (auto simp: createControlRequest_def Let_def get_job_def)
  qed
  show ?thesis
    using assms(3-5)
      append [of "\<lparr>cc_jobId = j_id (cr_job req), cc_action = cr_action req, cc_text = cr_text req,
        cc_requestedByOwner = (case cr_requestedByOwner req of None \<Rightarrow> r_owner r | Some ow' \<Rightarrow> ow'),
        cc_requestedByUsername = cr_requestedByUsername req\<rparr>"]
    by (cases "cr_requestedByOwner req") (auto simp: requestJobControl_def runner_deps_def Let_def)
qed

definition second_process :: "proc_event list \<Rightarrow> proc" where
  "second_process evs = reconcileOrphanedJobs 9 (\<lambda>_. True) (fst (demo_run evs), new_runner ''mcp:7'')"

lemma second_process_reachable:
  assumes "r_owner (snd (demo_run evs)) \<noteq> ''mcp:7''"
  shows "reachable demo_local (fst (second_process evs), [snd (demo_run evs), snd (second_process evs)])"
proof -
  have "sys_step demo_local (fst (demo_run evs), [snd (demo_run evs)])
      (fst (second_process evs), [snd (demo_run evs)] @ [snd (second_process evs)])"
    by (rule sys_step.spawn [of "''mcp:7''" _ "\<lambda>_. True" 9]) (use assms in \<open>simp_all add: second_process_def live_all\<close>)
  with reachable.step [OF demo_reachable [of evs]] show ?thesis by simp
qed

theorem foreign_job_control_witness:
  "\<exists>p'. requestJobControl (runner_deps 9 (\<lambda>_. True) (\<lambda>_. True)) (\<lambda>_. True)
     (demo_request ACancel 1 (second_process demo_evs)) (second_process demo_evs) = Inr (p', CRequested ''web'') \<and>
     pendingControlRequests ''web'' (w_store (fst p')) \<noteq> []"
proof -
  let ?p = "second_process demo_evs" let ?req = "demo_request ACancel 1 ?p"
  have o: "r_owner (snd (demo_run demo_evs)) \<noteq> ''mcp:7''"
    by (simp add: demo_eval)
  have f: "get_job (j_id (cr_job ?req)) (w_store (fst ?p)) = Some (cr_job ?req)"
    "owner_of (j_owner (cr_job ?req)) = ''web''" "''web'' \<noteq> r_owner (snd ?p)"
    "j_status (cr_job ?req) = AwaitingInput" "cr_action ?req = ACancel"
    by (simp_all add: second_process_def demo_request_def demo_eval isOrphanFor_def dead_mcp_def)
  have d: "\<not> dead_mcp (\<lambda>_. True) ''web''" by (simp add: dead_mcp_def)
  show ?thesis
    using foreign_job_control [OF second_process_reachable [OF o] _ f(1-3), where alive = "\<lambda>_. True" and now = 9
        and writable = "\<lambda>_. True"] f(4,5) d
    by (auto simp: actionApplies_def)
qed

text \<open>
  A cancel request is carried out by the owner's next poll: after it, the job the request names is
  either no longer active in the owner or its abort signal is raised.
\<close>

theorem poll_carries_out_cancel:
  assumes "reachable local (w, rs)" and "r \<in> set rs" and "live alive rs"
    and "c \<in> set (pendingControlRequests (r_owner r) (w_store w))" and "c_action c = ACancel"
    and "processControlRequests now alive writable (w, r) = (w', r')"
  shows "active_view (r_owner r) (w_store w') (c_jobId c) = None \<or> jm_get (r_controllers r') (c_jobId c) = Some True"
proof -
  have inv: "proc_inv (w, r)" using reachable_proc [OF assms(1,2)] .
  have alive: "\<not> dead_mcp alive (r_owner r)" using assms(2,3) by (simp add: live_def)
  let ?w1 = "on_store (closeStaleControlRequests now alive) w"
  let ?reqs = "pendingControlRequests (r_owner r) (w_store ?w1)"
  have c: "c \<in> unhandled_for (r_owner r) (w_store w)" using assms(4) by (simp add: set_pendingControlRequests)
  have "stopped (c_jobId c) r \<or> (\<exists>req \<in> set ?reqs. c_action req = ACancel \<and> c_jobId req = c_jobId c)"
  proof (cases "stale_request alive (w_store w) c")
    case True
    then obtain j where "get_job (c_jobId c) (w_store w) = Some j" "j_status j \<in> set terminal_statuses"
      using c alive by (auto simp: stale_request_def unhandled_for_def split: option.splits)
    then show ?thesis using terminal_not_held [OF inv] by simp
  next
    case False
    from kept_pending_after_sweep [OF c proc_invD(1) [OF inv] False]
    have "c \<in> set ?reqs" by (simp add: set_pendingControlRequests)
    then show ?thesis using assms(5) by blast
  qed
  then have "stopped (c_jobId c) (snd (fold (processRequest now alive writable) ?reqs (?w1, r)))"
    by (intro fold_stopped) simp
  then have st: "stopped (c_jobId c) r'" using assms(6) by (simp add: processControlRequests_def Let_def)
  have inv': "proc_inv (w', r')" and ow: "r_owner r' = r_owner r"
    using processControlRequests_inv [OF inv, of now alive writable] processControlRequests_keeps [OF inv, of now alive writable]
      assms(6) by auto
  show ?thesis
  proof (cases "jm_get (r_controllers r') (c_jobId c)")
    case None
    then show ?thesis
      using proc_inv_views [OF inv', of "c_jobId c"] ow by (simp add: memory_view_def jm_has_get)
  next
    case (Some b)
    then show ?thesis using st by (simp add: stopped_def)
  qed
qed

definition cancel_pending :: "proc_event list" where
  "cancel_pending = [PEnqueue 5 demo_job, PStart 6,
     PRequest 7 \<lparr>cc_jobId = 1, cc_action = ACancel, cc_text = None,
       cc_requestedByOwner = ''mcp:http'', cc_requestedByUsername = None\<rparr>]"

theorem poll_carries_out_cancel_witness:
  "let (w', r') = processControlRequests 8 (\<lambda>_. True) (\<lambda>_. True) (demo_run cancel_pending)
   in active_view ''web'' (w_store w') 1 = None \<or> jm_get (r_controllers r') 1 = Some True"
proof -
  let ?p = "demo_run cancel_pending"
  let ?c = "hd (pendingControlRequests ''web'' (w_store (fst ?p)))"
  have f: "r_owner (snd ?p) = ''web''" "?c \<in> set (pendingControlRequests ''web'' (w_store (fst ?p)))"
    "c_action ?c = ACancel" "c_jobId ?c = 1"
    by (simp_all add: demo_eval cancel_pending_def)
  show ?thesis
    using poll_carries_out_cancel [OF demo_reachable [of cancel_pending] _ live_all _ f(3) surjective_pairing,
        where now = 8 and writable = "\<lambda>_. True"] f
    by (simp add: case_prod_beta)
qed

lemma onPromptDetected_current [simp]: "r_current (snd (onPromptDetected i t e orig x (w, r))) = r_current r"
  by (simp add: onPromptDetected_def Let_def)

lemma jm_get_Cons: "jm_get ((k, v) # m) k' = (if k' = k then Some v else jm_get m k')"
  by (simp add: jm_get_def)

section \<open>A timer that outlives its prompt\<close>

text \<open>
  The abandon timer is tracked by job only: when a second prompt is detected before the first was
  cleared, answering the job disarms the second timer alone; the first still fires and cancels a job
  that is running and awaits nothing.
\<close>

theorem first_abandon_timer_survives:
  assumes "reachable local (w, rs)" and "r \<in> set rs" and "r_current r = Some (i, lf)"
    and "r_timeouts r = []" and "r_abandon r = []" and "jm_get (r_controllers r) i = Some False"
    and "p2 = onPromptDetected i t2 e2 o2 x2 (onPromptDetected i t1 e1 o1 x1 (w, r))"
  shows "case answerPrompt now (\<lambda>_. True) i answer p2 of
     Inl _ \<Rightarrow> False
   | Inr (p3, answered) \<Rightarrow> answered \<and>
       run_status p3 i = Some Running \<and> r_pendingPrompts (snd p3) = [] \<and> r_abandon (snd p3) = [] \<and>
       r_timeouts (snd p3) = [(r_timerSeq r + 1, i)] \<and>
       jm_get (r_controllers (snd (abandonFires later alive (r_timerSeq r + 1) p3))) i = Some True"
proof -
  have inv: "proc_inv (w, r)" using reachable_proc [OF assms(1,2)] .
  have st: "r_started r = [i]" "jm_has (r_controllers r) i" using proc_inv_current [OF inv assms(3)] by simp_all
  have none: "r_pendingPrompts r = []" using proc_invD(2) [OF inv] assms(5) by (simp add: runner_wf_def)
  obtain w2 r2 where p2: "p2 = (w2, r2)" by (cases p2)
  obtain w1 r1 where p1: "onPromptDetected i t1 e1 o1 x1 (w, r) = (w1, r1)" by (metis surj_pair)
  have inv1: "proc_inv (w1, r1)" using onPromptDetected_inv [OF inv assms(3), of t1 e1 o1 x1] p1 by simp
  have cur1: "r_current r1 = Some (i, lf)"
    using onPromptDetected_current [of i t1 e1 o1 x1 w r] p1 assms(3) by simp
  have inv2: "proc_inv (w2, r2)"
    using onPromptDetected_inv [OF inv1 cur1, of t2 e2 o2 x2] p1 p2 assms(7) by simp
  have r2: "r_pendingPrompts r2 = [i]" "r_abandon r2 = [(i, r_timerSeq r + 2)]"
    "r_timeouts r2 = [(r_timerSeq r + 1, i), (r_timerSeq r + 2, i)]" "r_started r2 = [i]"
    "r_controllers r2 = r_controllers r"
    using assms(4,5,7) p2 none st by (auto simp: onPromptDetected_def Let_def js_add_def jm_set_def)
  obtain w3 r3 where p3: "answerPrompt now (\<lambda>_. True) i answer (w2, r2) = Inr ((w3, r3), True)"
    using r2(1)
    by (cases "onPromptCleared now i (w2\<lparr>w_stdin := w_stdin w2 @ [(i, with_newline answer)]\<rparr>, r2)")
      (simp add: answerPrompt_def)
  have r3: "r_pendingPrompts r3 = []" "r_abandon r3 = []" "r_timeouts r3 = [(r_timerSeq r + 1, i)]" "r_started r3 = [i]"
    "r_controllers r3 = r_controllers r"
    using p3 r2 by (auto simp: answerPrompt_def onPromptCleared_def clearAbandon_def Let_def js_remove_def jm_get_def jm_delete_def)
  have "run_status (w3, r3) i = Some Running"
    using proc_inv_views [OF answerPrompt_inv [OF inv2 p3], of i] r3 st by (simp add: run_status_def memory_view_def)
  moreover have "jm_get (r_controllers (snd (abandonFires later alive (r_timerSeq r + 1) (w3, r3)))) i = Some True"
    using r3 st by (simp add: abandonFires_def Let_def jm_get_Cons cancel_started row_simps)
  ultimately show ?thesis using p3 r3 p2 by simp
qed

definition one_running :: "proc_event list" where
  "one_running = [PEnqueue 5 demo_job, PStart 6]"

theorem first_abandon_timer_survives_witness:
  "case answerPrompt 9 (\<lambda>_. True) 1 ''yes''
     (onPromptDetected 1 ''B?'' [] OHeuristic None (onPromptDetected 1 ''A?'' [] OHeuristic None (demo_run one_running))) of
     Inl _ \<Rightarrow> False
   | Inr (p3, answered) \<Rightarrow>
       jm_get (r_controllers (snd (abandonFires 99 (\<lambda>_. True) 1 p3))) 1 = Some True"
proof -
  let ?p = "demo_run one_running"
  have f: "r_current (snd ?p) = Some (1, snd (the (r_current (snd ?p))))" "r_timeouts (snd ?p) = []" "r_abandon (snd ?p) = []"
    "jm_get (r_controllers (snd ?p)) 1 = Some False" "r_timerSeq (snd ?p) = 0"
    by (simp_all add: demo_eval one_running_def)
  show ?thesis
    using first_abandon_timer_survives [OF demo_reachable [of one_running] _ f(1-4) refl, where now = 9 and answer = "''yes''"
        and later = 99 and alive = "\<lambda>_. True" and ?t1.0 = "''A?''" and ?e1.0 = "[]" and ?o1.0 = OHeuristic and ?x1.0 = None
        and ?t2.0 = "''B?''" and ?e2.0 = "[]" and ?o2.0 = OHeuristic and ?x2.0 = None] f(5)
    by (auto split: sum.splits)
qed

end
