(* ===== verification/Access_Control.thy ===== *)
theory Access_Control
  imports Job_Store
begin

text \<open>
  Who may see and do what: the permission tables and the access decision (\<open>src/src/lib/permissions.ts\<close>,
  \<open>src/src/web/routes/permissions.ts\<close>), its use on the inventory (\<open>src/src/web/access.ts\<close>), job
  visibility (\<open>isJobVisible\<close> in \<open>src/src/web/routes/jobs.ts\<close>), the request's user and the admin test
  (\<open>src/src/web/auth.ts\<close>), and the admin's view of a group (\<open>src/src/web/impersonation.ts\<close>,
  \<open>src/src/web/routes/impersonation.ts\<close>).

  The tables are lists of rows, a \<open>Map\<close> of rules an association list.  An optional string property is an
  option; the empty string is falsy too, as \<open>truthy\<close> says.  The instant of a creator record is \<open>None\<close>
  where the source finds it missing or unparseable.
\<close>

section \<open>Data\<close>

datatype permission_mode = AllowList | BlockList

datatype resource_type = RHost | RGuest

record resource_ref =
  rf_type :: resource_type
  rf_name :: string

record group_permission =
  gp_mode :: permission_mode
  gp_resources :: "resource_ref list"

text \<open>The rows of \<open>permission_groups\<close> and \<open>permission_rules\<close>.\<close>

record perm_db =
  pd_groups :: "(string \<times> permission_mode) list"
  pd_rules :: "(string \<times> resource_ref) list"

record guest_creator =
  gc_username :: string
  gc_uid :: "string option"
  gc_since :: "ms option"

record auth_user =
  au_username :: string
  au_email :: "string option"
  au_groups :: "string list"
  au_impersonating :: "string option"
  au_localOperator :: bool
  au_uid :: "string option"
  au_viaOidc :: bool

record admin_groups =
  ag_adminGroup :: string
  ag_builtinAdminGroup :: string

record guest_view =
  gv_name :: string
  gv_creator :: "guest_creator option"

record inventory_view =
  iv_hosts :: "string list"
  iv_guests :: "guest_view list"

definition truthy :: "string option \<Rightarrow> bool" where
  "truthy s \<longleftrightarrow> s \<noteq> None \<and> s \<noteq> Some ''''"

section \<open>The permission tables\<close>

definition add_rule :: "string \<times> resource_ref \<Rightarrow> (string \<times> group_permission) list \<Rightarrow> (string \<times> group_permission) list" where
  "add_rule row result =
     (case jm_get result (fst row) of
        None \<Rightarrow> result
      | Some perm \<Rightarrow> jm_set (fst row) (perm\<lparr>gp_resources := gp_resources perm @ [snd row]\<rparr>) result)"

definition loadPermissionRules :: "perm_db \<Rightarrow> (string \<times> group_permission) list" where
  "loadPermissionRules db =
     fold add_rule (pd_rules db)
       (fold (\<lambda>(name, mode). jm_set name \<lparr>gp_mode = mode, gp_resources = []\<rparr>) (pd_groups db) [])"

text \<open>The insert of one rule, which the primary key of the table refuses when it is there already.\<close>

fun insert_rules :: "string \<Rightarrow> resource_ref list \<Rightarrow> (string \<times> resource_ref) list \<Rightarrow> (string \<times> resource_ref) list option" where
  "insert_rules groupName [] rows = Some rows"
| "insert_rules groupName (r # rs) rows =
     (if (groupName, r) \<in> set rows then None else insert_rules groupName rs (rows @ [(groupName, r)]))"

definition savePermissionGroup :: "string \<Rightarrow> group_permission \<Rightarrow> perm_db \<Rightarrow> perm_db option" where
  "savePermissionGroup groupName permission db =
     map_option
       (\<lambda>rules. \<lparr>pd_groups = sql_delete (\<lambda>row. fst row = groupName) (pd_groups db) @ [(groupName, gp_mode permission)],
                 pd_rules = rules\<rparr>)
       (insert_rules groupName (gp_resources permission)
         (sql_delete (\<lambda>row. fst row = groupName) (pd_rules db)))"

text \<open>The deletion of a group's row cascades to its rules.\<close>

definition clearPermissionGroup :: "string \<Rightarrow> perm_db \<Rightarrow> perm_db" where
  "clearPermissionGroup groupName db =
     \<lparr>pd_groups = sql_delete (\<lambda>row. fst row = groupName) (pd_groups db),
      pd_rules = sql_delete (\<lambda>row. fst row = groupName) (pd_rules db)\<rparr>"

text \<open>
  The body of \<open>PUT /:group\<close>, once parsed as a mode and a list of typed names: the reply's status and
  message.  A failing insert would leave the tables as they were and answer 500.
\<close>

definition parse_mode :: "string \<Rightarrow> permission_mode option" where
  "parse_mode s = (if s = ''allow-list'' then Some AllowList else if s = ''block-list'' then Some BlockList else None)"

definition parse_type :: "string \<Rightarrow> resource_type option" where
  "parse_type s = (if s = ''host'' then Some RHost else if s = ''guest'' then Some RGuest else None)"

definition isValidResources :: "(string \<times> string) list \<Rightarrow> bool" where
  "isValidResources rs \<longleftrightarrow> list_all (\<lambda>(ty, name). parse_type ty \<noteq> None \<and> length name > 0) rs"

fun has_duplicate :: "string list \<Rightarrow> (string \<times> string) list \<Rightarrow> bool" where
  "has_duplicate seen [] = False"
| "has_duplicate seen ((ty, name) # rs) =
     (ty @ '':'' @ name \<in> set seen \<or> has_duplicate (js_add (ty @ '':'' @ name) seen) rs)"

definition putPermission ::
  "string \<Rightarrow> string \<Rightarrow> (string \<times> string) list \<Rightarrow> perm_db \<Rightarrow> perm_db \<times> nat \<times> string" where
  "putPermission groupName mode resources db =
     (case parse_mode mode of
        None \<Rightarrow> (db, 400, ''mode must be '' @ quoted ''allow-list'' @ '' or '' @ quoted ''block-list'')
      | Some m \<Rightarrow>
          if \<not> isValidResources resources
          then (db, 400, ''resources must be an array of { type: '' @ quoted ''host'' @ ''|'' @ quoted ''guest'' @ '', name: string }'')
          else if has_duplicate [] resources then (db, 400, ''resources must not contain duplicate entries'')
          else
            (case savePermissionGroup groupName
                    \<lparr>gp_mode = m,
                     gp_resources = map (\<lambda>(ty, name). \<lparr>rf_type = the (parse_type ty), rf_name = name\<rparr>) resources\<rparr> db of
               None \<Rightarrow> (db, 500, '''')
             | Some db' \<Rightarrow> (db', 200, '''')))"

definition deletePermission :: "string \<Rightarrow> perm_db \<Rightarrow> perm_db \<times> nat \<times> string" where
  "deletePermission groupName db = (clearPermissionGroup groupName db, 204, '''')"

section \<open>The access decision\<close>

definition isGuestCreator :: "guest_creator option \<Rightarrow> auth_user \<Rightarrow> bool" where
  "isGuestCreator creator caller =
     (if truthy (au_impersonating caller) then False
      else case creator of
        None \<Rightarrow> False
      | Some c \<Rightarrow>
          if truthy (gc_uid c) \<and> truthy (au_uid caller) then gc_uid c = au_uid caller
          else au_username caller \<noteq> '''' \<and> gc_username c = au_username caller)"

text \<open>The loop both decisions run over the caller's groups, with its early return.\<close>

fun groups_allow :: "(string \<times> group_permission) list \<Rightarrow> (group_permission \<Rightarrow> bool) \<Rightarrow> string list \<Rightarrow> bool" where
  "groups_allow rules lets [] = True"
| "groups_allow rules lets (g # gs) =
     (case jm_get rules g of
        None \<Rightarrow> groups_allow rules lets gs
      | Some perm \<Rightarrow> if \<not> lets perm then False else groups_allow rules lets gs)"

definition isAllowed :: "(string \<times> group_permission) list \<Rightarrow> string list \<Rightarrow> resource_ref \<Rightarrow> bool \<Rightarrow> bool" where
  "isAllowed rules groups ref isCreator =
     (let creatorLift = (rf_type ref = RGuest \<and> isCreator)
      in groups_allow rules
           (\<lambda>perm. let listed = list_ex (\<lambda>r. rf_type r = rf_type ref \<and> rf_name r = rf_name ref) (gp_resources perm)
                   in if gp_mode perm = AllowList then listed \<or> creatorLift else \<not> listed)
           groups)"

definition isAdminOf :: "string list \<Rightarrow> admin_groups \<Rightarrow> bool" where
  "isAdminOf groups cfg \<longleftrightarrow> ag_adminGroup cfg \<in> set groups \<or> ag_builtinAdminGroup cfg \<in> set groups"

definition isAdminUser :: "admin_groups \<Rightarrow> string list \<Rightarrow> bool" where
  "isAdminUser cfg groups = isAdminOf groups cfg"

definition ANONYMOUS_CALLER :: auth_user where
  "ANONYMOUS_CALLER = \<lparr>au_username = '''', au_email = None, au_groups = [], au_impersonating = None,
     au_localOperator = False, au_uid = None, au_viaOidc = False\<rparr>"

definition isCreatorOf :: "inventory_view \<Rightarrow> auth_user \<Rightarrow> resource_ref \<Rightarrow> bool" where
  "isCreatorOf inven caller ref =
     (if rf_type ref \<noteq> RGuest then False
      else isGuestCreator
             (case find (\<lambda>g. gv_name g = rf_name ref) (iv_guests inven) of None \<Rightarrow> None | Some g \<Rightarrow> gv_creator g) caller)"

definition guestCreators :: "inventory_view \<Rightarrow> (string \<times> guest_creator) list" where
  "guestCreators inven =
     fold (\<lambda>g result. case gv_creator g of
             None \<Rightarrow> result
           | Some c \<Rightarrow> if gv_name g \<in> set (iv_hosts inven) then result else jm_set (gv_name g) c result)
       (iv_guests inven) []"

definition isResourceAllowed :: "admin_groups \<Rightarrow> perm_db \<Rightarrow> inventory_view \<Rightarrow> auth_user \<Rightarrow> resource_ref \<Rightarrow> bool" where
  "isResourceAllowed cfg db inven caller ref =
     (if isAdminUser cfg (au_groups caller) then True
      else isAllowed (loadPermissionRules db) (au_groups caller) ref (isCreatorOf inven caller ref))"

definition filterInventoryForUser ::
  "admin_groups \<Rightarrow> perm_db \<Rightarrow> auth_user \<Rightarrow> inventory_view \<Rightarrow> string list \<times> guest_view list" where
  "filterInventoryForUser cfg db caller inven =
     (if isAdminUser cfg (au_groups caller) then (iv_hosts inven, iv_guests inven)
      else
        let rules = loadPermissionRules db
        in (filter (\<lambda>h. isAllowed rules (au_groups caller) \<lparr>rf_type = RHost, rf_name = h\<rparr> False) (iv_hosts inven),
            filter (\<lambda>g. isAllowed rules (au_groups caller) \<lparr>rf_type = RGuest, rf_name = gv_name g\<rparr>
                          (isGuestCreator (gv_creator g) caller)) (iv_guests inven)))"

definition resource_type_text :: "resource_type \<Rightarrow> string" where
  "resource_type_text ty = (case ty of RHost \<Rightarrow> ''host'' | RGuest \<Rightarrow> ''guest'')"

definition requireResourceAccess ::
  "admin_groups \<Rightarrow> perm_db \<Rightarrow> inventory_view \<Rightarrow> auth_user option \<Rightarrow> resource_ref option \<Rightarrow> (nat \<times> string) option" where
  "requireResourceAccess cfg db inven user resolved =
     (case resolved of
        None \<Rightarrow> None
      | Some ref \<Rightarrow>
          if isResourceAllowed cfg db inven (case user of None \<Rightarrow> ANONYMOUS_CALLER | Some u \<Rightarrow> u) ref then None
          else Some (403, ''forbidden: no access to '' @ resource_type_text (rf_type ref) @ '' '' @ quoted (rf_name ref)))"

section \<open>Which jobs a caller may see\<close>

definition startedSince :: "ms option \<Rightarrow> ms option \<Rightarrow> bool" where
  "startedSince startedAt since =
     (case (startedAt, since) of (Some started, Some recorded) \<Rightarrow> started \<ge> recorded | _ \<Rightarrow> False)"

definition isJobVisible ::
  "admin_groups \<Rightarrow> (string \<times> group_permission) list \<Rightarrow> auth_user \<Rightarrow> job_row option \<Rightarrow>
   (string \<times> guest_creator) list \<Rightarrow> bool" where
  "isJobVisible cfg rules caller job creators =
     (if isAdminUser cfg (au_groups caller) then True
      else case job of
        None \<Rightarrow> False
      | Some j \<Rightarrow>
          (case j_target j of
             None \<Rightarrow> False
           | Some target \<Rightarrow>
               let creator = jm_get creators target;
                   isCreator = isGuestCreator creator caller \<and>
                     startedSince (j_startedAt j) (case creator of None \<Rightarrow> None | Some c \<Rightarrow> gc_since c)
               in groups_allow rules
                    (\<lambda>perm. let listed = list_ex (\<lambda>r. rf_name r = target) (gp_resources perm)
                            in if gp_mode perm = AllowList then listed \<or> isCreator else \<not> listed)
                    (au_groups caller)))"

definition list_visible_jobs ::
  "admin_groups \<Rightarrow> perm_db \<Rightarrow> inventory_view \<Rightarrow> auth_user option \<Rightarrow> job_store \<Rightarrow> job_row list" where
  "list_visible_jobs cfg db inven user store =
     (let caller = (case user of None \<Rightarrow> ANONYMOUS_CALLER | Some u \<Rightarrow> u);
          rules = loadPermissionRules db; creators = guestCreators inven
      in filter (\<lambda>j. isJobVisible cfg rules caller (Some j) creators) (list_jobs 100 store))"

section \<open>The request's user\<close>

datatype auth_mode = ModeOidc | ModeNone

record auth_env =
  ae_mode :: "string option"
  ae_localUser :: "string option"
  ae_devUser :: "string option"
  ae_devGroups :: "string option"
  ae_admin :: admin_groups

text \<open>\<open>authMode\<close> on the configured value; its errors are \<open>Inl\<close>.\<close>

definition authMode :: "string option \<Rightarrow> string + auth_mode" where
  "authMode raw =
     (case raw of
        None \<Rightarrow> Inr ModeNone
      | Some v \<Rightarrow>
          if v = ''oidc'' then Inr ModeOidc
          else if v = ''none'' then Inr ModeNone
          else if v = ''auto'' \<or> v = ''authentik''
          then Inl (''WEB_UI_AUTH_MODE='' @ v @ '' is no longer supported -- use oidc (sign-in required) or none (no authentication); see docs/authentik.md'')
          else Inl (''WEB_UI_AUTH_MODE must be one of oidc, none -- got: '' @ v))"

definition localOperatorUsername :: "auth_env \<Rightarrow> string" where
  "localOperatorUsername env = (if truthy (ae_localUser env) then the (ae_localUser env) else ''local'')"

definition localOperator :: "auth_env \<Rightarrow> auth_user" where
  "localOperator env =
     \<lparr>au_username = localOperatorUsername env, au_email = None, au_groups = [ag_adminGroup (ae_admin env)],
      au_impersonating = None, au_localOperator = True, au_uid = None, au_viaOidc = False\<rparr>"

text \<open>
  \<open>resolveRequestUser\<close>: the argument \<open>session\<close> is what \<open>SessionService.resolve\<close> answers for the session
  cookie, \<open>None\<close> without a cookie.
\<close>

definition resolveRequestUser :: "auth_user option \<Rightarrow> auth_env \<Rightarrow> string + auth_user option" where
  "resolveRequestUser session env =
     (case session of
        Some user \<Rightarrow> Inr (Some user)
      | None \<Rightarrow>
          if truthy (ae_devUser env)
          then Inr (Some \<lparr>au_username = the (ae_devUser env), au_email = None,
                 au_groups = (if truthy (ae_devGroups env) then split_on (CHR ''|'') (the (ae_devGroups env)) else []),
                 au_impersonating = None, au_localOperator = False, au_uid = None, au_viaOidc = False\<rparr>)
          else (case authMode (ae_mode env) of
                  Inl e \<Rightarrow> Inl e
                | Inr mode \<Rightarrow> Inr (if mode = ModeNone then Some (localOperator env) else None)))"

definition hex_digit :: "nat \<Rightarrow> char" where
  "hex_digit d = char_of (if d < 10 then 48 + d else 55 + d)"

definition uri_unreserved :: "char \<Rightarrow> bool" where
  "uri_unreserved c \<longleftrightarrow>
     (let n = (of_char c :: nat)
      in (65 \<le> n \<and> n \<le> 90) \<or> (97 \<le> n \<and> n \<le> 122) \<or> (48 \<le> n \<and> n \<le> 57) \<or>
         n \<in> {45, 95, 46, 33, 126, 42, 39, 40, 41})"

text \<open>\<open>encodeURIComponent\<close> of a string given by its UTF-8 bytes.\<close>

fun encodeURIComponent :: "string \<Rightarrow> string" where
  "encodeURIComponent [] = []"
| "encodeURIComponent (c # cs) =
     (if uri_unreserved c then [c] else [CHR ''%'', hex_digit (of_char c div 16), hex_digit (of_char c mod 16)])
       @ encodeURIComponent cs"

datatype auth_outcome = Next auth_user | RedirectToLogin string | Unauthorized | AuthFailed string

definition requireAuth :: "auth_user option \<Rightarrow> auth_env \<Rightarrow> string \<Rightarrow> string \<Rightarrow> auth_outcome" where
  "requireAuth session env method originalUrl =
     (case resolveRequestUser session env of
        Inl e \<Rightarrow> AuthFailed e
      | Inr (Some user) \<Rightarrow> Next user
      | Inr None \<Rightarrow>
          let isApi = (originalUrl = ''/api'' \<or> prefix ''/api/'' originalUrl \<or> prefix ''/api?'' originalUrl)
          in if \<not> isApi \<and> (method = ''GET'' \<or> method = ''HEAD'')
             then RedirectToLogin (''/auth/login?returnTo='' @ encodeURIComponent originalUrl)
             else Unauthorized)"

text \<open>
  A request after \<open>requireAuth\<close>: its user and, while an impersonation is active, the real user behind it.
  The two admin gates answer whether they let it pass.
\<close>

record auth_request =
  rq_user :: "auth_user option"
  rq_realUser :: "auth_user option"

definition request_groups :: "auth_user option \<Rightarrow> string list" where
  "request_groups user = (case user of None \<Rightarrow> [] | Some u \<Rightarrow> au_groups u)"

definition real_user :: "auth_request \<Rightarrow> auth_user option" where
  "real_user rq = (case rq_realUser rq of Some u \<Rightarrow> Some u | None \<Rightarrow> rq_user rq)"

definition requireAdminGroup :: "admin_groups \<Rightarrow> auth_request \<Rightarrow> bool" where
  "requireAdminGroup cfg rq = isAdminUser cfg (request_groups (rq_user rq))"

definition requireRealAdminGroup :: "admin_groups \<Rightarrow> auth_request \<Rightarrow> bool" where
  "requireRealAdminGroup cfg rq = isAdminUser cfg (request_groups (real_user rq))"

section \<open>Viewing the application as a group\<close>

type_synonym impersonation_store = "(string \<times> string) list"

definition applyImpersonation :: "impersonation_store \<Rightarrow> auth_request \<Rightarrow> auth_request" where
  "applyImpersonation store rq =
     (case rq_user rq of
        None \<Rightarrow> rq
      | Some user \<Rightarrow>
          let entry = jm_get store (au_username user)
          in if truthy entry
             then rq\<lparr>rq_realUser := Some user,
                     rq_user := Some (user\<lparr>au_groups := [the entry], au_impersonating := entry\<rparr>)\<rparr>
             else rq)"

definition resolveTriggeredBy :: "auth_request \<Rightarrow> string option \<times> string option \<times> triggered_via" where
  "resolveTriggeredBy rq =
     (map_option au_username (real_user rq),
      (case rq_user rq of None \<Rightarrow> None | Some u \<Rightarrow> au_impersonating u), ViaWeb)"

definition resolveActor :: "auth_request \<Rightarrow> (string \<times> string option \<times> string option) option" where
  "resolveActor rq =
     (case real_user rq of
        None \<Rightarrow> None
      | Some u \<Rightarrow> if au_localOperator u then None else Some (au_username u, au_email u, au_uid u))"

text \<open>The phrase of \<open>settings-hint.ts\<close> and the message of the Authentik client it makes.\<close>

definition settingFix :: "string \<Rightarrow> string option \<Rightarrow> string" where
  "settingFix key valueHint =
     ''run: bellhop set-config '' @ key @ '' '' @ (case valueHint of None \<Rightarrow> ''--stdin'' | Some h \<Rightarrow> h) @
     '' --apply, or set it on the web UI'' @ [CHR 39] @ ''s Settings page''"

definition UNCONFIGURED_MESSAGE :: string where
  "UNCONFIGURED_MESSAGE =
     ''Authentik API not configured -- set authentikApiUrl ('' @
     settingFix ''authentikApiUrl'' (Some ''<https://authentik.example.com>'') @
     '') and authentikApiToken ('' @ settingFix ''authentikApiToken'' None @ '')''"

text \<open>
  \<open>POST /\<close> and \<open>DELETE /\<close> of the impersonation routes.  The directory is what Authentik answers:
  \<open>None\<close> when it is not configured, \<open>Some (Inl e)\<close> when the call fails.
\<close>

definition startImpersonation ::
  "admin_groups \<Rightarrow> (string + string list) option \<Rightarrow> auth_request \<Rightarrow> string \<Rightarrow> impersonation_store \<Rightarrow>
   impersonation_store \<times> nat \<times> string" where
  "startImpersonation cfg directory rq grp store =
     (if \<not> requireRealAdminGroup cfg rq then (store, 403, ''forbidden'')
      else case directory of
        None \<Rightarrow> (store, 503, UNCONFIGURED_MESSAGE)
      | Some answer \<Rightarrow>
          if grp = '''' then (store, 400, ''group is required'')
          else if isAdminUser cfg [grp] then (store, 400, ''cannot impersonate an admin group'')
          else
            (case answer of
               Inl e \<Rightarrow> (store, 503, e)
             | Inr groups \<Rightarrow>
                 if grp \<notin> set groups then (store, 400, ''Unknown Authentik group: '' @ grp)
                 else (case real_user rq of
                         None \<Rightarrow> (store, 500, '''')
                       | Some u \<Rightarrow> (jm_set (au_username u) grp store, 200, grp))))"

definition stopImpersonation ::
  "admin_groups \<Rightarrow> auth_request \<Rightarrow> impersonation_store \<Rightarrow> impersonation_store \<times> nat \<times> string" where
  "stopImpersonation cfg rq store =
     (if \<not> requireRealAdminGroup cfg rq then (store, 403, ''forbidden'')
      else (case real_user rq of
              None \<Rightarrow> (store, 500, '''')
            | Some u \<Rightarrow> (jm_delete (au_username u) store, 204, '''')))"

end
