(* ===== verification/Utf8_Text.thy ===== *)
theory Utf8_Text
  imports Bellhop_Prelude "HOL-Library.Word"
begin

text \<open>
  UTF-8 as the log files hold it: the runtime's encoder and streaming decoder, and \<open>completeUtf8Length\<close>
  of \<open>src/src/web/routes/jobs.ts\<close>, which finds where the complete characters of a buffer end.  A file is
  its bytes, a text the list of its code points.  The lemmas: decoding undoes encoding, and on a buffer
  that ends inside a character \<open>completeUtf8Length\<close> cuts exactly that character off.
\<close>

unbundle bit_operations_syntax

section \<open>UTF-8\<close>

type_synonym bytes = "8 word list"
type_synonym cps = "nat list"

text \<open>
  \<open>appendFileSync(..., 'utf8')\<close> writes \<open>utf8_encode\<close>.  \<open>Buffer.toString('utf8')\<close> and \<open>StringDecoder\<close> of
  the runtime are one byte-at-a-time decoder: \<open>Ready\<close>, or inside a character with \<open>need\<close> bytes to come,
  the bits \<open>acc\<close> read so far and the range \<open>lo..hi\<close> of the next byte; a byte that cannot continue gives
  U+FFFD.
\<close>

definition utf8_values :: "nat \<Rightarrow> nat list" where
  "utf8_values c =
     (if c < 0x80 then [c]
      else if c < 0x800 then [0xC0 + c div 64, 0x80 + c mod 64]
      else if c < 0x10000 then [0xE0 + c div 4096, 0x80 + c div 64 mod 64, 0x80 + c mod 64]
      else [0xF0 + c div 262144, 0x80 + c div 4096 mod 64, 0x80 + c div 64 mod 64, 0x80 + c mod 64])"

definition utf8_char :: "nat \<Rightarrow> bytes" where
  "utf8_char c = map word_of_nat (utf8_values c)"

definition utf8_encode :: "cps \<Rightarrow> bytes" where
  "utf8_encode cs = concat (map utf8_char cs)"

definition code_point_ok :: "nat \<Rightarrow> bool" where
  "code_point_ok c \<longleftrightarrow> c < 0x110000 \<and> \<not> (0xD800 \<le> c \<and> c < 0xE000)"

datatype utf8_state = Ready | Inside (need: nat) (acc: nat) (lo: nat) (hi: nat)

definition utf8_lead :: "nat \<Rightarrow> cps \<times> utf8_state" where
  "utf8_lead b =
     (if b < 0x80 then ([b], Ready)
      else if 0xC2 \<le> b \<and> b < 0xE0 then ([], Inside 1 (b - 0xC0) 0x80 0xBF)
      else if 0xE0 \<le> b \<and> b < 0xF0
        then ([], Inside 2 (b - 0xE0) (if b = 0xE0 then 0xA0 else 0x80) (if b = 0xED then 0x9F else 0xBF))
      else if 0xF0 \<le> b \<and> b < 0xF5
        then ([], Inside 3 (b - 0xF0) (if b = 0xF0 then 0x90 else 0x80) (if b = 0xF4 then 0x8F else 0xBF))
      else ([0xFFFD], Ready))"

fun utf8_byte :: "utf8_state \<Rightarrow> nat \<Rightarrow> cps \<times> utf8_state" where
  "utf8_byte Ready b = utf8_lead b"
| "utf8_byte (Inside n a l h) b =
     (if l \<le> b \<and> b \<le> h
      then (let a' = a * 64 + (b - 0x80) in if n \<le> 1 then ([a'], Ready) else ([], Inside (n - 1) a' 0x80 0xBF))
      else (case utf8_lead b of (out, st) \<Rightarrow> (0xFFFD # out, st)))"

fun utf8_bytes :: "utf8_state \<Rightarrow> nat list \<Rightarrow> cps \<times> utf8_state" where
  "utf8_bytes st [] = ([], st)"
| "utf8_bytes st (b # bs) =
     (case utf8_byte st b of (out, st1) \<Rightarrow> case utf8_bytes st1 bs of (rest, st2) \<Rightarrow> (out @ rest, st2))"

definition decoder_write :: "utf8_state \<Rightarrow> bytes \<Rightarrow> cps \<times> utf8_state" where
  "decoder_write st bs = utf8_bytes st (map unat bs)"

definition utf8_toString :: "bytes \<Rightarrow> cps" where
  "utf8_toString bs = (case decoder_write Ready bs of (out, st) \<Rightarrow> if st = Ready then out else out @ [0xFFFD])"

text \<open>\<open>completeUtf8Length\<close>: \<open>lead_scan b n k\<close> is its loop, with \<open>i + 1 = n\<close> and \<open>k\<close> continuation bytes seen.\<close>

fun lead_scan :: "bytes \<Rightarrow> nat \<Rightarrow> nat \<Rightarrow> nat \<times> nat" where
  "lead_scan b 0 k = (0, k)"
| "lead_scan b (Suc i) k = (if (b ! i) AND 0xC0 = 0x80 then lead_scan b i (Suc k) else (Suc i, k))"

definition seq_len :: "8 word \<Rightarrow> nat" where
  "seq_len b =
     (if b AND 0x80 = 0 then 1
      else if b AND 0xE0 = 0xC0 then 2
      else if b AND 0xF0 = 0xE0 then 3
      else if b AND 0xF8 = 0xF0 then 4 else 1)"

definition completeUtf8Length :: "bytes \<Rightarrow> nat" where
  "completeUtf8Length b =
     (case lead_scan b (length b) 0 of
        (0, _) \<Rightarrow> 0
      | (Suc i, continuationBytes) \<Rightarrow> if continuationBytes + 1 < seq_len (b ! i) then i else length b)"

section \<open>Decoding what was encoded\<close>

lemma utf8_bytes_append:
  "utf8_bytes st (a @ b) =
     (case utf8_bytes st a of (x, st1) \<Rightarrow> case utf8_bytes st1 b of (y, st2) \<Rightarrow> (x @ y, st2))"
  by (induction a arbitrary: st) (auto split: prod.splits)

lemma decoder_append:
  "decoder_write st (a @ b) =
     (case decoder_write st a of (x, st1) \<Rightarrow> case decoder_write st1 b of (y, st2) \<Rightarrow> (x @ y, st2))"
  by (simp add: decoder_write_def utf8_bytes_append)

lemma decoder_Nil [simp]: "decoder_write st [] = ([], st)"
  by (simp add: decoder_write_def)

lemma unat_byte: "n < 256 \<Longrightarrow> unat (word_of_nat n :: 8 word) = n"
  by (simp add: unat_of_nat take_bit_eq_mod)

lemma byte_cases:
  fixes b :: "8 word"
  obtains n where "b = word_of_nat n" and "n < 256"
  using that [of "unat b"] unsigned_less [of b] by simp

lemma div_twice: "(c::nat) div 4096 = c div 64 div 64" "c div 262144 = c div 64 div 64 div 64"
  by (simp_all add: div_mult2_eq [symmetric])

lemma lead_ranges:
  "b < 0x80 \<Longrightarrow> utf8_lead b = ([b], Ready)"
  "2 \<le> x \<Longrightarrow> x < 32 \<Longrightarrow> utf8_lead (0xC0 + x) = ([], Inside 1 x 0x80 0xBF)"
  "x < 16 \<Longrightarrow> utf8_lead (0xE0 + x) =
     ([], Inside 2 x (if x = 0 then 0xA0 else 0x80) (if x = 13 then 0x9F else 0xBF))"
  "x < 5 \<Longrightarrow> utf8_lead (0xF0 + x) =
     ([], Inside 3 x (if x = 0 then 0x90 else 0x80) (if x = 4 then 0x8F else 0xBF))"
  by (simp_all add: utf8_lead_def)

lemma decode_two:
  assumes "2 \<le> x" "x < 32" "y < 64"
  shows "utf8_bytes Ready [0xC0 + x, 0x80 + y] = ([x * 64 + y], Ready)"
  using assms by (simp add: lead_ranges)

lemma decode_three:
  assumes "x < 16" "y < 64" "z < 64" "x = 0 \<longrightarrow> 32 \<le> y" "x = 13 \<longrightarrow> y < 32"
  shows "utf8_bytes Ready [0xE0 + x, 0x80 + y, 0x80 + z] = ([(x * 64 + y) * 64 + z], Ready)"
  using assms by (auto simp: lead_ranges)

lemma decode_four:
  assumes "x < 5" "y < 64" "z < 64" "v < 64" "x = 0 \<longrightarrow> 16 \<le> y" "x = 4 \<longrightarrow> y < 16"
  shows "utf8_bytes Ready [0xF0 + x, 0x80 + y, 0x80 + z, 0x80 + v] =
    ([((x * 64 + y) * 64 + z) * 64 + v], Ready)"
  using assms by (auto simp: lead_ranges)

lemma decode_values:
  assumes "code_point_ok c"
  shows "utf8_bytes Ready (utf8_values c) = ([c], Ready)"
proof -
  define x where "x = c div 64"
  define y where "y = x div 64"
  have x: "x * 64 + c mod 64 = c" and y: "y * 64 + x mod 64 = x" and w: "y div 64 * 64 + y mod 64 = y"
    by (simp_all add: x_def y_def)
  have d: "c div 64 = x" "c div 4096 = y" "c div 262144 = y div 64"
    by (simp_all add: div_twice x_def y_def)
  have m: "c mod 64 < 64" "x mod 64 < 64" "y mod 64 < 64" by simp_all
  consider "c < 0x80" | "0x80 \<le> c" "c < 0x800" | "0x800 \<le> c" "c < 0x10000" | "0x10000 \<le> c" "c < 0x110000"
    using assms by (force simp: code_point_ok_def)
  then show ?thesis
  proof cases
    case 1
    then show ?thesis by (simp add: utf8_values_def lead_ranges)
  next
    case 2
    then have "2 \<le> x" "x < 32" by (simp_all add: x_def)
    from decode_two [OF this m(1)] show ?thesis using 2 x by (simp add: utf8_values_def d)
  next
    case 3
    then have "y < 16" by (simp add: x_def y_def)
    moreover have "y = 0 \<longrightarrow> 32 \<le> x mod 64" using 3 x y m by arith
    moreover have "y = 13 \<longrightarrow> x mod 64 < 32"
      using assms 3 x y m unfolding code_point_ok_def by arith
    ultimately have "utf8_bytes Ready [0xE0 + y, 0x80 + x mod 64, 0x80 + c mod 64] =
        ([(y * 64 + x mod 64) * 64 + c mod 64], Ready)"
      by (intro decode_three) (use m in auto)
    then show ?thesis using 3 x y by (simp add: utf8_values_def d)
  next
    case 4
    then have "y div 64 < 5" by (simp add: x_def y_def)
    moreover have "y div 64 = 0 \<longrightarrow> 16 \<le> y mod 64" using 4 x y w m by arith
    moreover have "y div 64 = 4 \<longrightarrow> y mod 64 < 16" using 4 x y w m by arith
    ultimately have "utf8_bytes Ready [0xF0 + y div 64, 0x80 + y mod 64, 0x80 + x mod 64, 0x80 + c mod 64] =
        ([((y div 64 * 64 + y mod 64) * 64 + x mod 64) * 64 + c mod 64], Ready)"
      by (intro decode_four) (use m in auto)
    then show ?thesis using 4 x y w by (simp add: utf8_values_def d)
  qed
qed

lemma utf8_values_byte:
  assumes "code_point_ok c" and "b \<in> set (utf8_values c)"
  shows "b < 256"
proof -
  have "c div 262144 < 5" by (rule less_mult_imp_div_less) (use assms(1) in \<open>simp add: code_point_ok_def\<close>)
  moreover have "c < 0x10000 \<Longrightarrow> c div 4096 < 16" "c < 0x800 \<Longrightarrow> c div 64 < 32" by simp_all
  moreover have "c mod 64 < 64" "c div 64 mod 64 < 64" "c div 4096 mod 64 < 64" by simp_all
  ultimately show ?thesis
    using assms(2) by (auto simp: utf8_values_def split: if_splits)
qed

lemma unat_utf8_char:
  assumes "code_point_ok c"
  shows "map unat (utf8_char c) = utf8_values c"
  using utf8_values_byte [OF assms] by (auto simp: utf8_char_def comp_def unat_byte intro!: map_idI)

lemma decode_char:
  "code_point_ok c \<Longrightarrow> decoder_write Ready (utf8_char c) = ([c], Ready)"
  by (simp add: decoder_write_def unat_utf8_char decode_values)

lemma decode_encode:
  "list_all code_point_ok cs \<Longrightarrow> decoder_write Ready (utf8_encode cs) = (cs, Ready)"
  by (induction cs) (auto simp: utf8_encode_def decoder_append decode_char)

section \<open>Complete characters at the end of a buffer\<close>

definition is_cont :: "8 word \<Rightarrow> bool" where
  "is_cont b \<longleftrightarrow> b AND 0xC0 = 0x80"

lemma unat_byte_less: "unat (b :: 8 word) < 256"
  using unsigned_less [of b] by simp

lemma high_bits: "(b :: 8 word) AND NOT (mask k) = push_bit k (drop_bit k b)"
  by (rule bit_eqI) (auto simp: bit_simps)

lemma unat_high: "unat ((b :: 8 word) AND NOT (mask k)) = unat b div 2 ^ k * 2 ^ k"
proof -
  have "unat b div 2 ^ k * 2 ^ k < 256" 
    by (rule le_less_trans [OF div_times_less_eq_dividend unat_byte_less])
  moreover have "unat (drop_bit k b) = unat b div 2 ^ k"
    using unsigned_drop_bit_eq [of k b, where 'a = nat] unat_byte_less [of b]
    by (simp only: drop_bit_eq_div [where 'a = nat] take_bit_nat_eq_self) (simp add: take_bit_nat_eq_self)
  ultimately show ?thesis
    unfolding high_bits unsigned_push_bit_eq by (simp add: push_bit_eq_mult take_bit_nat_eq_self)
qed

lemma masks: "(0xC0 :: 8 word) = NOT (mask 6)" "(0x80 :: 8 word) = NOT (mask 7)" "(0xE0 :: 8 word) = NOT (mask 5)"
  "(0xF0 :: 8 word) = NOT (mask 4)" "(0xF8 :: 8 word) = NOT (mask 3)"
  by (simp_all add: mask_numeral)

lemma high_eq: "k < 256 \<Longrightarrow> (b :: 8 word) AND NOT (mask m) = word_of_nat k \<longleftrightarrow> unat b div 2 ^ m * 2 ^ m = k"
  by (simp add: word_unat_eq_iff unat_high unat_of_nat take_bit_eq_mod)

lemma mask_tests:
  fixes b :: "8 word"
  shows
  "b AND 0xC0 = 0x80 \<longleftrightarrow> unat b div 64 = 2" "b AND 0x80 = 0 \<longleftrightarrow> unat b div 128 = 0" 
  "b AND 0xE0 = 0xC0 \<longleftrightarrow> unat b div 32 = 6" "b AND 0xF0 = 0xE0 \<longleftrightarrow> unat b div 16 = 14" "b AND 0xF8 = 0xF0 \<longleftrightarrow> unat b div 8 = 30"
  using high_eq [of 128 b 6] high_eq [of 0 b 7] high_eq [of 192 b 5] high_eq [of 224 b 4] high_eq [of 240 b 3]
  by (auto simp: masks[symmetric])
lemma byte_class:
  assumes "n < 256"
  shows "is_cont (word_of_nat n) \<longleftrightarrow> 0x80 \<le> n \<and> n < 0xC0"
    and "seq_len (word_of_nat n) =
       (if 0xC0 \<le> n \<and> n < 0xE0 then 2 else if 0xE0 \<le> n \<and> n < 0xF0 then 3
        else if 0xF0 \<le> n \<and> n < 0xF8 then 4 else 1)"
  unfolding is_cont_def seq_len_def mask_tests unat_byte [OF assms] by auto

lemma lead_scan_conts:
  "\<forall>k \<in> set ks. is_cont k \<Longrightarrow>
   lead_scan (pre @ ks @ rest) (length pre + length ks) n = lead_scan (pre @ ks @ rest) (length pre) (n + length ks)"
proof (induction ks arbitrary: n rest rule: rev_induct)
  case Nil
  then show ?case by simp
next
  case (snoc k ks)
  have "(pre @ ks @ [k] @ rest) ! (length pre + length ks) = k" by (simp add: nth_append)
  then show ?case using snoc.prems snoc.IH [of "k # rest" "Suc n"] by (simp add: is_cont_def)
qed

lemma completeUtf8Length_at:
  assumes "\<not> is_cont l" and "\<forall>k \<in> set ks. is_cont k"
  shows "completeUtf8Length (pre @ l # ks) =
    (if length ks + 1 < seq_len l then length pre else length (pre @ l # ks))"
  using lead_scan_conts [OF assms(2), of "pre @ [l]" "[]" 0] assms(1)
  by (simp add: completeUtf8Length_def is_cont_def)

lemma utf8_char_shape:
  assumes "code_point_ok c"
  obtains l ks where "utf8_char c = l # ks" and "\<not> is_cont l" and "\<forall>k \<in> set ks. is_cont k"
    and "seq_len l = length ks + 1"
proof -
  have v: "c div 262144 < 5" by (rule less_mult_imp_div_less) (use assms in \<open>simp add: code_point_ok_def\<close>)
  have m: "c mod 64 < 64" "c div 64 mod 64 < 64" "c div 4096 mod 64 < 64" by simp_all
  have b: "c < 0x10000 \<Longrightarrow> c div 4096 < 16" "c < 0x800 \<Longrightarrow> c div 64 < 32" by simp_all
  show thesis
  proof (rule that [of "hd (utf8_char c)" "tl (utf8_char c)"])
    show "utf8_char c = hd (utf8_char c) # tl (utf8_char c)"
      by (simp add: utf8_char_def utf8_values_def)
    show "\<not> is_cont (hd (utf8_char c))"
      using v m b by (simp add: utf8_char_def utf8_values_def byte_class del: of_nat_add of_nat_numeral)
    show "\<forall>k \<in> set (tl (utf8_char c)). is_cont k"
      using v m b by (simp add: utf8_char_def utf8_values_def byte_class del: of_nat_add of_nat_numeral)
    show "seq_len (hd (utf8_char c)) = length (tl (utf8_char c)) + 1"
      using v m b by (simp add: utf8_char_def utf8_values_def byte_class del: of_nat_add of_nat_numeral)
  qed
qed

lemma completeUtf8Length_Nil [simp]: "completeUtf8Length [] = 0"
  by (simp add: completeUtf8Length_def)

lemma utf8_encode_simps [simp]:
  "utf8_encode [] = []" "utf8_encode (c # cs) = utf8_char c @ utf8_encode cs"
  "utf8_encode (cs @ ds) = utf8_encode cs @ utf8_encode ds"
  by (simp_all add: utf8_encode_def)

lemma completeUtf8Length_torn:
  assumes "list_all code_point_ok cs" and "code_point_ok c" and "strict_prefix p (utf8_char c)"
  shows "completeUtf8Length (utf8_encode cs @ p) = length (utf8_encode cs)"
proof (cases p)
  case (Cons q qs)
  obtain l ks where c: "utf8_char c = l # ks" "\<not> is_cont l" "\<forall>k \<in> set ks. is_cont k" "seq_len l = length ks + 1"
    by (rule utf8_char_shape [OF assms(2)])
  have "q = l" "strict_prefix qs ks" using assms(3) Cons c(1) by auto
  then have "length qs < length ks" "set qs \<subseteq> set ks"
    by (auto intro: prefix_length_less dest: set_mono_prefix prefix_order.less_imp_le)
  then show ?thesis
    using completeUtf8Length_at [of l qs "utf8_encode cs"] c Cons \<open>q = l\<close> by auto
next
  case Nil
  show ?thesis
  proof (cases cs rule: rev_cases)
    case (snoc ds d)
    obtain l ks where "utf8_char d = l # ks" "\<not> is_cont l" "\<forall>k \<in> set ks. is_cont k" "seq_len l = length ks + 1"
      by (rule utf8_char_shape [of d]) (use assms(1) snoc in auto)
    then show ?thesis using completeUtf8Length_at [of l ks "utf8_encode ds"] Nil snoc by simp
  qed (simp add: Nil)
qed

end
