(* ===== verification/Log_View.thy ===== *)
theory Log_View
  imports Access_Control Job_Runner Utf8_Text
begin

text \<open>
  Following a job from another process: \<open>readBytes\<close> of \<open>src/src/web/jobs/job-log.ts\<close>, the poller of
  \<open>src/src/web/jobs/job-tail.ts\<close>, the WebSocket handler of \<open>src/src/web/routes/jobs.ts\<close> that starts it, and
  the log paging for an MCP client, \<open>pageLog\<close> of \<open>src/src/mcp/job-helpers.ts\<close>.  The lemmas show that a
  character read half written is neither shown torn nor lost, and that the page is told each change of
  status and prompt once.
\<close>

section \<open>Reading the log\<close>

text \<open>A file that does not exist is \<open>None\<close>.\<close>

definition readBytes :: "bytes option \<Rightarrow> nat \<Rightarrow> bytes" where
  "readBytes disk offset =
     (case disk of None \<Rightarrow> [] | Some content \<Rightarrow> if length content \<le> offset then [] else drop offset content)"

definition log_read :: "bytes option \<Rightarrow> cps" where
  "log_read disk = (case disk of None \<Rightarrow> [] | Some content \<Rightarrow> utf8_toString content)"

definition MAX_LOG_CHUNK :: nat where "MAX_LOG_CHUNK = 20000"

record 't log_page =
  lp_log :: "'t list"
  lp_nextOffset :: nat
  lp_hasMore :: bool

definition pageLog :: "'t list \<Rightarrow> nat option \<Rightarrow> bool \<Rightarrow> 't log_page" where
  "pageLog lg logOffset fromTail =
     (let start = (case logOffset of
                     None \<Rightarrow> if fromTail then length lg - MAX_LOG_CHUNK else 0
                   | Some off \<Rightarrow> min off (length lg));
          chunk = take MAX_LOG_CHUNK (drop start lg)
      in \<lparr>lp_log = chunk, lp_nextOffset = start + length chunk,
          lp_hasMore = start + length chunk < length lg\<rparr>)"

section \<open>Messages to a page\<close>

datatype 't ws_msg =
    MBacklog 't
  | MChunk stream 't
  | MStatus job_status
  | MPrompt string "string list" prompt_origin "nat option"
  | MPromptCleared

type_synonym prompt_state = "string \<times> prompt_origin \<times> nat option"

definition promptStateOf :: "job_row \<Rightarrow> prompt_state option" where
  "promptStateOf r =
     (if j_status r \<noteq> AwaitingInput \<or> \<not> truthy (j_promptText r) then None
      else Some (the (j_promptText r), (case j_promptOrigin r of None \<Rightarrow> OHeuristic | Some og \<Rightarrow> og),
                 j_promptMatchedIndex r))"

definition prompt_msg :: "job_row \<Rightarrow> prompt_state \<Rightarrow> 't ws_msg" where
  "prompt_msg r p =
     (case p of (txt, og, idx) \<Rightarrow>
        MPrompt txt (case j_expectedPrompts r of None \<Rightarrow> [] | Some ps \<Rightarrow> ps) og idx)"

section \<open>The poller of a foreign job\<close>

text \<open>
  What the closure of \<open>createForeignJobTail\<close> keeps, with the messages given to \<open>send\<close> so far.  A tick
  reads the row and then the log; either read may throw (\<open>Inl\<close>), which stops the poller.  Its log lines
  are left out.
\<close>

record tail =
  t_offset :: nat
  t_decoder :: utf8_state
  t_lastStatus :: job_status
  t_lastPrompt :: "prompt_state option"
  t_stopped :: bool
  t_sent :: "cps ws_msg list"

definition createForeignJobTail :: "nat \<Rightarrow> job_row \<Rightarrow> cps ws_msg list \<Rightarrow> tail" where
  "createForeignJobTail offset row sent =
     \<lparr>t_offset = offset, t_decoder = Ready, t_lastStatus = j_status row, t_lastPrompt = promptStateOf row,
      t_stopped = False, t_sent = sent\<rparr>"

definition tell :: "cps ws_msg list \<Rightarrow> tail \<Rightarrow> tail" where
  "tell ms t = t\<lparr>t_sent := t_sent t @ ms\<rparr>"

definition readLog :: "bytes option \<Rightarrow> tail \<Rightarrow> tail" where
  "readLog disk t =
     (let bs = readBytes disk (t_offset t)
      in case decoder_write (t_decoder t) bs of
           (txt, dec) \<Rightarrow> tell (if txt = [] then [] else [MChunk Stdout txt])
                          (t\<lparr>t_offset := t_offset t + length bs, t_decoder := dec\<rparr>))"

definition reportRow :: "job_row \<Rightarrow> tail \<Rightarrow> tail" where
  "reportRow r t =
     (let t1 = (if j_status r \<noteq> t_lastStatus t
                then tell [MStatus (j_status r)] (t\<lparr>t_lastStatus := j_status r\<rparr>) else t);
          p = promptStateOf r;
          t2 = (if p \<noteq> t_lastPrompt t1
                then tell [case p of None \<Rightarrow> MPromptCleared | Some q \<Rightarrow> prompt_msg r q] (t1\<lparr>t_lastPrompt := p\<rparr>)
                else t1)
      in if j_status r \<in> set terminal_statuses then t2\<lparr>t_stopped := True\<rparr> else t2)"

definition tail_tick ::
  "(nat \<Rightarrow> bool) \<Rightarrow> (string + job_row option) \<Rightarrow> (string + bytes option) \<Rightarrow> tail \<Rightarrow> tail" where
  "tail_tick alive got disk t =
     (if t_stopped t then t
      else case got of
        Inl _ \<Rightarrow> t\<lparr>t_stopped := True\<rparr>
      | Inr row \<Rightarrow>
          (case disk of
             Inl _ \<Rightarrow> t\<lparr>t_stopped := True\<rparr>
           | Inr content \<Rightarrow>
               let t1 = readLog content t
               in case row of
                    None \<Rightarrow> t1\<lparr>t_stopped := True\<rparr>
                  | Some r \<Rightarrow>
                      if dead_mcp alive (case j_owner r of None \<Rightarrow> '''' | Some ow \<Rightarrow> ow)
                      then t1\<lparr>t_stopped := True\<rparr>
                      else reportRow r t1))"

section \<open>Opening the socket\<close>

datatype follow = FollowEvents | FollowTail tail | FollowNothing

datatype upgrade = Destroyed | Opened "cps ws_msg list" follow

definition replay :: "job_row \<Rightarrow> 't ws_msg list" where
  "replay job = MStatus (j_status job) # map (prompt_msg job) (case promptStateOf job of None \<Rightarrow> [] | Some p \<Rightarrow> [p])"

definition connect_foreign :: "job_row \<Rightarrow> bytes option \<Rightarrow> upgrade" where
  "connect_foreign job disk =
     (let backlogBytes = readBytes disk 0;
          offset = completeUtf8Length backlogBytes;
          sent = MBacklog (utf8_toString (take offset backlogBytes)) # replay job
      in Opened sent
           (if j_status job \<in> set terminal_statuses then FollowNothing
            else FollowTail (createForeignJobTail offset job sent)))"

definition connect_own :: "job_row option \<Rightarrow> bytes option \<Rightarrow> upgrade" where
  "connect_own job disk =
     Opened (case job of None \<Rightarrow> [MBacklog []] | Some j \<Rightarrow> MBacklog (log_read disk) # replay j) FollowEvents"

section \<open>The text a page has been given\<close>

fun text_of :: "'a list ws_msg list \<Rightarrow> 'a list" where
  "text_of [] = []"
| "text_of (MBacklog t # ms) = t @ text_of ms"
| "text_of (MChunk _ t # ms) = t @ text_of ms"
| "text_of (_ # ms) = text_of ms"

fun statuses_of :: "'t ws_msg list \<Rightarrow> job_status list" where
  "statuses_of [] = []"
| "statuses_of (MStatus s # ms) = s # statuses_of ms"
| "statuses_of (_ # ms) = statuses_of ms"

fun prompts_of :: "'t ws_msg list \<Rightarrow> prompt_state option list" where
  "prompts_of [] = []"
| "prompts_of (MPrompt t _ og idx # ms) = Some (t, og, idx) # prompts_of ms"
| "prompts_of (MPromptCleared # ms) = None # prompts_of ms"
| "prompts_of (_ # ms) = prompts_of ms"

lemma text_of_append [simp]: "text_of (ms @ ns) = text_of ms @ text_of ns"
  by (induction ms rule: text_of.induct) simp_all

lemma statuses_of_append [simp]: "statuses_of (ms @ ns) = statuses_of ms @ statuses_of ns"
  by (induction ms rule: statuses_of.induct) simp_all

lemma prompts_of_append [simp]: "prompts_of (ms @ ns) = prompts_of ms @ prompts_of ns"
  by (induction ms rule: prompts_of.induct) simp_all

lemma prompt_msg_views [simp]:
  "text_of [prompt_msg r p] = []" "statuses_of [prompt_msg r p] = []" "prompts_of [prompt_msg r p] = [Some p]"
  by (simp_all add: prompt_msg_def split: prod.splits)

lemma replay_views [simp]:
  "text_of (replay job) = []" "statuses_of (replay job) = [j_status job]"
  "prompts_of (replay job) = (case promptStateOf job of None \<Rightarrow> [] | Some p \<Rightarrow> [Some p])"
  by (auto simp: replay_def split: option.splits)

lemma tell_views [simp]:
  "t_sent (tell ms t) = t_sent t @ ms" "t_offset (tell ms t) = t_offset t" "t_decoder (tell ms t) = t_decoder t"
  "t_lastStatus (tell ms t) = t_lastStatus t" "t_lastPrompt (tell ms t) = t_lastPrompt t"
  "t_stopped (tell ms t) = t_stopped t"
  by (simp_all add: tell_def)

text \<open>The log file at some time, when its bytes will in the end be \<open>whole\<close>.\<close>

definition grows_to :: "bytes \<Rightarrow> bytes option \<Rightarrow> bool" where
  "grows_to whole disk \<longleftrightarrow> (case disk of None \<Rightarrow> True | Some b \<Rightarrow> prefix b whole)"

definition tail_at :: "bytes \<Rightarrow> tail \<Rightarrow> bool" where
  "tail_at whole t \<longleftrightarrow> t_offset t \<le> length whole \<and>
     decoder_write Ready (take (t_offset t) whole) = (text_of (t_sent t), t_decoder t)"

lemma readBytes_grown:
  assumes "grows_to whole disk" and "off \<le> length whole"
  shows "off + length (readBytes disk off) \<le> length whole"
    and "take (off + length (readBytes disk off)) whole = take off whole @ readBytes disk off"
proof -
  have "off + length (readBytes disk off) \<le> length whole \<and>
      take (off + length (readBytes disk off)) whole = take off whole @ readBytes disk off"
  proof (cases disk)
    case (Some b)
    with assms(1) obtain z where z: "whole = b @ z" by (auto simp: grows_to_def prefix_def)
    show ?thesis
      using Some z assms(2) by (cases "length b \<le> off") (simp_all add: readBytes_def)
  qed (simp add: readBytes_def assms(2))
  then show "off + length (readBytes disk off) \<le> length whole"
    and "take (off + length (readBytes disk off)) whole = take off whole @ readBytes disk off" by simp_all
qed

lemma readLog_at:
  assumes "grows_to whole disk" and "tail_at whole t"
  shows "tail_at whole (readLog disk t)"
proof -
  have off: "t_offset t \<le> length whole"
    and dec: "decoder_write Ready (take (t_offset t) whole) = (text_of (t_sent t), t_decoder t)"
    using assms(2) by (simp_all add: tail_at_def)
  show ?thesis
    using readBytes_grown [OF assms(1) off] dec
    by (auto simp: readLog_def tail_at_def Let_def decoder_append split: prod.splits)
qed

lemma readLog_views [simp]:
  "t_lastStatus (readLog disk t) = t_lastStatus t" "t_lastPrompt (readLog disk t) = t_lastPrompt t"
  "t_stopped (readLog disk t) = t_stopped t" "statuses_of (t_sent (readLog disk t)) = statuses_of (t_sent t)"
  "prompts_of (t_sent (readLog disk t)) = prompts_of (t_sent t)"
  "t_offset (readLog disk t) = t_offset t + length (readBytes disk (t_offset t))"
  by (simp_all add: readLog_def Let_def split: prod.splits)

lemma reportRow_views [simp]:
  "t_offset (reportRow r t) = t_offset t" "t_decoder (reportRow r t) = t_decoder t"
  "text_of (t_sent (reportRow r t)) = text_of (t_sent t)"
  "t_lastStatus (reportRow r t) = j_status r" "t_lastPrompt (reportRow r t) = promptStateOf r"
  "t_stopped (reportRow r t) \<longleftrightarrow> t_stopped t \<or> j_status r \<in> set terminal_statuses"
  "statuses_of (t_sent (reportRow r t)) =
     statuses_of (t_sent t) @ (if j_status r = t_lastStatus t then [] else [j_status r])"
  "prompts_of (t_sent (reportRow r t)) =
     prompts_of (t_sent t) @ (if promptStateOf r = t_lastPrompt t then [] else [promptStateOf r])"
  by (auto simp: reportRow_def Let_def split: option.splits)

lemma tail_at_cong:
  "t_offset t' = t_offset t \<Longrightarrow> t_decoder t' = t_decoder t \<Longrightarrow> text_of (t_sent t') = text_of (t_sent t) \<Longrightarrow>
   tail_at whole t' = tail_at whole t"
  by (simp add: tail_at_def)

lemma tick_at:
  assumes "\<And>f. disk = Inr f \<Longrightarrow> grows_to whole f" and "tail_at whole t"
  shows "tail_at whole (tail_tick alive got disk t)"
proof -
  have "tail_at whole (readLog f t)" if "disk = Inr f" for f
    using readLog_at assms that by blast
  then show ?thesis
    using assms(2)
    by (auto simp: tail_tick_def Let_def tail_at_def split: sum.splits option.splits)
qed

definition tail_run ::
  "(nat \<Rightarrow> bool) \<Rightarrow> ((string + job_row option) \<times> (string + bytes option)) list \<Rightarrow> tail \<Rightarrow> tail" where
  "tail_run alive ticks t = fold (\<lambda>(got, disk). tail_tick alive got disk) ticks t"

lemma tail_run_simps [simp]:
  "tail_run alive [] t = t"
  "tail_run alive ((got, disk) # ticks) t = tail_run alive ticks (tail_tick alive got disk t)"
  "tail_run alive (xs @ ys) t = tail_run alive ys (tail_run alive xs t)"
  by (simp_all add: tail_run_def)

lemma run_at:
  "\<forall>f. Inr f \<in> snd ` set ticks \<longrightarrow> grows_to whole f \<Longrightarrow> tail_at whole t \<Longrightarrow> tail_at whole (tail_run alive ticks t)"
proof (induction ticks arbitrary: t)
  case (Cons x ticks)
  obtain got disk where x: "x = (got, disk)" by (cases x)
  have "tail_at whole (tail_tick alive got disk t)"
    using Cons.prems x by (intro tick_at) auto
  then show ?case using Cons.IH Cons.prems(1) x by auto
qed simp

lemma split_prefix:
  "prefix b (utf8_encode cs) \<Longrightarrow> list_all code_point_ok cs \<Longrightarrow>
   \<exists>ds c p. prefix ds cs \<and> code_point_ok c \<and> strict_prefix p (utf8_char c) \<and> b = utf8_encode ds @ p"
proof (induction cs arbitrary: b)
  case Nil
  moreover have "strict_prefix [] (utf8_char 65)" "code_point_ok 65"
    by (simp_all add: utf8_char_def utf8_values_def code_point_ok_def)
  ultimately show ?case by (intro exI [of _ "[]"] exI [of _ 65] exI [of _ "[]"]) simp
next
  case (Cons c cs)
  have "prefix b (utf8_char c) \<or> (\<exists>b'. b = utf8_char c @ b' \<and> prefix b' (utf8_encode cs))"
    using Cons.prems(1) by (auto simp: prefix_append)
  then consider "strict_prefix b (utf8_char c)" | b' where "b = utf8_char c @ b'" "prefix b' (utf8_encode cs)"
    by (cases "b = utf8_char c") (auto simp: strict_prefix_def)
  then show ?case
  proof cases
    case 1
    then show ?thesis using Cons.prems(2) by (intro exI [of _ "[]"] exI [of _ c] exI [of _ b]) simp
  next
    case 2
    from Cons.IH [OF 2(2)] Cons.prems(2) obtain ds d p where
      "prefix ds cs" "code_point_ok d" "strict_prefix p (utf8_char d)" "b' = utf8_encode ds @ p" by auto
    then show ?thesis using 2(1) by (intro exI [of _ "c # ds"] exI [of _ d] exI [of _ p]) simp
  qed
qed

lemma list_all_prefix: "prefix ds cs \<Longrightarrow> list_all P cs \<Longrightarrow> list_all P ds"
  by (auto simp: prefix_def)

lemma connect_at:
  assumes ok: "list_all code_point_ok cs" and disk: "grows_to (utf8_encode cs) disk"
    and conn: "connect_foreign job disk = Opened sent (FollowTail t)"
  shows "tail_at (utf8_encode cs) t" "\<not> t_stopped t" "t_sent t = sent" "t_lastStatus t = j_status job"
    "t_lastPrompt t = promptStateOf job" "j_status job \<notin> set terminal_statuses"
    "statuses_of sent = [j_status job]"
    "prompts_of sent = (case promptStateOf job of None \<Rightarrow> [] | Some p \<Rightarrow> [Some p])"
proof -
  define b where "b = readBytes disk 0"
  have "prefix b (utf8_encode cs)"
    using disk by (auto simp: b_def readBytes_def grows_to_def split: option.splits)
  from split_prefix [OF this ok] obtain ds c p where
    p: "prefix ds cs" "code_point_ok c" "strict_prefix p (utf8_char c)" "b = utf8_encode ds @ p" by blast
  have ds: "list_all code_point_ok ds" using list_all_prefix [OF p(1) ok] .
  have n: "completeUtf8Length b = length (utf8_encode ds)"
    using completeUtf8Length_torn [OF ds p(2,3)] p(4) by simp
  have "take (length (utf8_encode ds)) (utf8_encode cs) = utf8_encode ds" "length (utf8_encode ds) \<le> length (utf8_encode cs)"
    using p(1) by (auto simp: prefix_def)
  then show "tail_at (utf8_encode cs) t"
    using conn decode_encode [OF ds]
    by (auto simp: connect_foreign_def Let_def b_def [symmetric] n [unfolded p(4)] p(4) tail_at_def createForeignJobTail_def
        utf8_toString_def split: if_splits)
  show "\<not> t_stopped t" "t_sent t = sent" "t_lastStatus t = j_status job" "t_lastPrompt t = promptStateOf job"
    "j_status job \<notin> set terminal_statuses" "statuses_of sent = [j_status job]"
    "prompts_of sent = (case promptStateOf job of None \<Rightarrow> [] | Some p \<Rightarrow> [Some p])"
    using conn by (auto simp: connect_foreign_def Let_def createForeignJobTail_def split: if_splits)
qed


section \<open>What the page learns\<close>

lemma tail_at_text:
  assumes "tail_at (utf8_encode cs) t" and "list_all code_point_ok cs"
  shows "prefix (text_of (t_sent t)) cs"
    and "length (utf8_encode cs) \<le> t_offset t \<Longrightarrow> text_of (t_sent t) = cs"
proof -
  have d: "decoder_write Ready (take (t_offset t) (utf8_encode cs)) = (text_of (t_sent t), t_decoder t)"
    using assms(1) by (simp add: tail_at_def)
  have "decoder_write Ready (take (t_offset t) (utf8_encode cs) @ drop (t_offset t) (utf8_encode cs)) = (cs, Ready)"
    by (simp add: decode_encode assms(2))
  then show "prefix (text_of (t_sent t)) cs"
    unfolding decoder_append d by (auto simp: prefix_def split: prod.splits)
  show "text_of (t_sent t) = cs" if "length (utf8_encode cs) \<le> t_offset t"
    using d that by (simp add: decode_encode assms(2))
qed

text \<open>
  C6: whatever a foreign job's log file looks like when the page connects and at each poll (any torn
  prefix of the UTF-8 of the final text), what the page has been given is always a prefix of that text,
  with no torn character in it; and once a poll that still runs has read the whole file it is the text.
\<close>

theorem foreign_log_is_relayed_whole:
  assumes "list_all code_point_ok cs"
    and "grows_to (utf8_encode cs) disk"
    and "connect_foreign job disk = Opened sent (FollowTail t)"
    and "\<forall>f. Inr f \<in> snd ` set ticks \<longrightarrow> grows_to (utf8_encode cs) f"
  shows "prefix (text_of (t_sent (tail_run alive ticks t))) cs \<and>
    (\<not> t_stopped (tail_run alive ticks t) \<longrightarrow>
      text_of (t_sent (tail_tick alive (Inr row) (Inr (Some (utf8_encode cs))) (tail_run alive ticks t))) = cs)"
proof (intro conjI impI)
  have tl: "tail_at (utf8_encode cs) (tail_run alive ticks t)"
    using run_at [OF assms(4) connect_at(1) [OF assms(1-3)]] .
  show "prefix (text_of (t_sent (tail_run alive ticks t))) cs"
    using tail_at_text(1) [OF tl assms(1)] .
  define u where "u = tail_run alive ticks t"
  define v where "v = tail_tick alive (Inr row) (Inr (Some (utf8_encode cs))) u"
  assume "\<not> t_stopped (tail_run alive ticks t)"
  then have "t_offset v = t_offset u + length (readBytes (Some (utf8_encode cs)) (t_offset u))"
    by (simp add: u_def [symmetric] v_def tail_tick_def Let_def split: option.splits)
  then have "length (utf8_encode cs) \<le> t_offset v" by (simp add: readBytes_def split: if_splits)
  moreover have "tail_at (utf8_encode cs) v"
    using tl unfolding v_def u_def by (intro tick_at) (auto simp: grows_to_def)
  ultimately show "text_of (t_sent (tail_tick alive (Inr row) (Inr (Some (utf8_encode cs))) (tail_run alive ticks t))) = cs"
    using tail_at_text(2) assms(1) unfolding v_def u_def by blast
qed

definition told :: "job_row list \<Rightarrow> tail \<Rightarrow> bool" where
  "told rows t \<longleftrightarrow>
     statuses_of (t_sent t) = remdups_adj (map j_status rows) \<and>
     None # prompts_of (t_sent t) = remdups_adj (None # map promptStateOf rows) \<and>
     t_lastStatus t = j_status (last rows) \<and> t_lastPrompt t = promptStateOf (last rows) \<and>
     t_stopped t = (j_status (last rows) \<in> set terminal_statuses)"

lemma remdups_adj_snoc:
  "remdups_adj (xs @ [x]) = (if xs \<noteq> [] \<and> last xs = x then remdups_adj xs else remdups_adj xs @ [x])"
  by (cases xs rule: rev_cases) (auto simp: remdups_adj_append_two)

lemma told_tick:
  assumes "told rows t" and "rows \<noteq> []" and "\<not> t_stopped t" and "\<not> dead_mcp alive (owner_of (j_owner r))"
  shows "told (rows @ [r]) (tail_tick alive (Inr (Some r)) (Inr disk) t)"
proof -
  have "\<not> dead_mcp alive (case j_owner r of None \<Rightarrow> '''' | Some ow \<Rightarrow> ow)"
    using assms(4) by (cases "j_owner r") (simp_all add: owner_of_def dead_mcp_def mcp_pid_def)
  then show ?thesis
    using assms(1-3) remdups_adj_snoc [of "map j_status rows" "j_status r"]
      remdups_adj_snoc [of "None # map promptStateOf rows" "promptStateOf r"]
    by (auto simp: told_def tail_tick_def Let_def last_map)
qed

text \<open>
  While a foreign job's owner lives, the page is sent each change of status and of prompt exactly
  once and in order: the statuses are those of the rows the polls saw without adjacent repetitions, the
  prompts (none shown at first) likewise, and the poller stops exactly on a terminal row, after sending it.
\<close>

theorem foreign_page_follows_the_row:
  assumes "connect_foreign job disk = Opened sent (FollowTail t)"
    and "\<forall>p \<in> set polls. \<not> dead_mcp alive (owner_of (j_owner (fst p)))"
    and "\<forall>p \<in> set (butlast polls). j_status (fst p) \<notin> set terminal_statuses"
  defines "rows \<equiv> job # map fst polls"
    and "page \<equiv> tail_run alive (map (\<lambda>(r, d). (Inr (Some r), Inr d)) polls) t"
  shows "statuses_of (t_sent page) = remdups_adj (map j_status rows) \<and>
    None # prompts_of (t_sent page) = remdups_adj (None # map promptStateOf rows) \<and>
    (t_stopped page \<longleftrightarrow> j_status (last rows) \<in> set terminal_statuses)"
proof -
  have start: "told [job] t"
    using assms(1) by (auto simp: told_def connect_foreign_def Let_def createForeignJobTail_def split: if_splits option.splits)
  have nt: "j_status job \<notin> set terminal_statuses"
    using assms(1) by (auto simp: connect_foreign_def Let_def split: if_splits)
  have "told rows page"
    using assms(2,3) unfolding page_def rows_def
  proof (induction polls rule: rev_induct)
    case Nil
    then show ?case by (simp add: start)
  next
    case (snoc p ps)
    obtain r d where p: "p = (r, d)" by (cases p)
    have told: "told (job # map fst ps) (tail_run alive (map (\<lambda>(r, d). (Inr (Some r), Inr d)) ps) t)"
      using snoc by (auto dest: in_set_butlastD)
    have "j_status (last (job # map fst ps)) \<notin> set terminal_statuses"
      using nt snoc.prems(2) by (cases ps rule: rev_cases) (auto simp: butlast_append)
    then show ?case
      using told_tick [OF told _ _, of alive r d] told snoc.prems(1) p by (simp add: told_def)
  qed
  then show ?thesis by (simp add: told_def rows_def)
qed

section \<open>Paging a log\<close>

text \<open>
  A client that follows \<open>nextOffset\<close> from the start reads the whole log, piece after piece: each page
  holds at most 20000 characters and continues the log where it was asked to, it advances unless nothing
  is left, and \<open>hasMore\<close> says exactly whether something is.
\<close>

theorem pages_cover_the_log:
  fixes lg :: "'t list" and off :: nat and fromTail :: bool
  defines "p \<equiv> pageLog lg (Some off) fromTail"
  shows "off \<le> length lg \<Longrightarrow> take off lg @ lp_log p = take (lp_nextOffset p) lg"
    and "off < length lg \<Longrightarrow> off < lp_nextOffset p"
    and "lp_hasMore p \<longleftrightarrow> lp_nextOffset p < length lg"
    and "length (lp_log p) \<le> 20000"
  unfolding p_def
  by (auto simp: pageLog_def MAX_LOG_CHUNK_def Let_def min_def take_add [symmetric])

section \<open>Instances\<close>

definition demo_foreign :: "job_status \<Rightarrow> job_row" where
  "demo_foreign st =
     \<lparr>j_id = 1, j_command = ''update'', j_category = Maintenance, j_target = Some ''web1'', j_argsJson = '''',
      j_status = st, j_logFile = ''log1'', j_startedAt = Some 5, j_finishedAt = None, j_exitCode = None,
      j_errorMessage = None, j_promptText = Some ''Go? '', j_expectedPrompts = None, j_promptOrigin = Some OExpected,
      j_promptMatchedIndex = Some 0, j_triggeredByUsername = None, j_triggeredByImpersonating = None,
      j_triggeredVia = None, j_owner = Some ''mcp:7''\<rparr>"

definition demo_sent :: "cps ws_msg list" where
  "demo_sent = [MBacklog [65], MStatus Running]"

lemma demo_connect:
  "connect_foreign (demo_foreign Running) (Some (take 2 (utf8_encode [65, 233]))) =
     Opened demo_sent (FollowTail (createForeignJobTail 1 (demo_foreign Running) demo_sent))"
  by code_simp

theorem foreign_log_is_relayed_whole_witness:
  "text_of (t_sent (tail_tick (\<lambda>_. True) (Inr None) (Inr (Some (utf8_encode [65, 233])))
     (createForeignJobTail 1 (demo_foreign Running) demo_sent))) = [65, 233]"
proof -
  have "list_all code_point_ok [65, 233]" by (simp add: code_point_ok_def)
  from foreign_log_is_relayed_whole [OF this _ demo_connect, where ticks = "[]" and alive = "\<lambda>_. True" and row = None]
  show ?thesis by (simp add: grows_to_def take_is_prefix createForeignJobTail_def del: utf8_encode_simps)
qed

theorem foreign_page_follows_the_row_witness:
  "let page = tail_run (\<lambda>_. True) [(Inr (Some (demo_foreign AwaitingInput)), Inr None), (Inr (Some (demo_foreign Running)), Inr None),
       (Inr (Some (demo_foreign Success)), Inr None)] (createForeignJobTail 1 (demo_foreign Running) demo_sent)
   in statuses_of (t_sent page) = [Running, AwaitingInput, Running, Success] \<and>
      prompts_of (t_sent page) = [Some (''Go? '', OExpected, Some 0), None] \<and> t_stopped page"
proof -
  let ?polls = "[(demo_foreign AwaitingInput, None), (demo_foreign Running, None), (demo_foreign Success, None)]"
  have p: "\<forall>p \<in> set ?polls. \<not> dead_mcp (\<lambda>_. True) (owner_of (j_owner (fst p)))"
    "\<forall>p \<in> set (butlast ?polls). j_status (fst p) \<notin> set terminal_statuses"
    by (simp_all add: dead_mcp_def demo_foreign_def terminal_statuses_def split: option.splits)
  from foreign_page_follows_the_row [OF demo_connect p]
  show ?thesis
    by (simp add: Let_def demo_foreign_def promptStateOf_def truthy_def terminal_statuses_def)
qed

theorem pages_cover_the_log_witness:
  "let p = pageLog [1, 2, 3 :: nat] (Some 1) False in take 1 [1, 2, 3] @ lp_log p = take (lp_nextOffset p) [1, 2, 3 :: nat] \<and> 1 < lp_nextOffset p"
  using pages_cover_the_log(1,2) [of 1 "[1, 2, 3 :: nat]" False] by (simp add: Let_def)

end
