(* ===== verification/Job_Web.thy ===== *)
theory Job_Web
  imports Job_Control Log_View
begin

text \<open>
  The jobs of the web interface, \<open>src/src/web/routes/jobs.ts\<close>: the WebSocket upgrade, the events an own
  job's socket forwards, and the HTTP routes that show and control a job.  The theorems: socket and route
  show the same jobs, a caller who may not see a job cannot touch it, what a control request records, and
  the one line of a log that a page following the job from another process can miss.
\<close>

section \<open>The WebSocket\<close>

definition ws_job_id :: "string \<Rightarrow> nat option" where
  "ws_job_id url =
     (if take 9 url = ''/ws/jobs/'' \<and> drop 9 url \<noteq> [] \<and> list_all is_digit (drop 9 url)
      then Some (read_nat (drop 9 url)) else None)"

text \<open>
  The \<open>upgrade\<close> listener once the session is resolved: \<open>session\<close> is what it resolved to, \<open>logs\<close> the log
  files by name, \<open>me\<close> this process's runner's owner.
\<close>

definition ws_upgrade ::
  "perm_db \<Rightarrow> inventory_view \<Rightarrow> impersonation_store \<Rightarrow> string \<Rightarrow> auth_user option \<Rightarrow> auth_env \<Rightarrow> string \<Rightarrow>
   job_store \<Rightarrow> (string \<Rightarrow> bytes option) \<Rightarrow> upgrade" where
  "ws_upgrade db inven imps me session env url store logs =
     (case resolveRequestUser session env of
        Inl _ \<Rightarrow> Destroyed
      | Inr None \<Rightarrow> Destroyed
      | Inr (Some user) \<Rightarrow>
          let entry = jm_get imps (au_username user);
              caller = (if truthy entry then user\<lparr>au_groups := [the entry], au_impersonating := entry\<rparr> else user)
          in case ws_job_id url of
               None \<Rightarrow> Destroyed
             | Some jobId \<Rightarrow>
                 let job = get_job jobId store
                 in if \<not> isJobVisible (ae_admin env) (loadPermissionRules db) caller job (guestCreators inven)
                    then Destroyed
                    else (case job of
                            None \<Rightarrow> connect_own None None
                          | Some j \<Rightarrow>
                              if owner_of (j_owner j) \<noteq> me then connect_foreign j (logs (j_logFile j))
                              else connect_own (Some j) (logs (j_logFile j))))"

text \<open>The listeners of an own job's socket.\<close>

definition ws_event :: "nat \<Rightarrow> event \<Rightarrow> string ws_msg option" where
  "ws_event jobId ev =
     (case ev of
        EvChunk i strm txt \<Rightarrow> if i = jobId then Some (MChunk strm txt) else None
      | EvStatus i st \<Rightarrow> if i = jobId then Some (MStatus st) else None
      | EvPrompt i txt expected og idx \<Rightarrow> if i = jobId then Some (MPrompt txt expected og idx) else None
      | EvPromptCleared i \<Rightarrow> if i = jobId then Some MPromptCleared else None)"

text \<open>\<open>GET /api/jobs/:id\<close>: the job with its log, or 404 (\<open>None\<close>).\<close>

definition get_job_route ::
  "admin_groups \<Rightarrow> perm_db \<Rightarrow> inventory_view \<Rightarrow> auth_user option \<Rightarrow> nat \<Rightarrow> job_store \<Rightarrow> (string \<Rightarrow> bytes option) \<Rightarrow>
   (job_row \<times> cps) option" where
  "get_job_route cfg db inven user jobId store logs =
     (case get_job jobId store of
        None \<Rightarrow> None
      | Some job \<Rightarrow>
          if isJobVisible cfg (loadPermissionRules db) (case user of None \<Rightarrow> ANONYMOUS_CALLER | Some u \<Rightarrow> u)
               (Some job) (guestCreators inven)
          then Some (job, log_read (logs (j_logFile job))) else None)"

section \<open>Controlling a job\<close>

text \<open>
  \<open>POST /api/jobs/:id/cancel\<close>, \<open>answer\<close> and \<open>dismiss-prompt\<close>.  \<open>body\<close> is the request's \<open>text\<close> field when
  that is a string; an exception reaches Express, which answers 500.
\<close>

datatype control_reply = Done200 | Requested202 string | Unknown404 | Refused409 string | Error500 string

definition control_route ::
  "'p control_deps \<Rightarrow> ('p \<Rightarrow> job_store) \<Rightarrow> (nat \<Rightarrow> bool) \<Rightarrow> admin_groups \<Rightarrow> perm_db \<Rightarrow> inventory_view \<Rightarrow>
   auth_request \<Rightarrow> nat \<Rightarrow> control_action \<Rightarrow> string option \<Rightarrow> 'p \<Rightarrow> 'p \<times> control_reply" where
  "control_route deps store_of alive cfg db inven rq jobId action body p =
     (case get_job jobId (store_of p) of
        None \<Rightarrow> (p, Unknown404)
      | Some job \<Rightarrow>
          if \<not> isJobVisible cfg (loadPermissionRules db)
                 (case rq_user rq of None \<Rightarrow> ANONYMOUS_CALLER | Some u \<Rightarrow> u) (Some job) (guestCreators inven)
          then (p, Unknown404)
          else
            (case requestJobControl deps alive
                    \<lparr>cr_job = job, cr_action = action,
                     cr_text = (if action = AAnswer then Some (case body of None \<Rightarrow> '''' | Some t \<Rightarrow> t) else None),
                     cr_requestedByUsername = map_option au_username (real_user rq),
                     cr_requestedByOwner = None\<rparr> p of
               Inl e \<Rightarrow> (p, Error500 e)
             | Inr (p', CDone) \<Rightarrow> (p', Done200)
             | Inr (p', CRequested ow) \<Rightarrow> (p', Requested202 ow)
             | Inr (p', CRefused m) \<Rightarrow> (p', Refused409 m)))"

section \<open>The socket and the HTTP route agree\<close>

definition opens :: "upgrade \<Rightarrow> bool" where
  "opens u \<longleftrightarrow> u \<noteq> Destroyed"

definition api_request :: "impersonation_store \<Rightarrow> auth_user option \<Rightarrow> auth_env \<Rightarrow> auth_user option" where
  "api_request imps session env =
     (case requireAuth session env ''GET'' ''/api/jobs'' of
        Next user \<Rightarrow> rq_user (applyImpersonation imps \<lparr>rq_user = Some user, rq_realUser = None\<rparr>)
      | _ \<Rightarrow> None)"

text \<open>
  For a job that exists, the socket opens exactly when \<open>GET /api/jobs/:id\<close> of the same session
  would show the job, whatever impersonation is active; what it opens with is that route's log (for an own
  job) or its complete characters, followed by the job's status.
\<close>

theorem socket_opens_like_the_route:
  assumes "get_job jobId store = Some job"
  shows "opens (ws_upgrade db inven imps me session env (''/ws/jobs/'' @ show_nat jobId) store logs) \<longleftrightarrow>
    api_request imps session env \<noteq> None \<and>
    get_job_route (ae_admin env) db inven (api_request imps session env) jobId store logs \<noteq> None"
proof -
  have url: "ws_job_id (''/ws/jobs/'' @ show_nat jobId) = Some jobId"
    using show_nat_digits [of jobId] by (simp add: ws_job_id_def read_show_nat)
  have conn: "opens (connect_foreign job d)" "opens (connect_own j d)" for j d
    by (simp_all add: opens_def connect_foreign_def connect_own_def Let_def)
  have api: "api_request imps session env =
      (case resolveRequestUser session env of
         Inr (Some user) \<Rightarrow>
           (let entry = jm_get imps (au_username user)
            in Some (if truthy entry then user\<lparr>au_groups := [the entry], au_impersonating := entry\<rparr> else user))
       | _ \<Rightarrow> None)"
    by (simp add: api_request_def requireAuth_def applyImpersonation_def Let_def split: sum.splits option.splits)
  show ?thesis
    unfolding ws_upgrade_def get_job_route_def api url using assms conn
    by (auto simp: Let_def opens_def split: sum.splits option.splits)
qed

text \<open>
  C7: a caller who may not see a job cannot act on it: the answer is 404 and nothing changes.  When the
  action is handed to the job's owner (202), exactly one request is added, for this job and action, with
  the signed-in user's own name also while that user views the application as a group, and with the
  answer's text only for an answer.
\<close>

theorem control_needs_sight_and_names_the_user:
  fixes user :: auth_user
  assumes "control_route (runner_deps now alive writable) (w_store \<circ> fst) alive cfg db inven
      (applyImpersonation imps \<lparr>rq_user = Some user, rq_realUser = None\<rparr>) i action body (w, r) = (p', reply)"
  shows "(get_job_route cfg db inven (rq_user (applyImpersonation imps \<lparr>rq_user = Some user, rq_realUser = None\<rparr>))
      i (w_store w) logs = None \<longrightarrow> p' = (w, r) \<and> reply = Unknown404) \<and>
    (reply = Requested202 ow \<longrightarrow>
      snd p' = r \<and> (\<exists>c. js_ctl (w_store (fst p')) = js_ctl (w_store w) @ [c] \<and> c_jobId c = i \<and> c_action c = action \<and>
        c_requestedByUsername c = Some (au_username user) \<and> c_requestedByOwner c = r_owner r \<and>
        (c_text c \<noteq> None \<longrightarrow> action = AAnswer) \<and> c_handledAt c = None))"
proof -
  let ?rq = "applyImpersonation imps \<lparr>rq_user = Some user, rq_realUser = None\<rparr>"
  have real: "real_user ?rq = Some user"
    by (simp add: real_user_def applyImpersonation_def Let_def)
  have seen: "p' = (w, r) \<and> reply = Unknown404" if "get_job_route cfg db inven (rq_user ?rq) i (w_store w) logs = None"
    using assms that by (auto simp: control_route_def get_job_route_def split: option.splits if_splits)
  have "snd p' = r \<and> (\<exists>c. js_ctl (w_store (fst p')) = js_ctl (w_store w) @ [c] \<and> c_jobId c = i \<and> c_action c = action \<and>
        c_requestedByUsername c = Some (au_username user) \<and> c_requestedByOwner c = r_owner r \<and>
        (c_text c \<noteq> None \<longrightarrow> action = AAnswer) \<and> c_handledAt c = None)" if rep: "reply = Requested202 ow"
  proof -
    obtain job where job: "get_job i (w_store w) = Some job"
      and rj: "requestJobControl (runner_deps now alive writable) alive
          \<lparr>cr_job = job, cr_action = action,
           cr_text = (if action = AAnswer then Some (case body of None \<Rightarrow> '''' | Some t \<Rightarrow> t) else None),
           cr_requestedByUsername = map_option au_username (real_user ?rq), cr_requestedByOwner = None\<rparr> (w, r) =
         Inr (p', CRequested ow)"
      using assms rep
      by (auto simp: control_route_def split: option.splits if_splits sum.splits prod.splits control_result.splits)
    have "j_id job = i" using job by (auto simp: get_job_def dest: sql_find_SomeD)
    then show ?thesis
      using rj real by (auto simp: requestJobControl_def Let_def runner_deps_def createControlRequest_def
          split: if_splits sum.splits prod.splits control_action.splits)
  qed
  with seen show ?thesis by blast
qed

section \<open>The line a following page can miss\<close>

text \<open>
  A cancel request another process made for a job still waiting in the queue ends the job before
  the line saying who asked for it is written: when the request has been applied the row is already
  \<open>cancelled\<close>, on which every poller of the job stops, and only then the log grows by that line.
\<close>

theorem attribution_lands_after_the_end:
  assumes inv: "proc_inv (w, r)" and "jm_has (r_controllers r) i" and "i \<notin> set (r_started r)"
    and req: "c_action req = ACancel" "c_jobId req = i"
  shows "\<exists>w1 r1 job. applyRequest now alive writable req (w, r) = Inr ((w1, r1), True) \<and>
      get_job i (w_store w1) = Some job \<and> j_status job = Cancelled \<and>
      (\<forall>alive' disk t. t_stopped (tail_tick alive' (Inr (Some job)) disk t)) \<and>
      w_log (fst (processRequest now alive writable req (w, r))) (j_logFile job) =
        w_log w1 (j_logFile job) @
        with_newline (controlAttributionLine ACancel (c_requestedByOwner req) (c_requestedByUsername req))"
proof -
  obtain a where a: "get_job i (w_store w) = Some a"
    using proc_inv_active_row [OF inv assms(2)] by blast
  define p1 where "p1 = fst (cancel now alive i (w, r))"
  have cw: "cancel now alive i (w, r) = (p1, True)"
    using cancel_queued [OF assms(2,3)] by (simp add: p1_def)
  define job where "job = finished_row now cancelled_result a"
  have row: "get_job i (w_store (fst p1)) = Some job"
    using a by (simp add: p1_def cancel_queued [OF assms(2,3)] finishCleanup_facts row_simps job_def)
  have st: "j_status job = Cancelled" by (simp add: job_def finished_row_def cancelled_result_def)
  have stop: "t_stopped (tail_tick alive' (Inr (Some job)) disk t)" for alive' disk t
    using st by (auto simp: tail_tick_def Let_def terminal_statuses_def split: sum.splits)
  have log: "w_log (fst (processRequest now alive writable req (w, r))) (j_logFile job) =
        w_log (fst p1) (j_logFile job) @
        with_newline (controlAttributionLine ACancel (c_requestedByOwner req) (c_requestedByUsername req))"
    using assms(2) req row
    by (cases p1) (simp add: processRequest_def applyRequest_def cw Let_def row_simps emitLogChunk_def)
  show ?thesis
    by (rule exI [of _ "fst p1"], rule exI [of _ "snd p1"], rule exI [of _ job])
      (use row st stop log req in \<open>simp add: applyRequest_def cw\<close>)
qed

section \<open>Instances\<close>

definition demo_user :: auth_user where
  "demo_user = ANONYMOUS_CALLER\<lparr>au_username := ''ann'', au_groups := [''admins'']\<rparr>"

definition demo_cfg :: admin_groups where
  "demo_cfg = \<lparr>ag_adminGroup = ''admins'', ag_builtinAdminGroup = ''builtin''\<rparr>"

definition demo_env :: auth_env where
  "demo_env = \<lparr>ae_mode = None, ae_localUser = None, ae_devUser = None, ae_devGroups = None, ae_admin = demo_cfg\<rparr>"

definition demo_db :: perm_db where
  "demo_db = \<lparr>pd_groups = [], pd_rules = []\<rparr>"

definition demo_inven :: inventory_view where
  "demo_inven = \<lparr>iv_hosts = [], iv_guests = []\<rparr>"

definition demo_jobs :: job_store where
  "demo_jobs = empty_store\<lparr>js_jobs := [demo_foreign Running], js_jobSeq := 1\<rparr>"

lemmas demo_web = demo_user_def demo_cfg_def demo_env_def demo_db_def demo_inven_def demo_jobs_def demo_foreign_def
  ANONYMOUS_CALLER_def

theorem socket_opens_like_the_route_witness:
  "opens (ws_upgrade demo_db demo_inven [] ''web'' (Some demo_user) demo_env (''/ws/jobs/'' @ show_nat 1) demo_jobs (\<lambda>_. None))"
proof -
  have "get_job 1 demo_jobs = Some (demo_foreign Running)"
    by (simp add: demo_web get_job_def sql_find_def)
  from socket_opens_like_the_route [OF this, of demo_db demo_inven "[]" "''web''" "Some demo_user" demo_env "\<lambda>_. None"]
  show ?thesis
    using \<open>get_job 1 demo_jobs = _\<close>
    by (simp add: api_request_def requireAuth_def resolveRequestUser_def applyImpersonation_def truthy_def Let_def
        get_job_route_def isJobVisible_def isAdminUser_def isAdminOf_def demo_web)
qed

definition demo_control :: "impersonation_store \<Rightarrow> proc \<times> control_reply" where
  "demo_control imps =
     control_route (runner_deps 9 (\<lambda>_. True) (\<lambda>_. True)) (w_store \<circ> fst) (\<lambda>_. True) demo_cfg demo_db demo_inven
       (applyImpersonation imps \<lparr>rq_user = Some demo_user, rq_realUser = None\<rparr>) 1 ACancel None
       (\<lparr>w_store = demo_jobs, w_log = (\<lambda>_. ''''), w_events = [], w_stdin = [], w_warnings = []\<rparr>, new_runner ''web'')"

lemma dead_alive: "\<not> dead_mcp (\<lambda>_. True) ow"
  by (simp add: dead_mcp_def split: option.splits)

theorem control_needs_sight_and_names_the_user_witness:
  "snd (demo_control [(''ann'', ''ops'')]) = Requested202 ''mcp:7'' \<and>
   map c_requestedByUsername (js_ctl (w_store (fst (fst (demo_control [(''ann'', ''ops'')]))))) = [Some ''ann'']"
proof -
  obtain p' where d: "demo_control [(''ann'', ''ops'')] = (p', Requested202 ''mcp:7'')"
    by (simp add: demo_control_def control_route_def demo_web get_job_def sql_find_def isJobVisible_def isAdminUser_def
        isAdminOf_def applyImpersonation_def truthy_def Let_def loadPermissionRules_def guestCreators_def
        requestJobControl_def owner_of_def runner_deps_def new_runner_def dead_alive actionApplies_def empty_store_def
        groups_allow.simps jm_get_def split: option.splits)
  have "js_ctl demo_jobs = []" by (simp add: demo_jobs_def empty_store_def)
  then show ?thesis
    using control_needs_sight_and_names_the_user [OF d [unfolded demo_control_def], where ow = "''mcp:7''" and logs = "\<lambda>_. None"] d
    by (auto simp: demo_user_def)
qed

definition demo_cancel :: ctl_row where
  "demo_cancel = \<lparr>c_id = 1, c_jobId = 1, c_action = ACancel, c_text = None, c_requestedByOwner = ''mcp:7'',
     c_requestedByUsername = Some ''ann'', c_createdAt = 6, c_handledAt = None, c_result = None\<rparr>"

theorem attribution_lands_after_the_end_witness:
  "\<exists>w1 r1 job. applyRequest 6 (\<lambda>_. True) (\<lambda>_. True) demo_cancel (demo_run [PEnqueue 5 demo_job]) = Inr ((w1, r1), True) \<and>
     get_job 1 (w_store w1) = Some job \<and> j_status job = Cancelled"
proof -
  let ?p = "demo_run [PEnqueue 5 demo_job]"
  have "jm_has (r_controllers (snd ?p)) 1" "1 \<notin> set (r_started (snd ?p))"
    by (simp_all add: demo_eval)
  moreover have "proc_inv (fst ?p, snd ?p)" using demo_proc_inv by simp
  ultimately show ?thesis
    using attribution_lands_after_the_end [of "fst ?p" "snd ?p" 1 demo_cancel 6 "\<lambda>_. True" "\<lambda>_. True"]
    by (fastforce simp: demo_cancel_def)
qed

end
