(* ===== verification/Prompt_Relay.thy ===== *)
theory Prompt_Relay
  imports Job_Control Log_View
begin

text \<open>
  Relaying a paused job's prompt to a human through an MCP client: the class \<open>PromptTracker\<close> and
  \<open>parseElicitationChoice\<close> of \<open>src/src/mcp/elicitation.ts\<close>, and \<open>waitForJob\<close> with \<open>askHuman\<close> of
  \<open>src/src/mcp/wait-for-job.ts\<close>, over the job runner of \<open>Job_Runner\<close>.  Several \<open>wait_for_job\<close> calls may be
  open at once.  \<open>waitForJob\<close> is cut where it waits: \<open>iterate\<close> is one pass of its loop up to a sleep, a
  dialog or a result, \<open>settleDialog\<close> what follows when a dialog ends.  A pass is allowed at any time, so
  every schedule of wake-ups is included.  Progress notifications are left out.
\<close>

section \<open>The tracker\<close>

text \<open>The four maps of \<open>PromptTracker\<close>, job to generation.\<close>

record tracker =
  tk_generations :: "(nat \<times> nat) list"
  tk_asking :: "(nat \<times> nat) list"
  tk_handedOff :: "(nat \<times> nat) list"
  tk_cancelling :: "(nat \<times> nat) list"

definition new_tracker :: tracker where
  "new_tracker = \<lparr>tk_generations = [], tk_asking = [], tk_handedOff = [], tk_cancelling = []\<rparr>"

definition generation :: "nat \<Rightarrow> tracker \<Rightarrow> nat" where
  "generation i tk = (case jm_get (tk_generations tk) i of None \<Rightarrow> 0 | Some g \<Rightarrow> g)"

definition countPrompt :: "nat \<Rightarrow> tracker \<Rightarrow> tracker" where
  "countPrompt i tk = tk\<lparr>tk_generations := jm_set i (generation i tk + 1) (tk_generations tk)\<rparr>"

datatype claim_result = ClaimAsk nat | ClaimBusy | ClaimHandedOff

definition claim :: "nat \<Rightarrow> tracker \<Rightarrow> tracker \<times> claim_result" where
  "claim i tk =
     (let g = generation i tk
      in if jm_get (tk_handedOff tk) i = Some g then (tk, ClaimHandedOff)
         else if jm_get (tk_asking tk) i = Some g then (tk, ClaimBusy)
         else if jm_get (tk_cancelling tk) i = Some g then (tk, ClaimBusy)
         else (tk\<lparr>tk_asking := jm_set i g (tk_asking tk)\<rparr>, ClaimAsk g))"

datatype release_outcome = RResolved | RHandedOff | RCancelling

definition release :: "nat \<Rightarrow> nat \<Rightarrow> release_outcome \<Rightarrow> tracker \<Rightarrow> tracker" where
  "release i g outcome tk =
     (let tk1 = (if jm_get (tk_asking tk) i = Some g then tk\<lparr>tk_asking := jm_delete i (tk_asking tk)\<rparr> else tk);
          tk2 = (if outcome = RHandedOff then tk1\<lparr>tk_handedOff := jm_set i g (tk_handedOff tk1)\<rparr> else tk1)
      in if outcome = RCancelling then tk2\<lparr>tk_cancelling := jm_set i g (tk_cancelling tk2)\<rparr> else tk2)"

section \<open>The form's answer\<close>

text \<open>An \<open>ElicitResult\<close>: the fields of \<open>content\<close> are \<open>None\<close> when missing or not strings.\<close>

record elicit_result =
  er_action :: string
  er_choice :: "string option"
  er_answer :: "string option"

datatype elicitation_choice = ChAnswer string | ChResume | ChCancelJob | ChDeclined

definition parseElicitationChoice :: "elicit_result \<Rightarrow> elicitation_choice" where
  "parseElicitationChoice res =
     (if er_action res \<noteq> ''accept'' then ChDeclined
      else if er_choice res = Some ''resume'' then ChResume
      else if er_choice res = Some ''cancel'' then ChCancelJob
      else ChAnswer (case er_answer res of None \<Rightarrow> '''' | Some t \<Rightarrow> t))"

section \<open>Calls of \<open>wait_for_job\<close>\<close>

datatype wait_outcome = Finished | PromptPending | StillRunning

text \<open>
  What a call returns (\<open>WaitFailed\<close>: the error it throws), and the dialog it has open: the generation it
  claimed, whether its \<open>AbortController\<close> has been aborted, and the row it asks about.
\<close>

datatype wait_result =
    WaitResult wait_outcome "(string option \<times> prompt_origin option) option" "string option" "char log_page"
  | WaitFailed string

record dialog =
  dl_generation :: nat
  dl_aborted :: bool
  dl_job :: job_row

record wait_call =
  wc_job :: nat
  wc_deadline :: ms
  wc_logOffset :: "nat option"
  wc_aborted :: bool
  wc_dialog :: "dialog option"
  wc_result :: "wait_result option"

record relay =
  rl_proc :: proc
  rl_tracker :: tracker
  rl_calls :: "wait_call list"

definition on_call :: "nat \<Rightarrow> (wait_call \<Rightarrow> wait_call) \<Rightarrow> relay \<Rightarrow> relay" where
  "on_call k f st = st\<lparr>rl_calls := (rl_calls st)[k := f (rl_calls st ! k)]\<rparr>"

definition requireOwned :: "proc \<Rightarrow> nat \<Rightarrow> string + job_row" where
  "requireOwned p i =
     (case get_job i (w_store (fst p)) of
        None \<Rightarrow> Inl (''Unknown job id: '' @ show_nat i)
      | Some job \<Rightarrow>
          if owner_of (j_owner job) \<noteq> r_owner (snd p)
          then Inl (''job '' @ show_nat i @ '' is owned by '' @ owner_of (j_owner job) @ ''; control it from there'')
          else Inr job)"

definition startWait :: "ms \<Rightarrow> nat \<Rightarrow> nat option \<Rightarrow> nat option \<Rightarrow> relay \<Rightarrow> string + relay" where
  "startWait now i maxWaitSeconds logOffset st =
     (case requireOwned (rl_proc st) i of
        Inl e \<Rightarrow> Inl e
      | Inr _ \<Rightarrow>
          Inr (st\<lparr>rl_calls := rl_calls st @
            [\<lparr>wc_job = i,
              wc_deadline = now + int (case maxWaitSeconds of None \<Rightarrow> 300 | Some s \<Rightarrow> s) * 1000,
              wc_logOffset = logOffset, wc_aborted = False, wc_dialog = None, wc_result = None\<rparr>]\<rparr>))"

text \<open>
  The listeners: the tracker counts a job's prompts; a running call aborts its dialog when its job leaves
  \<open>awaiting_input\<close>.
\<close>

definition abortDialog :: "wait_call \<Rightarrow> wait_call" where
  "abortDialog c = c\<lparr>wc_dialog := map_option (dl_aborted_update (\<lambda>_. True)) (wc_dialog c)\<rparr>"

fun hear :: "event \<Rightarrow> relay \<Rightarrow> relay" where
  "hear (EvPrompt i _ _ _ _) st = st\<lparr>rl_tracker := countPrompt i (rl_tracker st)\<rparr>"
| "hear (EvStatus i s) st =
     (if s = AwaitingInput then st
      else st\<lparr>rl_calls := map (\<lambda>c. if wc_job c = i \<and> wc_result c = None then abortDialog c else c) (rl_calls st)\<rparr>)"
| "hear _ st = st"

text \<open>A call of the runner (or another process's write) with the events it emits delivered.\<close>

definition through :: "proc \<Rightarrow> relay \<Rightarrow> relay" where
  "through p' st =
     fold hear (drop (length (w_events (fst (rl_proc st)))) (w_events (fst p'))) (st\<lparr>rl_proc := p'\<rparr>)"

definition wait_result_of :: "relay \<Rightarrow> wait_call \<Rightarrow> wait_outcome \<Rightarrow> string option \<Rightarrow> wait_result" where
  "wait_result_of st c outcome err =
     (case get_job (wc_job c) (w_store (fst (rl_proc st))) of
        None \<Rightarrow> WaitFailed ''TypeError''
      | Some job \<Rightarrow>
          WaitResult outcome
            (if j_status job = AwaitingInput then Some (j_promptText job, j_promptOrigin job) else None) err
            (pageLog (w_log (fst (rl_proc st)) (j_logFile job)) (wc_logOffset c) True))"

definition finishCall :: "nat \<Rightarrow> wait_outcome \<Rightarrow> string option \<Rightarrow> relay \<Rightarrow> relay" where
  "finishCall k outcome err st =
     on_call k (\<lambda>c. c\<lparr>wc_result := Some (wait_result_of st c outcome err)\<rparr>) st"

definition failCall :: "nat \<Rightarrow> string \<Rightarrow> relay \<Rightarrow> relay" where
  "failCall k err st = on_call k (\<lambda>c. c\<lparr>wc_result := Some (WaitFailed err)\<rparr>) st"

definition sleepOrReturn :: "ms \<Rightarrow> nat \<Rightarrow> relay \<Rightarrow> relay" where
  "sleepOrReturn now k st =
     (if wc_deadline (rl_calls st ! k) - now \<le> 0 then finishCall k StillRunning None st else st)"

text \<open>One pass of the loop; \<open>elicits\<close>: the client can show a form.\<close>

definition iterate :: "bool \<Rightarrow> ms \<Rightarrow> nat \<Rightarrow> relay \<Rightarrow> relay" where
  "iterate elicits now k st =
     (let c = rl_calls st ! k
      in if wc_result c \<noteq> None \<or> wc_dialog c \<noteq> None then st
         else if wc_aborted c then finishCall k StillRunning None st
         else case get_job (wc_job c) (w_store (fst (rl_proc st))) of
           None \<Rightarrow> failCall k ''TypeError'' st
         | Some job \<Rightarrow>
             if j_status job \<in> set terminal_statuses then finishCall k Finished None st
             else if j_status job = AwaitingInput then
               (if \<not> elicits then finishCall k PromptPending None st
                else (case claim (wc_job c) (rl_tracker st) of
                        (tk, ClaimHandedOff) \<Rightarrow> finishCall k PromptPending None st
                      | (tk, ClaimAsk g) \<Rightarrow>
                          on_call k (\<lambda>c. c\<lparr>wc_dialog := Some \<lparr>dl_generation = g, dl_aborted = False, dl_job = job\<rparr>\<rparr>) (st\<lparr>rl_tracker := tk\<rparr>)
                      | (tk, ClaimBusy) \<Rightarrow> sleepOrReturn now k st))
             else sleepOrReturn now k st)"

text \<open>
  How a dialog ends: the request fails (\<open>timeout\<close>: with the SDK's request timeout) or the human's
  response arrives.  \<open>askHuman\<close> gives the process after its call of the runner and the step it returns.
\<close>

datatype dialog_end = DialogFailed bool string | Responded elicit_result

datatype ask_step = AskContinue | AskHandedOff "string option" | AskCancelling | AskThrew string

definition LATE_ANSWER_NOTE :: string where
  "LATE_ANSWER_NOTE = ''Answer not sent '' @ em_dash @ '' prompt was already resolved'' @ [CHR 10]"

definition formatDuration :: "nat \<Rightarrow> string" where
  "formatDuration t =
     (if t \<ge> 60000 \<and> t mod 60000 = 0 then show_nat (t div 60000) @ '' minutes''
      else show_nat (t div 1000) @
           (if t mod 1000 = 0 then ''''
            else CHR ''.'' # rev (dropWhile (\<lambda>d. d = CHR ''0'') (rev (pad 3 (t mod 1000))))) @
           '' seconds'')"

definition append_log :: "string \<Rightarrow> string \<Rightarrow> world \<Rightarrow> world" where
  "append_log name chunk w = w\<lparr>w_log := (w_log w)(name := w_log w name @ chunk)\<rparr>"

definition lateNote :: "job_row \<Rightarrow> proc \<times> bool \<Rightarrow> proc" where
  "lateNote job x =
     (case x of ((w, r), applied) \<Rightarrow>
        if applied then (w, r) else (append_log (j_logFile job) LATE_ANSWER_NOTE w, r))"

definition askHuman ::
  "ms \<Rightarrow> (nat \<Rightarrow> bool) \<Rightarrow> (nat \<Rightarrow> bool) \<Rightarrow> nat \<Rightarrow> job_row \<Rightarrow> bool \<Rightarrow> dialog_end \<Rightarrow> proc \<Rightarrow> proc \<times> ask_step" where
  "askHuman now alive writable timeoutMs job aborted fin p =
     (case fin of
        DialogFailed timeout message \<Rightarrow>
          if aborted then (p, AskContinue)
          else if timeout then
            (p, AskHandedOff (Some (''No answer in the prompt dialog within '' @ formatDuration timeoutMs @
                  ''; it was withdrawn. Ask the user in chat and send their reply with answer_job_prompt.'')))
          else (p, AskHandedOff (Some message))
      | Responded res \<Rightarrow>
          (let stillPaused = (case get_job (j_id job) (w_store (fst p)) of
                                None \<Rightarrow> False | Some j \<Rightarrow> j_status j = AwaitingInput)
           in case parseElicitationChoice res of
                ChDeclined \<Rightarrow> (p, if stillPaused then AskHandedOff None else AskContinue)
              | ChCancelJob \<Rightarrow> (fst (cancel now alive (j_id job) p), AskCancelling)
              | ChResume \<Rightarrow> (lateNote job (dismissPrompt now (j_id job) p), AskContinue)
              | ChAnswer t \<Rightarrow>
                  (case answerPrompt now writable (j_id job) t p of
                     Inl e \<Rightarrow> (p, AskThrew e)
                   | Inr x \<Rightarrow> (lateNote job x, AskContinue))))"

definition step_outcome :: "ask_step \<Rightarrow> release_outcome" where
  "step_outcome s = (case s of AskHandedOff _ \<Rightarrow> RHandedOff | AskCancelling \<Rightarrow> RCancelling | _ \<Rightarrow> RResolved)"

definition settleDialog ::
  "ms \<Rightarrow> (nat \<Rightarrow> bool) \<Rightarrow> (nat \<Rightarrow> bool) \<Rightarrow> nat \<Rightarrow> nat \<Rightarrow> dialog_end \<Rightarrow> relay \<Rightarrow> relay" where
  "settleDialog now alive writable timeoutMs k fin st =
     (case wc_dialog (rl_calls st ! k) of
        None \<Rightarrow> st
      | Some d \<Rightarrow>
          (case askHuman now alive writable timeoutMs (dl_job d) (dl_aborted d) fin (rl_proc st) of
             (p', s) \<Rightarrow>
               let st1 = on_call k (\<lambda>c. c\<lparr>wc_dialog := None\<rparr>) (through p' st);
                   st2 = st1\<lparr>rl_tracker :=
                     release (wc_job (rl_calls st ! k)) (dl_generation d) (step_outcome s) (rl_tracker st1)\<rparr>
               in case s of
                    AskHandedOff err \<Rightarrow> finishCall k PromptPending err st2
                  | AskThrew e \<Rightarrow> failCall k e st2
                  | _ \<Rightarrow> st2))"

text \<open>The client cancels a call.\<close>

definition abortCall :: "nat \<Rightarrow> relay \<Rightarrow> relay" where
  "abortCall k st = on_call k (\<lambda>c. abortDialog (c\<lparr>wc_aborted := True\<rparr>)) st"

section \<open>What the runner's methods report\<close>

abbreviation pend :: "proc \<Rightarrow> nat set" where
  "pend p \<equiv> set (r_pendingPrompts (snd p))"

fun is_prompt :: "nat \<Rightarrow> event \<Rightarrow> bool" where
  "is_prompt i (EvPrompt j _ _ _ _) = (j = i)"
| "is_prompt i _ = False"

fun leaves_pause :: "nat \<Rightarrow> event \<Rightarrow> bool" where
  "leaves_pause i (EvStatus j s) = (j = i \<and> s \<noteq> AwaitingInput)"
| "leaves_pause i _ = False"

definition reports :: "event list \<Rightarrow> proc \<Rightarrow> proc \<Rightarrow> bool" where
  "reports evs p p' \<longleftrightarrow>
     w_events (fst p') = w_events (fst p) @ evs \<and> (\<forall>i \<in> pend p - pend p'. list_ex (leaves_pause i) evs) \<and>
     (\<forall>i. \<not> list_ex (is_prompt i) evs) \<and> pend p' \<subseteq> pend p"

definition reported :: "proc \<Rightarrow> proc \<Rightarrow> bool" where
  "reported p p' \<longleftrightarrow> (\<exists>evs. reports evs p p')"

lemma reported_silent:
  "w_events (fst p') = w_events (fst p) \<Longrightarrow> pend p' = pend p \<Longrightarrow> reported p p'"
  unfolding reported_def by (rule exI [of _ "[]"]) (simp add: reports_def)

lemma reported_refl [simp]: "reported p p"
  by (rule reported_silent) simp_all

lemma reported_trans:
  assumes "reported p q" and "reported q u"
  shows "reported p u"
proof -
  obtain e f where "reports e p q" "reports f q u" using assms by (auto simp: reported_def)
  then have "reports (e @ f) p u" by (auto simp: reports_def)
  then show ?thesis by (auto simp: reported_def)
qed

lemma reported_emit:
  assumes "w_events (fst p') = w_events (fst p) @ evs" and "pend p' \<subseteq> pend p"
    and "\<And>i. i \<in> pend p \<Longrightarrow> i \<notin> pend p' \<Longrightarrow> list_ex (leaves_pause i) evs" and "\<And>i. \<not> list_ex (is_prompt i) evs"
  shows "reported p p'"
  unfolding reported_def using assms by (intro exI [of _ evs]) (auto simp: reports_def)

lemma finishCleanup_events: "w_events (fst (finishCleanup now alive i (w, r))) = w_events w"
  by (simp add: finishCleanup_def Let_def)

lemma reported_cancel: "reported p (fst (cancel now alive i p))"
proof (cases p)
  case (Pair w r)
  show ?thesis
  proof (cases "jm_has (r_controllers r) i \<and> i \<notin> set (r_started r)")
    case True
    then show ?thesis
      unfolding Pair
      by (intro reported_emit [where evs = "(case get_job i (w_store w) of None \<Rightarrow> []
            | Some job \<Rightarrow> [EvChunk i Stderr ''Job cancelled by operator'']) @ [EvStatus i Cancelled]"])
        (auto simp: cancel_queued cancel_queued_world_def finishCleanup_events finishCleanup_runner row_simps
          split: option.splits)
  next
    case False
    then show ?thesis
      unfolding Pair by (cases "jm_has (r_controllers r) i")
        (auto simp: cancel_absent cancel_started intro: reported_silent)
  qed
qed

lemma reported_cleared: "reported p (onPromptCleared now i p)"
  by (cases p, rule reported_emit [where evs = "[EvStatus i Running, EvPromptCleared i]"])
    (auto simp: onPromptCleared_def Let_def row_simps)

lemma reported_world:
  "w_events w' = w_events w \<Longrightarrow> reported (w', r) p \<Longrightarrow> reported (w, r) p"
  by (simp add: reported_def reports_def)

lemma reported_dismiss: "reported p (fst (dismissPrompt now i p))"
  by (cases p) (simp add: dismissPrompt_def reported_cleared)

lemma reported_answer: "answerPrompt now writable i t p = Inr (p', b) \<Longrightarrow> reported p p'"
  by (cases p) (auto simp: answerPrompt_def intro: reported_world [OF _ reported_cleared] split: if_splits)

lemma reported_after:
  "reported p q \<Longrightarrow> w_events (fst u) = w_events (fst q) @ evs \<Longrightarrow> r_pendingPrompts (snd u) = r_pendingPrompts (snd q) \<Longrightarrow>
   \<forall>i. \<not> list_ex (is_prompt i) evs \<Longrightarrow> reported p u"
  by (rule reported_trans, assumption, rule reported_emit [where evs = evs]) auto

lemma reported_apply:
  "applyRequest now alive writable req p = Inr (p', b) \<Longrightarrow> reported p p'"
  using reported_cancel [of p now alive "c_jobId req"] reported_dismiss [of p now "c_jobId req"]
  by (auto simp: applyRequest_def intro: reported_answer split: control_action.splits)

lemma reported_request: "reported p (processRequest now alive writable req p)"
proof (cases p)
  case (Pair w r)
  show ?thesis
  proof (cases "jm_has (r_controllers r) (c_jobId req)")
    case False
    then show ?thesis unfolding Pair by (intro reported_silent) (simp_all add: processRequest_def)
  next
    case True
    show ?thesis
    proof (cases "applyRequest now alive writable req p")
      case (Inl m)
      then show ?thesis using True unfolding Pair by (intro reported_silent) (simp_all add: processRequest_def)
    next
      case (Inr x)
      obtain w1 r1 b where x: "x = ((w1, r1), b)" by (metis surj_pair)
      have a: "reported p (w1, r1)" using reported_apply Inr x by blast
      let ?evs = "(if b then (case get_job (c_jobId req) (w_store w1) of None \<Rightarrow> []
        | Some job \<Rightarrow> [EvChunk (c_jobId req) Stdout
              (controlAttributionLine (c_action req) (c_requestedByOwner req) (c_requestedByUsername req))]) else [])"
      show ?thesis
        by (rule reported_after [OF a, where evs = ?evs])
          (use True Inr x in \<open>auto simp: processRequest_def Pair Let_def row_simps split: option.splits\<close>)
    qed
  qed
qed

lemma reported_fold:
  assumes "\<And>x p. reported p (f x p)"
  shows "reported p (fold f xs p)"
proof (induction xs arbitrary: p)
  case (Cons x xs)
  from reported_trans [OF assms Cons.IH] show ?case by simp
qed simp

lemma reported_poll: "reported p (processControlRequests now alive writable p)"
  by (cases p) (auto simp: processControlRequests_def Let_def
      intro: reported_world [OF _ reported_fold [OF reported_request]])

lemma reported_start: "reported p (executeStart now p)"
proof (cases p)
  case (Pair w r)
  show ?thesis
  proof (cases "\<exists>i lf q. r_current r = None \<and> r_queue r = (i, lf) # q \<and> jm_has (r_controllers r) i")
    case True
    then obtain i lf q where "r_current r = None" "r_queue r = (i, lf) # q" "jm_has (r_controllers r) i" by blast
    then show ?thesis
      unfolding Pair by (intro reported_emit [where evs = "[EvStatus i Running]"]) (simp_all add: executeStart_def)
  next
    case False
    then show ?thesis
      unfolding Pair by (intro reported_silent) (auto simp: executeStart_def split: option.splits list.splits)
  qed
qed

lemma reported_end: "reported p (executeEnd now alive outcome p)"
proof (cases p)
  case (Pair w r)
  show ?thesis
  proof (cases "r_current r")
    case None
    then show ?thesis by (simp add: Pair executeEnd_def)
  next
    case (Some c)
    obtain i lf where "r_current r = Some (i, lf)" using Some by (cases c) auto
    then show ?thesis
      unfolding Pair
      by (intro reported_emit [where evs = "(case outcome of Returned \<Rightarrow> [] | Threw m \<Rightarrow>
            [EvChunk i Stderr (if jm_get (r_controllers r) i = Some True then ''Job cancelled by operator'' else ''ERROR: '' @ m)]) @
            [EvStatus i (fi_status (end_result (jm_get (r_controllers r) i = Some True) outcome))]"])
        (auto simp: executeEnd_eq end_world_def finishCleanup_events finishCleanup_runner row_simps end_result_def
          split: run_outcome.splits)
  qed
qed

text \<open>
  A prompt is detected only for a job without one: the callbacks of the SSH client alternate within a
  command (\<open>Prompt_Watch\<close>).
\<close>

definition alternating :: "proc_event \<Rightarrow> proc \<Rightarrow> bool" where
  "alternating ev p \<longleftrightarrow>
     (case ev of PDetected _ _ _ _ \<Rightarrow> (case r_current (snd p) of None \<Rightarrow> True | Some c \<Rightarrow> fst c \<notin> pend p) | _ \<Rightarrow> True)"

lemma reported_step:
  assumes "\<And>t e og idx. ev \<noteq> PDetected t e og idx"
  shows "reported p (proc_step local alive writable ev p)"
proof (cases p)
  case (Pair w r)
  show ?thesis
  proof (cases ev)
    case (PEnqueue now def)
    show ?thesis
      unfolding Pair PEnqueue by (rule reported_silent) (simp_all add: enqueue_def Let_def split: prod.splits)

  next
    case (PStart now)
    then show ?thesis by (simp add: reported_start)

  next
    case (POutput t strm)
    then show ?thesis
      unfolding Pair by (auto split: option.splits intro: reported_emit [where evs = "[EvChunk x strm t]" for x])
  next
    case (PSelfResume now)
    then show ?thesis by (auto split: option.splits simp: reported_cleared)
  next
    case (PAnswer now i t)
    then show ?thesis by (auto split: sum.splits intro: reported_answer)
  next
    case (PAbandon now h)
    then show ?thesis
      unfolding Pair
      by (auto simp: abandonFires_def Let_def split: option.splits
          intro!: reported_trans [OF reported_emit [where evs = "[EvChunk x Stderr y]" for x y] reported_cancel])
  next
    case (PRequest now inp)
    then show ?thesis unfolding Pair by (intro reported_silent) simp_all
  next
    case (PShutdown now)
    then show ?thesis by (simp add: shutdownStart_def reported_fold reported_cancel)
  qed (use assms in \<open>simp_all add: reported_end reported_cancel reported_dismiss reported_poll\<close>)
qed

section \<open>Steps\<close>

text \<open>
  One step: a method of the runner or an event of its running job (\<open>act\<close>), a write of another process
  that leaves this runner's rows alone (\<open>others\<close>), a new call, a pass of a call's loop, the end of a
  dialog, the client cancelling a call.  A response is not delivered to a dialog that has been withdrawn.
\<close>

definition deliverable :: "dialog \<Rightarrow> dialog_end \<Rightarrow> bool" where
  "deliverable d fin \<longleftrightarrow> (case fin of Responded _ \<Rightarrow> \<not> dl_aborted d | DialogFailed _ _ \<Rightarrow> True)"

inductive relay_step :: "(ms \<Rightarrow> local_fields) \<Rightarrow> relay \<Rightarrow> relay \<Rightarrow> bool" for local :: "ms \<Rightarrow> local_fields" where
  act: "alternating ev (rl_proc st) \<Longrightarrow>
    relay_step local st (through (proc_step local alive writable ev (rl_proc st)) st)"
| others: "rl_proc st = (w, r) \<Longrightarrow> store_wf (w_store w') \<Longrightarrow>
    own_row (r_owner r) (w_store w') = own_row (r_owner r) (w_store w) \<Longrightarrow> w_events w' = w_events w \<Longrightarrow>
    relay_step local st (st\<lparr>rl_proc := (w', r)\<rparr>)"
| newcall: "startWait now i maxWait off st = Inr st' \<Longrightarrow> relay_step local st st'"
| pass: "k < length (rl_calls st) \<Longrightarrow> relay_step local st (iterate elicits now k st)"
| settle: "k < length (rl_calls st) \<Longrightarrow> wc_dialog (rl_calls st ! k) = Some d \<Longrightarrow> deliverable d fin \<Longrightarrow>
    relay_step local st (settleDialog now alive writable timeoutMs k fin st)"
| withdraw: "k < length (rl_calls st) \<Longrightarrow> relay_step local st (abortCall k st)"

inductive relay_reachable :: "(ms \<Rightarrow> local_fields) \<Rightarrow> relay \<Rightarrow> bool" for local :: "ms \<Rightarrow> local_fields" where
  start: "proc_inv p \<Longrightarrow> relay_reachable local \<lparr>rl_proc = p, rl_tracker = new_tracker, rl_calls = []\<rparr>"
| step: "relay_reachable local st \<Longrightarrow> relay_step local st st' \<Longrightarrow> relay_reachable local st'"

section \<open>At most one dialog per prompt, abstractly\<close>

text \<open>
  The protocol of the tracker over plain maps: \<open>gen\<close> the current generation of a job, \<open>ask\<close>, \<open>hand\<close>,
  \<open>canc\<close> the generations recorded as asked, handed off and being cancelled, \<open>paused\<close> the paused jobs, \<open>D\<close>
  the open dialogs: job, generation, withdrawn.
\<close>

definition dialogs_ok ::
  "(nat \<Rightarrow> nat) \<Rightarrow> (nat \<Rightarrow> nat option) \<Rightarrow> (nat \<Rightarrow> nat option) \<Rightarrow> (nat \<Rightarrow> nat option) \<Rightarrow> nat set \<Rightarrow>
   (nat \<Rightarrow> (nat \<times> nat \<times> bool) option) \<Rightarrow> bool" where
  "dialogs_ok gen ask hand canc paused D \<longleftrightarrow>
     (\<forall>k i g a. D k = Some (i, g, a) \<longrightarrow>
        g \<le> gen i \<and> (g = gen i \<longrightarrow> ask i = Some g) \<and> (\<not> a \<longrightarrow> g = gen i \<and> i \<in> paused) \<and>
        (\<forall>k' a'. D k' = Some (i, g, a') \<longrightarrow> k' = k)) \<and>
     (\<forall>i g. ask i = Some g \<longrightarrow> (\<exists>k a. D k = Some (i, g, a))) \<and>
     (\<forall>i g. hand i = Some g \<or> canc i = Some g \<longrightarrow> g \<le> gen i \<and> (\<forall>k a. D k \<noteq> Some (i, g, a)))"

lemma dialogs_ok_unique:
  assumes "dialogs_ok gen ask hand canc paused D" and "D k = Some (i, g, a)" and "D k' = Some (i, g, b)"
  shows "k' = k"
  using assms unfolding dialogs_ok_def by blast

lemma dialogs_ok_asked:
  assumes "dialogs_ok gen ask hand canc paused D" and "ask i = Some g"
  obtains k a where "D k = Some (i, g, a)"
  using assms unfolding dialogs_ok_def by blast

lemma dialogs_ok_done:
  assumes "dialogs_ok gen ask hand canc paused D" and "hand i = Some g \<or> canc i = Some g"
  shows "g \<le> gen i" and "D k \<noteq> Some (i, g, a)"
  using assms unfolding dialogs_ok_def by blast+

definition withdraw_where :: "(nat \<Rightarrow> bool) \<Rightarrow> (nat \<Rightarrow> (nat \<times> nat \<times> bool) option) \<Rightarrow> nat \<Rightarrow> (nat \<times> nat \<times> bool) option" where
  "withdraw_where X D k = (case D k of None \<Rightarrow> None | Some (i, g, a) \<Rightarrow> Some (i, g, a \<or> X k))"

lemma dialogs_ok_prompt:
  assumes "dialogs_ok gen ask hand canc paused D" and "i \<notin> paused"
  shows "dialogs_ok (gen(i := gen i + 1)) ask hand canc (insert i paused) D"
  using assms unfolding dialogs_ok_def by (simp add: le_Suc_eq) (metis Suc_n_not_le_n)

lemma dialogs_ok_withdraw:
  assumes ok: "dialogs_ok gen ask hand canc paused D" and "paused' \<subseteq> paused"
    and left: "\<And>k i g a. D k = Some (i, g, a) \<Longrightarrow> i \<in> paused - paused' \<Longrightarrow> a \<or> X k"
  shows "dialogs_ok gen ask hand canc paused' (withdraw_where X D)"
proof -
  have old: "\<exists>a. D k = Some (i, g, a) \<and> a' = (a \<or> X k)" if "withdraw_where X D k = Some (i, g, a')" for k i g a'
    using that by (auto simp: withdraw_where_def split: option.splits)
  have new: "\<exists>a'. withdraw_where X D k = Some (i, g, a')" if "D k = Some (i, g, a)" for k i g a
    using that by (simp add: withdraw_where_def)
  show ?thesis
    unfolding dialogs_ok_def
  proof (intro conjI allI impI)
    fix k i g a'
    assume "withdraw_where X D k = Some (i, g, a')"
    then obtain a where a: "D k = Some (i, g, a)" "a' = (a \<or> X k)" using old by blast
    then show "g \<le> gen i" "g = gen i \<Longrightarrow> ask i = Some g" using ok by (auto simp: dialogs_ok_def)
    show "g = gen i" "i \<in> paused'" if "\<not> a'" using ok left [OF a(1)] that a by (auto simp: dialogs_ok_def)
    fix k' b assume "withdraw_where X D k' = Some (i, g, b)"
    then obtain b' where "D k' = Some (i, g, b')" using old by blast
    then show "k' = k" using dialogs_ok_unique [OF ok a(1)] by blast

  next
    fix i g assume "ask i = Some g"
    then obtain k a where "D k = Some (i, g, a)" by (rule dialogs_ok_asked [OF ok])
    then show "\<exists>k a. withdraw_where X D k = Some (i, g, a)" using new by blast
  next
    fix i g assume h: "hand i = Some g \<or> canc i = Some g"
    then show "g \<le> gen i" by (rule dialogs_ok_done(1) [OF ok])
    fix k a show "withdraw_where X D k \<noteq> Some (i, g, a)"
      using dialogs_ok_done(2) [OF ok h] old by blast
  qed
qed

lemma dialogs_ok_claim:
  assumes "dialogs_ok gen ask hand canc paused D" and "i \<in> paused" and "D k = None"
    and "ask i \<noteq> Some (gen i)" and "hand i \<noteq> Some (gen i)" and "canc i \<noteq> Some (gen i)"
  shows "dialogs_ok gen (ask(i := Some (gen i))) hand canc paused (D(k := Some (i, gen i, False)))"
  unfolding dialogs_ok_def
proof (intro conjI allI impI)
  fix k' j g a assume d: "(D(k := Some (i, gen i, False))) k' = Some (j, g, a)"
  then show "g \<le> gen j" "\<not> a \<Longrightarrow> g = gen j" "\<not> a \<Longrightarrow> j \<in> paused"
    using assms(1,2) by (auto simp: dialogs_ok_def split: if_splits)
  show "(ask(i := Some (gen i))) j = Some g" if "g = gen j"
    using assms(1) d that by (auto simp: dialogs_ok_def split: if_splits)
  fix k'' a' assume "(D(k := Some (i, gen i, False))) k'' = Some (j, g, a')"
  then show "k'' = k'" using d assms(1,4) unfolding dialogs_ok_def by (auto split: if_splits)
next
  fix j g assume "(ask(i := Some (gen i))) j = Some g"
  then show "\<exists>k' a. (D(k := Some (i, gen i, False))) k' = Some (j, g, a)"
    using assms(1,3) unfolding dialogs_ok_def by (cases "j = i") (auto, metis option.distinct(1))
next
  fix j g assume h: "hand j = Some g \<or> canc j = Some g"
  then show "g \<le> gen j" using assms(1) by (auto simp: dialogs_ok_def)
  fix k' a show "(D(k := Some (i, gen i, False))) k' \<noteq> Some (j, g, a)"
    using h assms(1,5,6) by (auto simp: dialogs_ok_def)
qed

lemma dialogs_ok_close:
  assumes ok: "dialogs_ok gen ask hand canc paused D" and d: "D k = Some (i, g, a)"
    and ask': "ask' = (if ask i = Some g then ask(i := None) else ask)"
    and hand': "hand' = hand \<or> hand' = hand(i := Some g)" and canc': "canc' = canc \<or> canc' = canc(i := Some g)"
  shows "dialogs_ok gen ask' hand' canc' paused (D(k := None))"
  unfolding dialogs_ok_def
proof (intro conjI allI impI)
  have uniq: "D k' = Some (i, g, b) \<Longrightarrow> k' = k" for k' b using ok d unfolding dialogs_ok_def by blast
  fix k' j h b assume e: "(D(k := None)) k' = Some (j, h, b)"
  then have D: "D k' = Some (j, h, b)" "k' \<noteq> k" by (auto split: if_splits)
  then show "h \<le> gen j" "\<not> b \<Longrightarrow> h = gen j" "\<not> b \<Longrightarrow> j \<in> paused" using ok by (auto simp: dialogs_ok_def)
  show "ask' j = Some h" if "h = gen j"
  proof -
    have "ask j = Some h" using ok D that by (auto simp: dialogs_ok_def)
    moreover have "\<not> (j = i \<and> h = g)" using uniq D by blast
    ultimately show ?thesis by (auto simp: ask')
  qed
  fix k'' c assume "(D(k := None)) k'' = Some (j, h, c)"
  then show "k'' = k'" using ok D unfolding dialogs_ok_def by (auto split: if_splits)
next
  fix j h assume "ask' j = Some h"
  then have "ask j = Some h" "\<not> (j = i \<and> h = g)" by (auto simp: ask' split: if_splits)
  from dialogs_ok_asked [OF ok this(1)] obtain k' b where "D k' = Some (j, h, b)" by blast

  moreover from this have "k' \<noteq> k" using d \<open>\<not> (j = i \<and> h = g)\<close> by auto
  ultimately show "\<exists>k' b. (D(k := None)) k' = Some (j, h, b)" by (intro exI [of _ k']) simp
next
  fix j h assume "hand' j = Some h \<or> canc' j = Some h"
  then have c: "hand j = Some h \<or> canc j = Some h \<or> (j = i \<and> h = g)" using hand' canc' by (auto split: if_splits)
  then show "h \<le> gen j" using ok d by (auto simp: dialogs_ok_def)
  fix k' b show "(D(k := None)) k' \<noteq> Some (j, h, b)"
    using c ok d unfolding dialogs_ok_def by (auto split: if_splits)
qed

section \<open>The invariant of the relay\<close>

abbreviation gen :: "relay \<Rightarrow> nat \<Rightarrow> nat" where
  "gen st i \<equiv> generation i (rl_tracker st)"

definition open_view :: "relay \<Rightarrow> nat \<Rightarrow> (nat \<times> nat \<times> bool) option" where
  "open_view st k =
     (if k < length (rl_calls st)
      then map_option (\<lambda>d. (wc_job (rl_calls st ! k), dl_generation d, dl_aborted d)) (wc_dialog (rl_calls st ! k))
      else None)"

definition asked_job :: "relay \<Rightarrow> nat \<Rightarrow> nat" where
  "asked_job st k = wc_job (rl_calls st ! k)"

definition call_ok :: "proc \<Rightarrow> wait_call \<Rightarrow> bool" where
  "call_ok p c \<longleftrightarrow> (wc_result c \<noteq> None \<longrightarrow> wc_dialog c = None) \<and>
     (\<forall>d. wc_dialog c = Some d \<longrightarrow> j_id (dl_job d) = wc_job c) \<and>
     own_row (r_owner (snd p)) (w_store (fst p)) (wc_job c) \<noteq> None"

abbreviation tracker_ok :: "tracker \<Rightarrow> nat set \<Rightarrow> (nat \<Rightarrow> (nat \<times> nat \<times> bool) option) \<Rightarrow> bool" where
  "tracker_ok tk \<equiv> dialogs_ok (\<lambda>i. generation i tk) (jm_get (tk_asking tk)) (jm_get (tk_handedOff tk)) (jm_get (tk_cancelling tk))"

definition relay_inv :: "relay \<Rightarrow> bool" where
  "relay_inv st \<longleftrightarrow> proc_inv (rl_proc st) \<and> (\<forall>c \<in> set (rl_calls st). call_ok (rl_proc st) c) \<and>
     tracker_ok (rl_tracker st) (pend (rl_proc st)) (open_view st)"

text \<open>Delivering events.\<close>

definition hear_call :: "event list \<Rightarrow> wait_call \<Rightarrow> wait_call" where
  "hear_call evs c = (if wc_result c = None \<and> list_ex (leaves_pause (wc_job c)) evs then abortDialog c else c)"

lemma abortDialog_simps [simp]:
  "wc_job (abortDialog c) = wc_job c" "wc_result (abortDialog c) = wc_result c"
  "wc_dialog (abortDialog c) = map_option (dl_aborted_update (\<lambda>_. True)) (wc_dialog c)"
  by (simp_all add: abortDialog_def)

lemma abortDialog_idem [simp]: "abortDialog (abortDialog c) = abortDialog c"
  by (cases "wc_dialog c") (simp_all add: abortDialog_def)

lemma hear_call_simps [simp]:
  "wc_job (hear_call evs c) = wc_job c" "wc_result (hear_call evs c) = wc_result c"
  by (simp_all add: hear_call_def)

lemma generation_countPrompt: "generation j (countPrompt i tk) = (if j = i then generation j tk + 1 else generation j tk)"
  by (simp add: generation_def countPrompt_def row_simps)

lemma fold_hear:
  "rl_proc (fold hear evs st) = rl_proc st \<and>
   rl_calls (fold hear evs st) = map (hear_call evs) (rl_calls st) \<and>
   tk_asking (rl_tracker (fold hear evs st)) = tk_asking (rl_tracker st) \<and>
   tk_handedOff (rl_tracker (fold hear evs st)) = tk_handedOff (rl_tracker st) \<and>
   tk_cancelling (rl_tracker (fold hear evs st)) = tk_cancelling (rl_tracker st) \<and>
   (\<forall>i. gen (fold hear evs st) i = gen st i + length (filter (is_prompt i) evs))"
proof (induction evs arbitrary: st)
  case Nil
  then show ?case by (simp add: hear_call_def)
next
  case (Cons e evs)
  have "hear_call evs (if P then abortDialog c else c) = hear_call (e # evs) c"
    if "P = (wc_result c = None \<and> leaves_pause (wc_job c) e)" for P c
    using that by (auto simp: hear_call_def)
  then show ?case
    using Cons.IH [of "hear e st"]
    by (cases e) (auto simp: countPrompt_def generation_def row_simps hear_call_def)
qed

lemma through_facts:
  assumes "w_events (fst p') = w_events (fst (rl_proc st)) @ evs"
  shows "rl_proc (through p' st) = p'" "rl_calls (through p' st) = map (hear_call evs) (rl_calls st)"
    "tk_asking (rl_tracker (through p' st)) = tk_asking (rl_tracker st)"
    "tk_handedOff (rl_tracker (through p' st)) = tk_handedOff (rl_tracker st)"
    "tk_cancelling (rl_tracker (through p' st)) = tk_cancelling (rl_tracker st)"
    "gen (through p' st) i = gen st i + length (filter (is_prompt i) evs)"
  using fold_hear [of evs "st\<lparr>rl_proc := p'\<rparr>"] assms by (simp_all add: through_def)

lemma call_ok_hear: "call_ok p c \<Longrightarrow> call_ok p (hear_call evs c)"
  by (auto simp: call_ok_def hear_call_def)

lemma open_view_hear:
  assumes "rl_calls st' = map (hear_call evs) (rl_calls st)" and "\<forall>c \<in> set (rl_calls st). call_ok p c"
  shows "open_view st' = withdraw_where (\<lambda>k. list_ex (leaves_pause (wc_job (rl_calls st ! k))) evs) (open_view st)"
proof
  fix k
  show "open_view st' k = withdraw_where (\<lambda>k. list_ex (leaves_pause (wc_job (rl_calls st ! k))) evs) (open_view st) k"
  proof (cases "k < length (rl_calls st)")
    case True
    then have "call_ok p (rl_calls st ! k)" using assms(2) by simp
    then show ?thesis
      using True assms(1)
      by (cases "wc_dialog (rl_calls st ! k)") (auto simp: open_view_def withdraw_where_def hear_call_def call_ok_def)
  qed (simp add: open_view_def withdraw_where_def assms(1))
qed

lemma call_ok_keeps:
  assumes "call_ok p c" and "r_owner (snd p') = r_owner (snd p)"
    and "keeps (r_owner (snd p)) (w_store (fst p)) (w_store (fst p'))"
  shows "call_ok p' c"
proof -
  obtain a where "own_row (r_owner (snd p)) (w_store (fst p)) (wc_job c) = Some a"
    using assms(1) by (auto simp: call_ok_def)
  from own_row_get [OF this] have a: "get_job (wc_job c) (w_store (fst p)) = Some a" "owner_of (j_owner a) = r_owner (snd p)"
    by simp_all
  have "store_le (w_store (fst p)) (w_store (fst p'))" using assms(3) by (simp add: keeps_def)
  then obtain b where b: "get_job (wc_job c) (w_store (fst p')) = Some b" "row_le a b"
    using a(1) unfolding store_le_def by blast
  from b(2) have "j_owner b = j_owner a" by (simp add: row_le_def)
  with b(1) have "own_row (r_owner (snd p)) (w_store (fst p')) (wc_job c) \<noteq> None" using a(2) by (simp add: own_row_def)
  then show ?thesis using assms(1,2) by (simp add: call_ok_def)
qed

text \<open>A method that reports what it does, and a detected prompt, keep the invariant.\<close>

definition sound_move :: "proc \<Rightarrow> proc \<Rightarrow> bool" where
  "sound_move p p' \<longleftrightarrow> proc_inv p' \<and> r_owner (snd p') = r_owner (snd p) \<and>
     keeps (r_owner (snd p)) (w_store (fst p)) (w_store (fst p'))"

lemma through_reported_inv:
  assumes inv: "relay_inv st" and move: "sound_move (rl_proc st) p'" and rep: "reported (rl_proc st) p'"
  shows "relay_inv (through p' st)" and "rl_tracker (through p' st) = rl_tracker st"
    and "length (rl_calls (through p' st)) = length (rl_calls st)"
    and "k < length (rl_calls st) \<Longrightarrow> wc_job (rl_calls (through p' st) ! k) = wc_job (rl_calls st ! k)"
    and "rl_proc (through p' st) = p'"
proof -
  obtain evs where evs: "reports evs (rl_proc st) p'" using rep by (auto simp: reported_def)
  have ev: "w_events (fst p') = w_events (fst (rl_proc st)) @ evs" using evs by (simp add: reports_def)
  note facts = through_facts [OF ev]
  have none: "filter (is_prompt i) evs = []" for i
    using evs by (auto simp: reports_def filter_empty_conv list_ex_iff)
  have calls: "\<forall>c \<in> set (rl_calls st). call_ok (rl_proc st) c" using inv by (simp add: relay_inv_def)
  show tk: "rl_tracker (through p' st) = rl_tracker st"
  proof -
    have "tk_generations (rl_tracker (fold hear es s)) = tk_generations (rl_tracker s)"
      if "\<forall>i. \<not> list_ex (is_prompt i) es" for es s
      using that
    proof (induction es arbitrary: s)
      case (Cons e es)
      then show ?case by (cases e) auto
    qed simp
    then have "tk_generations (rl_tracker (through p' st)) = tk_generations (rl_tracker st)"
      using evs ev by (simp add: through_def reports_def)
    then show ?thesis using facts by simp
  qed
  have "tracker_ok (rl_tracker st) (pend p') (open_view (through p' st))"
    unfolding open_view_hear [OF facts(2) calls]
    by (rule dialogs_ok_withdraw [of _ _ _ _ "pend (rl_proc st)"])
      (use inv evs in \<open>auto simp: relay_inv_def reports_def open_view_def split: if_splits\<close>)
  moreover have "call_ok p' (hear_call evs c)" if "c \<in> set (rl_calls st)" for c
  proof (rule call_ok_hear, rule call_ok_keeps)
    show "call_ok (rl_proc st) c" using calls that by blast
  qed (use move in \<open>simp_all add: sound_move_def\<close>)
  ultimately show "relay_inv (through p' st)"
    using facts(1,2) tk move by (simp add: relay_inv_def sound_move_def)
  show "length (rl_calls (through p' st)) = length (rl_calls st)" "rl_proc (through p' st) = p'"
    using facts by simp_all
  show "wc_job (rl_calls (through p' st) ! k) = wc_job (rl_calls st ! k)" if "k < length (rl_calls st)"
    using facts(2) that by simp
qed

lemma sound_move_step:
  assumes "proc_inv p"
  shows "sound_move p (proc_step local alive writable ev p)"
  using proc_step_sound [of "fst p" "snd p" local alive writable ev] assms by (simp add: sound_move_def)

lemma sound_move_log:
  assumes "sound_move p (w, r)" and "reported p (w, r)"
  shows "sound_move p (append_log name chunk w, r) \<and> reported p (append_log name chunk w, r)"
  using assms proc_inv_store [of w r "append_log name chunk w"]
  by (simp add: sound_move_def append_log_def reported_def reports_def)

lemma askHuman_sound:
  assumes inv: "proc_inv p" and ask: "askHuman now alive writable t job aborted fin p = (p', s)"
  shows "sound_move p p' \<and> reported p p'"
proof -
  have id: "sound_move p p \<and> reported p p" using inv by (simp add: sound_move_def)
  have late: "sound_move p (lateNote job x) \<and> reported p (lateNote job x)"
    if "sound_move p (fst x)" "reported p (fst x)" for x
  proof -
    obtain w r b where "x = ((w, r), b)" by (metis surj_pair)
    then show ?thesis using that sound_move_log [of p w r "j_logFile job" LATE_ANSWER_NOTE] by (simp add: lateNote_def)
  qed
  show ?thesis
  proof (cases fin)
    case (DialogFailed timeout m)
    then show ?thesis using ask id by (auto simp: askHuman_def split: if_splits)
  next
    case (Responded res)
    show ?thesis
    proof (cases "parseElicitationChoice res")
      case (ChAnswer ans)
      show ?thesis
      proof (cases "answerPrompt now writable (j_id job) ans p")
        case (Inl e)
        then show ?thesis using ask id Responded ChAnswer by (simp add: askHuman_def Let_def)
      next
        case (Inr x)
        have "sound_move p (fst x)"
          using sound_move_step [OF inv, of undefined alive writable "PAnswer now (j_id job) ans"] Inr by (cases x) simp
        moreover have "reported p (fst x)" using Inr by (cases x) (auto intro: reported_answer)
        ultimately show ?thesis
          using late [of x] ask Responded ChAnswer Inr by (auto simp: askHuman_def Let_def)
      qed
    next
      case ChResume
      have "sound_move p (fst (dismissPrompt now (j_id job) p))"
        using sound_move_step [OF inv, of undefined alive writable "PDismiss now (j_id job)"] by simp
      then show ?thesis
        using late [OF _ reported_dismiss] ask Responded ChResume by (auto simp: askHuman_def Let_def)
    next
      case ChCancelJob
      have "sound_move p (fst (cancel now alive (j_id job) p))"
        using sound_move_step [OF inv, of undefined alive writable "PCancel now (j_id job)"] by simp
      then show ?thesis using reported_cancel [of p now alive "j_id job"] ask Responded ChCancelJob by (auto simp: askHuman_def Let_def)
    next
      case ChDeclined
      then show ?thesis using ask id Responded by (auto simp: askHuman_def Let_def)
    qed
  qed
qed

lemma through_detected_inv:
  assumes inv: "relay_inv st" and "alternating (PDetected t e og idx) (rl_proc st)"
  shows "relay_inv (through (proc_step local alive writable (PDetected t e og idx) (rl_proc st)) st)"
proof -
  let ?p' = "proc_step local alive writable (PDetected t e og idx) (rl_proc st)"
  have pinv: "proc_inv (rl_proc st)" using inv by (simp add: relay_inv_def)
  note move = sound_move_step [OF pinv, of local alive writable "PDetected t e og idx"]
  show ?thesis
  proof (cases "r_current (snd (rl_proc st))")
    case None
    then have "?p' = rl_proc st" by simp
    then show ?thesis using through_reported_inv(1) [OF inv move] by simp
  next
    case (Some c)
    obtain i lf where c: "c = (i, lf)" by (cases c)
    have new: "i \<notin> pend (rl_proc st)" using assms(2) Some c by (simp add: alternating_def)
    let ?evs = "[EvStatus i AwaitingInput, EvPrompt i t e og idx]"
    have p': "w_events (fst ?p') = w_events (fst (rl_proc st)) @ ?evs" "pend ?p' = insert i (pend (rl_proc st))"
      using Some c by (auto simp: onPromptDetected_def Let_def row_simps split: prod.splits)
    note facts = through_facts [OF p'(1)]
    have "hear_call ?evs = id" by (simp add: hear_call_def fun_eq_iff)
    then have calls: "rl_calls (through ?p' st) = rl_calls st" unfolding facts(2) by simp
    then have view: "open_view (through ?p' st) = open_view st" by (simp add: open_view_def fun_eq_iff)
    have g: "(\<lambda>j. gen (through ?p' st) j) = (\<lambda>j. gen st j)(i := gen st i + 1)"
      using facts(6) by (auto simp: fun_eq_iff)
    have "tracker_ok (rl_tracker (through ?p' st)) (pend ?p') (open_view (through ?p' st))"
      unfolding view g p'(2) facts(3-5)
      by (rule dialogs_ok_prompt) (use inv new in \<open>simp_all add: relay_inv_def\<close>)
    moreover have "call_ok ?p' c" if "c \<in> set (rl_calls st)" for c
    proof (rule call_ok_keeps)
      show "call_ok (rl_proc st) c" using inv that unfolding relay_inv_def by blast
    qed (use move in \<open>simp_all add: sound_move_def\<close>)
    ultimately show ?thesis using move calls facts(1) by (simp add: relay_inv_def sound_move_def)
  qed
qed

lemma act_inv:
  assumes "relay_inv st" and "alternating ev (rl_proc st)"
  shows "relay_inv (through (proc_step local alive writable ev (rl_proc st)) st)"
proof (cases "\<exists>t e og idx. ev = PDetected t e og idx")
  case True
  then show ?thesis using through_detected_inv assms by blast
next
  case False
  have "proc_inv (rl_proc st)" using assms(1) by (simp add: relay_inv_def)
  from through_reported_inv(1) [OF assms(1) sound_move_step [OF this] reported_step] False
  show ?thesis by blast
qed

text \<open>A call's own moves.\<close>

lemma on_call_simps [simp]:
  "rl_proc (on_call k f st) = rl_proc st" "rl_tracker (on_call k f st) = rl_tracker st"
  "length (rl_calls (on_call k f st)) = length (rl_calls st)"
  "k < length (rl_calls st) \<Longrightarrow> rl_calls (on_call k f st) ! k = f (rl_calls st ! k)"
  by (simp_all add: on_call_def)

lemma open_view_on_call:
  assumes "k < length (rl_calls st)" and "wc_job (f (rl_calls st ! k)) = wc_job (rl_calls st ! k)"
  shows "open_view (on_call k f st) = (open_view st)
    (k := map_option (\<lambda>d. (wc_job (rl_calls st ! k), dl_generation d, dl_aborted d)) (wc_dialog (f (rl_calls st ! k))))"
  using assms by (auto simp: open_view_def on_call_def fun_eq_iff nth_list_update)

lemma open_view_proc [simp]:
  "open_view (st\<lparr>rl_proc := p\<rparr>) = open_view st" "open_view (st\<lparr>rl_tracker := tk\<rparr>) = open_view st"
  by (simp_all add: open_view_def fun_eq_iff)

lemma calls_on_call:
  "\<forall>c \<in> set (rl_calls st). call_ok p c \<Longrightarrow> k < length (rl_calls st) \<Longrightarrow> call_ok p (f (rl_calls st ! k)) \<Longrightarrow>
   \<forall>c \<in> set (rl_calls (on_call k f st)). call_ok p c"
  by (auto simp: on_call_def dest!: subsetD [OF set_update_subset_insert])

lemma on_call_inv:
  assumes inv: "relay_inv st" and k: "k < length (rl_calls st)" and same: "wc_job (f (rl_calls st ! k)) = wc_job (rl_calls st ! k)"
    and none: "wc_dialog (rl_calls st ! k) = None" "wc_dialog (f (rl_calls st ! k)) = None"
  shows "relay_inv (on_call k f st)"
proof -
  have "open_view (on_call k f st) = open_view st"
    unfolding open_view_on_call [of k st f, OF k same] using k none by (auto simp: open_view_def fun_eq_iff)
  moreover have "call_ok (rl_proc st) (rl_calls st ! k)" using inv k by (simp add: relay_inv_def)
  then have "call_ok (rl_proc st) (f (rl_calls st ! k))" using same none by (simp add: call_ok_def)
  then have "\<forall>c \<in> set (rl_calls (on_call k f st)). call_ok (rl_proc st) c"
    using inv by (intro calls_on_call [OF _ k]) (simp_all add: relay_inv_def)
  ultimately show ?thesis using inv by (simp add: relay_inv_def)
qed

lemma closed_call_inv:
  assumes "relay_inv st" and "k < length (rl_calls st)" and "wc_dialog (rl_calls st ! k) = None"
  shows "relay_inv (finishCall k outcome err st)" "relay_inv (failCall k e st)"
  unfolding finishCall_def failCall_def using assms by (auto intro!: on_call_inv)

lemma jm_set_fun: "jm_get (jm_set k v m) = (jm_get m)(k := Some v)"
  by (simp add: fun_eq_iff row_simps)

lemma jm_delete_fun: "jm_get (jm_delete k m) = (jm_get m)(k := None)"
  by (simp add: fun_eq_iff row_simps)

lemma paused_job_pending:
  assumes "relay_inv st" and "c \<in> set (rl_calls st)"
    and "get_job (wc_job c) (w_store (fst (rl_proc st))) = Some job" and "j_status job = AwaitingInput"
  shows "wc_job c \<in> pend (rl_proc st)"
proof -
  obtain w r where p: "rl_proc st = (w, r)" by (cases "rl_proc st")
  have inv: "proc_inv (w, r)" and ok: "call_ok (w, r) c" using assms(1,2) by (simp_all add: relay_inv_def p)
  have "own_row (r_owner r) (w_store w) (wc_job c) = Some job"
    using ok assms(3) by (auto simp: call_ok_def own_row_def p split: option.splits if_splits)
  then have "run_status (w, r) (wc_job c) = Some AwaitingInput"
    using assms(4) by (simp add: run_status_def active_view_def active_statuses_def)
  then show ?thesis using pending_iff_awaiting [OF inv] p by simp
qed

lemma claim_cases:
  "claim i tk = (tk', res) \<Longrightarrow>
    (case res of
       ClaimAsk g \<Rightarrow> g = generation i tk \<and> tk' = tk\<lparr>tk_asking := jm_set i g (tk_asking tk)\<rparr> \<and>
         jm_get (tk_handedOff tk) i \<noteq> Some g \<and> jm_get (tk_asking tk) i \<noteq> Some g \<and> jm_get (tk_cancelling tk) i \<noteq> Some g
     | ClaimBusy \<Rightarrow> tk' = tk \<and> (jm_get (tk_asking tk) i = Some (generation i tk) \<or> jm_get (tk_cancelling tk) i = Some (generation i tk))
     | ClaimHandedOff \<Rightarrow> tk' = tk \<and> jm_get (tk_handedOff tk) i = Some (generation i tk))"
  by (auto simp: claim_def Let_def split: if_splits)

lemma generation_fields [simp]:
  "generation i (tk\<lparr>tk_asking := a\<rparr>) = generation i tk" "generation i (tk\<lparr>tk_handedOff := b\<rparr>) = generation i tk"
  "generation i (tk\<lparr>tk_cancelling := d\<rparr>) = generation i tk"
  by (simp_all add: generation_def)

lemma sleepOrReturn_inv:
  "relay_inv st \<Longrightarrow> k < length (rl_calls st) \<Longrightarrow> wc_dialog (rl_calls st ! k) = None \<Longrightarrow> relay_inv (sleepOrReturn now k st)"
  by (simp add: sleepOrReturn_def closed_call_inv)

definition ask_dialog :: "nat \<Rightarrow> nat \<Rightarrow> job_row \<Rightarrow> relay \<Rightarrow> relay" where
  "ask_dialog k g job st =
     on_call k (\<lambda>c. c\<lparr>wc_dialog := Some \<lparr>dl_generation = g, dl_aborted = False, dl_job = job\<rparr>\<rparr>)
       (st\<lparr>rl_tracker := (rl_tracker st)\<lparr>tk_asking := jm_set (asked_job st k) g (tk_asking (rl_tracker st))\<rparr>\<rparr>)"

lemma ask_dialog_inv:
  assumes inv: "relay_inv st" and k: "k < length (rl_calls st)"
    and c: "wc_result (rl_calls st ! k) = None" "wc_dialog (rl_calls st ! k) = None"
    and job: "get_job (asked_job st k) (w_store (fst (rl_proc st))) = Some job" "j_status job = AwaitingInput"
    and claim: "claim (asked_job st k) (rl_tracker st) = (tk, ClaimAsk g)"
  shows "relay_inv (ask_dialog k g job st)"
proof -
  let ?i = "asked_job st k" let ?tk = "rl_tracker st"
  have cl: "g = generation ?i ?tk" "jm_get (tk_handedOff ?tk) ?i \<noteq> Some g" "jm_get (tk_asking ?tk) ?i \<noteq> Some g"
    "jm_get (tk_cancelling ?tk) ?i \<noteq> Some g"
    using claim_cases [OF claim] by auto
  have pend: "?i \<in> pend (rl_proc st)"
    using paused_job_pending [OF inv, of "rl_calls st ! k" job] k job by (simp add: asked_job_def)
  have id: "j_id job = ?i" using job(1) by (auto simp: get_job_def dest: sql_find_SomeD)
  have ok: "call_ok (rl_proc st) (rl_calls st ! k)" using inv k by (simp add: relay_inv_def)
  have view: "open_view (ask_dialog k g job st) = (open_view st)(k := Some (?i, g, False))"
    unfolding ask_dialog_def using k
    by (subst open_view_on_call) (simp_all add: asked_job_def)
  have "tracker_ok (rl_tracker (ask_dialog k g job st)) (pend (rl_proc st)) (open_view (ask_dialog k g job st))"
    unfolding view using cl(1)
    by (simp add: ask_dialog_def jm_set_fun del: fun_upd_apply)
      (rule dialogs_ok_claim, use inv cl pend k c in \<open>auto simp: relay_inv_def open_view_def\<close>)
  moreover have "\<forall>x \<in> set (rl_calls (ask_dialog k g job st)). call_ok (rl_proc st) x"
    unfolding ask_dialog_def
    by (rule calls_on_call) (use inv k ok id c in \<open>simp_all add: relay_inv_def call_ok_def asked_job_def\<close>)
  ultimately show ?thesis using inv by (simp add: relay_inv_def ask_dialog_def)
qed

lemma iterate_inv:
  assumes inv: "relay_inv st" and k: "k < length (rl_calls st)"
  shows "relay_inv (iterate elicits now k st)"
proof (cases "wc_result (rl_calls st ! k) \<noteq> None \<or> wc_dialog (rl_calls st ! k) \<noteq> None")
  case True
  then show ?thesis using inv by (simp add: iterate_def Let_def)
next
  case False
  then have c: "wc_result (rl_calls st ! k) = None" "wc_dialog (rl_calls st ! k) = None" by simp_all
  note closed = closed_call_inv [OF inv k c(2)] sleepOrReturn_inv [OF inv k c(2)]
  show ?thesis
  proof (cases "wc_aborted (rl_calls st ! k)")
    case True
    then show ?thesis using c closed by (simp add: iterate_def Let_def)
  next
    case alive: False
    show ?thesis
    proof (cases "get_job (wc_job (rl_calls st ! k)) (w_store (fst (rl_proc st)))")
      case None
      then show ?thesis using c closed alive by (simp add: iterate_def Let_def)
    next
      case (Some job)
      obtain tk res where cl: "claim (wc_job (rl_calls st ! k)) (rl_tracker st) = (tk, res)" by fastforce
      show ?thesis
      proof (cases "j_status job = AwaitingInput \<and> elicits \<and> (\<exists>g. res = ClaimAsk g)")
        case True
        then obtain g where g: "res = ClaimAsk g" by blast
        have "relay_inv (ask_dialog k g job st)"
          using ask_dialog_inv [OF inv k c, of job tk g] Some True cl g by (simp add: asked_job_def)
        moreover have "iterate elicits now k st = ask_dialog k g job st"
          using c alive Some True cl g claim_cases [OF cl]
          by (simp add: iterate_def Let_def ask_dialog_def asked_job_def terminal_statuses_def)
        ultimately show ?thesis by simp
      next
        case False
        then show ?thesis
          using c closed alive Some cl
          by (cases res) (auto simp: iterate_def Let_def)
      qed
    qed
  qed
qed

definition close_dialog :: "nat \<Rightarrow> nat \<Rightarrow> release_outcome \<Rightarrow> relay \<Rightarrow> relay" where
  "close_dialog k g oc st =
     (on_call k (\<lambda>c. c\<lparr>wc_dialog := None\<rparr>) st)\<lparr>rl_tracker := release (asked_job st k) g oc (rl_tracker st)\<rparr>"

lemma release_facts:
  "generation j (release i g oc tk) = generation j tk"
  "jm_get (tk_asking (release i g oc tk)) =
     (if jm_get (tk_asking tk) i = Some g then (jm_get (tk_asking tk))(i := None) else jm_get (tk_asking tk))"
  "jm_get (tk_handedOff (release i g oc tk)) =
     (if oc = RHandedOff then (jm_get (tk_handedOff tk))(i := Some g) else jm_get (tk_handedOff tk))"
  "jm_get (tk_cancelling (release i g oc tk)) =
     (if oc = RCancelling then (jm_get (tk_cancelling tk))(i := Some g) else jm_get (tk_cancelling tk))"
  by (auto simp: release_def Let_def jm_set_fun jm_delete_fun generation_def)

lemma close_dialog_inv:
  assumes inv: "relay_inv st" and k: "k < length (rl_calls st)"
    and d: "wc_dialog (rl_calls st ! k) = Some d" "dl_generation d = g"
  shows "relay_inv (close_dialog k g oc st)"
proof -
  have view: "open_view (close_dialog k g oc st) = (open_view st)(k := None)"
    unfolding close_dialog_def open_view_proc using k by (subst open_view_on_call) simp_all
  have vk: "open_view st k = Some (asked_job st k, g, dl_aborted d)"
    using k d by (simp add: open_view_def asked_job_def)
  have tk: "rl_tracker (close_dialog k g oc st) = release (asked_job st k) g oc (rl_tracker st)"
    by (simp add: close_dialog_def)
  have "tracker_ok (rl_tracker (close_dialog k g oc st)) (pend (rl_proc st)) (open_view (close_dialog k g oc st))"
    unfolding view tk release_facts
    by (rule dialogs_ok_close [where ask = "jm_get (tk_asking (rl_tracker st))" and hand = "jm_get (tk_handedOff (rl_tracker st))"
          and canc = "jm_get (tk_cancelling (rl_tracker st))" and g = g and i = "asked_job st k" and a = "dl_aborted d"])
      (use inv vk in \<open>auto simp: relay_inv_def\<close>)
  moreover have old: "\<forall>x \<in> set (rl_calls st). call_ok (rl_proc st) x" using inv by (simp add: relay_inv_def)
  have "call_ok (rl_proc st) ((rl_calls st ! k)\<lparr>wc_dialog := None\<rparr>)" using old k by (simp add: call_ok_def)
  from calls_on_call [OF old k, of "wc_dialog_update (\<lambda>_. None)", OF this]
  have "\<forall>x \<in> set (rl_calls (close_dialog k g oc st)). call_ok (rl_proc st) x" by (simp add: close_dialog_def)
  ultimately show ?thesis using inv by (simp add: relay_inv_def close_dialog_def)
qed

lemma settleDialog_eq:
  assumes "wc_dialog (rl_calls st ! k) = Some d"
    and "askHuman now alive writable t (dl_job d) (dl_aborted d) fin (rl_proc st) = (p', s)"
    and "asked_job (through p' st) k = asked_job st k"
  shows "settleDialog now alive writable t k fin st =
    (let st2 = close_dialog k (dl_generation d) (step_outcome s) (through p' st)
     in case s of AskHandedOff err \<Rightarrow> finishCall k PromptPending err st2 | AskThrew e \<Rightarrow> failCall k e st2 | _ \<Rightarrow> st2)"
  using assms by (cases s) (simp_all add: settleDialog_def close_dialog_def asked_job_def Let_def)

lemma through_dialog:
  assumes "relay_inv st" and "reported (rl_proc st) p'" and "k < length (rl_calls st)"
    and "wc_dialog (rl_calls st ! k) = Some d"
  shows "\<exists>d'. wc_dialog (rl_calls (through p' st) ! k) = Some d' \<and> dl_generation d' = dl_generation d"
proof -
  obtain evs where "w_events (fst p') = w_events (fst (rl_proc st)) @ evs" using assms(2) by (auto simp: reported_def reports_def)
  from through_facts(2) [OF this] show ?thesis using assms(3,4) by (simp add: hear_call_def)
qed

lemma settle_inv:
  assumes inv: "relay_inv st" and k: "k < length (rl_calls st)" and d: "wc_dialog (rl_calls st ! k) = Some d"
  shows "relay_inv (settleDialog now alive writable t k fin st)"
proof -
  obtain p' s where ask: "askHuman now alive writable t (dl_job d) (dl_aborted d) fin (rl_proc st) = (p', s)" by fastforce
  have pinv: "proc_inv (rl_proc st)" using inv by (simp add: relay_inv_def)
  note snd = askHuman_sound [OF pinv ask]
  note thr = through_reported_inv [OF inv conjunct1 [OF snd] conjunct2 [OF snd]]
  obtain d' where d': "wc_dialog (rl_calls (through p' st) ! k) = Some d'" "dl_generation d' = dl_generation d"
    using through_dialog [OF inv conjunct2 [OF snd] k d] by blast
  have k': "k < length (rl_calls (through p' st))" using k thr(3) by simp
  have cl: "relay_inv (close_dialog k (dl_generation d) oc (through p' st))" for oc
    by (rule close_dialog_inv [OF thr(1) k' d'])
  moreover have "wc_dialog (rl_calls (close_dialog k (dl_generation d) oc (through p' st)) ! k) = None"
    "k < length (rl_calls (close_dialog k (dl_generation d) oc (through p' st)))" for oc
    using k' by (simp_all add: close_dialog_def)
  moreover have "asked_job (through p' st) k = asked_job st k" using thr(4) k by (simp add: asked_job_def)
  ultimately show ?thesis
    unfolding settleDialog_eq [OF d ask] by (cases s) (simp_all add: settleDialog_eq [OF d ask] Let_def closed_call_inv)
qed

lemma withdraw_inv:
  assumes inv: "relay_inv st" and k: "k < length (rl_calls st)"
  shows "relay_inv (abortCall k st)"
proof -
  have ok: "call_ok (rl_proc st) (rl_calls st ! k)" using inv k by (simp add: relay_inv_def)
  have view: "open_view (abortCall k st) = withdraw_where (\<lambda>j. j = k) (open_view st)"
    unfolding abortCall_def using k
    by (subst open_view_on_call)
      (auto simp: open_view_def withdraw_where_def fun_eq_iff abortDialog_def split: option.splits)
  have "tracker_ok (rl_tracker st) (pend (rl_proc st)) (open_view (abortCall k st))"
    unfolding view by (rule dialogs_ok_withdraw [of _ _ _ _ "pend (rl_proc st)"]) (use inv in \<open>simp_all add: relay_inv_def\<close>)
  moreover have "\<forall>x \<in> set (rl_calls (abortCall k st)). call_ok (rl_proc st) x"
    unfolding abortCall_def
    by (rule calls_on_call) (use inv k ok in \<open>auto simp: relay_inv_def call_ok_def abortDialog_def\<close>)
  ultimately show ?thesis using inv by (simp add: relay_inv_def abortCall_def)
qed

lemma newcall_inv:
  assumes inv: "relay_inv st" and new: "startWait now i maxWait off st = Inr st'"
  shows "relay_inv st'"
proof -
  obtain job where job: "requireOwned (rl_proc st) i = Inr job"
    using new by (auto simp: startWait_def split: sum.splits)
  then have own: "own_row (r_owner (snd (rl_proc st))) (w_store (fst (rl_proc st))) i \<noteq> None"
    by (auto simp: requireOwned_def own_row_def split: option.splits if_splits)
  have "open_view st' = open_view st" "rl_proc st' = rl_proc st" "rl_tracker st' = rl_tracker st"
    using new job by (auto simp: startWait_def open_view_def fun_eq_iff nth_append)
  moreover have "\<forall>c \<in> set (rl_calls st'). call_ok (rl_proc st) c"
    using inv new job own by (auto simp: startWait_def relay_inv_def call_ok_def)
  ultimately show ?thesis using inv by (simp add: relay_inv_def)
qed

lemma others_inv:
  assumes inv: "relay_inv st" and p: "rl_proc st = (w, r)" and wf: "store_wf (w_store w')"
    and own: "own_row (r_owner r) (w_store w') = own_row (r_owner r) (w_store w)"
  shows "relay_inv (st\<lparr>rl_proc := (w', r)\<rparr>)"
  using inv own proc_inv_frame [OF _ own wf] by (simp add: relay_inv_def p call_ok_def)

lemma relay_step_inv: "relay_step local st st' \<Longrightarrow> relay_inv st \<Longrightarrow> relay_inv st'"
  by (induction rule: relay_step.induct) (auto intro: act_inv others_inv newcall_inv iterate_inv settle_inv withdraw_inv)

lemma relay_reachable_inv: "relay_reachable local st \<Longrightarrow> relay_inv st"
proof (induction rule: relay_reachable.induct)
  case (start p)
  then show ?case
    by (simp add: relay_inv_def dialogs_ok_def open_view_def new_tracker_def)
next
  case (step st st')
  then show ?case by (blast intro: relay_step_inv)
qed

section \<open>How the tracker moves\<close>

lemma step_appends:
  "\<exists>evs. w_events (fst (proc_step local alive writable ev p)) = w_events (fst p) @ evs"
proof (cases "\<exists>t e og idx. ev = PDetected t e og idx")
  case True
  then obtain t e og idx where ev: "ev = PDetected t e og idx" by blast
  show ?thesis
  proof (cases "r_current (snd p)")
    case (Some c)
    then show ?thesis by (cases p; cases c) (simp add: ev onPromptDetected_def Let_def)
  qed (simp add: ev)
next
  case False
  then show ?thesis using reported_step [of ev p local alive writable] by (auto simp: reported_def reports_def)
qed

definition tracker_move :: "nat \<Rightarrow> tracker \<Rightarrow> tracker \<Rightarrow> bool" where
  "tracker_move i tk tk' \<longleftrightarrow> generation i tk \<le> generation i tk' \<and>
     (jm_get (tk_handedOff tk) i = Some (generation i tk) \<longrightarrow> jm_get (tk_handedOff tk') i = Some (generation i tk))"

lemma tracker_move_trans:
  "tracker_move i a b \<Longrightarrow> tracker_move i b c \<Longrightarrow> generation i c = generation i a \<Longrightarrow> tracker_move i a c"
  by (auto simp: tracker_move_def)

lemma iterate_tracker: "tracker_move i (rl_tracker st) (rl_tracker (iterate elicits now k st))"
  by (auto simp: iterate_def Let_def tracker_move_def finishCall_def failCall_def sleepOrReturn_def claim_def
      split: option.splits if_splits prod.splits claim_result.splits)

lemma settle_tracker:
  assumes inv: "relay_inv st" and k: "k < length (rl_calls st)" and d: "wc_dialog (rl_calls st ! k) = Some d"
    and ask: "askHuman now alive writable t (dl_job d) (dl_aborted d) fin (rl_proc st) = (p', s)"
  shows "rl_tracker (settleDialog now alive writable t k fin st) =
    release (asked_job st k) (dl_generation d) (step_outcome s) (rl_tracker st)"
    and "rl_proc (settleDialog now alive writable t k fin st) = p'"
proof -
  have pinv: "proc_inv (rl_proc st)" using inv by (simp add: relay_inv_def)
  note snd = askHuman_sound [OF pinv ask]
  note thr = through_reported_inv [OF inv conjunct1 [OF snd] conjunct2 [OF snd]]
  have a: "asked_job (through p' st) k = asked_job st k" using thr(4) k by (simp add: asked_job_def)
  then show "rl_tracker (settleDialog now alive writable t k fin st) =
    release (asked_job st k) (dl_generation d) (step_outcome s) (rl_tracker st)"
    and "rl_proc (settleDialog now alive writable t k fin st) = p'"
    using thr(2,5) by (cases s; simp add: settleDialog_eq [OF d ask a] Let_def finishCall_def failCall_def close_dialog_def)+
qed

lemma open_dialog_view:
  assumes "relay_inv st" and "k < length (rl_calls st)" and "wc_dialog (rl_calls st ! k) = Some d" and "\<not> dl_aborted d"
  shows "dl_generation d = gen st (asked_job st k)" and "asked_job st k \<in> pend (rl_proc st)"
proof -
  have v: "open_view st k = Some (asked_job st k, dl_generation d, dl_aborted d)"
    using assms(2,3) by (simp add: open_view_def asked_job_def)
  show "dl_generation d = gen st (asked_job st k)" and "asked_job st k \<in> pend (rl_proc st)"
    using assms(1,4) v by (auto simp: relay_inv_def dialogs_ok_def)
qed

lemma relay_step_tracker:
  assumes "relay_step local st st'" and inv: "relay_inv st"
  shows "tracker_move i (rl_tracker st) (rl_tracker st')"
  using assms(1)
proof cases
  case (act ev alive writable)
  obtain evs where "w_events (fst (proc_step local alive writable ev (rl_proc st))) = w_events (fst (rl_proc st)) @ evs"
    using step_appends by blast
  from through_facts [OF this] act show ?thesis by (simp add: tracker_move_def)
next
  case (settle k d fin now alive writable t)
  obtain p' s where ask: "askHuman now alive writable t (dl_job d) (dl_aborted d) fin (rl_proc st) = (p', s)" by fastforce
  have "\<not> dl_aborted d" if "step_outcome s = RHandedOff"
    using ask settle(4) that
    by (cases fin) (auto simp: askHuman_def deliverable_def step_outcome_def split: if_splits)
  then have "dl_generation d = gen st (asked_job st k)" if "step_outcome s = RHandedOff"
    using open_dialog_view(1) [OF inv settle(2,3)] that by blast
  then show ?thesis
    unfolding settle(1) settle_tracker(1) [OF inv settle(2,3) ask] by (auto simp: tracker_move_def release_facts)
qed (auto simp: tracker_move_def startWait_def abortCall_def iterate_tracker [unfolded tracker_move_def] split: sum.splits)

section \<open>Properties\<close>



text \<open>
  A prompt the human declined, or whose dialog failed, stays handed off to the model: until the job
  pauses on a new prompt no step changes that, no dialog about it is open, and every call that looks at it
  returns \<open>prompt_pending\<close>.
\<close>

theorem handed_off_prompt_is_not_asked_again:
  assumes "relay_reachable local st" and "(relay_step local)\<^sup>*\<^sup>* st st'"
    and "jm_get (tk_handedOff (rl_tracker st)) i = Some (generation i (rl_tracker st))"
    and "generation i (rl_tracker st') = generation i (rl_tracker st)"
  shows "snd (claim i (rl_tracker st')) = ClaimHandedOff \<and>
    (\<forall>k < length (rl_calls st'). \<forall>d. wc_job (rl_calls st' ! k) = i \<and> wc_dialog (rl_calls st' ! k) = Some d \<longrightarrow>
       dl_generation d < generation i (rl_tracker st'))"
proof -
  have steps: "relay_reachable local st' \<and> generation i (rl_tracker st) \<le> generation i (rl_tracker st') \<and>
      (generation i (rl_tracker st') = generation i (rl_tracker st) \<longrightarrow>
         jm_get (tk_handedOff (rl_tracker st')) i = Some (generation i (rl_tracker st)))"
    using assms(2)
  proof (induction rule: rtranclp_induct)
    case base
    then show ?case using assms(1,3) by simp
  next
    case (step y z)
    have "tracker_move i (rl_tracker y) (rl_tracker z)"
      by (rule relay_step_tracker [OF step.hyps(2) relay_reachable_inv]) (use step.IH in blast)
    then show ?case
      using step.IH relay_reachable.step [OF _ step.hyps(2)] by (auto simp: tracker_move_def)
  qed
  then have h: "jm_get (tk_handedOff (rl_tracker st')) i = Some (generation i (rl_tracker st'))" using assms(4) by simp
  have ok: "tracker_ok (rl_tracker st') (pend (rl_proc st')) (open_view st')"
    using relay_reachable_inv [OF conjunct1 [OF steps]] by (simp add: relay_inv_def)
  have "dl_generation d < generation i (rl_tracker st')"
    if "k < length (rl_calls st')" "wc_job (rl_calls st' ! k) = i" "wc_dialog (rl_calls st' ! k) = Some d" for k d
  proof -
    have v: "open_view st' k = Some (i, dl_generation d, dl_aborted d)" using that by (simp add: open_view_def)
    then have "dl_generation d \<noteq> generation i (rl_tracker st')" using dialogs_ok_done(2) [OF ok disjI1 [OF h]] by auto
    moreover have "dl_generation d \<le> generation i (rl_tracker st')" using ok v by (auto simp: dialogs_ok_def)
    ultimately show ?thesis by simp
  qed
  then show ?thesis using h by (simp add: claim_def Let_def)
qed

section \<open>Instances\<close>

text \<open>Job 1 awaits an answer; one call asks about it, a second finds it busy.\<close>

definition demo_relay :: relay where
  "demo_relay = \<lparr>rl_proc = demo_run demo_evs, rl_tracker = new_tracker, rl_calls = []\<rparr>"

definition demo_called :: relay where
  "demo_called = demo_relay\<lparr>rl_calls := [\<lparr>wc_job = 1, wc_deadline = 300009, wc_logOffset = None, wc_aborted = False,
     wc_dialog = None, wc_result = None\<rparr>]\<rparr>"

definition demo_asking :: relay where
  "demo_asking = iterate True 9 0 demo_called"

lemma demo_reach:
  "relay_reachable local demo_relay" "relay_reachable local demo_called" "relay_reachable local demo_asking"
proof -
  show a: "relay_reachable local demo_relay"
    unfolding demo_relay_def by (rule relay_reachable.start [OF demo_proc_inv])
  have "startWait 9 1 None None demo_relay = Inr demo_called"
    by (simp add: startWait_def requireOwned_def demo_called_def demo_relay_def demo_eval)
  then show b: "relay_reachable local demo_called"
    by (intro relay_reachable.step [OF a] relay_step.newcall)
  show "relay_reachable local demo_asking"
    unfolding demo_asking_def by (rule relay_reachable.step [OF b relay_step.pass]) (simp add: demo_called_def)
qed

lemma demo_dialog:
  "length (rl_calls demo_asking) = 1" "wc_job (rl_calls demo_asking ! 0) = 1"
  "\<exists>d. wc_dialog (rl_calls demo_asking ! 0) = Some d \<and> \<not> dl_aborted d \<and> dl_generation d = 0"
  by (simp_all add: demo_asking_def demo_called_def demo_relay_def iterate_def Let_def demo_eval claim_def generation_def
      new_tracker_def on_call_def)



definition demo_declined :: relay where
  "demo_declined = settleDialog 20 (\<lambda>_. True) (\<lambda>_. True) 600000 0
     (Responded \<lparr>er_action = ''decline'', er_choice = None, er_answer = None\<rparr>) demo_asking"

theorem handed_off_prompt_is_not_asked_again_witness:
  "snd (claim 1 (rl_tracker (abortCall 0 demo_declined))) = ClaimHandedOff"
proof -
  have r: "relay_reachable demo_local demo_declined"
    unfolding demo_declined_def
    by (rule relay_reachable.step [OF demo_reach(3)], rule relay_step.settle [where d = "the (wc_dialog (rl_calls demo_asking ! 0))"])
      (use demo_dialog in \<open>auto simp: deliverable_def\<close>)
  have f: "jm_get (tk_handedOff (rl_tracker demo_declined)) 1 = Some (generation 1 (rl_tracker demo_declined))"
    "length (rl_calls demo_declined) = 1"
    by (simp_all add: demo_declined_def settleDialog_def askHuman_def parseElicitationChoice_def release_def step_outcome_def
        through_def demo_asking_def demo_called_def demo_relay_def iterate_def Let_def demo_eval claim_def generation_def
        new_tracker_def on_call_def finishCall_def)
  have "relay_step demo_local demo_declined (abortCall 0 demo_declined)"
    by (rule relay_step.withdraw) (simp add: f)
  then have "(relay_step demo_local)\<^sup>*\<^sup>* demo_declined (abortCall 0 demo_declined)" by blast
  from handed_off_prompt_is_not_asked_again [OF r this f(1)] show ?thesis by (simp add: abortCall_def)
qed

end
