(* ===== verification/Terminal_Text.thy ===== *)
theory Terminal_Text
  imports Bellhop_Prelude
begin

text \<open>
  Terminal output as the JavaScript strings the code holds: lists of UTF-16 code units, so that
  \<open>length\<close>, \<open>slice\<close> and the index arithmetic of \<open>src/src/web/jobs/output-activity.ts\<close> and
  \<open>prompt-matcher.ts\<close> keep their meaning.  The regular expressions of those files are deterministic and
  become functions.  The Unicode property class \<open>\p{L}\p{N}\<close> of a code point is the parameter \<open>letter\<close>.
\<close>

type_synonym utext = "nat list"

section \<open>White space\<close>

definition is_space :: "nat \<Rightarrow> bool" where
  "is_space c \<longleftrightarrow> c \<in> {9, 10, 11, 12, 13, 32, 160, 5760, 8232, 8233, 8239, 8287, 12288, 65279} \<or>
     (8192 \<le> c \<and> c \<le> 8202)"

definition js_trim :: "utext \<Rightarrow> utext" where
  "js_trim s = rev (dropWhile is_space (rev (dropWhile is_space s)))"

text \<open>\<open>s.replace(/\s+/g, ' ')\<close>.\<close>

function collapse_ws :: "utext \<Rightarrow> utext" where
  "collapse_ws [] = []"
| "collapse_ws (c # cs) =
     (if is_space c then 32 # collapse_ws (dropWhile is_space cs) else c # collapse_ws cs)"
  by pat_completeness auto
termination
  by (relation "measure length") (auto simp: le_imp_less_Suc length_dropWhile_le)

section \<open>Escape sequences\<close>

text \<open>
  \<open>ANSI_ESCAPE\<close> after its ESC: the rest of the text when a whole sequence follows.  The character
  classes of each alternative are disjoint, so no backtracking is possible.
\<close>

definition param_byte :: "nat \<Rightarrow> bool" where
  "param_byte c \<longleftrightarrow> 48 \<le> c \<and> c \<le> 63"

definition inter_byte :: "nat \<Rightarrow> bool" where
  "inter_byte c \<longleftrightarrow> 32 \<le> c \<and> c \<le> 47"

definition final_byte :: "nat \<Rightarrow> bool" where
  "final_byte c \<longleftrightarrow> 64 \<le> c \<and> c \<le> 126"

definition charset_byte :: "nat \<Rightarrow> bool" where
  "charset_byte c \<longleftrightarrow> (65 \<le> c \<and> c \<le> 90) \<or> (97 \<le> c \<and> c \<le> 122) \<or> (48 \<le> c \<and> c \<le> 57)"

definition single_byte :: "nat \<Rightarrow> bool" where
  "single_byte c \<longleftrightarrow> c = 55 \<or> c = 56 \<or> (64 \<le> c \<and> c \<le> 90) \<or> c = 92 \<or> c = 94 \<or> c = 95"

definition string_byte :: "nat \<Rightarrow> bool" where
  "string_byte c \<longleftrightarrow> c \<noteq> 7 \<and> c \<noteq> 27"

definition escape_rest :: "utext \<Rightarrow> utext option" where
  "escape_rest s =
     (case s of
        [] \<Rightarrow> None
      | c # cs \<Rightarrow>
          if c = 91 then
            (case dropWhile inter_byte (dropWhile param_byte cs) of
               [] \<Rightarrow> None
             | d # ds \<Rightarrow> if final_byte d then Some ds else None)
          else if c = 93 then
            (case dropWhile string_byte cs of
               [] \<Rightarrow> None
             | d # ds \<Rightarrow> if d = 7 then Some ds
                         else (case ds of [] \<Rightarrow> None | e # es \<Rightarrow> if e = 92 then Some es else None))
          else if c = 40 \<or> c = 41 then
            (case cs of [] \<Rightarrow> None | d # ds \<Rightarrow> if charset_byte d then Some ds else None)
          else if single_byte c then Some cs
          else None)"

lemma length_dropWhile_less: "dropWhile P xs = y # ys \<Longrightarrow> length ys < length xs"
  by (metis Suc_le_lessD length_Cons length_dropWhile_le)

lemma length_dropWhile2_less: "dropWhile Q (dropWhile P xs) = y # ys \<Longrightarrow> length ys < length xs"
  using length_dropWhile_le [of P xs] by (fastforce dest: length_dropWhile_less)

lemma escape_rest_length:
  assumes "escape_rest s = Some t"
  shows "length t < length s"
proof -
  obtain c cs where s: "s = c # cs" using assms by (cases s) (auto simp: escape_rest_def)
  consider "c = 91" | "c = 93" | "c \<noteq> 91 \<and> c \<noteq> 93" by blast
  then have "length t \<le> length cs"
  proof cases
    case 1
    then show ?thesis using assms unfolding s
      by (auto simp: escape_rest_def split: list.splits if_splits dest: length_dropWhile2_less)
  next
    case 2
    then show ?thesis using assms unfolding s
      by (auto simp: escape_rest_def split: list.splits if_splits dest: length_dropWhile_less)
  next
    case 3
    then show ?thesis using assms unfolding s
      by (auto simp: escape_rest_def split: list.splits if_splits)
  qed
  then show ?thesis by (simp add: s)
qed

function strip_ansi :: "utext \<Rightarrow> utext" where
  "strip_ansi [] = []"
| "strip_ansi (c # cs) =
     (if c = 27 then (case escape_rest cs of None \<Rightarrow> c # strip_ansi cs | Some rest \<Rightarrow> strip_ansi rest)
      else c # strip_ansi cs)"
  by pat_completeness auto
termination
  by (relation "measure length") (auto dest: escape_rest_length)

text \<open>\<open>s.replace(INCOMPLETE_ESCAPE_AT_END, '')\<close>: a sequence cut short by the end of the text.\<close>

definition incomplete_escape :: "utext \<Rightarrow> bool" where
  "incomplete_escape s \<longleftrightarrow>
     (case s of
        [] \<Rightarrow> True
      | c # cs \<Rightarrow>
          (c = 91 \<and> dropWhile inter_byte (dropWhile param_byte cs) = []) \<or>
          (c = 93 \<and> list_all string_byte cs) \<or>
          ((c = 40 \<or> c = 41) \<and> cs = []))"

fun strip_incomplete :: "utext \<Rightarrow> utext" where
  "strip_incomplete [] = []"
| "strip_incomplete (c # cs) = (if c = 27 \<and> incomplete_escape cs then [] else c # strip_incomplete cs)"

section \<open>Decoration\<close>

definition high_surrogate :: "nat \<Rightarrow> bool" where
  "high_surrogate c \<longleftrightarrow> 55296 \<le> c \<and> c \<le> 56319"

definition low_surrogate :: "nat \<Rightarrow> bool" where
  "low_surrogate c \<longleftrightarrow> 56320 \<le> c \<and> c \<le> 57343"

definition code_point :: "nat \<Rightarrow> nat \<Rightarrow> nat" where
  "code_point hi lo = 65536 + (hi - 55296) * 1024 + (lo - 56320)"

text \<open>How much \<open>LEADING_DECORATION\<close> matches, which has the flag \<open>u\<close> and so reads code points.\<close>

fun decoration_length :: "(nat \<Rightarrow> bool) \<Rightarrow> utext \<Rightarrow> nat" where
  "decoration_length letter [] = 0"
| "decoration_length letter [c] = (if letter c then 0 else 1)"
| "decoration_length letter (c # d # cs) =
     (if high_surrogate c \<and> low_surrogate d then
        (if letter (code_point c d) then 0 else 2 + decoration_length letter cs)
      else if letter c then 0 else 1 + decoration_length letter (d # cs))"

definition spinner_or_space :: "nat \<Rightarrow> bool" where
  "spinner_or_space c \<longleftrightarrow> (10240 \<le> c \<and> c \<le> 10495) \<or> is_space c"

definition lineKey :: "(nat \<Rightarrow> bool) \<Rightarrow> utext \<Rightarrow> utext" where
  "lineKey letter s =
     (let stripped = strip_ansi s;
          key = js_trim (collapse_ws (drop (decoration_length letter stripped) stripped))
      in if key \<noteq> [] then key else filter (\<lambda>c. \<not> spinner_or_space c) stripped)"

section \<open>Lines\<close>

definition is_eol :: "nat \<Rightarrow> bool" where
  "is_eol c \<longleftrightarrow> c = 10 \<or> c = 13"

text \<open>What follows the last line ending of a text, and the split at runs of line endings.\<close>

definition after_last_eol :: "utext \<Rightarrow> utext" where
  "after_last_eol s = rev (takeWhile (\<lambda>c. \<not> is_eol c) (rev s))"

function split_lines :: "utext \<Rightarrow> utext list" where
  "split_lines s =
     (let line = takeWhile (\<lambda>c. \<not> is_eol c) s; rest = dropWhile (\<lambda>c. \<not> is_eol c) s
      in if rest = [] then [line] else line # split_lines (dropWhile is_eol rest))"
  by pat_completeness auto
termination
proof (relation "measure length")
  fix s line rest :: utext
  assume rest: "rest = dropWhile (\<lambda>c. \<not> is_eol c) s" "rest \<noteq> []"
  then obtain c cs where r: "rest = c # cs" by (meson list.exhaust)
  then have "is_eol c" using rest(1) by (metis dropWhile_eq_Cons_conv)
  then have "length (dropWhile is_eol rest) < length rest"
    using r length_dropWhile_le [of is_eol cs] by simp
  also have "length rest \<le> length s" using rest(1) by (simp add: length_dropWhile_le)
  finally show "(dropWhile is_eol rest, s) \<in> measure length" by simp
qed simp

declare split_lines.simps [simp del]

definition utf16 :: "string \<Rightarrow> utext" where
  "utf16 s = map of_char s"

text \<open>The letters and digits of ASCII, an instance of \<open>letter\<close> for evaluations.\<close>

definition ascii_letter :: "nat \<Rightarrow> bool" where
  "ascii_letter c \<longleftrightarrow> (48 \<le> c \<and> c \<le> 57) \<or> (65 \<le> c \<and> c \<le> 90) \<or> (97 \<le> c \<and> c \<le> 122)"

lemma strip_ansi_plain: "27 \<notin> set s \<Longrightarrow> strip_ansi s = s"
  by (induction s) auto

lemma strip_incomplete_plain: "27 \<notin> set s \<Longrightarrow> strip_incomplete s = s"
  by (induction s) auto

lemma strip_incomplete_prefix: "prefix (strip_incomplete s) s"
  by (induction s) auto

end
