(* ===== verification/Output_Activity.thy ===== *)
theory Output_Activity
  imports Terminal_Text
begin

text \<open>
  The class \<open>OutputActivity\<close> of \<open>src/src/web/jobs/output-activity.ts\<close>: it separates what an installer
  says from a spinner redrawing its status line.  The fields are the record \<open>activity\<close>; \<open>push\<close> reads the
  chunk code unit by code unit as the source's loop does, \<open>seg\<close> being \<open>chunk.slice(segmentStart, i)\<close>.
\<close>

section \<open>State\<close>

definition TAIL_CHARS :: nat where "TAIL_CHARS = 200"

definition MAX_TRANSCRIPT_CHARS :: nat where "MAX_TRANSCRIPT_CHARS = 16384"

definition RECENT_KEY_LIMIT :: nat where "RECENT_KEY_LIMIT = 16"

record activity =
  oa_text :: utext
  oa_trimmed :: nat
  oa_partial :: utext
  oa_partialMeaningful :: bool
  oa_pendingCR :: bool
  oa_recentKeys :: "utext list"
  oa_exemptKeys :: "utext list"

definition new_activity :: activity where
  "new_activity = \<lparr>oa_text = [], oa_trimmed = 0, oa_partial = [], oa_partialMeaningful = False,
     oa_pendingCR = False, oa_recentKeys = [], oa_exemptKeys = []\<rparr>"

section \<open>Operations\<close>

definition rememberKey :: "utext list \<Rightarrow> utext \<Rightarrow> utext list" where
  "rememberKey recent key =
     (let pushed = remove1 key recent @ [key]
      in if length pushed > RECENT_KEY_LIMIT then tl pushed else pushed)"

definition tail_chars :: "utext \<Rightarrow> utext" where
  "tail_chars s = (if length s > TAIL_CHARS then drop (length s - TAIL_CHARS) s else s)"

definition oa_length :: "activity \<Rightarrow> nat" where
  "oa_length a = length (oa_text a)"

definition oa_mark :: "activity \<Rightarrow> nat" where
  "oa_mark a = oa_trimmed a + length (oa_text a)"

text \<open>\<open>Math.max(0, Math.min(mark - trimmed, length))\<close>: the truncating subtraction on \<open>nat\<close> is the \<open>max\<close>.\<close>

definition consumeThrough :: "nat \<Rightarrow> activity \<Rightarrow> activity" where
  "consumeThrough m a =
     (let count = min (m - oa_trimmed a) (length (oa_text a))
      in a\<lparr>oa_text := drop count (oa_text a), oa_trimmed := oa_trimmed a + count\<rparr>)"

definition exemptFromRedraw :: "(nat \<Rightarrow> bool) \<Rightarrow> utext \<Rightarrow> activity \<Rightarrow> activity" where
  "exemptFromRedraw letter txt a =
     (let key = lineKey letter txt
      in if key \<noteq> [] then a\<lparr>oa_exemptKeys := rememberKey (oa_exemptKeys a) key\<rparr> else a)"

definition isExempt :: "utext \<Rightarrow> activity \<Rightarrow> bool" where
  "isExempt key a \<longleftrightarrow> (\<exists>exempt \<in> set (oa_exemptKeys a). prefix exempt key)"

definition remember :: "utext \<Rightarrow> activity \<Rightarrow> activity" where
  "remember key a = a\<lparr>oa_recentKeys := rememberKey (oa_recentKeys a) key\<rparr>"

definition trim_transcript :: "activity \<Rightarrow> activity" where
  "trim_transcript a =
     (let excess = length (oa_text a) - MAX_TRANSCRIPT_CHARS
      in a\<lparr>oa_text := drop excess (oa_text a), oa_trimmed := oa_trimmed a + excess\<rparr>)"

definition ends_cr :: "utext \<Rightarrow> bool" where
  "ends_cr s \<longleftrightarrow> s \<noteq> [] \<and> last s = 13"

definition commitLine :: "(nat \<Rightarrow> bool) \<Rightarrow> nat \<Rightarrow> activity \<Rightarrow> activity \<times> bool" where
  "commitLine letter ending a =
     (let key = lineKey letter (oa_partial a);
          (b, active) =
            (if oa_partialMeaningful a
             then (remember key (a\<lparr>oa_text := oa_text a @ [ending]\<rparr>), ending = 10)
             else if key \<noteq> [] \<and> (isExempt key a \<or> key \<notin> set (oa_recentKeys a))
             then (remember key (a\<lparr>oa_text := oa_text a @ oa_partial a @ [ending]\<rparr>), True)
             else if ending = 10 \<and> ends_cr (oa_text a)
             then (a\<lparr>oa_text := butlast (oa_text a) @ [10]\<rparr>, False)
             else (a, False))
      in (b\<lparr>oa_partial := [], oa_partialMeaningful := False\<rparr>, active))"

text \<open>The longest recent key the line's key properly extends, as the loop over \<open>recentKeys\<close> finds it.\<close>

definition longest_extended :: "utext \<Rightarrow> utext list \<Rightarrow> utext" where
  "longest_extended key recents =
     fold (\<lambda>recent extended.
        if length recent > length extended \<and> length key > length recent \<and> prefix recent key
        then recent else extended) recents []"

definition newPart :: "(nat \<Rightarrow> bool) \<Rightarrow> utext \<Rightarrow> activity \<Rightarrow> utext" where
  "newPart letter key a =
     (let stripped = strip_ansi (oa_partial a);
          decoration = take (decoration_length letter stripped) stripped
      in if list_all is_space decoration then oa_partial a
         else let extended = longest_extended key (oa_recentKeys a)
              in if extended = [] then oa_partial a
                 else (case find (\<lambda>e. lineKey letter (take e (oa_partial a)) = extended)
                               [length extended ..< Suc (length (oa_partial a))] of
                         None \<Rightarrow> oa_partial a
                       | Some e \<Rightarrow> drop e (oa_partial a)))"

definition appendText :: "(nat \<Rightarrow> bool) \<Rightarrow> utext \<Rightarrow> activity \<Rightarrow> activity \<times> bool" where
  "appendText letter segment a =
     (let (b, active) =
            (if oa_pendingCR a then commitLine letter 13 (a\<lparr>oa_pendingCR := False\<rparr>) else (a, False));
          c = (if length (oa_partial b) < MAX_TRANSCRIPT_CHARS
               then b\<lparr>oa_partial := oa_partial b @ take (MAX_TRANSCRIPT_CHARS - length (oa_partial b)) segment\<rparr>
               else b)
      in if oa_partialMeaningful c then (c\<lparr>oa_text := oa_text c @ segment\<rparr>, True)
         else
           let key = lineKey letter (strip_incomplete (oa_partial c))
           in if key = [] then (c, active)
              else if \<not> isExempt key c \<and> (\<exists>recent \<in> set (oa_recentKeys c). prefix key recent) then (c, active)
              else (c\<lparr>oa_partialMeaningful := True, oa_text := oa_text c @ newPart letter key c\<rparr>, True))"

fun push_loop :: "(nat \<Rightarrow> bool) \<Rightarrow> utext \<Rightarrow> utext \<Rightarrow> activity \<times> bool \<Rightarrow> activity \<times> bool" where
  "push_loop letter seg [] (a, active) =
     (if seg = [] then (a, active)
      else let (b, act) = appendText letter seg a in (b, act \<or> active))"
| "push_loop letter seg (c # cs) (a, active) =
     (if \<not> is_eol c then push_loop letter (seg @ [c]) cs (a, active)
      else
        let (b, act1) = (if seg = [] then (a, active)
                         else let (b, act) = appendText letter seg a in (b, act \<or> active))
        in if c = 10 then
             (let (d, act) = commitLine letter 10 (b\<lparr>oa_pendingCR := False\<rparr>)
              in push_loop letter [] cs (d, act \<or> act1))
           else push_loop letter [] cs (b\<lparr>oa_pendingCR := True\<rparr>, act1))"

definition push :: "(nat \<Rightarrow> bool) \<Rightarrow> utext \<Rightarrow> activity \<Rightarrow> activity \<times> bool" where
  "push letter chunk a =
     (case push_loop letter [] chunk (a, False) of (b, active) \<Rightarrow> (trim_transcript b, active))"

definition candidate :: "activity \<Rightarrow> utext" where
  "candidate a =
     (if oa_text a \<noteq> [] \<and> last (oa_text a) = 10 then []
      else let withoutOverwrite = rev (dropWhile (\<lambda>c. c = 13) (rev (oa_text a)))
           in tail_chars (strip_ansi (after_last_eol withoutOverwrite)))"

definition lastLine :: "activity \<Rightarrow> utext" where
  "lastLine a =
     (let lines = filter (\<lambda>line. js_trim line \<noteq> []) (split_lines (strip_ansi (oa_text a)))
      in if lines = [] then [] else tail_chars (last lines))"

section \<open>Bounds\<close>

definition keys_ok :: "utext list \<Rightarrow> bool" where
  "keys_ok ks \<longleftrightarrow> distinct ks \<and> length ks \<le> RECENT_KEY_LIMIT"

definition activity_ok :: "activity \<Rightarrow> bool" where
  "activity_ok a \<longleftrightarrow> length (oa_partial a) \<le> MAX_TRANSCRIPT_CHARS \<and> keys_ok (oa_recentKeys a) \<and>
     keys_ok (oa_exemptKeys a)"

lemma keys_ok_rememberKey: "keys_ok ks \<Longrightarrow> keys_ok (rememberKey ks key)"
  by (auto simp: keys_ok_def rememberKey_def Let_def distinct_tl length_remove1)

lemma commitLine_ok:
  assumes "activity_ok a"
  shows "activity_ok (fst (commitLine letter e a))"
  using assms keys_ok_rememberKey
  by (auto simp: commitLine_def Let_def activity_ok_def remember_def)

lemma oa_fields_commit [simp]:
  "oa_partial (fst (commitLine letter e a)) = []" "\<not> oa_partialMeaningful (fst (commitLine letter e a))"
  "oa_pendingCR (fst (commitLine letter e a)) = oa_pendingCR a"
  "oa_trimmed (fst (commitLine letter e a)) = oa_trimmed a"
  "oa_exemptKeys (fst (commitLine letter e a)) = oa_exemptKeys a"
  by (auto simp: commitLine_def Let_def remember_def)

lemma length_butlast_snoc: "ends_cr t \<Longrightarrow> length (butlast t @ [c]) = length t"
  by (cases t) (auto simp: ends_cr_def)

lemma commitLine_text: "length (oa_text a) \<le> length (oa_text (fst (commitLine letter e a)))"
  using length_butlast_snoc [of "oa_text a" 10] by (auto simp: commitLine_def Let_def remember_def)

lemma activity_ok_flags [simp]:
  "activity_ok (a\<lparr>oa_pendingCR := b\<rparr>) = activity_ok a" "activity_ok (a\<lparr>oa_text := t\<rparr>) = activity_ok a"
  "activity_ok (a\<lparr>oa_partialMeaningful := b\<rparr>) = activity_ok a" "activity_ok (a\<lparr>oa_trimmed := n\<rparr>) = activity_ok a"
  by (simp_all add: activity_ok_def)

text \<open>\<open>appendText\<close> in two steps: the pending carriage return, then the segment.\<close>

definition flush_cr :: "(nat \<Rightarrow> bool) \<Rightarrow> activity \<Rightarrow> activity \<times> bool" where
  "flush_cr letter a = (if oa_pendingCR a then commitLine letter 13 (a\<lparr>oa_pendingCR := False\<rparr>) else (a, False))"

definition extend_partial :: "utext \<Rightarrow> activity \<Rightarrow> activity" where
  "extend_partial seg b =
     (if length (oa_partial b) < MAX_TRANSCRIPT_CHARS
      then b\<lparr>oa_partial := oa_partial b @ take (MAX_TRANSCRIPT_CHARS - length (oa_partial b)) seg\<rparr> else b)"

definition judge :: "(nat \<Rightarrow> bool) \<Rightarrow> utext \<Rightarrow> activity \<Rightarrow> bool \<Rightarrow> activity \<times> bool" where
  "judge letter seg c active =
     (if oa_partialMeaningful c then (c\<lparr>oa_text := oa_text c @ seg\<rparr>, True)
      else
        let key = lineKey letter (strip_incomplete (oa_partial c))
        in if key = [] then (c, active)
           else if \<not> isExempt key c \<and> (\<exists>recent \<in> set (oa_recentKeys c). prefix key recent) then (c, active)
           else (c\<lparr>oa_partialMeaningful := True, oa_text := oa_text c @ newPart letter key c\<rparr>, True))"

lemma appendText_eq:
  "appendText letter seg a = judge letter seg (extend_partial seg (fst (flush_cr letter a))) (snd (flush_cr letter a))"
  unfolding appendText_def flush_cr_def [symmetric]
  by (simp only: extend_partial_def [symmetric] judge_def Let_def case_prod_beta)

lemma flush_cr_ok: "activity_ok a \<Longrightarrow> activity_ok (fst (flush_cr letter a))"
  by (auto simp: flush_cr_def intro!: commitLine_ok)

lemma extend_partial_ok: "activity_ok a \<Longrightarrow> activity_ok (extend_partial seg a)"
  by (auto simp: extend_partial_def activity_ok_def)

lemma judge_ok: "activity_ok a \<Longrightarrow> activity_ok (fst (judge letter seg a b))"
  by (simp add: judge_def Let_def)

lemma appendText_ok: "activity_ok a \<Longrightarrow> activity_ok (fst (appendText letter seg a))"
  by (simp add: appendText_eq judge_ok extend_partial_ok flush_cr_ok)

lemma extend_partial_simps [simp]:
  "oa_text (extend_partial seg a) = oa_text a" "oa_trimmed (extend_partial seg a) = oa_trimmed a"
  "oa_recentKeys (extend_partial seg a) = oa_recentKeys a" "oa_exemptKeys (extend_partial seg a) = oa_exemptKeys a"
  "oa_pendingCR (extend_partial seg a) = oa_pendingCR a"
  "oa_partialMeaningful (extend_partial seg a) = oa_partialMeaningful a"
  by (simp_all add: extend_partial_def)

lemma flush_cr_text: "length (oa_text a) \<le> length (oa_text (fst (flush_cr letter a)))"
  "oa_trimmed (fst (flush_cr letter a)) = oa_trimmed a"
  using commitLine_text [of "a\<lparr>oa_pendingCR := False\<rparr>" letter 13] by (auto simp: flush_cr_def)

lemma appendText_text:
  "length (oa_text a) \<le> length (oa_text (fst (appendText letter seg a)))"
  "oa_trimmed (fst (appendText letter seg a)) = oa_trimmed a"
  using flush_cr_text [where a = a and letter = letter] by (auto simp: appendText_eq judge_def Let_def)

text \<open>One induction over the chunk serves every fact about \<open>push\<close> that its two steps keep.\<close>

lemma push_loop_induct:
  assumes "P a"
    and "\<And>seg a. P a \<Longrightarrow> P (fst (appendText letter seg a))"
    and "\<And>a. P a \<Longrightarrow> P (fst (commitLine letter 10 (a\<lparr>oa_pendingCR := False\<rparr>)))"
    and "\<And>a. P a \<Longrightarrow> P (a\<lparr>oa_pendingCR := True\<rparr>)"
  shows "P (fst (push_loop letter seg cs (a, active)))"
  using assms(1)
proof (induction cs arbitrary: seg a active)
  case Nil
  then show ?case using assms(2) [of a seg] by (simp add: case_prod_beta)
next
  case (Cons c cs)
  have b: "P (fst (if seg = [] then (a, active) else let (b, act) = appendText letter seg a in (b, act \<or> active)))"
    using Cons.prems assms(2) [of a seg] by (simp add: case_prod_beta)
  show ?case
    using Cons.IH Cons.prems Cons.IH [OF assms(3) [OF b]] Cons.IH [OF assms(4) [OF b]]
    by (simp add: case_prod_beta Let_def)
qed

lemma push_loop_ok: "activity_ok a \<Longrightarrow> activity_ok (fst (push_loop letter seg cs (a, active)))"
  by (rule push_loop_induct [where P = activity_ok]) (auto intro: appendText_ok commitLine_ok)

lemma push_loop_text:
  "length (oa_text a) \<le> length (oa_text (fst (push_loop letter seg cs (a, active)))) \<and>
   oa_trimmed (fst (push_loop letter seg cs (a, active))) = oa_trimmed a"
proof (rule push_loop_induct [where P = "\<lambda>b. length (oa_text a) \<le> length (oa_text b) \<and> oa_trimmed b = oa_trimmed a"])
  fix seg and b :: activity
  assume "length (oa_text a) \<le> length (oa_text b) \<and> oa_trimmed b = oa_trimmed a"
  then show "length (oa_text a) \<le> length (oa_text (fst (appendText letter seg b))) \<and>
      oa_trimmed (fst (appendText letter seg b)) = oa_trimmed a"
    using appendText_text [where a = b and letter = letter and seg = seg] by auto
next
  fix b :: activity
  assume "length (oa_text a) \<le> length (oa_text b) \<and> oa_trimmed b = oa_trimmed a"
  then show "length (oa_text a) \<le> length (oa_text (fst (commitLine letter 10 (b\<lparr>oa_pendingCR := False\<rparr>)))) \<and>
      oa_trimmed (fst (commitLine letter 10 (b\<lparr>oa_pendingCR := False\<rparr>))) = oa_trimmed a"
    using commitLine_text [of "b\<lparr>oa_pendingCR := False\<rparr>" letter 10] by auto
qed auto

lemma trim_simps [simp]:
  "oa_mark (trim_transcript a) = oa_mark a" "activity_ok (trim_transcript a) = activity_ok a"
  "length (oa_text (trim_transcript a)) \<le> MAX_TRANSCRIPT_CHARS"
  by (simp_all add: trim_transcript_def oa_mark_def Let_def activity_ok_def)

lemma push_facts:
  "activity_ok a \<Longrightarrow> activity_ok (fst (push letter chunk a))"
  "oa_mark a \<le> oa_mark (fst (push letter chunk a))"
  "length (oa_text (fst (push letter chunk a))) \<le> MAX_TRANSCRIPT_CHARS"
  using push_loop_ok [of a letter "[]" chunk False] push_loop_text [of a letter "[]" chunk False]
  by (auto simp: push_def case_prod_beta) (simp add: oa_mark_def)

lemma consumeThrough_facts:
  "oa_mark (consumeThrough m a) = oa_mark a" "activity_ok (consumeThrough m a) = activity_ok a"
  "oa_text (consumeThrough m a) = drop (m - oa_trimmed a) (oa_text a)"
  "oa_mark a \<le> m \<Longrightarrow> oa_text (consumeThrough m a) = []"
  by (auto simp: consumeThrough_def oa_mark_def Let_def activity_ok_def min_def)

lemma exempt_facts:
  "activity_ok a \<Longrightarrow> activity_ok (exemptFromRedraw letter t a)" "oa_mark (exemptFromRedraw letter t a) = oa_mark a"
  "oa_text (exemptFromRedraw letter t a) = oa_text a"
  by (auto simp: exemptFromRedraw_def Let_def activity_ok_def oa_mark_def keys_ok_rememberKey)

section \<open>Redraws are silence\<close>

text \<open>A line that says nothing new: keyless, or repeating a recent line no answered prompt starts.\<close>

definition redraw_line :: "(nat \<Rightarrow> bool) \<Rightarrow> activity \<Rightarrow> utext \<Rightarrow> bool" where
  "redraw_line letter a line \<longleftrightarrow>
     (let key = lineKey letter line
      in key = [] \<or> (key \<in> set (oa_recentKeys a) \<and> \<not> isExempt key a))"

definition redraw_frame :: "(nat \<Rightarrow> bool) \<Rightarrow> activity \<Rightarrow> utext \<Rightarrow> bool" where
  "redraw_frame letter a f \<longleftrightarrow> f \<noteq> [] \<and> list_all (\<lambda>c. \<not> is_eol c) f \<and> length f \<le> MAX_TRANSCRIPT_CHARS \<and>
     strip_incomplete f = f \<and> redraw_line letter a f"

definition quiet :: "(nat \<Rightarrow> bool) \<Rightarrow> activity \<Rightarrow> bool" where
  "quiet letter a \<longleftrightarrow> \<not> oa_partialMeaningful a \<and> redraw_line letter a (oa_partial a)"

lemma lineKey_Nil [simp]: "lineKey letter [] = []"
  by (simp add: lineKey_def js_trim_def Let_def)

lemma redraw_line_cong:
  "oa_recentKeys b = oa_recentKeys a \<Longrightarrow> oa_exemptKeys b = oa_exemptKeys a \<Longrightarrow>
   redraw_line letter b = redraw_line letter a"
  by (rule ext) (simp add: redraw_line_def isExempt_def)

lemma redraw_frame_cong:
  "oa_recentKeys b = oa_recentKeys a \<Longrightarrow> oa_exemptKeys b = oa_exemptKeys a \<Longrightarrow>
   redraw_frame letter b f = redraw_frame letter a f"
  using redraw_line_cong [of b a letter] by (simp add: redraw_frame_def)

lemma push_loop_read:
  "list_all (\<lambda>c. \<not> is_eol c) f \<Longrightarrow> push_loop letter seg (f @ cs) st = push_loop letter (seg @ f) cs st"
proof (induction f arbitrary: seg)
  case (Cons c f)
  obtain a b where "st = (a, b)" by (cases st)
  then show ?case using Cons.IH [of "seg @ [c]"] Cons.prems by simp
qed simp

lemma commit_quiet:
  assumes "quiet letter a"
  shows "commitLine letter 13 a = (a\<lparr>oa_partial := [], oa_partialMeaningful := False\<rparr>, False)"
proof -
  have m: "\<not> oa_partialMeaningful a" using assms by (simp add: quiet_def)
  have "\<not> (lineKey letter (oa_partial a) \<noteq> [] \<and>
      (isExempt (lineKey letter (oa_partial a)) a \<or> lineKey letter (oa_partial a) \<notin> set (oa_recentKeys a)))"
    using assms unfolding quiet_def redraw_line_def Let_def by blast
  then show ?thesis using m unfolding commitLine_def Let_def by simp
qed

lemma append_frame:
  assumes "quiet letter a" and "redraw_frame letter a f" and "oa_pendingCR a"
  shows "appendText letter f a = (a\<lparr>oa_partial := f, oa_partialMeaningful := False, oa_pendingCR := False\<rparr>, False)"
proof -
  have q: "quiet letter (a\<lparr>oa_pendingCR := False\<rparr>)"
    using assms(1) by (simp add: quiet_def redraw_line_cong [of "a\<lparr>oa_pendingCR := False\<rparr>" a])
  let ?b = "a\<lparr>oa_pendingCR := False, oa_partial := [], oa_partialMeaningful := False\<rparr>"
  have flush: "flush_cr letter a = (?b, False)"
    using assms(3) commit_quiet [OF q] by (simp add: flush_cr_def)
  have ext: "extend_partial f ?b = ?b\<lparr>oa_partial := f\<rparr>"
    using assms(2) by (simp add: extend_partial_def redraw_frame_def MAX_TRANSCRIPT_CHARS_def)
  have "judge letter f (?b\<lparr>oa_partial := f\<rparr>) False = (?b\<lparr>oa_partial := f\<rparr>, False)"
    using assms(2) by (auto simp: judge_def Let_def redraw_frame_def redraw_line_def isExempt_def)
  then show ?thesis by (simp add: appendText_eq flush ext)
qed

lemma push_loop_frames:
  assumes "quiet letter a" and "\<forall>f \<in> set frames. redraw_frame letter a f" and "frames \<noteq> []"
  shows "push_loop letter [] (concat (map (\<lambda>f. 13 # f) frames)) (a, False) =
    (a\<lparr>oa_partial := last frames, oa_partialMeaningful := False, oa_pendingCR := False\<rparr>, False)"
  using assms
proof (induction frames arbitrary: a)
  case (Cons f fs)
  let ?a1 = "a\<lparr>oa_pendingCR := True\<rparr>" and ?a2 = "a\<lparr>oa_partial := f, oa_partialMeaningful := False, oa_pendingCR := False\<rparr>"
  have f: "redraw_frame letter a f" "list_all (\<lambda>c. \<not> is_eol c) f" "f \<noteq> []"
    using Cons.prems(2) by (auto simp: redraw_frame_def)
  have q1: "quiet letter ?a1" using Cons.prems(1) by (simp add: quiet_def redraw_line_cong [of ?a1 a])
  have f1: "redraw_frame letter ?a1 f" using f(1) by (simp add: redraw_frame_cong [of ?a1 a])
  have app: "appendText letter f ?a1 = (?a2, False)" using append_frame [OF q1 f1] by simp
  have q2: "quiet letter ?a2"
    using f(1) by (simp add: quiet_def redraw_line_cong [of ?a2 a] redraw_frame_def)
  have read: "push_loop letter [] (concat (map (\<lambda>f. 13 # f) (f # fs))) (a, False) =
      push_loop letter f (concat (map (\<lambda>f. 13 # f) fs)) (?a1, False)"
    using push_loop_read [OF f(2), of letter "[]"] by (simp add: is_eol_def)
  show ?case
  proof (cases fs)
    case Nil
    then show ?thesis using read f(3) app by simp
  next
    case (Cons g gs)
    have "push_loop letter f (concat (map (\<lambda>f. 13 # f) fs)) (?a1, False) =
        push_loop letter [] (concat (map (\<lambda>f. 13 # f) fs)) (?a2, False)"
      using Cons f(3) app by (simp add: is_eol_def)
    moreover have "\<forall>g \<in> set fs. redraw_frame letter ?a2 g"
      using Cons.prems(2) by (simp add: redraw_frame_cong [of ?a2 a])
    ultimately show ?thesis using Cons.IH [OF q2] read Cons by simp
  qed
qed simp

section \<open>A new complete line always counts\<close>

lemma commit_new_line:
  assumes "oa_partialMeaningful a \<or> (lineKey letter (oa_partial a) \<noteq> [] \<and> lineKey letter (oa_partial a) \<notin> set (oa_recentKeys a))"
  shows "snd (commitLine letter 10 a)" "last (oa_text (fst (commitLine letter 10 a))) = 10"
  using assms by (auto simp: commitLine_def Let_def remember_def)

lemma push_line:
  assumes "seg \<noteq> []" and "list_all (\<lambda>c. \<not> is_eol c) seg"
  shows "push_loop letter [] (seg @ [10]) (a, False) =
    (fst (commitLine letter 10 ((fst (appendText letter seg a))\<lparr>oa_pendingCR := False\<rparr>)),
     snd (commitLine letter 10 ((fst (appendText letter seg a))\<lparr>oa_pendingCR := False\<rparr>)) \<or> snd (appendText letter seg a))"
  using push_loop_read [OF assms(2), of letter "[]" "[10]"] assms(1)
  by (simp add: is_eol_def case_prod_beta Let_def)

section \<open>A line ending may come in the next chunk\<close>

lemma trim_snoc:
  "trim_transcript ((trim_transcript a)\<lparr>oa_text := oa_text (trim_transcript a) @ t\<rparr>) =
   trim_transcript (a\<lparr>oa_text := oa_text a @ t\<rparr>)"
  by (cases "length (oa_text a) \<le> MAX_TRANSCRIPT_CHARS")
    (simp_all add: trim_transcript_def Let_def add.commute add.left_commute)

lemma trim_ends_cr: "ends_cr (oa_text (trim_transcript a)) = ends_cr (oa_text a)"
proof (cases "oa_text a = []")
  case False
  then have "length (oa_text a) - MAX_TRANSCRIPT_CHARS < length (oa_text a)" by (simp add: MAX_TRANSCRIPT_CHARS_def)
  then show ?thesis using False by (simp add: trim_transcript_def Let_def ends_cr_def last_drop)
qed (simp add: trim_transcript_def ends_cr_def)

lemma trim_in_place:
  assumes "oa_text a \<noteq> []"
  shows "trim_transcript ((trim_transcript a)\<lparr>oa_text := butlast (oa_text (trim_transcript a)) @ [c]\<rparr>) =
    trim_transcript (a\<lparr>oa_text := butlast (oa_text a) @ [c]\<rparr>)"
proof -
  let ?k = "length (oa_text a) - MAX_TRANSCRIPT_CHARS"
  have len: "length (butlast (oa_text a) @ [c]) = length (oa_text a)" using assms by simp
  have k: "?k < length (oa_text a)" using assms by (simp add: MAX_TRANSCRIPT_CHARS_def)
  have "butlast (drop ?k (oa_text a)) @ [c] = drop ?k (butlast (oa_text a) @ [c])"
    using k by (simp add: butlast_drop)
  then show ?thesis using len k by (simp add: trim_transcript_def Let_def)
qed

lemma trim_fields [simp]:
  "oa_partial (trim_transcript a) = oa_partial a" "oa_partialMeaningful (trim_transcript a) = oa_partialMeaningful a"
  "oa_pendingCR (trim_transcript a) = oa_pendingCR a" "oa_recentKeys (trim_transcript a) = oa_recentKeys a"
  "oa_exemptKeys (trim_transcript a) = oa_exemptKeys a"
  by (simp_all add: trim_transcript_def Let_def)

text \<open>The transcript of the committed line, and the recent keys after it.\<close>

definition commit_text :: "(nat \<Rightarrow> bool) \<Rightarrow> nat \<Rightarrow> activity \<Rightarrow> activity" where
  "commit_text letter e a =
     (let key = lineKey letter (oa_partial a)
      in if oa_partialMeaningful a then a\<lparr>oa_text := oa_text a @ [e]\<rparr>
         else if key \<noteq> [] \<and> (isExempt key a \<or> key \<notin> set (oa_recentKeys a))
         then a\<lparr>oa_text := oa_text a @ oa_partial a @ [e]\<rparr>
         else if e = 10 \<and> ends_cr (oa_text a) then a\<lparr>oa_text := butlast (oa_text a) @ [10]\<rparr> else a)"

definition commit_rest :: "(nat \<Rightarrow> bool) \<Rightarrow> activity \<Rightarrow> activity \<Rightarrow> activity" where
  "commit_rest letter a b =
     (let key = lineKey letter (oa_partial a)
      in (if oa_partialMeaningful a \<or> (key \<noteq> [] \<and> (isExempt key a \<or> key \<notin> set (oa_recentKeys a)))
          then remember key b else b)\<lparr>oa_partial := [], oa_partialMeaningful := False\<rparr>)"

lemma commitLine_split: "fst (commitLine letter e a) = commit_rest letter a (commit_text letter e a)"
  by (auto simp: commitLine_def commit_rest_def commit_text_def Let_def)

lemma commit_text_trim: "trim_transcript (commit_text letter e (trim_transcript a)) = trim_transcript (commit_text letter e a)"
proof -
  have ex: "isExempt key (trim_transcript a) = isExempt key a" for key by (simp add: isExempt_def)
  have "ends_cr (oa_text a) \<Longrightarrow> oa_text a \<noteq> []" by (simp add: ends_cr_def)
  moreover have "trim_transcript (trim_transcript a) = trim_transcript a"
    using trim_snoc [of a "[]"] by simp
  ultimately show ?thesis
    using trim_snoc [of a] trim_in_place [of a 10]
    by (simp add: commit_text_def Let_def ex trim_ends_cr)
qed

lemma commit_rest_trim: "trim_transcript (commit_rest letter a b) = commit_rest letter a (trim_transcript b)"
  by (auto simp: commit_rest_def Let_def remember_def trim_transcript_def)

lemma commit_trim:
  "trim_transcript (fst (commitLine letter e (trim_transcript a))) = trim_transcript (fst (commitLine letter e a))"
proof -
  have "commit_rest letter (trim_transcript a) = commit_rest letter a"
    by (rule ext) (simp add: commit_rest_def Let_def isExempt_def)
  then show ?thesis by (simp add: commitLine_split commit_rest_trim commit_text_trim)
qed

text \<open>\<open>push_loop\<close> up to the end of the chunk, and what is left to do with the unfinished segment.\<close>

lemma push_loop_snoc_eol:
  "push_loop letter seg (cs @ [10]) (a, active) =
     (let (b, act) = push_loop letter seg cs (a, active);
          (d, act') = commitLine letter 10 (b\<lparr>oa_pendingCR := False\<rparr>)
      in (d, act' \<or> act))"
proof (induction cs arbitrary: seg a active)
  case Nil
  then show ?case by (simp add: is_eol_def case_prod_beta Let_def)
next
  case (Cons c cs)
  then show ?case by (simp add: case_prod_beta Let_def)
qed

lemma push_eol_later:
  "fst (push letter [10] (fst (push letter cs a))) = fst (push letter (cs @ [10]) a)"
proof -
  let ?b = "fst (push_loop letter [] cs (a, False))"
  have one: "fst (push letter (cs @ [10]) a) = trim_transcript (fst (commitLine letter 10 (?b\<lparr>oa_pendingCR := False\<rparr>)))"
    by (simp add: push_def push_loop_snoc_eol case_prod_beta Let_def)
  have "(trim_transcript ?b)\<lparr>oa_pendingCR := False\<rparr> = trim_transcript (?b\<lparr>oa_pendingCR := False\<rparr>)"
    by (simp add: trim_transcript_def Let_def)
  then have two: "fst (push letter [10] (fst (push letter cs a))) =
      trim_transcript (fst (commitLine letter 10 (trim_transcript (?b\<lparr>oa_pendingCR := False\<rparr>))))"
    by (simp add: push_def is_eol_def case_prod_beta Let_def)
  show ?thesis unfolding one two by (rule commit_trim)
qed

section \<open>Properties\<close>

datatype activity_op = OPush utext | OConsume nat | OExempt utext

fun activity_apply :: "(nat \<Rightarrow> bool) \<Rightarrow> activity_op \<Rightarrow> activity \<Rightarrow> activity" where
  "activity_apply letter (OPush chunk) a = fst (push letter chunk a)"
| "activity_apply letter (OConsume m) a = consumeThrough m a"
| "activity_apply letter (OExempt t) a = exemptFromRedraw letter t a"

definition activity_run :: "(nat \<Rightarrow> bool) \<Rightarrow> activity_op list \<Rightarrow> activity \<Rightarrow> activity" where
  "activity_run letter ops a = fold (activity_apply letter) ops a"

lemma activity_apply_ok:
  "activity_ok a \<and> length (oa_text a) \<le> MAX_TRANSCRIPT_CHARS \<Longrightarrow>
   activity_ok (activity_apply letter opn a) \<and> length (oa_text (activity_apply letter opn a)) \<le> MAX_TRANSCRIPT_CHARS"
  using push_facts [where a = a and letter = letter] exempt_facts [where a = a and letter = letter]
  by (cases opn) (auto simp: consumeThrough_facts)

lemma activity_run_mark: "oa_mark a \<le> oa_mark (activity_run letter ops a)"
proof (induction ops arbitrary: a)
  case (Cons opn ops)
  have "oa_mark a \<le> oa_mark (activity_apply letter opn a)"
    using push_facts(2) exempt_facts(2) by (cases opn) (simp_all add: consumeThrough_facts)
  with Cons.IH [of "activity_apply letter opn a"] show ?case by (simp add: activity_run_def)
qed (simp add: activity_run_def)

text \<open>
  However long a job runs, the memory of the detector is bounded: at most 16384 code units of
  transcript and of unfinished line, and at most 16 distinct recent and exempt keys.
\<close>

theorem activity_bounded:
  "length (oa_text (activity_run letter ops new_activity)) \<le> 16384 \<and>
   length (oa_partial (activity_run letter ops new_activity)) \<le> 16384 \<and>
   length (oa_recentKeys (activity_run letter ops new_activity)) \<le> 16 \<and>
   distinct (oa_recentKeys (activity_run letter ops new_activity)) \<and>
   length (oa_exemptKeys (activity_run letter ops new_activity)) \<le> 16"
proof -
  have "activity_ok a \<and> length (oa_text a) \<le> MAX_TRANSCRIPT_CHARS \<Longrightarrow>
      activity_ok (activity_run letter ops a) \<and> length (oa_text (activity_run letter ops a)) \<le> MAX_TRANSCRIPT_CHARS" for a
    using activity_apply_ok by (induction ops arbitrary: a) (simp_all add: activity_run_def)
  from this [of new_activity] show ?thesis
    by (simp add: new_activity_def activity_ok_def keys_ok_def MAX_TRANSCRIPT_CHARS_def RECENT_KEY_LIMIT_def)
qed

text \<open>
  A position from \<open>mark\<close> stays valid: whatever is pushed, consumed or trimmed later, consuming
  through it drops everything up to it and leaves a tail of the transcript no longer than what came
  after it.
\<close>

theorem marks_stay_valid:
  "oa_mark (activity_run letter ops a) \<ge> oa_mark a \<and>
   (\<exists>dropped. oa_text (activity_run letter ops a) =
      dropped @ oa_text (consumeThrough (oa_mark a) (activity_run letter ops a))) \<and>
   length (oa_text (consumeThrough (oa_mark a) (activity_run letter ops a))) \<le>
     oa_mark (activity_run letter ops a) - oa_mark a \<and>
   oa_mark (consumeThrough (oa_mark a) (activity_run letter ops a)) = oa_mark (activity_run letter ops a)"
proof -
  let ?b = "activity_run letter ops a"
  have "oa_mark a \<le> oa_mark ?b" by (rule activity_run_mark)
  moreover have "length (oa_text (consumeThrough (oa_mark a) ?b)) \<le> oa_mark ?b - oa_mark a"
    by (simp add: consumeThrough_facts(3)) (simp add: oa_mark_def)
  moreover have "oa_text ?b = take (oa_mark a - oa_trimmed ?b) (oa_text ?b) @ oa_text (consumeThrough (oa_mark a) ?b)"
    by (simp add: consumeThrough_facts(3))
  ultimately show ?thesis using consumeThrough_facts(1) by blast
qed

text \<open>
  A spinner never counts as output: any run of frames that repeat recent lines, each begun by a
  carriage return, is reported as no activity and leaves the transcript and the remembered lines as they
  were, however many frames come.
\<close>

theorem spinner_is_silent:
  assumes "quiet letter a" and "\<forall>f \<in> set frames. redraw_frame letter a f" and "frames \<noteq> []"
    and "length (oa_text a) \<le> MAX_TRANSCRIPT_CHARS"
  shows "push letter (concat (map (\<lambda>f. 13 # f) frames)) a =
    (a\<lparr>oa_partial := last frames, oa_partialMeaningful := False, oa_pendingCR := False\<rparr>, False)"
  using push_loop_frames [OF assms(1-3)] assms(4) by (simp add: push_def trim_transcript_def)

lemmas line_eval = utf16_def lineKey_def js_trim_def is_space_def ascii_letter_def high_surrogate_def
  low_surrogate_def spinner_or_space_def Let_def

lemmas activity_eval = line_eval push_def appendText_def commitLine_def new_activity_def remember_def rememberKey_def
  isExempt_def trim_transcript_def newPart_def MAX_TRANSCRIPT_CHARS_def RECENT_KEY_LIMIT_def is_eol_def
  ends_cr_def longest_extended_def

definition after_installing :: activity where
  "after_installing = fst (push ascii_letter (utf16 ''* Installing'' @ [10]) new_activity)"

theorem spinner_is_silent_witness:
  "snd (push ascii_letter (13 # utf16 ''- Installing'' @ [13] @ utf16 ''+ Installing'') after_installing) = False"
proof -
  let ?fs = "[utf16 ''- Installing'', utf16 ''+ Installing'']"
  have k: "oa_recentKeys after_installing = [utf16 ''Installing'']" "oa_exemptKeys after_installing = []"
    "oa_partial after_installing = []" "\<not> oa_partialMeaningful after_installing"
    "length (oa_text after_installing) \<le> MAX_TRANSCRIPT_CHARS"
    by (simp_all add: after_installing_def activity_eval)
  have "quiet ascii_letter after_installing" using k by (simp add: quiet_def redraw_line_def)
  moreover have "\<forall>f \<in> set ?fs. redraw_frame ascii_letter after_installing f"
    using k(1,2) by (simp add: redraw_frame_def redraw_line_def isExempt_def line_eval MAX_TRANSCRIPT_CHARS_def is_eol_def)
  ultimately show ?thesis
    using spinner_is_silent [of ascii_letter after_installing ?fs] k(5) by simp
qed

text \<open>
  It makes no difference whether a newline arrives with its line or in a chunk of its own, as when
  the two halves of a carriage return and newline are split.
\<close>

theorem newline_may_come_later:
  "fst (push letter [10] (fst (push letter chunk a))) = fst (push letter (chunk @ [10]) a)"
  by (rule push_eol_later)

text \<open>
  A complete line with a key of its own is never lost: whatever prefix of a recent line it started
  as, the push reports activity and the line ends the transcript.
\<close>

theorem new_line_counts:
  assumes "seg \<noteq> []" and "list_all (\<lambda>c. \<not> is_eol c) seg" and "length seg \<le> MAX_TRANSCRIPT_CHARS"
    and "oa_partial a = []" and "\<not> oa_partialMeaningful a" and "\<not> oa_pendingCR a"
    and "lineKey letter seg \<noteq> []" and "lineKey letter seg \<notin> set (oa_recentKeys a)"
  shows "snd (push letter (seg @ [10]) a) \<and> last (oa_text (fst (push letter (seg @ [10]) a))) = 10"
proof -
  let ?b = "(fst (appendText letter seg a))\<lparr>oa_pendingCR := False\<rparr>"
  have flush: "flush_cr letter a = (a, False)" using assms(6) by (simp add: flush_cr_def)
  have "oa_partial (extend_partial seg a) = seg"
    using assms(3,4) by (simp add: extend_partial_def MAX_TRANSCRIPT_CHARS_def)
  then have "oa_partialMeaningful ?b \<or> (oa_partial ?b = seg \<and> oa_recentKeys ?b = oa_recentKeys a)"
    by (simp add: appendText_eq flush judge_def Let_def)
  then have new: "oa_partialMeaningful ?b \<or> (lineKey letter (oa_partial ?b) \<noteq> [] \<and>
      lineKey letter (oa_partial ?b) \<notin> set (oa_recentKeys ?b))" using assms(7,8) by auto
  note c = commit_new_line [OF new]
  have "oa_text (fst (commitLine letter 10 ?b)) \<noteq> []"
    using new by (auto simp: commitLine_def Let_def remember_def)
  moreover have "length (oa_text x) - MAX_TRANSCRIPT_CHARS < length (oa_text x)" if "oa_text x \<noteq> []" for x :: activity
    using that by (simp add: MAX_TRANSCRIPT_CHARS_def)
  ultimately show ?thesis
    using c by (simp add: push_def push_line [OF assms(1,2)] trim_transcript_def Let_def last_drop)
qed

theorem new_line_counts_witness:
  "snd (push ascii_letter (utf16 ''Install'' @ [10]) after_installing)"
proof -
  have "oa_recentKeys after_installing = [utf16 ''Installing'']" "oa_partial after_installing = []"
    "\<not> oa_partialMeaningful after_installing" "\<not> oa_pendingCR after_installing"
    by (simp_all add: after_installing_def activity_eval)
  then show ?thesis
    using new_line_counts [of "utf16 ''Install''" after_installing ascii_letter]
    by (simp add: line_eval is_eol_def MAX_TRANSCRIPT_CHARS_def)
qed

text \<open>
  A redrawn frame split inside its decoration does count as output when the decoration is not a
  Braille glyph: the first half is keyed on its punctuation, which begins no recent key, although the
  same frame in one piece is a redraw.
\<close>

theorem split_decoration_counts:
  "snd (push ascii_letter (13 # utf16 ''* Installing'') after_installing) = False \<and>
   snd (push ascii_letter (13 # utf16 ''* '') after_installing) = True"
  by (simp add: after_installing_def activity_eval)

end
