(* ===== verification/Prompt_Dialog.thy ===== *)
theory Prompt_Dialog
  imports Output_Activity Job_Store
begin

text \<open>
  What the human reads when a paused job asks through an MCP client, \<open>src/src/mcp/elicitation.ts\<close>: the
  answer field's title, the last lines of the log without the redraws of a spinner, and the message.
  Texts are UTF-16 as in \<open>Terminal_Text\<close>; \<open>letter\<close> is the runtime's Unicode letter-or-number class.
\<close>

definition ELICITATION_CONTEXT_LINES :: nat where "ELICITATION_CONTEXT_LINES = 20"

definition ANSWER_TITLE_PROMPT_CHARS :: nat where "ANSWER_TITLE_PROMPT_CHARS = 80"

definition answer_title :: "utext option \<Rightarrow> utext" where
  "answer_title promptText =
     (let prompt = js_trim (collapse_ws (strip_ansi (case promptText of None \<Rightarrow> [] | Some t \<Rightarrow> t)));
          shortened = (if length prompt > ANSWER_TITLE_PROMPT_CHARS
                       then take (ANSWER_TITLE_PROMPT_CHARS - 1) prompt @ [8230] else prompt)
      in if shortened \<noteq> [] then utf16 ''Answer to: '' @ shortened else utf16 ''Answer'')"

section \<open>The last lines of a log\<close>

text \<open>\<open>log.replace(IN_PLACE_REDRAW, newline)\<close>, \<open>split\<close> at newlines, \<open>replace(SPINNER_FRAME, '')\<close>.\<close>

fun redraw_to_newline :: "utext \<Rightarrow> utext" where
  "redraw_to_newline [] = []"
| "redraw_to_newline (c # cs) =
     (if c = 27 \<and> take 3 cs = [91, 50, 75] then 10 # redraw_to_newline (drop 3 cs)
      else (if c = 13 then 10 else c) # redraw_to_newline cs)"

fun split_newline :: "utext \<Rightarrow> utext list" where
  "split_newline [] = [[]]"
| "split_newline (c # cs) =
     (if c = 10 then [] # split_newline cs
      else (case split_newline cs of [] \<Rightarrow> [[c]] | l # ls \<Rightarrow> (c # l) # ls))"

definition drop_frame :: "utext \<Rightarrow> utext" where
  "drop_frame s =
     (case dropWhile is_space s of
        c # d # cs \<Rightarrow> if 10240 \<le> c \<and> c \<le> 10495 \<and> is_space d then dropWhile is_space cs else s
      | _ \<Rightarrow> s)"

definition trim_end :: "utext \<Rightarrow> utext" where
  "trim_end s = rev (dropWhile is_space (rev s))"

definition keep_line :: "(nat \<Rightarrow> bool) \<Rightarrow> utext \<Rightarrow> utext list \<times> utext list \<Rightarrow> utext list \<times> utext list" where
  "keep_line letter raw st =
     (case st of (kept, recentKeys) \<Rightarrow>
       let line = trim_end (drop_frame raw)
       in if js_trim line = []
          then (if kept \<noteq> [] \<and> last kept \<noteq> [] then (kept @ [[]], recentKeys) else (kept, recentKeys))
          else
            let key = lineKey letter line
            in if key = [] \<or> key \<in> set recentKeys
               then (rev (dropWhile (\<lambda>l. l = []) (rev kept)), recentKeys)
               else (kept @ [line], rememberKey recentKeys key))"

fun join_newline :: "utext list \<Rightarrow> utext" where
  "join_newline [] = []"
| "join_newline [l] = l"
| "join_newline (l # ls) = l @ 10 # join_newline ls"

definition lastLines :: "(nat \<Rightarrow> bool) \<Rightarrow> utext \<Rightarrow> nat \<Rightarrow> utext" where
  "lastLines letter lg n =
     (let kept = fst (fold (keep_line letter) (split_newline (strip_ansi (redraw_to_newline lg))) ([], []));
          inner = rev (dropWhile (\<lambda>l. l = []) (rev (dropWhile (\<lambda>l. l = []) kept)))
      in join_newline (if n = 0 then inner else drop (length inner - n) inner))"

section \<open>The message\<close>

definition origin_note :: "prompt_origin option \<Rightarrow> utext" where
  "origin_note og =
     (case og of
        Some OExpected \<Rightarrow> utf16 ''The installer is asking a question it is known to ask.''
      | Some OStall \<Rightarrow>
          utf16 (''The installer has printed no new output for 5 minutes (repeating progress or spinner lines don'' @
            [CHR 39] @ ''t count), and the text above is the last new output. This may not be a real question; it could still be working.'')
      | _ \<Rightarrow> utf16 ''The installer went quiet after output that looks like a question.'')"

definition buildElicitationMessage :: "(nat \<Rightarrow> bool) \<Rightarrow> job_row \<Rightarrow> utext option \<Rightarrow> utext \<Rightarrow> utext" where
  "buildElicitationMessage letter job promptText lg =
     (let label = utf16 (''Job '' @ show_nat (j_id job) @ '' ('' @ j_command job @
            (case j_target job of None \<Rightarrow> '''' | Some t \<Rightarrow> if t = '''' then '''' else '' on '' @ t) @ '')'');
          ctxt = lastLines letter lg ELICITATION_CONTEXT_LINES;
          prompt = js_trim (case promptText of None \<Rightarrow> [] | Some t \<Rightarrow> t);
          parts = (if prompt \<noteq> [] then [prompt] else []) @ [label @ utf16 '' is waiting for input.'', origin_note (j_promptOrigin job)] @
                  (if ctxt \<noteq> [] then [utf16 ''Recent output:'' @ 10 # ctxt] else [])
      in concat (map (\<lambda>p. p @ [10, 10]) (butlast parts)) @ last parts)"

section \<open>What is shown stays short\<close>

lemma answer_title_bounded: "length (answer_title promptText) \<le> 91"
proof -
  let ?p = "js_trim (collapse_ws (strip_ansi (case promptText of None \<Rightarrow> [] | Some t \<Rightarrow> t)))"
  have "length (utf16 ''Answer to: '') = 11" "length (utf16 ''Answer'') = 6" by (simp_all add: utf16_def)
  then show ?thesis
    by (auto simp: answer_title_def Let_def ANSWER_TITLE_PROMPT_CHARS_def)
qed

text \<open>
  A stretch of blank lines and redraws, ending in a redraw, leaves the context as it was: however many
  frames a spinner prints, they push nothing out of the dialog.
\<close>

definition is_redraw :: "(nat \<Rightarrow> bool) \<Rightarrow> utext list \<Rightarrow> utext \<Rightarrow> bool" where
  "is_redraw letter recentKeys raw \<longleftrightarrow>
     js_trim (trim_end (drop_frame raw)) \<noteq> [] \<and>
     (lineKey letter (trim_end (drop_frame raw)) = [] \<or> lineKey letter (trim_end (drop_frame raw)) \<in> set recentKeys)"

definition without_blank_end :: "utext list \<Rightarrow> utext list" where
  "without_blank_end kept = rev (dropWhile (\<lambda>l. l = []) (rev kept))"

lemma keep_line_blank:
  "js_trim (trim_end (drop_frame raw)) = [] \<Longrightarrow> keep_line letter raw (kept, recent) =
     (if kept \<noteq> [] \<and> last kept \<noteq> [] then kept @ [[]] else kept, recent)"
  by (simp add: keep_line_def)

lemma keep_line_redraw:
  "is_redraw letter recent raw \<Longrightarrow> keep_line letter raw (kept, recent) = (without_blank_end kept, recent)"
  by (simp add: keep_line_def is_redraw_def without_blank_end_def Let_def)

lemma without_blank_end [simp]:
  "without_blank_end (kept @ [[]]) = without_blank_end kept" "without_blank_end [[]] = []"
  "kept = [] \<or> last kept \<noteq> [] \<Longrightarrow> without_blank_end kept = kept"
  by (cases kept rule: rev_cases; auto simp: without_blank_end_def)+

lemma redraw_stretch:
  assumes "\<forall>raw \<in> set frames. js_trim (trim_end (drop_frame raw)) = [] \<or> is_redraw letter recent raw"
    and "kept = [] \<or> last kept \<noteq> []"
  shows "fold (keep_line letter) frames (kept, recent) \<in> {(kept, recent), (kept @ [[]], recent)}"
  using assms(1)
proof (induction frames rule: rev_induct)
  case (snoc raw frames)
  have step: "keep_line letter raw (k, recent) \<in> {(kept, recent), (kept @ [[]], recent)}" if "k = kept \<or> k = kept @ [[]]" for k
    using snoc.prems assms(2) that by (cases "is_redraw letter recent raw") (auto simp: keep_line_redraw keep_line_blank)
  have "fold (keep_line letter) frames (kept, recent) \<in> {(kept, recent), (kept @ [[]], recent)}" using snoc by simp
  then obtain k where "fold (keep_line letter) frames (kept, recent) = (k, recent)" "k = kept \<or> k = kept @ [[]]" by blast
  with step [OF this(2)] show ?case by simp
qed simp

theorem spinner_leaves_the_context:
  assumes "\<forall>raw \<in> set frames. js_trim (trim_end (drop_frame raw)) = [] \<or> is_redraw letter recent raw"
    and "kept = [] \<or> last kept \<noteq> []" and "is_redraw letter recent raw"
  shows "fold (keep_line letter) (frames @ [raw]) (kept, recent) = (kept, recent)"
  using redraw_stretch [OF assms(1,2)] assms(2,3) by (auto simp: keep_line_redraw)

end
