(* ===== verification/Prompt_Matcher.thy ===== *)
theory Prompt_Matcher
  imports Terminal_Text
begin

text \<open>
  \<open>src/src/web/jobs/prompt-matcher.ts\<close>: the hints scanned from an app's install script become matchers
  for the live output.  The regular expression a hint compiles to is a list of segments, each a list of
  tokens: a literal code unit or a run of white space (\<open>\s+\<close>); segments are separated by
  \<open>[\s\S]*?\<close>.  \<open>seg_rests\<close> enumerates every way a segment can match, so \<open>pattern_test\<close> is the
  \<open>test\<close> of that expression.
\<close>

section \<open>Compiling a hint\<close>

definition MIN_LITERAL_LENGTH :: nat where
  "MIN_LITERAL_LENGTH = 8"

definition ident_start :: "nat \<Rightarrow> bool" where
  "ident_start c \<longleftrightarrow> (65 \<le> c \<and> c \<le> 90) \<or> (97 \<le> c \<and> c \<le> 122) \<or> c = 95"

definition ident_char :: "nat \<Rightarrow> bool" where
  "ident_char c \<longleftrightarrow> ident_start c \<or> (48 \<le> c \<and> c \<le> 57)"

text \<open>\<open>EXPANSION\<close> after its dollar sign: the rest of the text when it matches.\<close>

definition expansion_rest :: "utext \<Rightarrow> utext option" where
  "expansion_rest s =
     (case s of
        [] \<Rightarrow> None
      | c # cs \<Rightarrow>
          if c = 123 then (case dropWhile (\<lambda>d. d \<noteq> 125) cs of [] \<Rightarrow> None | d # ds \<Rightarrow> Some ds)
          else if ident_start c then Some (dropWhile ident_char cs)
          else None)"

lemma expansion_rest_length: "expansion_rest s = Some t \<Longrightarrow> length t < length s"
  by (auto simp: expansion_rest_def le_imp_less_Suc length_dropWhile_le split: list.splits if_splits
      dest!: length_dropWhile_less)

text \<open>\<open>hint.split(EXPANSION)\<close>; \<open>acc\<close> is the segment being read.\<close>

function split_expansions :: "utext \<Rightarrow> utext \<Rightarrow> utext list" where
  "split_expansions acc [] = [acc]"
| "split_expansions acc (c # cs) =
     (if c = 36 then
        (case expansion_rest cs of
           None \<Rightarrow> split_expansions (acc @ [c]) cs
         | Some rest \<Rightarrow> acc # split_expansions [] rest)
      else split_expansions (acc @ [c]) cs)"
  by pat_completeness auto
termination
  by (relation "measure (\<lambda>(acc, s). length s)") (auto dest: expansion_rest_length)

datatype tok = Lit nat | Spaces

function seg_tokens :: "utext \<Rightarrow> tok list" where
  "seg_tokens [] = []"
| "seg_tokens (c # cs) =
     (if is_space c then Spaces # seg_tokens (dropWhile is_space cs) else Lit c # seg_tokens cs)"
  by pat_completeness auto
termination
  by (relation "measure length") (auto simp: le_imp_less_Suc length_dropWhile_le)

definition hint_segments :: "utext \<Rightarrow> utext list" where
  "hint_segments hint = filter (\<lambda>s. s \<noteq> []) (map js_trim (split_expansions [] hint))"

definition compilePromptHint :: "utext \<Rightarrow> tok list list option" where
  "compilePromptHint hint =
     (let segments = hint_segments hint
      in if sum_list (map length segments) < MIN_LITERAL_LENGTH then None
         else Some (map seg_tokens segments))"

definition compilePromptHints :: "utext list \<Rightarrow> tok list list option list" where
  "compilePromptHints hints = map compilePromptHint hints"

section \<open>Matching\<close>

text \<open>The rests a non-empty run of white space can leave, and those a segment can leave.\<close>

fun space_rests :: "utext \<Rightarrow> utext list" where
  "space_rests [] = []"
| "space_rests (c # cs) = (if is_space c then cs # space_rests cs else [])"

fun seg_rests :: "tok list \<Rightarrow> utext \<Rightarrow> utext list" where
  "seg_rests [] s = [s]"
| "seg_rests (Lit c # ts) s = (case s of [] \<Rightarrow> [] | d # ds \<Rightarrow> if d = c then seg_rests ts ds else [])"
| "seg_rests (Spaces # ts) s = concat (map (seg_rests ts) (space_rests s))"

fun pattern_test :: "tok list list \<Rightarrow> utext \<Rightarrow> bool" where
  "pattern_test [] s \<longleftrightarrow> True"
| "pattern_test (seg # segs) s \<longleftrightarrow>
     (\<exists>t \<in> set (suffixes s). \<exists>u \<in> set (seg_rests seg t). pattern_test segs u)"

fun first_match :: "nat \<Rightarrow> utext \<Rightarrow> tok list list option list \<Rightarrow> nat option" where
  "first_match i trailing [] = None"
| "first_match i trailing (p # ps) =
     (case p of
        None \<Rightarrow> first_match (Suc i) trailing ps
      | Some pat \<Rightarrow> if pattern_test pat trailing then Some i else first_match (Suc i) trailing ps)"

definition matchExpectedPrompt :: "utext \<Rightarrow> tok list list option list \<Rightarrow> nat option" where
  "matchExpectedPrompt trailing compiled = first_match 0 trailing compiled"

section \<open>What a compiled hint matches\<close>

lemma pattern_test_later: "pattern_test segs s \<Longrightarrow> pattern_test segs (pre @ s)"
  by (induction segs) (auto simp: suffix_append intro: suffix_appendI)

lemma seg_tokens_spaces: "is_space c \<Longrightarrow> seg_tokens (c # cs) = Spaces # seg_tokens (dropWhile is_space cs)"
  by simp

lemma space_rests_run: "ws \<noteq> [] \<Longrightarrow> list_all is_space ws \<Longrightarrow> s \<in> set (space_rests (ws @ s))"
proof (induction ws)
  case (Cons c ws)
  then show ?case by (cases ws) auto
qed simp

lemma seg_matches_itself: "r \<in> set (seg_rests (seg_tokens seg) (seg @ r))"
proof (induction seg rule: seg_tokens.induct)
  case (2 c cs)
  show ?case
  proof (cases "is_space c")
    case True
    let ?rest = "dropWhile is_space cs" and ?ws = "c # takeWhile is_space cs"
    have split: "(c # cs) @ r = ?ws @ (?rest @ r)" by simp
    have "list_all is_space ?ws" using True by (auto simp: list_all_iff dest: set_takeWhileD)
    then have "?rest @ r \<in> set (space_rests ((c # cs) @ r))"
      unfolding split by (intro space_rests_run) simp_all
    moreover have "r \<in> set (seg_rests (seg_tokens ?rest) (?rest @ r))" using "2.IH"(1) True by simp
    ultimately show ?thesis using True by auto
  next
    case False
    then show ?thesis using "2.IH"(2) by simp
  qed
qed simp

text \<open>
  A rendering of a hint's raw segments: the script prints the literal text and, for each expansion, any
  value at all.
\<close>

fun rendered :: "utext list \<Rightarrow> utext list \<Rightarrow> utext" where
  "rendered [] vals = []"
| "rendered [s] vals = s"
| "rendered (s # t # ss) [] = s @ rendered (t # ss) []"
| "rendered (s # t # ss) (v # vs) = s @ v @ rendered (t # ss) vs"

lemma js_trim_split: "\<exists>a b. s = a @ js_trim s @ b"
proof -
  let ?l = "dropWhile is_space s"
  have "s = takeWhile is_space s @ ?l" by simp
  moreover have "?l = js_trim s @ rev (takeWhile is_space (rev ?l))"
    unfolding js_trim_def by (metis rev_append rev_rev_ident takeWhile_dropWhile_id)
  ultimately show ?thesis by metis
qed

lemma rendered_Cons: "\<exists>v. rendered (s # ss) vals = s @ v @ rendered ss (tl vals)"
  by (cases ss; cases vals) auto

lemma rendered_matches:
  "pattern_test (map seg_tokens (filter (\<lambda>s. s \<noteq> []) (map js_trim segs))) (rendered segs vals @ post)"
proof (induction segs arbitrary: vals)
  case (Cons s segs)
  let ?pats = "map seg_tokens (filter (\<lambda>s. s \<noteq> []) (map js_trim segs))"
  obtain v where v: "rendered (s # segs) vals = s @ v @ rendered segs (tl vals)"
    using rendered_Cons by blast
  obtain a b where ab: "s = a @ js_trim s @ b" using js_trim_split by blast
  let ?u = "b @ v @ rendered segs (tl vals) @ post"
  have tail: "pattern_test ?pats ?u"
    using pattern_test_later [OF Cons.IH [of "tl vals"], of "b @ v"] by simp
  have whole: "rendered (s # segs) vals @ post = a @ (js_trim s @ ?u)"
    using v ab by (metis append.assoc)
  show ?case
  proof (cases "js_trim s = []")
    case True
    then show ?thesis using pattern_test_later [OF tail, of a] whole by simp
  next
    case False
    have "?u \<in> set (seg_rests (seg_tokens (js_trim s)) (js_trim s @ ?u))" by (rule seg_matches_itself)
    moreover have "js_trim s @ ?u \<in> set (suffixes (js_trim s @ ?u))" by simp
    ultimately have "pattern_test (seg_tokens (js_trim s) # ?pats) (js_trim s @ ?u)"
      using tail unfolding pattern_test.simps(2) by blast
    from pattern_test_later [OF this, of a] show ?thesis using False whole by simp
  qed
qed simp

definition hint_matches :: "utext \<Rightarrow> tok list list option \<Rightarrow> bool" where
  "hint_matches trailing p = (case p of None \<Rightarrow> False | Some pat \<Rightarrow> pattern_test pat trailing)"

lemma first_match_eq:
  "first_match i trailing ps =
     (if \<exists>p \<in> set ps. hint_matches trailing p
      then Some (i + length (takeWhile (\<lambda>p. \<not> hint_matches trailing p) ps)) else None)"
  by (induction ps arbitrary: i) (auto simp: hint_matches_def split: option.splits)

lemma matchExpectedPrompt_least:
  assumes "matchExpectedPrompt trailing ps = Some k"
  shows "k < length ps" "hint_matches trailing (ps ! k)" "j < k \<Longrightarrow> \<not> hint_matches trailing (ps ! j)"
proof -
  let ?before = "takeWhile (\<lambda>p. \<not> hint_matches trailing p) ps"
  have ex: "\<exists>p \<in> set ps. hint_matches trailing p" and k: "k = length ?before"
    using assms by (auto simp: matchExpectedPrompt_def first_match_eq split: if_splits)
  then have "?before \<noteq> ps" by (metis takeWhile_eq_all_conv)
  then show len: "k < length ps"
    using k by (metis length_takeWhile_le le_neq_implies_less takeWhile_eq_take take_all_iff order_refl)
  show "hint_matches trailing (ps ! k)" using nth_length_takeWhile [of _ ps] len k by blast
  show "\<not> hint_matches trailing (ps ! j)" if "j < k"
    using that k takeWhile_nth [of j _ ps] by (metis nth_mem set_takeWhileD)
qed

lemma matchExpectedPrompt_None:
  "matchExpectedPrompt trailing ps = None \<longleftrightarrow> (\<forall>p \<in> set ps. \<not> hint_matches trailing p)"
  by (auto simp: matchExpectedPrompt_def first_match_eq)

lemmas prompt_eval = utf16_def compilePromptHint_def hint_segments_def expansion_rest_def js_trim_def is_space_def
  ident_start_def ident_char_def MIN_LITERAL_LENGTH_def hint_matches_def

section \<open>Properties\<close>

text \<open>
  C10: A hint scanned from the script matches what the script prints, whatever its expansions produced
  and whatever stands before and after, unless it carries fewer than eight literal characters, in which
  case it is dropped.
\<close>

theorem hint_matches_its_rendering:
  "case compilePromptHint hint of
     None \<Rightarrow> sum_list (map (\<lambda>s. length (js_trim s)) (split_expansions [] hint)) < 8
   | Some pat \<Rightarrow> pattern_test pat (pre @ rendered (split_expansions [] hint) vals @ post)"
proof -
  have "sum_list (map length (filter (\<lambda>s. s \<noteq> []) xs)) = sum_list (map length xs)" for xs :: "utext list"
    by (induction xs) auto
  then show ?thesis
    using pattern_test_later [OF rendered_matches [of "split_expansions [] hint" vals post], of pre]
    by (simp add: compilePromptHint_def hint_segments_def Let_def MIN_LITERAL_LENGTH_def comp_def)
qed

text \<open>
  \<open>matchExpectedPrompt\<close> returns the index of the first hint that matches, and nothing when none does.
\<close>

theorem matchExpectedPrompt_first:
  "case matchExpectedPrompt trailing ps of
     None \<Rightarrow> \<forall>p \<in> set ps. \<not> hint_matches trailing p
   | Some k \<Rightarrow> k < length ps \<and> hint_matches trailing (ps ! k) \<and> (\<forall>j < k. \<not> hint_matches trailing (ps ! j))"
  using matchExpectedPrompt_least [of trailing ps] matchExpectedPrompt_None [of trailing ps]
  by (cases "matchExpectedPrompt trailing ps") auto

theorem matchExpectedPrompt_first_witness:
  "matchExpectedPrompt (utf16 ''   API token: '')
     (compilePromptHints (map utf16 [''$msg'', ''${TAB3}API token: ''])) = Some 1"
proof -
  let ?ps = "compilePromptHints (map utf16 [''$msg'', ''${TAB3}API token: ''])"
  have "compilePromptHint (utf16 ''$msg'') = None" by (simp add: prompt_eval)
  moreover have "hint_matches (utf16 ''   API token: '') (?ps ! 1)"
    by (simp add: prompt_eval compilePromptHints_def)
  ultimately show ?thesis
    using matchExpectedPrompt_first [where ps = ?ps and trailing = "utf16 ''   API token: ''"]
    by (auto simp: compilePromptHints_def hint_matches_def less_Suc_eq split: option.splits)
qed

end
