(* ===== verification/Prompt_Watch.thy ===== *)
theory Prompt_Watch
  imports Job_Store Prompt_Matcher Output_Activity
begin

text \<open>
  The prompt watch of \<open>src/src/web/jobs/job-ssh-client.ts\<close>, the SSH client a job runs its commands
  through.  The private fields are the record \<open>watch\<close>, what the constructor derives from its options the
  record \<open>watch_config\<close>.  Each operation returns the new state and the callbacks it made
  (\<open>onPromptDetected\<close>, \<open>onPromptCleared\<close>); timers are the field \<open>wt_pendingCheck\<close>, the delay of the
  armed check.
\<close>

section \<open>State\<close>

datatype tier_mode = TExpected | TAll | TStall

record watch_config =
  wc_letter :: "nat \<Rightarrow> bool"
  wc_compiled :: "tok list list option list"
  wc_tiers :: "(nat \<times> tier_mode) list"

record watch =
  wt_activity :: activity
  wt_paused :: bool
  wt_pausedOrigin :: "prompt_origin option"
  wt_pendingCheck :: "nat option"
  wt_tierIndex :: nat
  wt_firedMark :: nat
  wt_lastFiredText :: "utext option"
  wt_answeredSinceFire :: bool

datatype callback = Detected utext prompt_origin "nat option" | Cleared

text \<open>The tiers of the constructor: truncating subtraction on \<open>nat\<close> is its \<open>Math.max(0, ...)\<close>.\<close>

definition mk_tiers :: "nat \<Rightarrow> nat \<Rightarrow> nat \<Rightarrow> (nat \<times> tier_mode) list" where
  "mk_tiers expectedMs heuristicMs stallMs =
     [(expectedMs, TExpected), (heuristicMs - expectedMs, TAll), (stallMs - heuristicMs, TStall)]"

definition mk_config :: "(nat \<Rightarrow> bool) \<Rightarrow> utext list \<Rightarrow> nat option \<Rightarrow> nat option \<Rightarrow> nat option \<Rightarrow> watch_config" where
  "mk_config letter expectedPrompts expectedSilenceMs silenceMs stallMs =
     (let dflt = (\<lambda>opt d. case opt of None \<Rightarrow> d | Some v \<Rightarrow> v)
      in \<lparr>wc_letter = letter, wc_compiled = compilePromptHints expectedPrompts,
          wc_tiers = mk_tiers (dflt expectedSilenceMs 2000) (dflt silenceMs 30000) (dflt stallMs 300000)\<rparr>)"

definition resetWatchState :: watch where
  "resetWatchState = \<lparr>wt_activity = new_activity, wt_paused = False, wt_pausedOrigin = None,
     wt_pendingCheck = None, wt_tierIndex = 0, wt_firedMark = 0, wt_lastFiredText = None,
     wt_answeredSinceFire = False\<rparr>"

section \<open>The two heuristics\<close>

definition drop_trailing_space :: "utext \<Rightarrow> utext" where
  "drop_trailing_space s = rev (dropWhile is_space (rev s))"

text \<open>\<open>QUESTION_MARK\<close>: a question mark, an optional colon, and white space around it, at the end.\<close>

definition question_mark :: "utext \<Rightarrow> bool" where
  "question_mark s =
     (let t = drop_trailing_space s;
          u = (if t \<noteq> [] \<and> last t = 58 then drop_trailing_space (butlast t) else t)
      in u \<noteq> [] \<and> last u = 63)"

text \<open>\<open>YES_NO_HINT\<close> at one position: the tokens of \<open>(y/n)\<close> with white space allowed between them.\<close>

fun yes_no_tokens :: "nat set list \<Rightarrow> utext \<Rightarrow> bool" where
  "yes_no_tokens [] s = True"
| "yes_no_tokens (t # ts) s =
     (case dropWhile is_space s of [] \<Rightarrow> False | c # cs \<Rightarrow> c \<in> t \<and> yes_no_tokens ts cs)"

definition yes_no_hint :: "utext \<Rightarrow> bool" where
  "yes_no_hint s \<longleftrightarrow>
     (\<exists>t \<in> set (suffixes s).
        (case t of [] \<Rightarrow> False
         | c # cs \<Rightarrow> c \<in> {40, 60, 91} \<and> yes_no_tokens [{121, 89}, {47}, {110, 78}, {41, 62, 93}] cs))"

section \<open>Operations\<close>

definition armTier :: "watch_config \<Rightarrow> nat \<Rightarrow> watch \<Rightarrow> watch" where
  "armTier cfg index s =
     s\<lparr>wt_tierIndex := index,
       wt_pendingCheck := (if index < length (wc_tiers cfg) then Some (fst (wc_tiers cfg ! index)) else None)\<rparr>"

definition fire :: "utext \<Rightarrow> prompt_origin \<Rightarrow> nat option \<Rightarrow> watch \<Rightarrow> watch \<times> callback list" where
  "fire txt orig matchedIndex s =
     (s\<lparr>wt_paused := True, wt_pausedOrigin := Some orig, wt_pendingCheck := None,
        wt_firedMark := oa_mark (wt_activity s), wt_lastFiredText := Some txt,
        wt_answeredSinceFire := False\<rparr>,
      [Detected txt orig matchedIndex])"

definition trailingText :: "watch \<Rightarrow> utext" where
  "trailingText s = candidate (wt_activity s)"

definition stallText :: "watch \<Rightarrow> utext" where
  "stallText s =
     (let trailing = trailingText s; lst = lastLine (wt_activity s)
      in if js_trim trailing \<noteq> [] then trailing
         else if lst \<noteq> [] then lst
         else (case wt_lastFiredText s of
                 Some t \<Rightarrow> utf16 ''(no new output since last seen) '' @ t
               | None \<Rightarrow> []))"

definition resume :: "watch_config \<Rightarrow> watch \<Rightarrow> watch \<times> callback list" where
  "resume cfg s =
     (let orig = wt_pausedOrigin s;
          a = consumeThrough (wt_firedMark s) (wt_activity s);
          a' = (case wt_lastFiredText s of
                  None \<Rightarrow> a
                | Some t \<Rightarrow> if (orig = Some OExpected \<or> orig = Some OHeuristic) \<and> wt_answeredSinceFire s
                            then exemptFromRedraw (wc_letter cfg) t a else a)
      in (armTier cfg 0 (s\<lparr>wt_paused := False, wt_pausedOrigin := None, wt_activity := a', wt_firedMark := 0\<rparr>),
          [Cleared]))"

definition watchChunk :: "watch_config \<Rightarrow> utext \<Rightarrow> watch \<Rightarrow> watch \<times> callback list" where
  "watchChunk cfg chunk s =
     (let (a, meaningful) = push (wc_letter cfg) chunk (wt_activity s);
          s1 = s\<lparr>wt_activity := a\<rparr>
      in if wt_paused s1
         then (if wt_pausedOrigin s1 = Some OStall \<and> meaningful then resume cfg s1 else (s1, []))
         else if meaningful then (armTier cfg 0 s1, []) else (s1, []))"

definition check :: "watch_config \<Rightarrow> watch \<Rightarrow> watch \<times> callback list" where
  "check cfg s =
     (if wt_tierIndex s < length (wc_tiers cfg) then
        let mode = snd (wc_tiers cfg ! wt_tierIndex s);
            trailing = trailingText s
        in case matchExpectedPrompt trailing (wc_compiled cfg) of
             Some matchedIndex \<Rightarrow> fire trailing OExpected (Some matchedIndex) s
           | None \<Rightarrow>
               if mode = TAll \<and> (question_mark trailing \<or> yes_no_hint trailing)
               then fire trailing OHeuristic None s
               else if mode = TStall then fire (stallText s) OStall None s
               else (armTier cfg (wt_tierIndex s + 1) s, [])
      else (s, []))"

text \<open>
  The events of a watched client: a call of \<open>exec\<close>, a chunk of its output, the expiry of the armed check,
  the operator's answer (the channel may refuse it) or dismissal through the closures handed out, and the
  end of the \<open>exec\<close>.
\<close>

datatype watch_event = WExec | WChunk utext | WTimer | WAnswer bool | WDismiss | WEnd

fun watch_step :: "watch_config \<Rightarrow> watch_event \<Rightarrow> watch \<Rightarrow> watch \<times> callback list" where
  "watch_step cfg WExec s = (resetWatchState, [])"
| "watch_step cfg (WChunk chunk) s = watchChunk cfg chunk s"
| "watch_step cfg WTimer s =
     (case wt_pendingCheck s of None \<Rightarrow> (s, []) | Some d \<Rightarrow> check cfg (s\<lparr>wt_pendingCheck := None\<rparr>))"
| "watch_step cfg (WAnswer writable) s =
     (if writable then resume cfg (s\<lparr>wt_answeredSinceFire := True\<rparr>) else (s\<lparr>wt_answeredSinceFire := True\<rparr>, []))"
| "watch_step cfg WDismiss s = resume cfg s"
| "watch_step cfg WEnd s = (s\<lparr>wt_pendingCheck := None\<rparr>, [])"

fun watch_run :: "watch_config \<Rightarrow> watch_event list \<Rightarrow> watch \<Rightarrow> watch \<times> callback list" where
  "watch_run cfg [] s = (s, [])"
| "watch_run cfg (ev # evs) s =
     (let (s1, cs1) = watch_step cfg ev s; (s2, cs2) = watch_run cfg evs s1 in (s2, cs1 @ cs2))"

section \<open>Invariant\<close>

definition watch_ok :: "watch_config \<Rightarrow> watch \<Rightarrow> bool" where
  "watch_ok cfg s \<longleftrightarrow>
     (wt_paused s \<longleftrightarrow> wt_pausedOrigin s \<noteq> None) \<and>
     (wt_paused s \<longrightarrow> wt_pendingCheck s = None \<and> wt_lastFiredText s \<noteq> None) \<and>
     (\<forall>d. wt_pendingCheck s = Some d \<longrightarrow>
        wt_tierIndex s < length (wc_tiers cfg) \<and> d = fst (wc_tiers cfg ! wt_tierIndex s)) \<and>
     wt_firedMark s \<le> oa_mark (wt_activity s) \<and> activity_ok (wt_activity s)"

definition watching :: "watch \<Rightarrow> bool" where
  "watching s \<longleftrightarrow> wt_paused s \<or> wt_pendingCheck s \<noteq> None"

lemma watch_ok_reset [simp]: "watch_ok cfg resetWatchState"
  by (simp add: watch_ok_def resetWatchState_def new_activity_def activity_ok_def keys_ok_def oa_mark_def)

lemma armTier_simps [simp]:
  "wt_activity (armTier cfg i s) = wt_activity s" "wt_paused (armTier cfg i s) = wt_paused s"
  "wt_pausedOrigin (armTier cfg i s) = wt_pausedOrigin s" "wt_firedMark (armTier cfg i s) = wt_firedMark s"
  "wt_lastFiredText (armTier cfg i s) = wt_lastFiredText s" "wt_tierIndex (armTier cfg i s) = i"
  "wt_answeredSinceFire (armTier cfg i s) = wt_answeredSinceFire s"
  "wt_pendingCheck (armTier cfg i s) = (if i < length (wc_tiers cfg) then Some (fst (wc_tiers cfg ! i)) else None)"
  by (simp_all add: armTier_def)

lemma watch_ok_armTier: "watch_ok cfg s \<Longrightarrow> \<not> wt_paused s \<Longrightarrow> watch_ok cfg (armTier cfg i s)"
  by (auto simp: watch_ok_def)

lemma fire_simps [simp]:
  "wt_paused (fst (fire t orig idx s))" "wt_pausedOrigin (fst (fire t orig idx s)) = Some orig"
  "wt_pendingCheck (fst (fire t orig idx s)) = None" "snd (fire t orig idx s) = [Detected t orig idx]"
  "wt_activity (fst (fire t orig idx s)) = wt_activity s" "wt_lastFiredText (fst (fire t orig idx s)) = Some t"
  "wt_firedMark (fst (fire t orig idx s)) = oa_mark (wt_activity s)"
  by (simp_all add: fire_def)

lemma watch_ok_fire: "watch_ok cfg s \<Longrightarrow> watch_ok cfg (fst (fire t orig idx s))"
  by (simp add: watch_ok_def)

lemma resume_simps [simp]:
  "\<not> wt_paused (fst (resume cfg s))" "wt_pausedOrigin (fst (resume cfg s)) = None" "snd (resume cfg s) = [Cleared]"
  "wt_firedMark (fst (resume cfg s)) = 0" "wt_tierIndex (fst (resume cfg s)) = 0"
  "wt_pendingCheck (fst (resume cfg s)) = (if wc_tiers cfg = [] then None else Some (fst (wc_tiers cfg ! 0)))"
  by (simp_all add: resume_def Let_def)

lemma resume_activity_ok: "activity_ok (wt_activity s) \<Longrightarrow> activity_ok (wt_activity (fst (resume cfg s)))"
  by (simp add: resume_def Let_def consumeThrough_facts exempt_facts split: option.splits)

lemma watch_ok_resume: "watch_ok cfg s \<Longrightarrow> watch_ok cfg (fst (resume cfg s))"
  using resume_activity_ok [of s cfg] by (auto simp: watch_ok_def)

lemma watchChunk_cases:
  "watchChunk cfg chunk s =
     (let s1 = s\<lparr>wt_activity := fst (push (wc_letter cfg) chunk (wt_activity s))\<rparr>;
          meaningful = snd (push (wc_letter cfg) chunk (wt_activity s))
      in if wt_paused s then (if wt_pausedOrigin s = Some OStall \<and> meaningful then resume cfg s1 else (s1, []))
         else if meaningful then (armTier cfg 0 s1, []) else (s1, []))"
  by (simp add: watchChunk_def Let_def case_prod_beta)

lemma watch_ok_push:
  "watch_ok cfg s \<Longrightarrow> watch_ok cfg (s\<lparr>wt_activity := fst (push letter chunk (wt_activity s))\<rparr>)"
  using push_facts(1,2) [where a = "wt_activity s" and letter = letter and chunk = chunk]
  by (auto simp: watch_ok_def)

lemma watch_ok_disarm: "watch_ok cfg s \<Longrightarrow> watch_ok cfg (s\<lparr>wt_pendingCheck := None\<rparr>)"
  by (auto simp: watch_ok_def)

lemma watch_ok_watchChunk: "watch_ok cfg s \<Longrightarrow> watch_ok cfg (fst (watchChunk cfg chunk s))"
  using watch_ok_push [of cfg s "wc_letter cfg" chunk]
  by (auto simp: watchChunk_cases Let_def intro: watch_ok_resume watch_ok_armTier)

lemma check_cases:
  assumes "wt_tierIndex s < length (wc_tiers cfg)"
  obtains (fires) t orig idx where "check cfg s = fire t orig idx s"
      "orig = OExpected \<longleftrightarrow> idx \<noteq> None" "idx = matchExpectedPrompt (trailingText s) (wc_compiled cfg)"
  | (next_tier) "check cfg s = (armTier cfg (wt_tierIndex s + 1) s, [])"
      "snd (wc_tiers cfg ! wt_tierIndex s) \<noteq> TStall"
      "matchExpectedPrompt (trailingText s) (wc_compiled cfg) = None"
proof (cases "matchExpectedPrompt (trailingText s) (wc_compiled cfg)")
  case (Some k)
  then have "check cfg s = fire (trailingText s) OExpected (Some k) s" using assms by (simp add: check_def Let_def)
  then show ?thesis by (rule fires) (simp_all add: Some)
next
  case None
  let ?mode = "snd (wc_tiers cfg ! wt_tierIndex s)"
  consider "?mode = TAll \<and> (question_mark (trailingText s) \<or> yes_no_hint (trailingText s))" | "?mode = TStall"
    | "?mode \<noteq> TStall \<and> \<not> (?mode = TAll \<and> (question_mark (trailingText s) \<or> yes_no_hint (trailingText s)))"
    by blast
  then show ?thesis
  proof cases
    case 1
    then have "check cfg s = fire (trailingText s) OHeuristic None s" using None assms by (simp add: check_def Let_def)
    then show ?thesis by (rule fires) (simp_all add: None)
  next
    case 2
    then have "check cfg s = fire (stallText s) OStall None s" using None assms by (simp add: check_def Let_def)
    then show ?thesis by (rule fires) (simp_all add: None)
  next
    case 3
    then have "check cfg s = (armTier cfg (wt_tierIndex s + 1) s, [])" using None assms by (auto simp: check_def Let_def)
    then show ?thesis using 3 None by (blast intro: next_tier)
  qed
qed

lemma watch_ok_check:
  assumes "watch_ok cfg s" and "\<not> wt_paused s"
  shows "watch_ok cfg (fst (check cfg s))"
proof (cases "wt_tierIndex s < length (wc_tiers cfg)")
  case True
  then show ?thesis
    by (rule check_cases) (use assms in \<open>auto intro: watch_ok_fire watch_ok_armTier\<close>)
next
  case False
  then show ?thesis using assms by (simp add: check_def)
qed

lemma watch_step_ok: "watch_ok cfg s \<Longrightarrow> watch_ok cfg (fst (watch_step cfg ev s))"
proof (cases ev)
  case WTimer
  assume ok: "watch_ok cfg s"
  show ?thesis
  proof (cases "wt_pendingCheck s")
    case (Some d)
    then have "\<not> wt_paused s" using ok by (auto simp: watch_ok_def)
    moreover have "watch_ok cfg (s\<lparr>wt_pendingCheck := None\<rparr>)" using ok by (simp add: watch_ok_def)
    ultimately show ?thesis using Some WTimer watch_ok_check by simp
  qed (use ok WTimer in simp)
next
  case (WAnswer b)
  assume "watch_ok cfg s"
  then have "watch_ok cfg (s\<lparr>wt_answeredSinceFire := True\<rparr>)" by (simp add: watch_ok_def)
  then show ?thesis using WAnswer watch_ok_resume by simp
qed (auto intro: watch_ok_watchChunk watch_ok_resume watch_ok_disarm)

lemma watch_run_Cons:
  "fst (watch_run cfg (ev # evs) s) = fst (watch_run cfg evs (fst (watch_step cfg ev s)))"
  "snd (watch_run cfg (ev # evs) s) = snd (watch_step cfg ev s) @ snd (watch_run cfg evs (fst (watch_step cfg ev s)))"
  by (simp_all add: Let_def case_prod_beta)

lemma watch_run_ok: "watch_ok cfg s \<Longrightarrow> watch_ok cfg (fst (watch_run cfg evs s))"
  by (induction evs arbitrary: s) (simp, simp only: watch_run_Cons watch_step_ok)

section \<open>The watchdog stays armed\<close>

lemma watching_step:
  assumes "watching s" and "wc_tiers cfg = mk_tiers e h st" and "ev \<noteq> WExec" and "ev \<noteq> WEnd" and "watch_ok cfg s"
  shows "watching (fst (watch_step cfg ev s))"
proof -
  have len: "length (wc_tiers cfg) = 3" "snd (wc_tiers cfg ! 2) = TStall" using assms(2) by (simp_all add: mk_tiers_def)
  show ?thesis
  proof (cases ev)
    case WTimer
    show ?thesis
    proof (cases "wt_pendingCheck s")
      case (Some d)
      let ?s = "s\<lparr>wt_pendingCheck := None\<rparr>"
      have i: "wt_tierIndex ?s < length (wc_tiers cfg)" using assms(5) Some by (simp add: watch_ok_def)
      from i show ?thesis
      proof (rule check_cases)
        assume n: "check cfg ?s = (armTier cfg (wt_tierIndex ?s + 1) ?s, [])" "snd (wc_tiers cfg ! wt_tierIndex ?s) \<noteq> TStall"
        then have "wt_tierIndex s + 1 < 3" using i len by (cases "wt_tierIndex s = 2") auto
        then show ?thesis using n Some WTimer len by (simp add: watching_def)
      qed (use Some WTimer in \<open>simp add: watching_def\<close>)
    qed (use assms(1) WTimer in simp)
  qed (use assms len in \<open>auto simp: watching_def watchChunk_cases Let_def\<close>)
qed

lemma watching_run:
  assumes "watching s" and "watch_ok cfg s" and "wc_tiers cfg = mk_tiers e h st" and "WExec \<notin> set evs" and "WEnd \<notin> set evs"
  shows "watching (fst (watch_run cfg evs s))"
  using assms
proof (induction evs arbitrary: s)
  case (Cons ev evs)
  then have "watching (fst (watch_step cfg ev s))" "watch_ok cfg (fst (watch_step cfg ev s))"
    by (auto intro: watching_step watch_step_ok)
  with Cons show ?case unfolding watch_run_Cons by simp
qed simp

lemma timers_reach_pause:
  assumes "watch_ok cfg s" and "\<not> wt_paused s" and "wt_pendingCheck s \<noteq> None" and "wc_tiers cfg = mk_tiers e h st"
  shows "\<exists>n t orig idx. n \<le> 3 - wt_tierIndex s \<and> wt_paused (fst (watch_run cfg (replicate n WTimer) s)) \<and>
    snd (watch_run cfg (replicate n WTimer) s) = [Detected t orig idx]"
  using assms(1-3)
proof (induction "3 - wt_tierIndex s" arbitrary: s rule: less_induct)
  case less
  have len: "length (wc_tiers cfg) = 3" "snd (wc_tiers cfg ! 2) = TStall" using assms(4) by (simp_all add: mk_tiers_def)
  obtain d where d: "wt_pendingCheck s = Some d" using less.prems by auto
  let ?s = "s\<lparr>wt_pendingCheck := None\<rparr>"
  have i: "wt_tierIndex ?s < length (wc_tiers cfg)" using less.prems(1) d by (simp add: watch_ok_def)
  have step: "watch_step cfg WTimer s = check cfg ?s" using d by simp
  from i show ?case
  proof (rule check_cases)
    fix t orig idx assume c: "check cfg ?s = fire t orig idx ?s"
    show ?thesis
      using i len(1) step c
      by (intro exI [of _ 1] exI [of _ t] exI [of _ orig] exI [of _ idx])
        (simp add: watch_run_Cons del: watch_run.simps(2) watch_step.simps)
  next
    assume c: "check cfg ?s = (armTier cfg (wt_tierIndex ?s + 1) ?s, [])" "snd (wc_tiers cfg ! wt_tierIndex ?s) \<noteq> TStall"
    let ?t = "armTier cfg (wt_tierIndex s + 1) ?s"
    have lt: "wt_tierIndex s + 1 < 3" using c(2) i len by (cases "wt_tierIndex s = 2") auto
    have "watch_ok cfg ?t" using less.prems by (intro watch_ok_armTier watch_ok_disarm) simp_all
    then obtain n t orig idx where n: "n \<le> 3 - wt_tierIndex ?t" "wt_paused (fst (watch_run cfg (replicate n WTimer) ?t))"
      "snd (watch_run cfg (replicate n WTimer) ?t) = [Detected t orig idx]"
    proof -
      have "3 - wt_tierIndex ?t < 3 - wt_tierIndex s" using lt by simp
      from less.hyps [OF this \<open>watch_ok cfg ?t\<close>] lt less.prems(2) len(1) show thesis by (auto intro: that)
    qed
    show ?thesis
      using n lt c(1) step
      by (intro exI [of _ "Suc n"] exI [of _ t] exI [of _ orig] exI [of _ idx])
        (simp add: watch_run_Cons del: watch_run.simps(2) watch_step.simps)
  qed
qed

lemma watch_run_append:
  "fst (watch_run cfg (as @ bs) s) = fst (watch_run cfg bs (fst (watch_run cfg as s)))"
  "snd (watch_run cfg (as @ bs) s) = snd (watch_run cfg as s) @ snd (watch_run cfg bs (fst (watch_run cfg as s)))"
  by (induction as arbitrary: s) (simp_all add: watch_run_Cons del: watch_run.simps(2))

lemma meaningful_chunk_watches:
  assumes "snd (push (wc_letter cfg) chunk (wt_activity s))" and "watch_ok cfg s" and "wc_tiers cfg = mk_tiers e h st"
  shows "watching (fst (watch_step cfg (WChunk chunk) s))"
  using assms by (auto simp: watching_def watchChunk_cases Let_def mk_tiers_def)

section \<open>Properties\<close>

text \<open>
  C11: A command that goes quiet never hangs unseen: once it has printed anything meaningful, whatever
  chunks, expiries and operator actions follow, at most three further expiries with no output pause the
  job for the operator.
\<close>

theorem silence_is_detected:
  assumes "cfg = mk_config letter hints e h st"
    and "snd (push letter chunk (wt_activity (fst (watch_run cfg (WExec # before) s))))"
    and "WExec \<notin> set later" and "WEnd \<notin> set later"
  shows "\<exists>n \<le> 3. wt_paused (fst (watch_run cfg (replicate n WTimer)
    (fst (watch_run cfg (WExec # before @ WChunk chunk # later) s))))"
proof -
  obtain e' h' st' where tiers: "wc_tiers cfg = mk_tiers e' h' st'" "wc_letter cfg = letter"
    using assms(1) by (simp add: mk_config_def Let_def)
  let ?a = "fst (watch_run cfg (WExec # before) s)"
  let ?b = "fst (watch_step cfg (WChunk chunk) ?a)"
  have a: "watch_ok cfg ?a" by (simp add: watch_run_Cons watch_run_ok del: watch_run.simps(2))
  then have b: "watching ?b" "watch_ok cfg ?b"
    using meaningful_chunk_watches [OF _ a tiers(1)] watch_step_ok [OF a, of "WChunk chunk"] assms(2) tiers(2)
    by simp_all
  let ?q = "fst (watch_run cfg (WExec # before @ WChunk chunk # later) s)"
  have q: "?q = fst (watch_run cfg later ?b)"
    using watch_run_append(1) [of cfg "WExec # before" "WChunk chunk # later" s]
    by (simp add: watch_run_Cons del: watch_run.simps(2) watch_step.simps)
  have w: "watching ?q" "watch_ok cfg ?q"
    unfolding q using watching_run [OF b tiers(1) assms(3,4)] watch_run_ok [OF b(2)] by simp_all
  show ?thesis
  proof (cases "wt_paused ?q")
    case True
    then show ?thesis by (intro exI [of _ 0]) simp
  next
    case False
    then have "wt_pendingCheck ?q \<noteq> None" using w(1) by (simp add: watching_def)
    from timers_reach_pause [OF w(2) False this tiers(1)] show ?thesis by (meson diff_le_self order_trans)
  qed
qed

definition demo_config :: watch_config where
  "demo_config = mk_config ascii_letter [] None None None"

lemma demo_hello: "snd (push ascii_letter (utf16 ''hello'') new_activity)"
  by (simp add: activity_eval)

theorem silence_is_detected_witness:
  "\<exists>n \<le> 3. wt_paused (fst (watch_run demo_config (replicate n WTimer)
     (fst (watch_run demo_config [WExec, WChunk (utf16 ''hello''), WTimer] resetWatchState))))"
  using silence_is_detected [of demo_config ascii_letter "[]" None None None "utf16 ''hello''" "[]" resetWatchState "[WTimer]"]
    demo_hello
  by (simp add: demo_config_def resetWatchState_def watch_run_Cons del: watch_run.simps(2))

text \<open>
  While a pause waits for the operator, output and timers never report a second prompt, and only a
  stall is withdrawn by output, exactly when the output is meaningful.
\<close>

theorem output_during_pause:
  assumes "watch_ok cfg s" and "wt_pausedOrigin s = Some orig"
  shows "snd (watch_step cfg (WChunk chunk) s) =
      (if orig = OStall \<and> snd (push (wc_letter cfg) chunk (wt_activity s)) then [Cleared] else []) \<and>
    watch_step cfg WTimer s = (s, [])"
proof -
  have "wt_paused s" "wt_pendingCheck s = None" using assms by (auto simp: watch_ok_def)
  then show ?thesis using assms(2) by (simp add: watchChunk_cases Let_def)
qed

definition demo_pause :: watch where
  "demo_pause = fst (watch_run demo_config [WExec, WChunk (utf16 ''Continue?''), WTimer, WTimer] resetWatchState)"

lemma demo_pause_ok: "watch_ok demo_config demo_pause"
  unfolding demo_pause_def by (rule watch_run_ok) simp

lemmas watch_eval = activity_eval mk_config_def mk_tiers_def resetWatchState_def watchChunk_def check_def
  fire_def armTier_def trailingText_def candidate_def after_last_eol_def tail_chars_def TAIL_CHARS_def question_mark_def
  drop_trailing_space_def matchExpectedPrompt_def compilePromptHints_def oa_mark_def

lemma demo_pause_origin: "wt_pausedOrigin demo_pause = Some OHeuristic"
  by (simp add: demo_pause_def demo_config_def watch_eval)

theorem output_during_pause_witness:
  "snd (watch_step demo_config (WChunk (utf16 ''more output'')) demo_pause) = []"
  using output_during_pause [OF demo_pause_ok demo_pause_origin, of "utf16 ''more output''"] by simp

fun alternates :: "bool \<Rightarrow> callback list \<Rightarrow> bool" where
  "alternates waiting [] = True"
| "alternates waiting (c # cs) = (waiting = (c = Cleared) \<and> alternates (\<not> waiting) cs)"

fun operator_obeys :: "watch_config \<Rightarrow> watch_event list \<Rightarrow> watch \<Rightarrow> bool" where
  "operator_obeys cfg [] s = True"
| "operator_obeys cfg (ev # evs) s =
     (((ev = WDismiss \<or> (\<exists>b. ev = WAnswer b)) \<longrightarrow> wt_paused s) \<and> ev \<noteq> WExec \<and>
      operator_obeys cfg evs (fst (watch_step cfg ev s)))"

lemma step_callbacks:
  assumes "watch_ok cfg s" and "(ev = WDismiss \<or> (\<exists>b. ev = WAnswer b)) \<longrightarrow> wt_paused s" and "ev \<noteq> WExec"
  shows "(snd (watch_step cfg ev s) = [] \<and> wt_paused (fst (watch_step cfg ev s)) = wt_paused s) \<or>
    (\<exists>c. snd (watch_step cfg ev s) = [c] \<and> wt_paused s = (c = Cleared) \<and>
       wt_paused (fst (watch_step cfg ev s)) = (\<not> wt_paused s))"
proof (cases ev)
  case WTimer
  show ?thesis
  proof (cases "wt_pendingCheck s")
    case (Some d)
    let ?s = "s\<lparr>wt_pendingCheck := None\<rparr>"
    have i: "wt_tierIndex ?s < length (wc_tiers cfg)" "\<not> wt_paused s" using assms(1) Some by (auto simp: watch_ok_def)
    from i(1) show ?thesis
      by (rule check_cases) (use i(2) Some WTimer in auto)
  qed (use WTimer in simp)
qed (use assms in \<open>auto simp: watchChunk_cases Let_def\<close>)

text \<open>
  During one \<open>exec\<close> the callbacks alternate, starting with a detection, when the operator's closures
  are used only between a detection and its clearing, as the runner does.
\<close>

theorem callbacks_alternate:
  assumes "operator_obeys cfg evs s" and "watch_ok cfg s"
  shows "alternates (wt_paused s) (snd (watch_run cfg evs s))"
  using assms
proof (induction evs arbitrary: s)
  case (Cons ev evs)
  have ok: "watch_ok cfg (fst (watch_step cfg ev s))" by (rule watch_step_ok [OF Cons.prems(2)])
  have "alternates (wt_paused (fst (watch_step cfg ev s))) (snd (watch_run cfg evs (fst (watch_step cfg ev s))))"
    using Cons.prems(1) by (intro Cons.IH ok) simp
  then show ?case
    using step_callbacks [OF Cons.prems(2), of ev] Cons.prems(1) unfolding watch_run_Cons by auto
qed simp

theorem callbacks_alternate_witness:
  "alternates True (snd (watch_run demo_config [WChunk (utf16 ''x''), WAnswer True] demo_pause))"
proof -
  have p: "wt_paused demo_pause" using demo_pause_ok demo_pause_origin by (simp add: watch_ok_def)
  have "wt_paused (fst (watch_step demo_config (WChunk (utf16 ''x'')) demo_pause))"
    using p demo_pause_origin by (simp add: watchChunk_cases Let_def)
  then have "operator_obeys demo_config [WChunk (utf16 ''x''), WAnswer True] demo_pause" by simp
  from callbacks_alternate [OF this demo_pause_ok] p show ?thesis by simp
qed

text \<open>
  A pause still waiting when its command ends is forgotten without being cleared: the job's next
  command can report a second prompt with no clearing in between, so the runner's row stays awaiting
  input and the first prompt's timer runs on.
\<close>

theorem pause_lost_at_next_exec:
  assumes "wt_paused s" and "cfg = mk_config letter hints e h st" and "snd (push letter chunk new_activity)"
  shows "\<exists>n t orig idx. snd (watch_run cfg (WEnd # WExec # WChunk chunk # replicate n WTimer) s) = [Detected t orig idx]"
proof -
  obtain e' h' st' where tiers: "wc_tiers cfg = mk_tiers e' h' st'" "wc_letter cfg = letter"
    using assms(2) by (simp add: mk_config_def Let_def)
  let ?b = "fst (watch_step cfg (WChunk chunk) resetWatchState)"
  have new: "wt_activity resetWatchState = new_activity" "\<not> wt_paused resetWatchState"
    by (simp_all add: resetWatchState_def)
  have "watching ?b"
    using meaningful_chunk_watches [OF _ watch_ok_reset tiers(1), of chunk] tiers(2) assms(3) new(1) by simp
  moreover have "watch_ok cfg ?b" by (rule watch_step_ok) simp
  moreover have "\<not> wt_paused ?b" "snd (watch_step cfg (WChunk chunk) resetWatchState) = []"
    using new by (simp_all add: watchChunk_cases Let_def)
  ultimately have b: "watching ?b" "watch_ok cfg ?b" "\<not> wt_paused ?b"
    "snd (watch_step cfg (WChunk chunk) resetWatchState) = []" by blast+
  then obtain n t orig idx where "snd (watch_run cfg (replicate n WTimer) ?b) = [Detected t orig idx]"
    using timers_reach_pause [OF b(2,3) _ tiers(1)] by (auto simp: watching_def)
  then have "snd (watch_run cfg (WEnd # WExec # WChunk chunk # replicate n WTimer) s) = [Detected t orig idx]"
    using b(4) by (simp add: watch_run_Cons del: watch_run.simps(2))
  then show ?thesis by blast
qed

theorem pause_lost_at_next_exec_witness:
  "\<exists>n t orig idx. snd (watch_run demo_config (WEnd # WExec # WChunk (utf16 ''hello'') # replicate n WTimer) demo_pause) =
     [Detected t orig idx]"
proof -
  have "wt_paused demo_pause" using demo_pause_ok demo_pause_origin by (simp add: watch_ok_def)
  then show ?thesis by (rule pause_lost_at_next_exec [OF _ demo_config_def demo_hello])
qed

end
