(* ===== verification/Task_Schedules.thy ===== *)
theory Task_Schedules
  imports Bellhop_Prelude
begin

text \<open>
  The persisted schedule of the maintenance tasks, \<open>src/src/lib/task-schedules.ts\<close>: the one rule for a
  time of day, the table's CHECK, and the two upserts, each of which writes its own columns only.
\<close>

section \<open>Times of day\<close>

definition is_digit_in :: "char \<Rightarrow> char \<Rightarrow> char \<Rightarrow> bool" where
  "is_digit_in lo hi c \<longleftrightarrow> (of_char lo :: nat) \<le> of_char c \<and> (of_char c :: nat) \<le> of_char hi"

text \<open>\<open>TIME_OF_DAY_PATTERN\<close>, and the GLOB and the bound of the table's CHECK.\<close>

fun isValidTimeOfDay :: "string \<Rightarrow> bool" where
  "isValidTimeOfDay [a, b, c, d, e] =
     (((is_digit_in (CHR ''0'') (CHR ''1'') a \<and> is_digit_in (CHR ''0'') (CHR ''9'') b) \<or>
       (a = CHR ''2'' \<and> is_digit_in (CHR ''0'') (CHR ''3'') b)) \<and>
      c = CHR '':'' \<and> is_digit_in (CHR ''0'') (CHR ''5'') d \<and> is_digit_in (CHR ''0'') (CHR ''9'') e)"
| "isValidTimeOfDay _ = False"

fun time_glob :: "string \<Rightarrow> bool" where
  "time_glob [a, b, c, d, e] =
     (is_digit_in (CHR ''0'') (CHR ''2'') a \<and> is_digit_in (CHR ''0'') (CHR ''9'') b \<and> c = CHR '':'' \<and>
      is_digit_in (CHR ''0'') (CHR ''5'') d \<and> is_digit_in (CHR ''0'') (CHR ''9'') e)"
| "time_glob _ = False"

text \<open>SQLite's \<open><=\<close> on text compares the bytes.\<close>

fun text_le :: "string \<Rightarrow> string \<Rightarrow> bool" where
  "text_le [] ys = True"
| "text_le (x # xs) [] = False"
| "text_le (x # xs) (y # ys) =
     ((of_char x :: nat) < of_char y \<or> (x = y \<and> text_le xs ys))"

definition time_check :: "string \<Rightarrow> bool" where
  "time_check s \<longleftrightarrow> time_glob s \<and> text_le s ''23:59''"

section \<open>The table\<close>

record schedule_row =
  s_task_id :: string
  s_time_of_day :: string
  s_enabled :: bool
  s_last_run_started_at :: "ms option"
  s_last_job_id :: "nat option"

record task_schedule =
  ts_timeOfDay :: string
  ts_enabled :: bool
  ts_lastRunStartedAt :: "ms option"
  ts_lastJobId :: "nat option"

record task_def =
  td_id :: string
  td_label :: string
  td_description :: string
  td_command :: string
  td_defaultTime :: string

definition row_schedule :: "schedule_row \<Rightarrow> task_schedule" where
  "row_schedule row =
     \<lparr>ts_timeOfDay = s_time_of_day row, ts_enabled = s_enabled row,
      ts_lastRunStartedAt = s_last_run_started_at row, ts_lastJobId = s_last_job_id row\<rparr>"

definition default_schedule :: "string \<Rightarrow> task_schedule" where
  "default_schedule defaultTime =
     \<lparr>ts_timeOfDay = defaultTime, ts_enabled = True, ts_lastRunStartedAt = None, ts_lastJobId = None\<rparr>"

definition task_schedule_of :: "schedule_row list \<Rightarrow> task_def \<Rightarrow> task_schedule" where
  "task_schedule_of rows task =
     (case sql_find s_task_id (td_id task) rows of
        Some row \<Rightarrow> row_schedule row
      | None \<Rightarrow> default_schedule (td_defaultTime task))"

definition loadTaskSchedules :: "schedule_row list \<Rightarrow> task_def list \<Rightarrow> (string \<times> task_schedule) list" where
  "loadTaskSchedules rows tasks =
     fold (\<lambda>task result. jm_set (td_id task) (task_schedule_of rows task) result) tasks []"

definition TIME_OF_DAY_ERROR :: string where
  "TIME_OF_DAY_ERROR = ''timeOfDay must be HH:MM in 24-hour time, e.g. 04:00''"

text \<open>\<open>INSERT ... ON CONFLICT(task_id) DO UPDATE\<close>.\<close>

definition sql_upsert :: "schedule_row \<Rightarrow> (schedule_row \<Rightarrow> schedule_row) \<Rightarrow> schedule_row list \<Rightarrow> schedule_row list" where
  "sql_upsert new upd rows =
     (case sql_find s_task_id (s_task_id new) rows of
        None \<Rightarrow> rows @ [new]
      | Some _ \<Rightarrow> sql_update s_task_id (s_task_id new) upd rows)"

definition saveTaskSchedule :: "string \<Rightarrow> string \<Rightarrow> bool \<Rightarrow> schedule_row list \<Rightarrow> string + schedule_row list" where
  "saveTaskSchedule taskId timeOfDay enabled rows =
     (if \<not> isValidTimeOfDay timeOfDay then Inl TIME_OF_DAY_ERROR
      else Inr (sql_upsert
        \<lparr>s_task_id = taskId, s_time_of_day = timeOfDay, s_enabled = enabled,
         s_last_run_started_at = None, s_last_job_id = None\<rparr>
        (\<lambda>r. r\<lparr>s_time_of_day := timeOfDay, s_enabled := enabled\<rparr>) rows))"

definition recordTaskRun :: "string \<Rightarrow> ms \<Rightarrow> nat \<Rightarrow> string \<Rightarrow> schedule_row list \<Rightarrow> schedule_row list" where
  "recordTaskRun taskId startedAt jobId defaultTime rows =
     sql_upsert
        \<lparr>s_task_id = taskId, s_time_of_day = defaultTime, s_enabled = True,
         s_last_run_started_at = Some startedAt, s_last_job_id = Some jobId\<rparr>
        (\<lambda>r. r\<lparr>s_last_run_started_at := Some startedAt, s_last_job_id := Some jobId\<rparr>) rows"

section \<open>What the upserts leave alone\<close>

interpretation plan_upd: keyed_update s_task_id "\<lambda>r. r\<lparr>s_time_of_day := t, s_enabled := e\<rparr>" for t e
  by unfold_locales simp

interpretation run_upd: keyed_update s_task_id
  "\<lambda>r. r\<lparr>s_last_run_started_at := Some t, s_last_job_id := Some j\<rparr>" for t j
  by unfold_locales simp

lemma find_upsert:
  assumes "keyed_update s_task_id upd"
  shows "sql_find s_task_id k (sql_upsert new upd rows) =
    (if k = s_task_id new
     then Some (case sql_find s_task_id k rows of None \<Rightarrow> new | Some r \<Rightarrow> upd r)
     else sql_find s_task_id k rows)"
  by (auto simp: sql_upsert_def keyed_update.find_any [OF assms] row_simps split: option.splits)

lemma schedule_after_record:
  "task_schedule_of (recordTaskRun taskId t j (td_defaultTime task) rows) task =
     (if taskId = td_id task
      then (task_schedule_of rows task)\<lparr>ts_lastRunStartedAt := Some t, ts_lastJobId := Some j\<rparr>
      else task_schedule_of rows task)"
  by (auto simp: task_schedule_of_def recordTaskRun_def find_upsert [OF run_upd.keyed_update_axioms]
      row_schedule_def default_schedule_def split: option.splits)

lemma schedule_after_save:
  "saveTaskSchedule taskId tod e rows = Inr rows' \<Longrightarrow>
   task_schedule_of rows' task =
     (if taskId = td_id task
      then (task_schedule_of rows task)\<lparr>ts_timeOfDay := tod, ts_enabled := e\<rparr>
      else task_schedule_of rows task)"
  by (auto simp: task_schedule_of_def saveTaskSchedule_def find_upsert [OF plan_upd.keyed_update_axioms]
      row_schedule_def default_schedule_def split: option.splits if_splits)

lemma load_fold:
  "jm_get (fold (\<lambda>task result. jm_set (td_id task) (f task) result) tasks m) k =
     (case find (\<lambda>task. td_id task = k) (rev tasks) of None \<Rightarrow> jm_get m k | Some task \<Rightarrow> Some (f task))"
  by (induction tasks arbitrary: m rule: rev_induct) (auto simp: row_simps split: option.splits)

lemma find_distinct_rev:
  assumes "distinct (map td_id tasks)" and "task \<in> set tasks"
  shows "find (\<lambda>t. td_id t = td_id task) (rev tasks) = Some task"
proof -
  obtain t where "find (\<lambda>t. td_id t = td_id task) (rev tasks) = Some t"
    using assms(2) by (cases "find (\<lambda>t. td_id t = td_id task) (rev tasks)") (auto simp: find_None_iff)
  moreover from this have "t \<in> set tasks" "td_id t = td_id task"
    by (auto simp: find_Some_iff) (metis length_rev nth_mem set_rev)
  ultimately show ?thesis using assms by (auto simp: distinct_map dest: inj_onD)
qed

lemma load_get:
  "distinct (map td_id tasks) \<Longrightarrow> task \<in> set tasks \<Longrightarrow>
   jm_get (loadTaskSchedules rows tasks) (td_id task) = Some (task_schedule_of rows task)"
  by (simp add: loadTaskSchedules_def load_fold find_distinct_rev)

section \<open>Properties\<close>

lemma char_codes:
  "c = CHR ''2'' \<longleftrightarrow> (of_char c :: nat) = 50" "c = CHR ''3'' \<longleftrightarrow> (of_char c :: nat) = 51"
  "c = CHR '':'' \<longleftrightarrow> (of_char c :: nat) = 58" "c = CHR ''5'' \<longleftrightarrow> (of_char c :: nat) = 53"
  "c = CHR ''9'' \<longleftrightarrow> (of_char c :: nat) = 57"
  using of_char_eq_iff [of c "CHR ''2''", where 'a = nat] of_char_eq_iff [of c "CHR ''3''", where 'a = nat]
    of_char_eq_iff [of c "CHR '':''", where 'a = nat] of_char_eq_iff [of c "CHR ''5''", where 'a = nat]
    of_char_eq_iff [of c "CHR ''9''", where 'a = nat]
  by simp_all

lemma check_is_pattern_codes:
  fixes a b c d e :: nat
  shows "48 \<le> a \<and> a \<le> 50 \<and> 48 \<le> b \<and> b \<le> 57 \<and> c = 58 \<and> 48 \<le> d \<and> d \<le> 53 \<and> 48 \<le> e \<and> e \<le> 57 \<and>
      (a < 50 \<or> a = 50 \<and> (b < 51 \<or> b = 51 \<and> (c < 58 \<or> c = 58 \<and> (d < 53 \<or> d = 53 \<and> (e < 57 \<or> e = 57))))) \<longleftrightarrow>
    (48 \<le> a \<and> a \<le> 49 \<and> 48 \<le> b \<and> b \<le> 57 \<or> a = 50 \<and> 48 \<le> b \<and> b \<le> 51) \<and>
      c = 58 \<and> 48 \<le> d \<and> d \<le> 53 \<and> 48 \<le> e \<and> e \<le> 57"
  by linarith

lemma time_check_valid: "time_check s = isValidTimeOfDay s"
proof -
  consider a b c d e where "s = [a, b, c, d, e]" | "\<forall>a b c d e. s \<noteq> [a, b, c, d, e]" by blast
  then show ?thesis
  proof cases
    case 1
    then show ?thesis
      using check_is_pattern_codes [of "of_char a" "of_char b" "of_char c" "of_char d" "of_char e"]
      by (simp add: time_check_def is_digit_in_def char_codes conj_assoc)
  next
    case 2
    then have "\<not> time_glob s" "\<not> isValidTimeOfDay s"
      by (cases s rule: time_glob.cases; simp)+
    then show ?thesis by (simp add: time_check_def)
  qed
qed

text \<open>
  The table's CHECK accepts exactly the times the shared HH:MM rule accepts: a row the code could
  not write cannot come from anywhere else either.
\<close>

theorem time_check_is_valid_time: "time_check s = isValidTimeOfDay s"
  by (rule time_check_valid)

end
