(* ===== verification/Task_Scheduler.thy ===== *)
theory Task_Scheduler
  imports Task_Schedules Job_Control
begin

text \<open>
  The daily scheduler of the web process, \<open>src/src/web/tasks/scheduler.ts\<close>.  The local calendar of
  JavaScript's \<open>Date\<close> depends on the machine's time zone and is the record \<open>calendar\<close>: the local day of an
  instant as a running count, and the instant of a wall-clock time on a day.  Its laws are the locale
  \<open>local_calendar\<close>, interpreted on a zone with a fixed offset.  What the scheduler takes from the job
  system (\<open>Pick<JobRunner, 'enqueue'>\<close>, \<open>Pick<JobStore, 'get'>\<close>) is the record \<open>task_deps\<close> with the laws
  \<open>task_jobs\<close>, interpreted on the job runner.
\<close>

section \<open>Slots\<close>

record calendar =
  cal_day :: "ms \<Rightarrow> int"
  cal_slot :: "int \<Rightarrow> nat \<Rightarrow> nat \<Rightarrow> ms"

definition parseTime :: "string \<Rightarrow> nat \<times> nat" where
  "parseTime hhmm =
     (read_nat (takeWhile (\<lambda>c. c \<noteq> CHR '':'') hhmm),
      read_nat (takeWhile (\<lambda>c. c \<noteq> CHR '':'') (tl (dropWhile (\<lambda>c. c \<noteq> CHR '':'') hhmm))))"

definition slotOn :: "calendar \<Rightarrow> ms \<Rightarrow> string \<Rightarrow> int \<Rightarrow> ms" where
  "slotOn cal day hhmm dayOffset =
     (case parseTime hhmm of (hh, mm) \<Rightarrow> cal_slot cal (cal_day cal day + dayOffset) hh mm)"

definition mostRecentSlot :: "calendar \<Rightarrow> ms \<Rightarrow> string \<Rightarrow> ms" where
  "mostRecentSlot cal now hhmm =
     (let today = slotOn cal now hhmm 0 in if today \<le> now then today else slotOn cal now hhmm (- 1))"

definition nextSlot :: "calendar \<Rightarrow> ms \<Rightarrow> string \<Rightarrow> ms" where
  "nextSlot cal after hhmm =
     (let today = slotOn cal after hhmm 0 in if today > after then today else slotOn cal after hhmm 1)"

definition isEarlierLocalDay :: "calendar \<Rightarrow> ms \<Rightarrow> ms \<Rightarrow> bool" where
  "isEarlierLocalDay cal a b \<longleftrightarrow> cal_day cal a < cal_day cal b"

definition slotIsDue :: "calendar \<Rightarrow> ms \<Rightarrow> ms option \<Rightarrow> bool" where
  "slotIsDue cal slot lastRunStartedAt =
     (case lastRunStartedAt of
        None \<Rightarrow> True
      | Some lst \<Rightarrow> slot > lst \<and> isEarlierLocalDay cal lst slot)"

section \<open>The scheduler\<close>

record task_attribution =
  ta_username :: "string option"
  ta_impersonating :: "string option"
  ta_via :: "triggered_via option"

datatype start_result = Started nat | AlreadyRunning nat

record 'p task_deps =
  tk_enqueue :: "job_def \<Rightarrow> 'p \<Rightarrow> 'p \<times> nat"
  tk_status :: "nat \<Rightarrow> 'p \<Rightarrow> job_status option"

record 'p scheduler =
  sc_rows :: "schedule_row list"
  sc_startedRuns :: "(string \<times> (ms \<times> nat)) list"
  sc_jobs :: 'p
  sc_started :: bool

record task_view =
  tv_id :: string
  tv_label :: string
  tv_description :: string
  tv_timeOfDay :: string
  tv_defaultTime :: string
  tv_enabled :: bool
  tv_running :: bool
  tv_lastRun :: "(ms \<times> nat \<times> job_status option) option"
  tv_nextRun :: "ms option"

definition findTask :: "task_def list \<Rightarrow> string \<Rightarrow> string + task_def" where
  "findTask tasks taskId =
     (case find (\<lambda>t. td_id t = taskId) tasks of
        None \<Rightarrow> Inl (''Unknown task: '' @ taskId)
      | Some task \<Rightarrow> Inr task)"

definition overlay_run ::
  "string \<times> (ms \<times> nat) \<Rightarrow> (string \<times> task_schedule) list \<Rightarrow> (string \<times> task_schedule) list" where
  "overlay_run entry schedules =
     (case entry of (taskId, startedAt, jobId) \<Rightarrow>
       case jm_get schedules taskId of
         None \<Rightarrow> schedules
       | Some schedule \<Rightarrow>
           if (case ts_lastRunStartedAt schedule of None \<Rightarrow> True | Some l \<Rightarrow> startedAt > l)
           then jm_set taskId
                  (schedule\<lparr>ts_lastRunStartedAt := Some startedAt, ts_lastJobId := Some jobId\<rparr>) schedules
           else schedules)"

definition loadSchedules :: "task_def list \<Rightarrow> 'p scheduler \<Rightarrow> (string \<times> task_schedule) list" where
  "loadSchedules tasks sc = fold overlay_run (sc_startedRuns sc) (loadTaskSchedules (sc_rows sc) tasks)"

definition activeJobId :: "'p task_deps \<Rightarrow> task_schedule \<Rightarrow> 'p \<Rightarrow> nat option" where
  "activeJobId deps schedule jobs =
     (case ts_lastJobId schedule of
        None \<Rightarrow> None
      | Some j \<Rightarrow>
          (case tk_status deps j jobs of
             None \<Rightarrow> None
           | Some status \<Rightarrow> if status \<in> set active_statuses then Some j else None))"

definition task_job :: "task_def \<Rightarrow> task_attribution \<Rightarrow> job_def" where
  "task_job task attribution =
     \<lparr>d_command = td_command task, d_category = Maintenance, d_target = None, d_argsJson = ''{}'',
      d_expectedPrompts = None, d_triggeredByUsername = ta_username attribution,
      d_triggeredByImpersonating = ta_impersonating attribution, d_triggeredVia = ta_via attribution\<rparr>"

text \<open>\<open>recordable\<close> says whether the write of the run's row succeeds; a failure is only logged.\<close>

definition startRun ::
  "'p task_deps \<Rightarrow> task_def list \<Rightarrow> ms \<Rightarrow> bool \<Rightarrow> string \<Rightarrow> task_attribution \<Rightarrow> 'p scheduler \<Rightarrow>
   string + ('p scheduler \<times> start_result)" where
  "startRun deps tasks now recordable taskId attribution sc =
     (case findTask tasks taskId of
        Inl e \<Rightarrow> Inl e
      | Inr task \<Rightarrow>
          (case jm_get (loadSchedules tasks sc) (td_id task) of
             None \<Rightarrow> Inl ''undefined''
           | Some schedule \<Rightarrow>
               (case activeJobId deps schedule (sc_jobs sc) of
                  Some j \<Rightarrow> Inr (sc, AlreadyRunning j)
                | None \<Rightarrow>
                    (case tk_enqueue deps (task_job task attribution) (sc_jobs sc) of
                       (jobs, jobId) \<Rightarrow>
                         Inr (sc\<lparr>sc_jobs := jobs,
                                sc_startedRuns := jm_set (td_id task) (now, jobId) (sc_startedRuns sc),
                                sc_rows := (if recordable
                                  then recordTaskRun (td_id task) now jobId (td_defaultTime task) (sc_rows sc)
                                  else sc_rows sc)\<rparr>,
                              Started jobId)))))"

definition by_scheduler :: task_attribution where
  "by_scheduler = \<lparr>ta_username = Some ''scheduler'', ta_impersonating = None, ta_via = None\<rparr>"

definition tick_task ::
  "'p task_deps \<Rightarrow> calendar \<Rightarrow> task_def list \<Rightarrow> ms \<Rightarrow> (string \<Rightarrow> bool) \<Rightarrow> (string \<times> task_schedule) list \<Rightarrow>
   task_def \<Rightarrow> 'p scheduler \<Rightarrow> 'p scheduler" where
  "tick_task deps cal tasks now recordable schedules task sc =
     (case jm_get schedules (td_id task) of
        None \<Rightarrow> sc
      | Some schedule \<Rightarrow>
          if \<not> ts_enabled schedule then sc
          else if \<not> slotIsDue cal (mostRecentSlot cal now (ts_timeOfDay schedule)) (ts_lastRunStartedAt schedule)
          then sc
          else (case startRun deps tasks now (recordable (td_id task)) (td_id task) by_scheduler sc of
                  Inl _ \<Rightarrow> sc
                | Inr (sc', _) \<Rightarrow> sc'))"

definition tick ::
  "'p task_deps \<Rightarrow> calendar \<Rightarrow> task_def list \<Rightarrow> ms \<Rightarrow> bool \<Rightarrow> (string \<Rightarrow> bool) \<Rightarrow> 'p scheduler \<Rightarrow> 'p scheduler" where
  "tick deps cal tasks now readable recordable sc =
     (if \<not> readable then sc
      else fold (tick_task deps cal tasks now recordable (loadSchedules tasks sc)) tasks sc)"

definition start_scheduler ::
  "'p task_deps \<Rightarrow> calendar \<Rightarrow> task_def list \<Rightarrow> ms \<Rightarrow> bool \<Rightarrow> (string \<Rightarrow> bool) \<Rightarrow> 'p scheduler \<Rightarrow> 'p scheduler" where
  "start_scheduler deps cal tasks now readable recordable sc =
     (if sc_started sc then sc else tick deps cal tasks now readable recordable (sc\<lparr>sc_started := True\<rparr>))"

definition stop_scheduler :: "'p scheduler \<Rightarrow> 'p scheduler" where
  "stop_scheduler sc = (if \<not> sc_started sc then sc else sc\<lparr>sc_started := False\<rparr>)"

text \<open>The loop of \<open>view\<close> may not end for an arbitrary calendar: not returning is the value \<open>None\<close>.\<close>

partial_function (option) next_due :: "calendar \<Rightarrow> string \<Rightarrow> ms option \<Rightarrow> ms \<Rightarrow> ms option" where
  "next_due cal hhmm lst next =
     (if slotIsDue cal next lst then Some next else next_due cal hhmm lst (nextSlot cal next hhmm))"

definition next_run :: "calendar \<Rightarrow> ms \<Rightarrow> task_schedule \<Rightarrow> ms option" where
  "next_run cal now schedule =
     (let lst = ts_lastRunStartedAt schedule;
          after = (case lst of None \<Rightarrow> now | Some l \<Rightarrow> if l > now then l else now)
      in next_due cal (ts_timeOfDay schedule) lst (nextSlot cal after (ts_timeOfDay schedule)))"

definition view ::
  "'p task_deps \<Rightarrow> calendar \<Rightarrow> ms \<Rightarrow> task_def \<Rightarrow> task_schedule \<Rightarrow> 'p \<Rightarrow> task_view option" where
  "view deps cal now task schedule jobs =
     (let status = (case ts_lastJobId schedule of None \<Rightarrow> None | Some j \<Rightarrow> tk_status deps j jobs);
          lastRun = (case (ts_lastRunStartedAt schedule, ts_lastJobId schedule) of
                       (Some t, Some j) \<Rightarrow> Some (t, j, status) | _ \<Rightarrow> None);
          result = (\<lambda>nextRun. \<lparr>tv_id = td_id task, tv_label = td_label task, tv_description = td_description task,
            tv_timeOfDay = ts_timeOfDay schedule, tv_defaultTime = td_defaultTime task,
            tv_enabled = ts_enabled schedule,
            tv_running = (case status of None \<Rightarrow> False | Some st \<Rightarrow> st \<in> set active_statuses),
            tv_lastRun = lastRun, tv_nextRun = nextRun\<rparr>)
      in if ts_enabled schedule
         then (case next_run cal now schedule of None \<Rightarrow> None | Some t \<Rightarrow> Some (result (Some t)))
         else Some (result None))"

definition updateSchedule ::
  "task_def list \<Rightarrow> string \<Rightarrow> string option \<Rightarrow> bool option \<Rightarrow> 'p scheduler \<Rightarrow> string + 'p scheduler" where
  "updateSchedule tasks taskId timeOfDay enabled sc =
     (case findTask tasks taskId of
        Inl e \<Rightarrow> Inl e
      | Inr task \<Rightarrow>
          if (case timeOfDay of None \<Rightarrow> False | Some t \<Rightarrow> \<not> isValidTimeOfDay t) then Inl TIME_OF_DAY_ERROR
          else
            (case jm_get (loadSchedules tasks sc) (td_id task) of
               None \<Rightarrow> Inl ''undefined''
             | Some current \<Rightarrow>
                 (case saveTaskSchedule (td_id task)
                         (case timeOfDay of None \<Rightarrow> ts_timeOfDay current | Some t \<Rightarrow> t)
                         (case enabled of None \<Rightarrow> ts_enabled current | Some e \<Rightarrow> e) (sc_rows sc) of
                    Inl e \<Rightarrow> Inl e
                  | Inr rows \<Rightarrow> Inr (sc\<lparr>sc_rows := rows\<rparr>))))"

definition getTask ::
  "'p task_deps \<Rightarrow> calendar \<Rightarrow> task_def list \<Rightarrow> ms \<Rightarrow> string \<Rightarrow> 'p scheduler \<Rightarrow> string + task_view option" where
  "getTask deps cal tasks now taskId sc =
     (case findTask tasks taskId of
        Inl e \<Rightarrow> Inl e
      | Inr task \<Rightarrow>
          (case jm_get (loadSchedules tasks sc) (td_id task) of
             None \<Rightarrow> Inl ''undefined''
           | Some schedule \<Rightarrow> Inr (view deps cal now task schedule (sc_jobs sc))))"

definition listTasks ::
  "'p task_deps \<Rightarrow> calendar \<Rightarrow> task_def list \<Rightarrow> ms \<Rightarrow> 'p scheduler \<Rightarrow> task_view option list" where
  "listTasks deps cal tasks now sc =
     (let schedules = loadSchedules tasks sc
      in map (\<lambda>task. case jm_get schedules (td_id task) of
                None \<Rightarrow> None | Some schedule \<Rightarrow> view deps cal now task schedule (sc_jobs sc)) tasks)"

section \<open>The calendar's laws\<close>

text \<open>
  A slot lies on the day it is built for, and days do not run backwards.  Daylight saving keeps both: a
  nonexistent time is moved forward within its day and an ambiguous one is one instant of it.
\<close>

locale local_calendar =
  fixes cal :: calendar
  assumes day_of_slot: "hh < 24 \<Longrightarrow> mm < 60 \<Longrightarrow> cal_day cal (cal_slot cal d hh mm) = d"
    and days_forward: "t \<le> u \<Longrightarrow> cal_day cal t \<le> cal_day cal u"
begin

lemma later_day: "cal_day cal t < cal_day cal u \<Longrightarrow> t < u"
  using days_forward [of u t] by (meson not_le)

lemma slot_mono:
  assumes "hh < 24" and "mm < 60"
  shows "cal_slot cal d hh mm < cal_slot cal d' hh mm \<longleftrightarrow> d < d'"
proof -
  have day: "cal_day cal (cal_slot cal e hh mm) = e" for e using day_of_slot [OF assms] .
  show ?thesis using later_day [of "cal_slot cal d hh mm" "cal_slot cal d' hh mm"]
      days_forward [of "cal_slot cal d hh mm" "cal_slot cal d' hh mm"] day
    by (metis less_irrefl order_less_le)
qed

lemma most_recent:
  assumes "parseTime hhmm = (hh, mm)" and "hh < 24" and "mm < 60"
  shows "mostRecentSlot cal now hhmm \<le> now" "\<exists>d. mostRecentSlot cal now hhmm = cal_slot cal d hh mm"
    "cal_slot cal d hh mm \<le> now \<Longrightarrow> cal_slot cal d hh mm \<le> mostRecentSlot cal now hhmm"
proof -
  let ?s = "\<lambda>d. cal_slot cal d hh mm" and ?n = "cal_day cal now"
  have day: "cal_day cal (?s e) = e" for e using day_of_slot [OF assms(2,3)] .
  have m: "mostRecentSlot cal now hhmm = (if ?s ?n \<le> now then ?s ?n else ?s (?n - 1))"
    by (simp add: mostRecentSlot_def slotOn_def assms(1) Let_def)
  have "?s (?n - 1) < now" by (rule later_day) (simp add: day)
  then show "mostRecentSlot cal now hhmm \<le> now" by (simp add: m)
  show "\<exists>d. mostRecentSlot cal now hhmm = ?s d" unfolding m by auto
  assume d: "?s d \<le> now"
  then have "d \<le> ?n" using days_forward [OF d] by (simp add: day)
  moreover have "?s d \<le> ?s e" if "d \<le> e" for e
    using that slot_mono [OF assms(2,3), of d e] by (cases "d = e") auto
  moreover have "d \<noteq> ?n" if "\<not> ?s ?n \<le> now" using d that by auto
  ultimately show "?s d \<le> mostRecentSlot cal now hhmm" unfolding m by (cases "d = ?n") auto
qed

lemma next_slot:
  assumes "parseTime hhmm = (hh, mm)" and "hh < 24" and "mm < 60"
  shows "after < nextSlot cal after hhmm" "\<exists>d. nextSlot cal after hhmm = cal_slot cal d hh mm"
    "after < cal_slot cal d hh mm \<Longrightarrow> nextSlot cal after hhmm \<le> cal_slot cal d hh mm"
proof -
  let ?s = "\<lambda>d. cal_slot cal d hh mm" and ?n = "cal_day cal after"
  have day: "cal_day cal (?s e) = e" for e using day_of_slot [OF assms(2,3)] .
  have m: "nextSlot cal after hhmm = (if after < ?s ?n then ?s ?n else ?s (?n + 1))"
    by (simp add: nextSlot_def slotOn_def assms(1) Let_def)
  have "after < ?s (?n + 1)" by (rule later_day) (simp add: day)
  then show "after < nextSlot cal after hhmm" by (simp add: m)
  show "\<exists>d. nextSlot cal after hhmm = ?s d" unfolding m by auto
  assume d: "after < ?s d"
  then have "?n \<le> d" using days_forward [of after "?s d"] by (simp add: day)
  moreover have "?s e \<le> ?s d" if "e \<le> d" for e
    using that slot_mono [OF assms(2,3), of e d] by (cases "e = d") auto
  moreover have "d \<noteq> ?n" if "\<not> after < ?s ?n" using d that by auto
  ultimately show "nextSlot cal after hhmm \<le> ?s d" unfolding m by (cases "d = ?n") auto
qed

text \<open>The view's loop ends at the first slot after \<open>from\<close> that is due.\<close>

lemma next_due_finds:
  assumes "parseTime hhmm = (hh, mm)" and "hh < 24" and "mm < 60"
    and "nx = cal_slot cal d hh mm" and "\<And>l. lst = Some l \<Longrightarrow> l < nx"
  shows "\<exists>d'. next_due cal hhmm lst nx = Some (cal_slot cal d' hh mm) \<and> d \<le> d' \<and>
    slotIsDue cal (cal_slot cal d' hh mm) lst \<and> (\<forall>e. d \<le> e \<and> e < d' \<longrightarrow> \<not> slotIsDue cal (cal_slot cal e hh mm) lst)"
  using assms(4,5)
proof (induction "nat (case lst of None \<Rightarrow> 0 | Some l \<Rightarrow> cal_day cal l + 1 - d)" arbitrary: nx d rule: less_induct)
  case less
  have day: "cal_day cal (cal_slot cal e hh mm) = e" for e using day_of_slot [OF assms(2,3)] .
  show ?case
  proof (cases "slotIsDue cal nx lst")
    case True
    then show ?thesis using less.prems(1) by (intro exI [of _ d]) (auto simp: next_due.simps)
  next
    case False
    then obtain l where l: "lst = Some l" by (cases lst) (auto simp: slotIsDue_def)
    then have ge: "d \<le> cal_day cal l"
      using False less.prems by (auto simp: slotIsDue_def isEarlierLocalDay_def day)
    have n: "nextSlot cal nx hhmm = cal_slot cal (d + 1) hh mm"
      using less.prems(1) by (simp add: nextSlot_def slotOn_def assms(1) Let_def day)
    have lt: "nx < cal_slot cal (d + 1) hh mm"
      using slot_mono [OF assms(2,3), of d "d + 1"] less.prems(1) by simp
    obtain d' where d': "next_due cal hhmm lst (cal_slot cal (d + 1) hh mm) = Some (cal_slot cal d' hh mm)"
      "d + 1 \<le> d'" "slotIsDue cal (cal_slot cal d' hh mm) lst"
      "\<forall>e. d + 1 \<le> e \<and> e < d' \<longrightarrow> \<not> slotIsDue cal (cal_slot cal e hh mm) lst"
      using less.hyps [of "d + 1" "cal_slot cal (d + 1) hh mm"] l ge lt less.prems(2) by fastforce
    have "next_due cal hhmm lst nx = Some (cal_slot cal d' hh mm)"
      using False n d'(1) by (simp add: next_due.simps [of _ _ _ nx])
    moreover have "\<not> slotIsDue cal (cal_slot cal e hh mm) lst" if "d \<le> e" "e < d'" for e
      using that d'(4) False less.prems(1) by (cases "e = d") auto
    ultimately show ?thesis using d' by (intro exI [of _ d']) auto
  qed
qed

end

text \<open>A zone with a fixed offset from UTC, in milliseconds.\<close>

definition fixed_zone :: "ms \<Rightarrow> calendar" where
  "fixed_zone offset =
     \<lparr>cal_day = (\<lambda>t. (t + offset) div 86400000),
      cal_slot = (\<lambda>d hh mm. d * 86400000 + int hh * 3600000 + int mm * 60000 - offset)\<rparr>"

interpretation fixed: local_calendar "fixed_zone offset" for offset
proof
  fix hh mm d
  assume "hh < (24 :: nat)" "mm < (60 :: nat)"
  then have "0 \<le> int hh * 3600000 + int mm * 60000" "int hh * 3600000 + int mm * 60000 < 86400000" by simp_all
  then have "(int hh * 3600000 + int mm * 60000) div 86400000 = 0" by (rule div_pos_pos_trivial)
  moreover have "(d * 86400000 + (int hh * 3600000 + int mm * 60000)) div 86400000 =
      d + (int hh * 3600000 + int mm * 60000) div 86400000" by simp
  ultimately show "cal_day (fixed_zone offset) (cal_slot (fixed_zone offset) d hh mm) = d"
    by (simp add: fixed_zone_def add.assoc)
qed (simp add: fixed_zone_def zdiv_mono1)

lemma digit_codes:
  "is_digit_in (CHR ''0'') (CHR ''9'') c \<longleftrightarrow> 48 \<le> (of_char c :: nat) \<and> (of_char c :: nat) \<le> 57"
  "is_digit_in (CHR ''0'') (CHR ''5'') c \<longleftrightarrow> 48 \<le> (of_char c :: nat) \<and> (of_char c :: nat) \<le> 53"
  "is_digit_in (CHR ''0'') (CHR ''3'') c \<longleftrightarrow> 48 \<le> (of_char c :: nat) \<and> (of_char c :: nat) \<le> 51"
  "is_digit_in (CHR ''0'') (CHR ''1'') c \<longleftrightarrow> 48 \<le> (of_char c :: nat) \<and> (of_char c :: nat) \<le> 49"
  by (simp_all add: is_digit_in_def)

lemma valid_time_parses:
  assumes "isValidTimeOfDay s"
  obtains hh mm where "parseTime s = (hh, mm)" and "hh < 24" and "mm < 60"
proof -
  obtain a b c d e where s: "s = [a, b, c, d, e]" using assms by (cases s rule: time_glob.cases) auto
  have v: "((48 \<le> (of_char a :: nat) \<and> of_char a \<le> (49 :: nat) \<and> 48 \<le> (of_char b :: nat) \<and> of_char b \<le> (57 :: nat)) \<or>
      ((of_char a :: nat) = 50 \<and> 48 \<le> (of_char b :: nat) \<and> of_char b \<le> (51 :: nat))) \<and> c = CHR '':'' \<and>
      48 \<le> (of_char d :: nat) \<and> of_char d \<le> (53 :: nat) \<and> 48 \<le> (of_char e :: nat) \<and> of_char e \<le> (57 :: nat)"
    using assms unfolding s isValidTimeOfDay.simps digit_codes char_codes(1) by blast
  then have ne: "a \<noteq> CHR '':''" "b \<noteq> CHR '':''" "d \<noteq> CHR '':''" "e \<noteq> CHR '':''" "c = CHR '':''"
    unfolding char_codes(3) by auto
  have p: "parseTime s = (read_nat [a, b], read_nat [d, e])"
    unfolding s parseTime_def using ne by simp
  have "read_nat [a, b] < 24" "read_nat [d, e] < 60" using v by (auto simp: read_nat_def char_digit_def)
  with p show thesis by (rule that)
qed

section \<open>The job system's laws\<close>

locale task_jobs =
  fixes deps :: "'p task_deps" and ok :: "'p \<Rightarrow> bool"
  assumes enqueue_law: "ok p \<Longrightarrow> tk_enqueue deps def p = (p', j) \<Longrightarrow>
    ok p' \<and> tk_status deps j p = None \<and> tk_status deps j p' = Some Queued \<and>
    (\<forall>k. k \<noteq> j \<longrightarrow> tk_status deps k p' = tk_status deps k p)"

definition runner_tasks :: "(ms \<Rightarrow> local_fields) \<Rightarrow> ms \<Rightarrow> proc task_deps" where
  "runner_tasks local now =
     \<lparr>tk_enqueue = enqueue local now,
      tk_status = (\<lambda>j p. map_option j_status (get_job j (w_store (fst p))))\<rparr>"

interpretation runner_task_jobs: task_jobs "runner_tasks local now" proc_inv for local now
proof
  fix p p' :: proc and def j
  assume ok: "proc_inv p" and e: "tk_enqueue (runner_tasks local now) def p = (p', j)"
  obtain w r where p: "p = (w, r)" by (cases p)
  have wf: "store_wf (w_store w)" using ok p by (simp add: proc_invD(1))
  have inv: "proc_inv p'" using enqueue_inv [of w r local now def] ok e unfolding p by (simp add: runner_tasks_def)
  have "fst p' = w\<lparr>w_store := fst (createJob local now (job_input (r_owner r) def) (w_store w))\<rparr>"
    "j = Suc (js_jobSeq (w_store w))"
    using e unfolding p by (auto simp: runner_tasks_def enqueue_eq [OF wf] Let_def)
  then show "proc_inv p' \<and> tk_status (runner_tasks local now) j p = None \<and>
      tk_status (runner_tasks local now) j p' = Some Queued \<and>
      (\<forall>k. k \<noteq> j \<longrightarrow> tk_status (runner_tasks local now) k p' = tk_status (runner_tasks local now) k p)"
    using inv fresh_id_absent [OF wf] unfolding p
    by (simp add: runner_tasks_def get_createJob [OF wf]) (simp add: createJob_def Let_def)
qed

section \<open>The loaded schedules\<close>

lemma overlay_get:
  "jm_get (overlay_run (k, t, j) m) k' =
     (if k' = k then map_option (\<lambda>s. if (case ts_lastRunStartedAt s of None \<Rightarrow> True | Some l \<Rightarrow> t > l)
        then s\<lparr>ts_lastRunStartedAt := Some t, ts_lastJobId := Some j\<rparr> else s) (jm_get m k)
      else jm_get m k')"
  by (auto simp: overlay_run_def row_simps split: option.splits)

lemma overlay_fold:
  assumes "jm_get m k = Some s"
  shows "\<exists>s'. jm_get (fold overlay_run runs m) k = Some s' \<and> ts_timeOfDay s' = ts_timeOfDay s \<and>
    ts_enabled s' = ts_enabled s \<and>
    (\<forall>l. ts_lastRunStartedAt s = Some l \<longrightarrow> (\<exists>l' \<ge> l. ts_lastRunStartedAt s' = Some l')) \<and>
    (\<forall>t j. (k, t, j) \<in> set runs \<longrightarrow> (\<exists>l' \<ge> t. ts_lastRunStartedAt s' = Some l'))"
  using assms
proof (induction runs arbitrary: m s)
  case (Cons run runs)
  obtain k1 t1 j1 where run: "run = (k1, t1, j1)" by (metis surj_pair)
  obtain s1 where s1: "jm_get (overlay_run run m) k = Some s1" "ts_timeOfDay s1 = ts_timeOfDay s" "ts_enabled s1 = ts_enabled s"
    "\<forall>l. ts_lastRunStartedAt s = Some l \<longrightarrow> (\<exists>l' \<ge> l. ts_lastRunStartedAt s1 = Some l')"
    "k1 = k \<longrightarrow> (\<exists>l' \<ge> t1. ts_lastRunStartedAt s1 = Some l')"
  proof -
    let ?newer = "case ts_lastRunStartedAt s of None \<Rightarrow> True | Some l \<Rightarrow> t1 > l"
    let ?s1 = "if k1 = k \<and> ?newer then s\<lparr>ts_lastRunStartedAt := Some t1, ts_lastJobId := Some j1\<rparr> else s"
    have "jm_get (overlay_run run m) k = Some ?s1"
      by (cases "k1 = k"; cases ?newer) (simp_all add: run overlay_get Cons.prems)
    then show thesis by (rule that) (auto split: option.splits)
  qed
  from Cons.IH [OF s1(1)] obtain s' where s': "jm_get (fold overlay_run runs (overlay_run run m)) k = Some s'"
    "ts_timeOfDay s' = ts_timeOfDay s1" "ts_enabled s' = ts_enabled s1"
    "\<forall>l. ts_lastRunStartedAt s1 = Some l \<longrightarrow> (\<exists>l' \<ge> l. ts_lastRunStartedAt s' = Some l')"
    "\<forall>t j. (k, t, j) \<in> set runs \<longrightarrow> (\<exists>l' \<ge> t. ts_lastRunStartedAt s' = Some l')"
    by blast
  have "\<exists>l' \<ge> l. ts_lastRunStartedAt s' = Some l'" if "ts_lastRunStartedAt s = Some l" for l
    using that s1(4) s'(4) order_trans by blast
  moreover have "\<exists>l' \<ge> t. ts_lastRunStartedAt s' = Some l'" if "(k, t, j) \<in> set (run # runs)" for t j
    using that s1(5) s'(4,5) order_trans unfolding run by fastforce
  ultimately show ?case using s' s1 by auto
qed simp

lemma loadSchedules_get:
  assumes "distinct (map td_id tasks)" and "task \<in> set tasks"
  shows "\<exists>s. jm_get (loadSchedules tasks sc) (td_id task) = Some s \<and>
    ts_timeOfDay s = ts_timeOfDay (task_schedule_of (sc_rows sc) task) \<and>
    ts_enabled s = ts_enabled (task_schedule_of (sc_rows sc) task) \<and>
    (\<forall>t j. jm_get (sc_startedRuns sc) (td_id task) = Some (t, j) \<longrightarrow> (\<exists>l \<ge> t. ts_lastRunStartedAt s = Some l))"
  using overlay_fold [OF load_get [OF assms], of "sc_startedRuns sc" "sc_rows sc"]
  by (fastforce simp: loadSchedules_def jm_get_def dest: map_of_SomeD)

lemma time_of_loaded:
  assumes "\<forall>row \<in> set (sc_rows sc). time_check (s_time_of_day row)" and "isValidTimeOfDay (td_defaultTime task)"
  shows "isValidTimeOfDay (ts_timeOfDay (task_schedule_of (sc_rows sc) task))"
proof (cases "sql_find s_task_id (td_id task) (sc_rows sc)")
  case None
  then show ?thesis using assms(2) by (simp add: task_schedule_of_def default_schedule_def)
next
  case (Some row)
  then have "row \<in> set (sc_rows sc)" by (auto dest: sql_find_SomeD)
  then show ?thesis using Some assms(1) by (simp add: task_schedule_of_def row_schedule_def time_check_valid)
qed

section \<open>A started run is never forgotten\<close>

datatype 'p sched_event =
    ETick ms bool "string \<Rightarrow> bool"
  | ERun ms bool string task_attribution
  | EUpdate string "string option" "bool option"
  | EJobs 'p
  | ERows "schedule_row list"

text \<open>
  Between two calls the jobs go on (\<open>EJobs\<close>) and anyone may edit the table (\<open>ERows\<close>): both are arbitrary.
\<close>

fun sched_apply ::
  "'p task_deps \<Rightarrow> calendar \<Rightarrow> task_def list \<Rightarrow> 'p sched_event \<Rightarrow> 'p scheduler \<Rightarrow> 'p scheduler" where
  "sched_apply deps cal tasks (ETick now readable recordable) sc = tick deps cal tasks now readable recordable sc"
| "sched_apply deps cal tasks (ERun now recordable taskId att) sc =
     (case startRun deps tasks now recordable taskId att sc of Inl _ \<Rightarrow> sc | Inr (sc', _) \<Rightarrow> sc')"
| "sched_apply deps cal tasks (EUpdate taskId tod e) sc =
     (case updateSchedule tasks taskId tod e sc of Inl _ \<Rightarrow> sc | Inr sc' \<Rightarrow> sc')"
| "sched_apply deps cal tasks (EJobs p) sc = sc\<lparr>sc_jobs := p\<rparr>"
| "sched_apply deps cal tasks (ERows rows) sc = sc\<lparr>sc_rows := rows\<rparr>"

fun event_from :: "ms \<Rightarrow> 'p sched_event \<Rightarrow> bool" where
  "event_from t (ETick now readable recordable) = (t \<le> now)"
| "event_from t (ERun now recordable taskId att) = (t \<le> now)"
| "event_from t ev = True"

definition ran_since :: "string \<Rightarrow> ms \<Rightarrow> 'p scheduler \<Rightarrow> bool" where
  "ran_since taskId t sc \<longleftrightarrow> (\<exists>l j. jm_get (sc_startedRuns sc) taskId = Some (l, j) \<and> t \<le> l)"

lemma findTask_id: "findTask tasks taskId = Inr task \<Longrightarrow> td_id task = taskId \<and> task \<in> set tasks"
  by (auto simp: findTask_def find_Some_iff split: option.splits)

lemma startRun_ran:
  assumes "startRun deps tasks now recordable taskId att sc = Inr (sc', res)"
  shows "(\<exists>j. res = Started j) \<longrightarrow> ran_since taskId now sc'"
    "t \<le> now \<Longrightarrow> ran_since k t sc \<Longrightarrow> ran_since k t sc'"
  using assms findTask_id [of tasks taskId]
  by (auto simp: startRun_def ran_since_def row_simps split: sum.splits option.splits prod.splits)

lemma tick_task_ran:
  "t \<le> now \<Longrightarrow> ran_since k t sc \<Longrightarrow> ran_since k t (tick_task deps cal tasks now recordable scheds task sc)"
  using startRun_ran(2) by (auto simp: tick_task_def split: option.splits sum.splits)

lemma fold_tick_ran:
  "t \<le> now \<Longrightarrow> ran_since k t sc \<Longrightarrow> ran_since k t (fold (tick_task deps cal tasks now recordable scheds) ts sc)"
  by (induction ts arbitrary: sc) (auto intro: tick_task_ran)

lemma sched_apply_ran:
  "event_from t ev \<Longrightarrow> ran_since k t sc \<Longrightarrow> ran_since k t (sched_apply deps cal tasks ev sc)"
proof (cases ev)
  case (ERun now recordable taskId att)
  moreover assume "event_from t ev" "ran_since k t sc"
  ultimately show ?thesis using startRun_ran(2) [of deps tasks now recordable taskId att sc]
    by (auto split: sum.splits)
next
  case (EUpdate taskId tod e)
  moreover assume "ran_since k t sc"
  ultimately show ?thesis
    by (auto simp: updateSchedule_def ran_since_def Let_def split: sum.splits option.splits if_splits)
qed (auto simp: tick_def fold_tick_ran, auto simp: ran_since_def)

lemma sched_fold_ran:
  "\<forall>ev \<in> set evs. event_from t ev \<Longrightarrow> ran_since k t sc \<Longrightarrow> ran_since k t (fold (sched_apply deps cal tasks) evs sc)"
  by (induction evs arbitrary: sc) (auto intro: sched_apply_ran)

context local_calendar
begin

lemma same_day_not_due:
  assumes "isValidTimeOfDay hhmm" and "t \<le> l" and "cal_day cal now = cal_day cal t"
  shows "\<not> slotIsDue cal (mostRecentSlot cal now hhmm) (Some l)"
proof -
  obtain hh mm where p: "parseTime hhmm = (hh, mm)" "hh < 24" "mm < 60" using valid_time_parses [OF assms(1)] .
  have "cal_day cal (mostRecentSlot cal now hhmm) \<le> cal_day cal now" by (intro days_forward most_recent [OF p])
  also have "\<dots> \<le> cal_day cal l" using days_forward [OF assms(2)] assms(3) by simp
  finally show ?thesis by (simp add: slotIsDue_def isEarlierLocalDay_def)
qed

lemma tick_skips_same_day:
  assumes "distinct (map td_id tasks)" and "task \<in> set tasks" and "ran_since (td_id task) t sc"
    and "\<forall>row \<in> set (sc_rows sc). time_check (s_time_of_day row)" and "isValidTimeOfDay (td_defaultTime task)"
    and "cal_day cal now = cal_day cal t"
  shows "tick_task deps cal tasks now recordable (loadSchedules tasks sc) task sc' = sc'"
proof -
  obtain s where s: "jm_get (loadSchedules tasks sc) (td_id task) = Some s"
    "ts_timeOfDay s = ts_timeOfDay (task_schedule_of (sc_rows sc) task)"
    "\<forall>t j. jm_get (sc_startedRuns sc) (td_id task) = Some (t, j) \<longrightarrow> (\<exists>l \<ge> t. ts_lastRunStartedAt s = Some l)"
    using loadSchedules_get [OF assms(1,2), of sc] by blast
  obtain l where l: "ts_lastRunStartedAt s = Some l" "t \<le> l"
    using assms(3) s(3) order_trans by (auto simp: ran_since_def)
  have "isValidTimeOfDay (ts_timeOfDay s)" using time_of_loaded [OF assms(4,5)] s(2) by simp
  from same_day_not_due [OF this l(2) assms(6)] show ?thesis by (simp add: tick_task_def s(1) l(1))
qed

end

section \<open>A second start is refused\<close>

lemma overlay_newest:
  assumes "jm_get m k = Some s" and "distinct (map fst runs)" and "jm_get runs k = Some (t, j)"
    and "\<And>l. ts_lastRunStartedAt s = Some l \<Longrightarrow> l < t \<or> (l = t \<and> ts_lastJobId s = Some j)"
  shows "\<exists>s'. jm_get (fold overlay_run runs m) k = Some s' \<and> ts_lastJobId s' = Some j"
  using assms
proof (induction runs arbitrary: m s)
  case (Cons run runs)
  obtain k1 t1 j1 where run: "run = (k1, t1, j1)" by (metis surj_pair)
  show ?case
  proof (cases "k1 = k")
    case False
    then have "jm_get (overlay_run run m) k = Some s" using Cons.prems(1) by (simp add: run overlay_get)
    then show ?thesis using Cons.IH [of "overlay_run run m" s] Cons.prems False by (simp add: run jm_get_def)
  next
    case True
    then have e: "t1 = t" "j1 = j" "k \<notin> fst ` set runs" using Cons.prems(2,3) by (auto simp: run jm_get_def)
    let ?s1 = "if (case ts_lastRunStartedAt s of None \<Rightarrow> True | Some l \<Rightarrow> t1 > l)
      then s\<lparr>ts_lastRunStartedAt := Some t1, ts_lastJobId := Some j1\<rparr> else s"
    have "jm_get (overlay_run run m) k = Some ?s1" using Cons.prems(1) True by (simp add: run overlay_get)
    moreover have "ts_lastJobId ?s1 = Some j" using Cons.prems(4) e by (auto split: option.splits)
    moreover have "jm_get (fold overlay_run rs m') k = jm_get m' k" if "k \<notin> fst ` set rs" for rs m'
      using that by (induction rs arbitrary: m') (auto simp: overlay_get)
    ultimately show ?thesis using e(3) by auto
  qed
qed (simp add: jm_get_def)

context task_jobs
begin

lemma second_start_refused:
  assumes "ok (sc_jobs sc)" and "distinct (map td_id tasks)" and "distinct (map fst (sc_startedRuns sc))"
    and "startRun deps tasks now recordable taskId att sc = Inr (sc1, Started j)"
    and "recordable \<or> (\<forall>s l. jm_get (loadTaskSchedules (sc_rows sc) tasks) taskId = Some s \<longrightarrow>
           ts_lastRunStartedAt s = Some l \<longrightarrow> l < now)"
  shows "startRun deps tasks later recordable' taskId att' sc1 = Inr (sc1, AlreadyRunning j)"
proof -
  obtain task where task: "findTask tasks taskId = Inr task" "td_id task = taskId" "task \<in> set tasks"
    using assms(4) findTask_id [of tasks taskId] by (cases "findTask tasks taskId") (auto simp: startRun_def)
  obtain jobs where en: "tk_enqueue deps (task_job task att) (sc_jobs sc) = (jobs, j)"
    and sc1: "sc_jobs sc1 = jobs" "sc_startedRuns sc1 = jm_set taskId (now, j) (sc_startedRuns sc)"
      "sc_rows sc1 = (if recordable then recordTaskRun taskId now j (td_defaultTime task) (sc_rows sc) else sc_rows sc)"
    using assms(4) task by (auto simp: startRun_def split: option.splits prod.splits)
  have status: "tk_status deps j jobs = Some Queued" using enqueue_law [OF assms(1) en] by simp
  have d: "distinct (map fst (sc_startedRuns sc1))" using assms(3) by (simp add: sc1 jm_distinct_set)
  have base: "jm_get (loadTaskSchedules (sc_rows sc1) tasks) taskId = Some (task_schedule_of (sc_rows sc1) task)"
    using load_get [OF assms(2) task(3), of "sc_rows sc1"] task(2) by simp
  have "l < now \<or> (l = now \<and> ts_lastJobId (task_schedule_of (sc_rows sc1) task) = Some j)"
    if "ts_lastRunStartedAt (task_schedule_of (sc_rows sc1) task) = Some l" for l
    using that assms(5) load_get [OF assms(2) task(3), of "sc_rows sc"] task(2)
    by (cases recordable) (auto simp: sc1 schedule_after_record)
  then obtain s' where s': "jm_get (loadSchedules tasks sc1) taskId = Some s'" "ts_lastJobId s' = Some j"
    using overlay_newest [OF base d, of now j] by (auto simp: loadSchedules_def sc1 row_simps)
  have "activeJobId deps s' (sc_jobs sc1) = Some j"
    using s'(2) status by (simp add: activeJobId_def sc1(1) active_statuses_def)
  then show ?thesis using task s'(1) by (simp add: startRun_def)
qed

end

section \<open>Properties\<close>

text \<open>
  The slots of a valid time of day bracket every instant: the most recent slot is at or before it,
  the next one after it, and every other slot of that time lies outside the two.
\<close>

theorem slots_bracket_now:
  assumes "local_calendar cal" and "isValidTimeOfDay hhmm" and "parseTime hhmm = (hh, mm)"
  shows "mostRecentSlot cal now hhmm \<le> now \<and> now < nextSlot cal now hhmm \<and>
    (\<exists>d. mostRecentSlot cal now hhmm = cal_slot cal d hh mm) \<and> (\<exists>d. nextSlot cal now hhmm = cal_slot cal d hh mm) \<and>
    cal_slot cal d hh mm \<notin> {mostRecentSlot cal now hhmm <..< nextSlot cal now hhmm}"
proof -
  have t: "hh < 24" "mm < 60" using valid_time_parses [OF assms(2)] assms(3) by auto
  note m = local_calendar.most_recent [OF assms(1,3) t] and n = local_calendar.next_slot [OF assms(1,3) t]
  have "cal_slot cal d hh mm \<le> mostRecentSlot cal now hhmm \<or> nextSlot cal now hhmm \<le> cal_slot cal d hh mm"
    using m(3) [where now = now and d = d] n(3) [where after = now and d = d] by linarith
  then show ?thesis using m(1,2) [where now = now] n(1,2) [where after = now] by auto
qed

theorem slots_bracket_now_witness:
  "cal_slot (fixed_zone 7200000) 20000 4 0 \<notin>
     {mostRecentSlot (fixed_zone 7200000) 1728000000000 ''04:00'' <..< nextSlot (fixed_zone 7200000) 1728000000000 ''04:00''}"
proof -
  have v: "isValidTimeOfDay ''04:00''" by (simp add: is_digit_in_def)
  have p: "parseTime ''04:00'' = (4, 0)" by (simp add: parseTime_def read_nat_def char_digit_def)
  show ?thesis using slots_bracket_now [OF fixed.local_calendar_axioms v p] by blast
qed

text \<open>
  C12: A task runs at most once a local day on schedule: once a run of it has started, by hand or by the
  schedule, no later tick of that day starts it, whatever jobs, edits of the table, changed times and
  failed writes come between.
\<close>

theorem one_scheduled_run_per_day:
  assumes "local_calendar cal" and "distinct (map td_id tasks)" and "task \<in> set tasks"
    and "startRun deps tasks t recordable (td_id task) att sc = Inr (sc1, Started j)"
    and "\<forall>ev \<in> set evs. event_from t ev" and "sc2 = fold (sched_apply deps cal tasks) evs sc1"
    and "\<forall>row \<in> set (sc_rows sc2). time_check (s_time_of_day row)" and "isValidTimeOfDay (td_defaultTime task)"
    and "cal_day cal now = cal_day cal t"
  shows "tick_task deps cal tasks now recordable' (loadSchedules tasks sc2) task sc3 = sc3"
proof -
  have "ran_since (td_id task) t sc1" using startRun_ran(1) [OF assms(4)] by simp
  then have "ran_since (td_id task) t sc2" unfolding assms(6) by (rule sched_fold_ran [OF assms(5)])
  then show ?thesis by (rule local_calendar.tick_skips_same_day [OF assms(1-3) _ assms(7-9)])
qed

definition demo_task :: task_def where
  "demo_task = \<lparr>td_id = ''app-updates'', td_label = ''Check'', td_description = '''', td_command = ''check-app-updates'',
     td_defaultTime = ''04:00''\<rparr>"

definition demo_scheduler :: "proc scheduler" where
  "demo_scheduler = \<lparr>sc_rows = [], sc_startedRuns = [], sc_jobs = demo_start, sc_started = True\<rparr>"

lemmas sched_eval = startRun_def findTask_def demo_task_def demo_scheduler_def loadSchedules_def loadTaskSchedules_def
  task_schedule_of_def default_schedule_def activeJobId_def runner_tasks_def jm_get_def jm_set_def sql_find_def

lemma demo_task_valid: "isValidTimeOfDay (td_defaultTime demo_task)"
  by (simp add: demo_task_def is_digit_in_def)

lemma demo_never_ran:
  "jm_get (loadTaskSchedules [] [demo_task]) (td_id demo_task) = Some (default_schedule ''04:00'')"
  "ts_lastRunStartedAt (default_schedule ''04:00'') = None"
  using load_get [of "[demo_task]" demo_task "[]"]
  by (simp_all add: task_schedule_of_def default_schedule_def demo_task_def)

lemma demo_run_starts:
  "\<exists>sc1 j. startRun (runner_tasks demo_local 0) [demo_task] 1000 recordable (td_id demo_task) by_scheduler demo_scheduler =
     Inr (sc1, Started j) \<and> (\<not> recordable \<longrightarrow> sc_rows sc1 = [])"
  by (cases "enqueue demo_local 0 (task_job demo_task by_scheduler) demo_start") (simp add: sched_eval)

theorem one_scheduled_run_per_day_witness:
  "\<exists>sc1. tick_task (runner_tasks demo_local 0) (fixed_zone 0) [demo_task] 40000000 (\<lambda>_. True)
     (loadSchedules [demo_task] sc1) demo_task sc1 = sc1 \<and> sc_startedRuns sc1 \<noteq> []"
proof -
  obtain sc1 j where st: "startRun (runner_tasks demo_local 0) [demo_task] 1000 False (td_id demo_task) by_scheduler
      demo_scheduler = Inr (sc1, Started j)" "sc_rows sc1 = []"
    using demo_run_starts [of False] by blast
  have "sc_startedRuns sc1 \<noteq> []" using startRun_ran(1) [OF st(1)] by (auto simp: ran_since_def)
  moreover have "tick_task (runner_tasks demo_local 0) (fixed_zone 0) [demo_task] 40000000 (\<lambda>_. True)
     (loadSchedules [demo_task] sc1) demo_task sc1 = sc1"
    by (rule one_scheduled_run_per_day [OF fixed.local_calendar_axioms _ _ st(1), of "[]"])
      (simp_all add: st(2) demo_task_valid, simp add: fixed_zone_def)
  ultimately show ?thesis by blast
qed

text \<open>
  C13: The view's search for the next run always ends, and finds the first slot after now that will be
  due given the last run.
\<close>

theorem next_run_is_first_due_slot:
  assumes "local_calendar cal" and "parseTime (ts_timeOfDay s) = (hh, mm)" and "isValidTimeOfDay (ts_timeOfDay s)"
  shows "\<exists>d. next_run cal now s = Some (cal_slot cal d hh mm) \<and> now < cal_slot cal d hh mm \<and>
    slotIsDue cal (cal_slot cal d hh mm) (ts_lastRunStartedAt s) \<and>
    (\<forall>e. now < cal_slot cal e hh mm \<and> slotIsDue cal (cal_slot cal e hh mm) (ts_lastRunStartedAt s) \<longrightarrow> d \<le> e)"
proof -
  have t: "hh < 24" "mm < 60" using valid_time_parses [OF assms(3)] assms(2) by auto
  note n = local_calendar.next_slot [OF assms(1,2) t]
  let ?lst = "ts_lastRunStartedAt s"
  define after where "after = (case ?lst of None \<Rightarrow> now | Some l \<Rightarrow> if l > now then l else now)"
  have a: "now \<le> after" "\<And>l. ?lst = Some l \<Longrightarrow> l \<le> after" by (auto simp: after_def split: option.splits)
  obtain d where d: "nextSlot cal after (ts_timeOfDay s) = cal_slot cal d hh mm" using n(2) by blast
  have lt: "after < cal_slot cal d hh mm" using n(1) [of after] d by simp
  have bound: "l < cal_slot cal d hh mm" if "?lst = Some l" for l using a(2) [OF that] lt by simp
  obtain d' where d': "next_due cal (ts_timeOfDay s) ?lst (cal_slot cal d hh mm) = Some (cal_slot cal d' hh mm)" "d \<le> d'"
    "slotIsDue cal (cal_slot cal d' hh mm) ?lst" "\<forall>e. d \<le> e \<and> e < d' \<longrightarrow> \<not> slotIsDue cal (cal_slot cal e hh mm) ?lst"
    using local_calendar.next_due_finds [OF assms(1,2) t refl, of ?lst d] bound by blast
  have mono: "cal_slot cal x hh mm < cal_slot cal y hh mm \<longleftrightarrow> x < y" for x y
    by (rule local_calendar.slot_mono [OF assms(1) t])
  have "d' \<le> e" if e: "now < cal_slot cal e hh mm" "slotIsDue cal (cal_slot cal e hh mm) ?lst" for e
  proof -
    have "after < cal_slot cal e hh mm" using e by (auto simp: after_def slotIsDue_def split: option.splits)
    then have "cal_slot cal d hh mm \<le> cal_slot cal e hh mm" using n(3) d by metis
    then have "d \<le> e" using mono [of e d] by auto
    then show ?thesis using d'(4) e(2) by (meson not_le)
  qed
  moreover have "next_run cal now s = Some (cal_slot cal d' hh mm)"
    using d d'(1) by (simp add: next_run_def Let_def after_def)
  moreover have "now < cal_slot cal d' hh mm"
    using a(1) lt d'(2) mono [of d d'] by (cases "d = d'") auto
  ultimately show ?thesis using d'(3) by blast
qed

theorem next_run_is_first_due_slot_witness:
  "\<exists>d. next_run (fixed_zone 0) 1000 (default_schedule ''04:00'') = Some (cal_slot (fixed_zone 0) d 4 0)"
proof -
  have "parseTime (ts_timeOfDay (default_schedule ''04:00'')) = (4, 0)" "isValidTimeOfDay (ts_timeOfDay (default_schedule ''04:00''))"
    by (simp_all add: default_schedule_def parseTime_def read_nat_def char_digit_def is_digit_in_def)
  from next_run_is_first_due_slot [OF fixed.local_calendar_axioms [of 0] this, where now = 1000] show ?thesis
    by blast
qed

text \<open>
  Two starts of a task cannot overlap: right after a start, a second one, by hand or by the schedule,
  is refused with the first one's job and changes nothing, even when recording the first start failed.
\<close>

theorem second_start_is_refused:
  assumes "proc_inv (sc_jobs sc)" and "distinct (map td_id tasks)" and "distinct (map fst (sc_startedRuns sc))"
    and "startRun (runner_tasks local t) tasks now recordable taskId att sc = Inr (sc1, Started j)"
    and "recordable \<or> (\<forall>s l. jm_get (loadTaskSchedules (sc_rows sc) tasks) taskId = Some s \<longrightarrow>
           ts_lastRunStartedAt s = Some l \<longrightarrow> l < now)"
  shows "startRun (runner_tasks local t) tasks later recordable' taskId att' sc1 = Inr (sc1, AlreadyRunning j)"
  by (rule runner_task_jobs.second_start_refused [OF assms])

theorem second_start_is_refused_witness:
  "\<exists>sc1 j. startRun (runner_tasks demo_local 0) [demo_task] 1000 False (td_id demo_task) by_scheduler demo_scheduler =
       Inr (sc1, Started j) \<and>
     startRun (runner_tasks demo_local 0) [demo_task] 2000 True (td_id demo_task) by_scheduler sc1 =
       Inr (sc1, AlreadyRunning j)"
proof -
  obtain sc1 j where st: "startRun (runner_tasks demo_local 0) [demo_task] 1000 False (td_id demo_task) by_scheduler
      demo_scheduler = Inr (sc1, Started j)"
    using demo_run_starts [of False] by blast
  have "proc_inv (sc_jobs demo_scheduler)" using demo_proc_inv [of "[]"] by (simp add: demo_scheduler_def demo_run_def)
  then have "startRun (runner_tasks demo_local 0) [demo_task] 2000 True (td_id demo_task) by_scheduler sc1 =
      Inr (sc1, AlreadyRunning j)"
    by (rule second_start_is_refused [OF _ _ _ st]) (use demo_never_ran in \<open>simp_all add: demo_scheduler_def\<close>)
  with st show ?thesis by blast
qed

end
