(* ===== verification/Login_Store.thy ===== *)
theory Login_Store
  imports Bellhop_Prelude
begin

text \<open>
  The server side of Bellhop's own web login, \<open>src/src/web/login/session-store.ts\<close>: signed-in sessions and
  pending sign-in attempts, keyed by the SHA-256 of the random id the browser holds.

  The hash and the values \<open>randomBytes\<close> draws are parameters, collected in \<open>crypto\<close>; \<open>crypto_ok\<close> says what
  the code relies on: drawn ids are distinct and not empty, and no other string has a drawn id's hash.  The
  state counts the draws.  As drawn ids are distinct, the primary key of a new row is never taken, so the
  inserts are modelled without that error.  The database may hold more tables (the MCP server's), so every
  operation is defined on any extension of \<open>login_db\<close>.  The groups column holds JSON text that is only
  written and read back, and is the list itself here.
\<close>

record crypto =
  cr_hash :: "string \<Rightarrow> string"
  cr_rand :: "nat \<Rightarrow> string"

definition crypto_ok :: "crypto \<Rightarrow> bool" where
  "crypto_ok cr \<longleftrightarrow> inj (cr_rand cr) \<and> (\<forall>n. cr_rand cr n \<noteq> '''') \<and>
     (\<forall>x n. cr_hash cr x = cr_hash cr (cr_rand cr n) \<longrightarrow> x = cr_rand cr n)"

definition SESSION_MAX_AGE_MS :: ms where
  "SESSION_MAX_AGE_MS = 30 * 24 * 60 * 60 * 1000"

definition ATTEMPT_MAX_AGE_MS :: ms where
  "ATTEMPT_MAX_AGE_MS = 10 * 60 * 1000"

definition CHECK_INTERVAL_MS :: ms where
  "CHECK_INTERVAL_MS = 5 * 60 * 1000"

definition CHECK_RETRY_MS :: ms where
  "CHECK_RETRY_MS = 60 * 1000"

record session_identity =
  si_username :: string
  si_uid :: string
  si_email :: "string option"
  si_groups :: "string list"
  si_refreshToken :: string
  si_idToken :: string

record session_row =
  sn_idHash :: string
  sn_username :: string
  sn_uid :: string
  sn_email :: "string option"
  sn_groups :: "string list"
  sn_refreshToken :: string
  sn_idToken :: string
  sn_createdAt :: ms
  sn_lastCheckedAt :: ms
  sn_lastAttemptAt :: "ms option"

record session_refresh =
  sf_username :: string
  sf_email :: "string option"
  sf_groups :: "string list"
  sf_refreshToken :: string
  sf_idToken :: "string option"

record attempt_input =
  ai_state :: string
  ai_nonce :: string
  ai_codeVerifier :: string
  ai_returnTo :: string
  ai_mcpPendingHash :: "string option"

record attempt_row =
  at_idHash :: string
  at_input :: attempt_input
  at_createdAt :: ms

record login_db =
  ld_sessions :: "session_row list"
  ld_attempts :: "attempt_row list"
  ld_draws :: nat

section \<open>Operations\<close>

definition newId :: "crypto \<Rightarrow> 'a login_db_scheme \<Rightarrow> string \<times> 'a login_db_scheme" where
  "newId cr db = (cr_rand cr (ld_draws db), db\<lparr>ld_draws := Suc (ld_draws db)\<rparr>)"

definition session_expired :: "ms \<Rightarrow> session_row \<Rightarrow> bool" where
  "session_expired now row \<longleftrightarrow> sn_createdAt row + SESSION_MAX_AGE_MS \<le> now"

definition attempt_expired :: "ms \<Rightarrow> attempt_row \<Rightarrow> bool" where
  "attempt_expired now row \<longleftrightarrow> at_createdAt row + ATTEMPT_MAX_AGE_MS \<le> now"

definition purgeExpired :: "ms \<Rightarrow> 'a login_db_scheme \<Rightarrow> 'a login_db_scheme" where
  "purgeExpired now db =
     db\<lparr>ld_sessions := sql_delete (session_expired now) (ld_sessions db),
        ld_attempts := sql_delete (attempt_expired now) (ld_attempts db)\<rparr>"

definition new_session :: "string \<Rightarrow> ms \<Rightarrow> session_identity \<Rightarrow> session_row" where
  "new_session idHash now identity =
     \<lparr>sn_idHash = idHash, sn_username = si_username identity, sn_uid = si_uid identity,
      sn_email = si_email identity, sn_groups = si_groups identity, sn_refreshToken = si_refreshToken identity,
      sn_idToken = si_idToken identity, sn_createdAt = now, sn_lastCheckedAt = now, sn_lastAttemptAt = None\<rparr>"

definition createSession ::
  "crypto \<Rightarrow> ms \<Rightarrow> session_identity \<Rightarrow> 'a login_db_scheme \<Rightarrow> 'a login_db_scheme \<times> string" where
  "createSession cr now identity db =
     (let (i, db1) = newId cr (purgeExpired now db)
      in (db1\<lparr>ld_sessions := ld_sessions db1 @ [new_session (cr_hash cr i) now identity]\<rparr>, i))"

definition deleteSessionByHash :: "string \<Rightarrow> 'a login_db_scheme \<Rightarrow> 'a login_db_scheme" where
  "deleteSessionByHash idHash db = db\<lparr>ld_sessions := sql_delete (\<lambda>r. sn_idHash r = idHash) (ld_sessions db)\<rparr>"

definition getSessionByHash ::
  "ms \<Rightarrow> string \<Rightarrow> 'a login_db_scheme \<Rightarrow> 'a login_db_scheme \<times> session_row option" where
  "getSessionByHash now idHash db =
     (case sql_find sn_idHash idHash (ld_sessions db) of
        None \<Rightarrow> (db, None)
      | Some row \<Rightarrow>
          if now \<ge> sn_createdAt row + SESSION_MAX_AGE_MS then (deleteSessionByHash idHash db, None)
          else (db, Some row))"

definition getSession :: "crypto \<Rightarrow> ms \<Rightarrow> string \<Rightarrow> 'a login_db_scheme \<Rightarrow> 'a login_db_scheme \<times> session_row option" where
  "getSession cr now i db = (if i = '''' then (db, None) else getSessionByHash now (cr_hash cr i) db)"

definition deleteSession :: "crypto \<Rightarrow> string \<Rightarrow> 'a login_db_scheme \<Rightarrow> 'a login_db_scheme" where
  "deleteSession cr i db = deleteSessionByHash (cr_hash cr i) db"

definition checkDue :: "ms \<Rightarrow> session_row \<Rightarrow> bool" where
  "checkDue now session =
     (if now - sn_lastCheckedAt session < CHECK_INTERVAL_MS then False
      else case sn_lastAttemptAt session of None \<Rightarrow> True | Some a \<Rightarrow> now - a \<ge> CHECK_RETRY_MS)"

definition coalesce :: "'a option \<Rightarrow> 'a \<Rightarrow> 'a" where
  "coalesce v d = (case v of None \<Rightarrow> d | Some x \<Rightarrow> x)"

definition checked_row :: "ms \<Rightarrow> session_refresh \<Rightarrow> session_row \<Rightarrow> session_row" where
  "checked_row now refresh r =
     r\<lparr>sn_username := sf_username refresh, sn_email := sf_email refresh, sn_groups := sf_groups refresh,
       sn_refreshToken := sf_refreshToken refresh, sn_idToken := coalesce (sf_idToken refresh) (sn_idToken r),
       sn_lastCheckedAt := now, sn_lastAttemptAt := None\<rparr>"

definition updateAfterCheckByHash :: "ms \<Rightarrow> string \<Rightarrow> session_refresh \<Rightarrow> 'a login_db_scheme \<Rightarrow> 'a login_db_scheme" where
  "updateAfterCheckByHash now idHash refresh db =
     db\<lparr>ld_sessions := sql_update sn_idHash idHash (checked_row now refresh) (ld_sessions db)\<rparr>"

definition updateAfterCheck :: "crypto \<Rightarrow> ms \<Rightarrow> string \<Rightarrow> session_refresh \<Rightarrow> 'a login_db_scheme \<Rightarrow> 'a login_db_scheme" where
  "updateAfterCheck cr now i refresh db = updateAfterCheckByHash now (cr_hash cr i) refresh db"

definition attempted_row :: "ms \<Rightarrow> string option \<Rightarrow> string option \<Rightarrow> session_row \<Rightarrow> session_row" where
  "attempted_row now refreshToken idToken r =
     r\<lparr>sn_lastAttemptAt := Some now, sn_refreshToken := coalesce refreshToken (sn_refreshToken r),
       sn_idToken := coalesce idToken (sn_idToken r)\<rparr>"

definition markCheckAttemptByHash ::
  "ms \<Rightarrow> string \<Rightarrow> string option \<Rightarrow> string option \<Rightarrow> 'a login_db_scheme \<Rightarrow> 'a login_db_scheme" where
  "markCheckAttemptByHash now idHash refreshToken idToken db =
     db\<lparr>ld_sessions := sql_update sn_idHash idHash (attempted_row now refreshToken idToken) (ld_sessions db)\<rparr>"

definition markCheckAttempt ::
  "crypto \<Rightarrow> ms \<Rightarrow> string \<Rightarrow> string option \<Rightarrow> string option \<Rightarrow> 'a login_db_scheme \<Rightarrow> 'a login_db_scheme" where
  "markCheckAttempt cr now i refreshToken idToken db =
     markCheckAttemptByHash now (cr_hash cr i) refreshToken idToken db"

definition createAttempt :: "crypto \<Rightarrow> ms \<Rightarrow> attempt_input \<Rightarrow> 'a login_db_scheme \<Rightarrow> 'a login_db_scheme \<times> string" where
  "createAttempt cr now input db =
     (let (i, db1) = newId cr db
      in (db1\<lparr>ld_attempts := sql_delete (attempt_expired now) (ld_attempts db1) @
                 [\<lparr>at_idHash = cr_hash cr i, at_input = input, at_createdAt = now\<rparr>]\<rparr>, i))"

definition consumeAttempt ::
  "crypto \<Rightarrow> ms \<Rightarrow> string \<Rightarrow> 'a login_db_scheme \<Rightarrow> 'a login_db_scheme \<times> attempt_row option" where
  "consumeAttempt cr now i db =
     (if i = '''' then (db, None)
      else case sql_find at_idHash (cr_hash cr i) (ld_attempts db) of
        None \<Rightarrow> (db, None)
      | Some row \<Rightarrow>
          (db\<lparr>ld_attempts := sql_delete (\<lambda>r. at_idHash r = cr_hash cr i) (ld_attempts db)\<rparr>,
           if now \<ge> at_createdAt row + ATTEMPT_MAX_AGE_MS then None else Some row))"

section \<open>Statements on the sessions table\<close>

lemma checked_row_sel [simp]:
  "sn_idHash (checked_row now f r) = sn_idHash r" "sn_uid (checked_row now f r) = sn_uid r"
  "sn_createdAt (checked_row now f r) = sn_createdAt r" "sn_refreshToken (checked_row now f r) = sf_refreshToken f"
  "sn_username (checked_row now f r) = sf_username f" "sn_groups (checked_row now f r) = sf_groups f"
  by (simp_all add: checked_row_def)

lemma attempted_row_sel [simp]:
  "sn_idHash (attempted_row now a b r) = sn_idHash r" "sn_uid (attempted_row now a b r) = sn_uid r"
  "sn_createdAt (attempted_row now a b r) = sn_createdAt r" "sn_username (attempted_row now a b r) = sn_username r"
  "sn_groups (attempted_row now a b r) = sn_groups r" "sn_email (attempted_row now a b r) = sn_email r"
  "sn_refreshToken (attempted_row now a b r) = coalesce a (sn_refreshToken r)"
  by (simp_all add: attempted_row_def)

interpretation checked_upd: keyed_update sn_idHash "checked_row now f" for now f
  by unfold_locales simp

interpretation attempted_upd: keyed_update sn_idHash "attempted_row now a b" for now a b
  by unfold_locales simp

definition session_at :: "string \<Rightarrow> 'a login_db_scheme \<Rightarrow> session_row option" where
  "session_at k db = sql_find sn_idHash k (ld_sessions db)"

lemma session_at_key: "session_at k db = Some r \<Longrightarrow> sn_idHash r = k"
  by (auto simp: session_at_def dest: sql_find_SomeD)

lemma session_at_draws [simp]: "session_at k (db\<lparr>ld_draws := n\<rparr>) = session_at k db"
  "session_at k (db\<lparr>ld_attempts := as\<rparr>) = session_at k db"
  by (simp_all add: session_at_def)

lemma session_at_update [row_simps]:
  "session_at k' (updateAfterCheckByHash now k f db) =
     (if k' = k then map_option (checked_row now f) (session_at k db) else session_at k' db)"
  "session_at k' (markCheckAttemptByHash now k a b db) =
     (if k' = k then map_option (attempted_row now a b) (session_at k db) else session_at k' db)"
  by (simp_all add: session_at_def updateAfterCheckByHash_def markCheckAttemptByHash_def checked_upd.find_any
      attempted_upd.find_any)

lemma session_at_delete [row_simps]:
  "session_at k' (deleteSessionByHash k db) = (if k' = k then None else session_at k' db)"
  by (simp add: session_at_def deleteSessionByHash_def sql_find_delete_key)

lemma session_at_get [row_simps]:
  "session_at k' (fst (getSessionByHash now k db)) =
     (if k' = k then snd (getSessionByHash now k db) else session_at k' db)"
  by (auto simp: getSessionByHash_def session_at_def [symmetric] row_simps split: option.splits)

lemma getSessionByHash_Some: "snd (getSessionByHash now k db) = Some r \<longleftrightarrow>
    session_at k db = Some r \<and> now < sn_createdAt r + SESSION_MAX_AGE_MS"
  by (auto simp: getSessionByHash_def session_at_def split: option.splits)

end
