(* ===== verification/Login_Sessions.thy ===== *)
theory Login_Sessions
  imports Login_Store Access_Control
begin

text \<open>
  \<open>SessionService\<close> (\<open>src/src/web/login/sessions.ts\<close>): from a session to the signed-in user, with the re-check
  policy.  A re-check waits twice, for the managed client's settings and for the provider, and other
  requests run meanwhile; each of its parts between two waits is a definition here, and the single-flight
  map holds for each key the session the re-check was started with and where it waits.  What the settings
  and the provider answer are arguments.  Log lines are left out.
\<close>

definition toAuthUser :: "session_row \<Rightarrow> auth_user" where
  "toAuthUser s =
     \<lparr>au_username = sn_username s, au_email = sn_email s, au_groups = sn_groups s, au_impersonating = None,
      au_localOperator = False, au_uid = Some (sn_uid s), au_viaOidc = True\<rparr>"

datatype recheck_phase = AwaitConfig | AwaitProvider

record 'd session_service =
  sv_db :: 'd
  sv_inflight :: "(string \<times> (session_row \<times> recheck_phase)) list"

datatype login_config = ConfigError | NotConfigured | Configured

datatype recheck_result = ROk session_refresh | RRefused | RUnreachable "string option" "string option"

text \<open>
  What one step of the service tells the outside: the answer to a request, that a request waits for a
  re-check, or the refresh token a re-check presents to the provider.
\<close>

datatype login_out = Answered "auth_user option" | Waits | Presents string string | Quiet

definition create_session ::
  "crypto \<Rightarrow> ms \<Rightarrow> session_identity \<Rightarrow> 'a login_db_scheme session_service \<Rightarrow> 'a login_db_scheme session_service \<times> string" where
  "create_session cr now identity sv =
     (let (db, i) = createSession cr now identity (sv_db sv) in (sv\<lparr>sv_db := db\<rparr>, i))"

definition createDetached ::
  "crypto \<Rightarrow> ms \<Rightarrow> session_identity \<Rightarrow> 'a login_db_scheme session_service \<Rightarrow> 'a login_db_scheme session_service \<times> string" where
  "createDetached cr now identity sv =
     (let (sv1, i) = create_session cr now identity sv in (sv1, cr_hash cr i))"

definition destroy ::
  "crypto \<Rightarrow> ms \<Rightarrow> string \<Rightarrow> 'a login_db_scheme session_service \<Rightarrow>
   'a login_db_scheme session_service \<times> session_row option" where
  "destroy cr now rawId sv =
     (let (db, session) = getSession cr now rawId (sv_db sv)
      in (sv\<lparr>sv_db := (if session \<noteq> None then deleteSession cr rawId db else db)\<rparr>, session))"

definition resolveHash ::
  "ms \<Rightarrow> string \<Rightarrow> 'a login_db_scheme session_service \<Rightarrow> 'a login_db_scheme session_service \<times> login_out" where
  "resolveHash now key sv =
     (let (db, found) = getSessionByHash now key (sv_db sv); sv1 = sv\<lparr>sv_db := db\<rparr>
      in case found of
           None \<Rightarrow> (sv1, Answered None)
         | Some session \<Rightarrow>
             if \<not> checkDue now session then (sv1, Answered (Some (toAuthUser session)))
             else if jm_has (sv_inflight sv1) key then (sv1, Waits)
             else (sv1\<lparr>sv_inflight := jm_set key (session, AwaitConfig) (sv_inflight sv1)\<rparr>, Waits))"

definition resolve ::
  "crypto \<Rightarrow> ms \<Rightarrow> string \<Rightarrow> 'a login_db_scheme session_service \<Rightarrow> 'a login_db_scheme session_service \<times> login_out" where
  "resolve cr now rawId sv = (if rawId = '''' then (sv, Answered None) else resolveHash now (cr_hash cr rawId) sv)"

text \<open>\<open>recheck\<close> after \<open>refreshManagedWebLoginIfUsed\<close>, up to the provider's call.\<close>

definition recheckConfigured ::
  "ms \<Rightarrow> string \<Rightarrow> login_config \<Rightarrow> 'a login_db_scheme session_service \<Rightarrow> 'a login_db_scheme session_service \<times> login_out" where
  "recheckConfigured now key cfg sv =
     (case jm_get (sv_inflight sv) key of
        Some (session, AwaitConfig) \<Rightarrow>
          (case cfg of
             ConfigError \<Rightarrow>
               (sv\<lparr>sv_db := markCheckAttemptByHash now key None None (sv_db sv),
                   sv_inflight := jm_delete key (sv_inflight sv)\<rparr>, Answered (Some (toAuthUser session)))
           | NotConfigured \<Rightarrow>
               (sv\<lparr>sv_db := deleteSessionByHash key (sv_db sv), sv_inflight := jm_delete key (sv_inflight sv)\<rparr>,
                Answered None)
           | Configured \<Rightarrow>
               (sv\<lparr>sv_inflight := jm_set key (session, AwaitProvider) (sv_inflight sv)\<rparr>,
                Presents (sn_refreshToken session) (sn_uid session)))
      | _ \<Rightarrow> (sv, Quiet))"

text \<open>The rest of \<open>recheck\<close>; a client that throws counts as unreachable, with no rotated token.\<close>

definition recheckAnswered ::
  "ms \<Rightarrow> string \<Rightarrow> recheck_result \<Rightarrow> 'a login_db_scheme session_service \<Rightarrow> 'a login_db_scheme session_service \<times> login_out" where
  "recheckAnswered now key result sv =
     (case jm_get (sv_inflight sv) key of
        Some (session, AwaitProvider) \<Rightarrow>
          let rest = jm_delete key (sv_inflight sv)
          in case result of
               ROk refresh \<Rightarrow>
                 let (db, updated) = getSessionByHash now key (updateAfterCheckByHash now key refresh (sv_db sv))
                 in (sv\<lparr>sv_db := db, sv_inflight := rest\<rparr>, Answered (map_option toAuthUser updated))
             | RRefused \<Rightarrow>
                 (sv\<lparr>sv_db := deleteSessionByHash key (sv_db sv), sv_inflight := rest\<rparr>, Answered None)
             | RUnreachable refreshToken idToken \<Rightarrow>
                 let (db, still) = getSessionByHash now key
                       (markCheckAttemptByHash now key refreshToken idToken (sv_db sv))
                 in (sv\<lparr>sv_db := db, sv_inflight := rest\<rparr>,
                     Answered (if still \<noteq> None then Some (toAuthUser session) else None))
      | _ \<Rightarrow> (sv, Quiet))"

section \<open>Everything that happens to the two tables\<close>

text \<open>\<open>EReopen\<close> is a restart of the service: the map is gone, and opening the store purges it.\<close>

datatype login_event =
    EResolve ms string
  | EConfig ms string login_config
  | EProvider ms string recheck_result
  | ECreate ms session_identity
  | EDestroy ms string
  | EDelete string
  | ELook ms string
  | EAttempt ms attempt_input
  | EConsume ms string
  | EReopen ms

fun login_step ::
  "crypto \<Rightarrow> login_event \<Rightarrow> 'a login_db_scheme session_service \<Rightarrow> 'a login_db_scheme session_service \<times> login_out" where
  "login_step cr (EResolve now key) sv = resolveHash now key sv"
| "login_step cr (EConfig now key cfg) sv = recheckConfigured now key cfg sv"
| "login_step cr (EProvider now key result) sv = recheckAnswered now key result sv"
| "login_step cr (ECreate now identity) sv = (fst (create_session cr now identity sv), Quiet)"
| "login_step cr (EDestroy now rawId) sv = (fst (destroy cr now rawId sv), Quiet)"
| "login_step cr (EDelete key) sv = (sv\<lparr>sv_db := deleteSessionByHash key (sv_db sv)\<rparr>, Quiet)"
| "login_step cr (ELook now key) sv = (sv\<lparr>sv_db := fst (getSessionByHash now key (sv_db sv))\<rparr>, Quiet)"
| "login_step cr (EAttempt now input) sv = (sv\<lparr>sv_db := fst (createAttempt cr now input (sv_db sv))\<rparr>, Quiet)"
| "login_step cr (EConsume now rawId) sv = (sv\<lparr>sv_db := fst (consumeAttempt cr now rawId (sv_db sv))\<rparr>, Quiet)"
| "login_step cr (EReopen now) sv = (sv\<lparr>sv_db := purgeExpired now (sv_db sv), sv_inflight := []\<rparr>, Quiet)"

definition login_run ::
  "crypto \<Rightarrow> login_event list \<Rightarrow> 'a login_db_scheme session_service \<Rightarrow> 'a login_db_scheme session_service" where
  "login_run cr evs sv = fold (\<lambda>ev s. fst (login_step cr ev s)) evs sv"

definition empty_login :: login_db where
  "empty_login = \<lparr>ld_sessions = [], ld_attempts = [], ld_draws = 0\<rparr>"

definition new_service :: "login_db session_service" where
  "new_service = \<lparr>sv_db = empty_login, sv_inflight = []\<rparr>"

section \<open>The invariant\<close>

definition drawn :: "crypto \<Rightarrow> nat \<Rightarrow> string set" where
  "drawn cr n = (\<lambda>k. cr_hash cr (cr_rand cr k)) ` {..<n}"

text \<open>
  The keys of the tables and of the re-checks under way are hashes of drawn ids; the keys of a table, and
  of the map, are distinct; and a re-check holds the refresh token and the identity its session's row still has.
\<close>

definition login_wf :: "crypto \<Rightarrow> 'a login_db_scheme \<Rightarrow> bool" where
  "login_wf cr db \<longleftrightarrow> distinct (map sn_idHash (ld_sessions db)) \<and> distinct (map at_idHash (ld_attempts db)) \<and>
     sn_idHash ` set (ld_sessions db) \<subseteq> drawn cr (ld_draws db) \<and>
     at_idHash ` set (ld_attempts db) \<subseteq> drawn cr (ld_draws db)"

definition held_token :: "'a login_db_scheme \<Rightarrow> string \<times> (session_row \<times> recheck_phase) \<Rightarrow> bool" where
  "held_token db entry \<longleftrightarrow>
     (case session_at (fst entry) db of
        None \<Rightarrow> True
      | Some row \<Rightarrow> sn_refreshToken row = sn_refreshToken (fst (snd entry)) \<and>
          toAuthUser row = toAuthUser (fst (snd entry)))"

definition service_ok :: "crypto \<Rightarrow> 'a login_db_scheme session_service \<Rightarrow> bool" where
  "service_ok cr sv \<longleftrightarrow> login_wf cr (sv_db sv) \<and> distinct (map fst (sv_inflight sv)) \<and>
     fst ` set (sv_inflight sv) \<subseteq> drawn cr (ld_draws (sv_db sv)) \<and>
     (\<forall>entry \<in> set (sv_inflight sv). held_token (sv_db sv) entry)"

lemma drawn_mono: "m \<le> n \<Longrightarrow> drawn cr m \<subseteq> drawn cr n"
  by (auto simp: drawn_def)

lemma drawn_Suc: "drawn cr (Suc n) = insert (cr_hash cr (cr_rand cr n)) (drawn cr n)"
  by (auto simp: drawn_def lessThan_Suc)

lemma fresh_hash: "crypto_ok cr \<Longrightarrow> cr_hash cr (cr_rand cr n) \<notin> drawn cr n"
  by (fastforce simp: crypto_ok_def drawn_def dest: injD)

lemma hash_of_drawn: "crypto_ok cr \<Longrightarrow> cr_hash cr x \<in> drawn cr n \<Longrightarrow> \<exists>k < n. x = cr_rand cr k"
  by (fastforce simp: crypto_ok_def drawn_def)

lemma login_wf_delete [simp]: "login_wf cr db \<Longrightarrow> login_wf cr (deleteSessionByHash k db)"
  by (auto simp: login_wf_def deleteSessionByHash_def sql_delete_distinct row_simps)

lemma login_wf_get [simp]: "login_wf cr db \<Longrightarrow> login_wf cr (fst (getSessionByHash now k db))"
  by (auto simp: getSessionByHash_def split: option.splits)

lemma login_wf_update [simp]:
  "login_wf cr db \<Longrightarrow> login_wf cr (updateAfterCheckByHash now k f db)"
  "login_wf cr db \<Longrightarrow> login_wf cr (markCheckAttemptByHash now k a b db)"
  by (simp_all add: login_wf_def updateAfterCheckByHash_def markCheckAttemptByHash_def checked_upd.keys_kept
      attempted_upd.keys_kept checked_upd.key_image attempted_upd.key_image)

lemma login_wf_purge [simp]: "login_wf cr db \<Longrightarrow> login_wf cr (purgeExpired now db)"
  by (auto simp: login_wf_def purgeExpired_def sql_delete_distinct row_simps)

lemma login_wf_createSession:
  assumes "crypto_ok cr" and "login_wf cr db"
  shows "login_wf cr (fst (createSession cr now identity db))"
proof -
  have "login_wf cr (purgeExpired now db)" using assms(2) by simp
  then show ?thesis
    using fresh_hash [OF assms(1), of "ld_draws db"]
    by (auto simp: createSession_def newId_def login_wf_def drawn_Suc new_session_def purgeExpired_def)
qed

lemma login_wf_createAttempt:
  assumes "crypto_ok cr" and "login_wf cr db"
  shows "login_wf cr (fst (createAttempt cr now input db))"
  using assms(2) fresh_hash [OF assms(1), of "ld_draws db"]
  by (auto simp: createAttempt_def newId_def login_wf_def drawn_Suc row_simps sql_delete_distinct)

lemma login_wf_consume [simp]: "login_wf cr db \<Longrightarrow> login_wf cr (fst (consumeAttempt cr now i db))"
  by (auto simp: consumeAttempt_def login_wf_def sql_delete_distinct row_simps split: option.splits)

lemma toAuthUser_attempted [simp]: "toAuthUser (attempted_row now a b r) = toAuthUser r"
  by (simp add: toAuthUser_def)

end
