(* ===== verification/Mcp_Auth_Store.thy ===== *)
theory Mcp_Auth_Store
  imports Login_Sessions
begin

text \<open>
  The tables of Bellhop's MCP authorization server, \<open>src/src/web/mcp/auth-store.ts\<close>: registered clients,
  pending consents, authorization codes, grants with their rotating refresh token, and access tokens.  They
  live in the same database as the web sessions, so the state extends \<open>login_db\<close>; every secret is one more
  draw, stored as its hash.  A client's registration is the JSON text the SDK validated.  Where a method
  reads the clock several times, all reads are one instant here.
\<close>

definition PENDING_TTL_MS :: ms where
  "PENDING_TTL_MS = 10 * 60 * 1000"

definition CODE_TTL_MS :: ms where
  "CODE_TTL_MS = 10 * 60 * 1000"

definition ACCESS_TOKEN_TTL_MS :: ms where
  "ACCESS_TOKEN_TTL_MS = 60 * 60 * 1000"

definition UNUSED_CLIENT_TTL_MS :: ms where
  "UNUSED_CLIENT_TTL_MS = 24 * 60 * 60 * 1000"

record client_row =
  cl_id :: string
  cl_info :: string
  cl_createdAt :: ms
  cl_used :: bool

record pending_input =
  pe_clientId :: string
  pe_redirectUri :: string
  pe_codeChallenge :: string
  pe_state :: "string option"
  pe_scopes :: "string list"
  pe_resource :: "string option"

record pending_row =
  pn_idHash :: string
  pn_clientId :: string
  pn_redirectUri :: string
  pn_codeChallenge :: string
  pn_state :: "string option"
  pn_scopes :: string
  pn_resource :: "string option"
  pn_createdAt :: ms

record code_input =
  co_clientId :: string
  co_redirectUri :: string
  co_codeChallenge :: string
  co_resource :: "string option"
  co_sessionHash :: string

record code_row =
  cd_codeHash :: string
  cd_input :: code_input
  cd_createdAt :: ms

record grant_row =
  gr_id :: nat
  gr_clientId :: string
  gr_sessionHash :: string
  gr_refreshHash :: string
  gr_resource :: "string option"
  gr_createdAt :: ms

record token_row =
  tk_hash :: string
  tk_grantId :: nat
  tk_expiresAt :: ms

record issued_tokens =
  is_grantId :: nat
  is_accessToken :: string
  is_refreshToken :: string
  is_expiresInSeconds :: int

record access_record =
  ar_grantId :: nat
  ar_clientId :: string
  ar_sessionHash :: string
  ar_resource :: "string option"
  ar_expiresAt :: ms

record auth_db = login_db +
  ma_clients :: "client_row list"
  ma_pending :: "pending_row list"
  ma_codes :: "code_row list"
  ma_grants :: "grant_row list"
  ma_tokens :: "token_row list"
  ma_grantSeq :: nat

definition empty_auth :: auth_db where
  "empty_auth = \<lparr>ld_sessions = [], ld_attempts = [], ld_draws = 0, ma_clients = [], ma_pending = [], ma_codes = [],
     ma_grants = [], ma_tokens = [], ma_grantSeq = 0\<rparr>"

section \<open>Clients\<close>

definition saveClient :: "ms \<Rightarrow> string \<Rightarrow> string \<Rightarrow> auth_db \<Rightarrow> auth_db" where
  "saveClient now clientId info db =
     (let kept = sql_delete (\<lambda>c. \<not> cl_used c \<and> cl_createdAt c + UNUSED_CLIENT_TTL_MS \<le> now) (ma_clients db)
      in db\<lparr>ma_clients := sql_delete (\<lambda>c. cl_id c = clientId) kept @
              [\<lparr>cl_id = clientId, cl_info = info, cl_createdAt = now, cl_used = False\<rparr>]\<rparr>)"

definition getClient :: "string \<Rightarrow> auth_db \<Rightarrow> string option" where
  "getClient clientId db = map_option cl_info (sql_find cl_id clientId (ma_clients db))"

section \<open>Pending consents\<close>

fun join_with :: "string \<Rightarrow> string list \<Rightarrow> string" where
  "join_with sep [] = ''''"
| "join_with sep [x] = x"
| "join_with sep (x # y # ys) = x @ sep @ join_with sep (y # ys)"

definition toPending :: "pending_row \<Rightarrow> pending_input" where
  "toPending row =
     \<lparr>pe_clientId = pn_clientId row, pe_redirectUri = pn_redirectUri row, pe_codeChallenge = pn_codeChallenge row,
      pe_state = pn_state row, pe_scopes = (if pn_scopes row = '''' then [] else split_on (CHR '' '') (pn_scopes row)),
      pe_resource = pn_resource row\<rparr>"

definition createPending :: "crypto \<Rightarrow> ms \<Rightarrow> pending_input \<Rightarrow> auth_db \<Rightarrow> auth_db \<times> string" where
  "createPending cr now input db =
     (let (i, db1) = newId cr db
      in (db1\<lparr>ma_pending := sql_delete (\<lambda>r. pn_createdAt r + PENDING_TTL_MS \<le> now) (ma_pending db1) @
            [\<lparr>pn_idHash = cr_hash cr i, pn_clientId = pe_clientId input, pn_redirectUri = pe_redirectUri input,
              pn_codeChallenge = pe_codeChallenge input, pn_state = pe_state input,
              pn_scopes = join_with '' '' (pe_scopes input), pn_resource = pe_resource input, pn_createdAt = now\<rparr>]\<rparr>, i))"

definition live_pending :: "ms \<Rightarrow> pending_row option \<Rightarrow> pending_input option" where
  "live_pending now row =
     (case row of None \<Rightarrow> None | Some r \<Rightarrow> if now < pn_createdAt r + PENDING_TTL_MS then Some (toPending r) else None)"

definition getPending :: "ms \<Rightarrow> string \<Rightarrow> auth_db \<Rightarrow> pending_input option" where
  "getPending now idHash db = live_pending now (sql_find pn_idHash idHash (ma_pending db))"

definition touchPending :: "ms \<Rightarrow> string \<Rightarrow> auth_db \<Rightarrow> auth_db" where
  "touchPending now idHash db =
     db\<lparr>ma_pending := sql_update pn_idHash idHash (\<lambda>r. r\<lparr>pn_createdAt := now\<rparr>) (ma_pending db)\<rparr>"

definition consumePending :: "ms \<Rightarrow> string \<Rightarrow> auth_db \<Rightarrow> auth_db \<times> pending_input option" where
  "consumePending now idHash db =
     (case sql_find pn_idHash idHash (ma_pending db) of
        None \<Rightarrow> (db, None)
      | Some row \<Rightarrow>
          (db\<lparr>ma_pending := sql_delete (\<lambda>r. pn_idHash r = idHash) (ma_pending db)\<rparr>, live_pending now (Some row)))"

section \<open>Authorization codes\<close>

definition issueCode :: "crypto \<Rightarrow> ms \<Rightarrow> code_input \<Rightarrow> auth_db \<Rightarrow> auth_db \<times> string" where
  "issueCode cr now input db =
     (let (code, db1) = newId cr db
      in (db1\<lparr>ma_codes := sql_delete (\<lambda>r. cd_createdAt r + CODE_TTL_MS \<le> now) (ma_codes db1) @
            [\<lparr>cd_codeHash = cr_hash cr code, cd_input = input, cd_createdAt = now\<rparr>]\<rparr>, code))"

definition liveCode :: "ms \<Rightarrow> string \<Rightarrow> code_row option \<Rightarrow> code_input option" where
  "liveCode now clientId row =
     (case row of
        None \<Rightarrow> None
      | Some r \<Rightarrow>
          if co_clientId (cd_input r) \<noteq> clientId \<or> now \<ge> cd_createdAt r + CODE_TTL_MS then None else Some (cd_input r))"

definition peekCode :: "crypto \<Rightarrow> ms \<Rightarrow> string \<Rightarrow> string \<Rightarrow> auth_db \<Rightarrow> code_input option" where
  "peekCode cr now clientId code db = liveCode now clientId (sql_find cd_codeHash (cr_hash cr code) (ma_codes db))"

definition consumeCode :: "crypto \<Rightarrow> ms \<Rightarrow> string \<Rightarrow> string \<Rightarrow> auth_db \<Rightarrow> auth_db \<times> code_input option" where
  "consumeCode cr now clientId code db =
     (case sql_find cd_codeHash (cr_hash cr code) (ma_codes db) of
        None \<Rightarrow> (db, None)
      | Some row \<Rightarrow>
          (db\<lparr>ma_codes := sql_delete (\<lambda>r. cd_codeHash r = cr_hash cr code) (ma_codes db)\<rparr>,
           liveCode now clientId (Some row)))"

section \<open>Grants and access tokens\<close>

definition issueAccess :: "crypto \<Rightarrow> ms \<Rightarrow> nat \<Rightarrow> auth_db \<Rightarrow> auth_db \<times> string \<times> int" where
  "issueAccess cr now grantId db =
     (let (token, db1) = newId cr db
      in (db1\<lparr>ma_tokens := sql_delete (\<lambda>t. tk_expiresAt t \<le> now) (ma_tokens db1) @
            [\<lparr>tk_hash = cr_hash cr token, tk_grantId = grantId, tk_expiresAt = now + ACCESS_TOKEN_TTL_MS\<rparr>]\<rparr>,
          token, ACCESS_TOKEN_TTL_MS div 1000))"

definition purgeGrants :: "ms \<Rightarrow> auth_db \<Rightarrow> auth_db" where
  "purgeGrants cutoff db =
     (let old = map gr_id (filter (\<lambda>g. gr_createdAt g \<le> cutoff) (ma_grants db))
      in db\<lparr>ma_tokens := sql_delete (\<lambda>t. tk_grantId t \<in> set old) (ma_tokens db),
            ma_grants := sql_delete (\<lambda>g. gr_createdAt g \<le> cutoff) (ma_grants db)\<rparr>)"

definition createGrant ::
  "crypto \<Rightarrow> ms \<Rightarrow> string \<Rightarrow> string \<Rightarrow> string option \<Rightarrow> auth_db \<Rightarrow> auth_db \<times> issued_tokens" where
  "createGrant cr now clientId sessionHash resource db =
     (let (refreshToken, db1) = newId cr db;
          db2 = purgeGrants (now - SESSION_MAX_AGE_MS) db1;
          db3 = db2\<lparr>ma_clients := sql_update cl_id clientId (\<lambda>c. c\<lparr>cl_used := True\<rparr>) (ma_clients db2)\<rparr>;
          grantId = ma_grantSeq db3 + 1;
          db4 = db3\<lparr>ma_grantSeq := grantId,
                    ma_grants := ma_grants db3 @
                      [\<lparr>gr_id = grantId, gr_clientId = clientId, gr_sessionHash = sessionHash,
                        gr_refreshHash = cr_hash cr refreshToken, gr_resource = resource, gr_createdAt = now\<rparr>]\<rparr>;
          (db5, token, seconds) = issueAccess cr now grantId db4
      in (db5, \<lparr>is_grantId = grantId, is_accessToken = token, is_refreshToken = refreshToken, is_expiresInSeconds = seconds\<rparr>))"

definition rotateRefresh ::
  "crypto \<Rightarrow> ms \<Rightarrow> string \<Rightarrow> string \<Rightarrow> auth_db \<Rightarrow> auth_db \<times> (issued_tokens \<times> string) option" where
  "rotateRefresh cr now clientId refreshToken db =
     (case sql_find gr_refreshHash (cr_hash cr refreshToken) (ma_grants db) of
        None \<Rightarrow> (db, None)
      | Some g \<Rightarrow>
          if gr_clientId g \<noteq> clientId then (db, None)
          else
            let (fresh, db1) = newId cr db;
                db2 = db1\<lparr>ma_grants := sql_update gr_id (gr_id g) (\<lambda>r. r\<lparr>gr_refreshHash := cr_hash cr fresh\<rparr>) (ma_grants db1)\<rparr>;
                (db3, token, seconds) = issueAccess cr now (gr_id g) db2
            in (db3, Some (\<lparr>is_grantId = gr_id g, is_accessToken = token, is_refreshToken = fresh,
                            is_expiresInSeconds = seconds\<rparr>, gr_sessionHash g)))"

definition resolveAccess :: "crypto \<Rightarrow> ms \<Rightarrow> string \<Rightarrow> auth_db \<Rightarrow> access_record option" where
  "resolveAccess cr now accessToken db =
     (case sql_find tk_hash (cr_hash cr accessToken) (ma_tokens db) of
        None \<Rightarrow> None
      | Some t \<Rightarrow>
          (case sql_find gr_id (tk_grantId t) (ma_grants db) of
             None \<Rightarrow> None
           | Some g \<Rightarrow>
               if now \<ge> tk_expiresAt t then None
               else Some \<lparr>ar_grantId = tk_grantId t, ar_clientId = gr_clientId g, ar_sessionHash = gr_sessionHash g,
                          ar_resource = gr_resource g, ar_expiresAt = tk_expiresAt t\<rparr>))"

definition deleteGrant :: "nat \<Rightarrow> auth_db \<Rightarrow> auth_db \<times> string option" where
  "deleteGrant grantId db =
     (db\<lparr>ma_tokens := sql_delete (\<lambda>t. tk_grantId t = grantId) (ma_tokens db),
         ma_grants := sql_delete (\<lambda>g. gr_id g = grantId) (ma_grants db)\<rparr>,
      map_option gr_sessionHash (sql_find gr_id grantId (ma_grants db)))"

definition revoke :: "crypto \<Rightarrow> string \<Rightarrow> string \<Rightarrow> auth_db \<Rightarrow> auth_db \<times> string option" where
  "revoke cr clientId token db =
     (case sql_find gr_refreshHash (cr_hash cr token) (ma_grants db) of
        Some g \<Rightarrow> if gr_clientId g = clientId then deleteGrant (gr_id g) db else (db, None)
      | None \<Rightarrow>
          (let own = map gr_id (filter (\<lambda>g. gr_clientId g = clientId) (ma_grants db))
           in (db\<lparr>ma_tokens := sql_delete (\<lambda>t. tk_hash t = cr_hash cr token \<and> tk_grantId t \<in> set own) (ma_tokens db)\<rparr>, None)))"

end
