(* ===== verification/Login_Theorems.thy ===== *)
theory Login_Theorems
  imports Login_Sessions
begin

text \<open>
  The login's guarantees over every sequence of events from an empty database: the invariant of
  \<open>Login_Sessions\<close> is kept by each step, and rows that are gone stay gone, from which follow the single
  flight of re-checks, that answers are backed by live sessions, and that ids are spent once.
\<close>

lemma ld_draws_simps [simp]:
  "ld_draws (fst (getSessionByHash now k db)) = ld_draws db" "ld_draws (deleteSessionByHash k db) = ld_draws db"
  "ld_draws (updateAfterCheckByHash now k f db) = ld_draws db"
  "ld_draws (markCheckAttemptByHash now k a b db) = ld_draws db"
  "ld_draws (purgeExpired now db) = ld_draws db" "ld_draws (fst (consumeAttempt cr now i db)) = ld_draws db"
  "ld_draws (fst (createSession cr now identity db)) = Suc (ld_draws db)"
  "ld_draws (fst (createAttempt cr now input db)) = Suc (ld_draws db)"
  by (auto simp: getSessionByHash_def deleteSessionByHash_def updateAfterCheckByHash_def markCheckAttemptByHash_def
      purgeExpired_def consumeAttempt_def createSession_def createAttempt_def newId_def split: option.splits)

lemma session_at_purge: "login_wf cr db \<Longrightarrow> session_at k (purgeExpired now db) =
    (case session_at k db of None \<Rightarrow> None | Some r \<Rightarrow> if session_expired now r then None else Some r)"
  by (simp add: session_at_def purgeExpired_def sql_find_delete login_wf_def)

lemma session_at_createSession:
  assumes "crypto_ok cr" and "login_wf cr db"
  shows "session_at k (fst (createSession cr now identity db)) =
    (if k = cr_hash cr (cr_rand cr (ld_draws db)) then Some (new_session k now identity)
     else session_at k (purgeExpired now db))"
proof -
  let ?k = "cr_hash cr (cr_rand cr (ld_draws db))"
  have "session_at ?k (purgeExpired now db) = None"
    using assms(2) fresh_hash [OF assms(1), of "ld_draws db"] login_wf_purge [OF assms(2), of now]
    by (auto simp: session_at_def sql_find_None_iff login_wf_def)
  then show ?thesis
    by (auto simp: createSession_def newId_def session_at_def row_simps new_session_def split: option.splits)
qed

lemma session_at_attempts [simp]:
  "session_at k (fst (createAttempt cr now input db)) = session_at k db"
  "session_at k (fst (consumeAttempt cr now i db)) = session_at k db"
  by (auto simp: createAttempt_def newId_def consumeAttempt_def session_at_def split: option.splits)

lemma held_mono:
  assumes "held_token db e" and "\<And>r. session_at (fst e) db' = Some r \<Longrightarrow> session_at (fst e) db = Some r"
  shows "held_token db' e"
  using assms by (cases "session_at (fst e) db'") (auto simp: held_token_def)

lemma held_get: "held_token db e \<Longrightarrow> held_token (fst (getSessionByHash now k db)) e"
  by (erule held_mono) (auto simp: row_simps getSessionByHash_Some split: if_splits)

lemma held_delete: "held_token db e \<Longrightarrow> held_token (deleteSessionByHash k db) e"
  by (erule held_mono) (auto simp: row_simps split: if_splits)

lemma held_purge: "login_wf cr db \<Longrightarrow> held_token db e \<Longrightarrow> held_token (purgeExpired now db) e"
  by (erule held_mono) (auto simp: session_at_purge split: option.splits if_splits)

lemma held_mark: "held_token db e \<Longrightarrow> held_token (markCheckAttemptByHash now k None None db) e"
  by (auto simp: held_token_def row_simps coalesce_def split: option.splits)

lemma held_other: "held_token db e \<Longrightarrow> fst e \<noteq> k \<Longrightarrow> held_token (updateAfterCheckByHash now k f db) e \<and>
    held_token (markCheckAttemptByHash now k a b db) e"
  by (simp add: held_token_def row_simps)

lemma inflight_mem: "distinct (map fst m) \<Longrightarrow> jm_get m k = Some v \<longleftrightarrow> (k, v) \<in> set m"
  by (simp add: jm_get_def)

lemma set_jm_set: "set (jm_set k v m) \<subseteq> insert (k, v) (set m)"
  by (induction m) (auto simp: jm_set_def)

lemma set_jm_delete [simp]: "set (jm_delete k m) = {e \<in> set m. fst e \<noteq> k}"
  by (auto simp: jm_delete_def)

lemma dom_jm_set [simp]: "fst ` set (jm_set k v m) = insert k (fst ` set m)"
  by (simp add: jm_set_def dom_update)

lemma ok_db:
  assumes "service_ok cr sv" and "login_wf cr db" and "ld_draws (sv_db sv) \<le> ld_draws db"
    and "\<And>e. e \<in> set (sv_inflight sv) \<Longrightarrow> held_token (sv_db sv) e \<Longrightarrow> held_token db e"
  shows "service_ok cr (sv\<lparr>sv_db := db\<rparr>)"
  using assms drawn_mono [OF assms(3), of cr] by (auto simp: service_ok_def)

lemma ok_drop:
  assumes "service_ok cr sv" and "login_wf cr db" and "ld_draws (sv_db sv) \<le> ld_draws db"
    and "\<And>e. fst e \<noteq> k \<Longrightarrow> held_token (sv_db sv) e \<Longrightarrow> held_token db e"
  shows "service_ok cr (sv\<lparr>sv_db := db, sv_inflight := jm_delete k (sv_inflight sv)\<rparr>)"
  using assms drawn_mono [OF assms(3), of cr] by (auto simp: service_ok_def jm_distinct_delete)

lemma ok_put:
  assumes "service_ok cr sv" and "k \<in> drawn cr (ld_draws (sv_db sv))" and "held_token (sv_db sv) (k, v)"
  shows "service_ok cr (sv\<lparr>sv_inflight := jm_set k v (sv_inflight sv)\<rparr>)"
  using assms set_jm_set [of k v "sv_inflight sv"] by (auto simp: service_ok_def jm_distinct_set)

lemma service_okD:
  assumes "service_ok cr sv"
  shows "login_wf cr (sv_db sv)" "distinct (map fst (sv_inflight sv))"
    "(k, v) \<in> set (sv_inflight sv) \<Longrightarrow> k \<in> drawn cr (ld_draws (sv_db sv)) \<and> held_token (sv_db sv) (k, v)"
    "jm_get (sv_inflight sv) k = Some v \<Longrightarrow> (k, v) \<in> set (sv_inflight sv)"
  using assms by (force simp: service_ok_def inflight_mem)+

lemma held_phase: "held_token db (k, s, ph) = held_token db (k, s, ph')"
  by (simp add: held_token_def split: option.split)

lemma ok_get:
  assumes "service_ok cr sv"
  shows "service_ok cr (sv\<lparr>sv_db := fst (getSessionByHash now k (sv_db sv))\<rparr>)"
  by (rule ok_db [OF assms]) (use service_okD(1) [OF assms] in \<open>auto intro: held_get\<close>)

lemma ok_resolve:
  assumes "service_ok cr sv"
  shows "service_ok cr (fst (resolveHash now k sv))"
proof -
  let ?sv = "sv\<lparr>sv_db := fst (getSessionByHash now k (sv_db sv))\<rparr>"
  have ok: "service_ok cr ?sv" by (rule ok_get [OF assms])
  show ?thesis
  proof (cases "snd (getSessionByHash now k (sv_db sv))")
    case (Some s)
    then have at: "session_at k (sv_db ?sv) = Some s" by (simp add: row_simps)
    then have "k \<in> drawn cr (ld_draws (sv_db ?sv))"
      using service_okD(1) [OF ok] by (auto simp: login_wf_def session_at_def dest!: sql_find_SomeD)
    then have "service_ok cr (?sv\<lparr>sv_inflight := jm_set k (s, AwaitConfig) (sv_inflight ?sv)\<rparr>)"
      by (rule ok_put [OF ok]) (use at in \<open>simp add: held_token_def\<close>)
    then show ?thesis using ok Some by (simp add: resolveHash_def split_beta Let_def)
  qed (use ok in \<open>simp add: resolveHash_def split_beta Let_def\<close>)
qed

lemma ok_config:
  assumes "service_ok cr sv"
  shows "service_ok cr (fst (recheckConfigured now k cfg sv))"
proof (cases "jm_get (sv_inflight sv) k")
  case (Some entry)
  obtain s ph where e: "entry = (s, ph)" by (cases entry)
  note wf = service_okD(1) [OF assms]
  have mem: "k \<in> drawn cr (ld_draws (sv_db sv))" "held_token (sv_db sv) (k, s, AwaitProvider)"
    using service_okD(3) [OF assms service_okD(4) [OF assms Some]] held_phase [of _ k s ph] e by auto
  have "service_ok cr (sv\<lparr>sv_db := markCheckAttemptByHash now k None None (sv_db sv),
      sv_inflight := jm_delete k (sv_inflight sv)\<rparr>)"
    by (rule ok_drop [OF assms]) (use wf in \<open>auto intro: held_mark\<close>)
  moreover have "service_ok cr (sv\<lparr>sv_db := deleteSessionByHash k (sv_db sv), sv_inflight := jm_delete k (sv_inflight sv)\<rparr>)"
    by (rule ok_drop [OF assms]) (use wf in \<open>auto intro: held_delete\<close>)
  ultimately show ?thesis
    using Some e assms ok_put [OF assms mem]
    by (cases ph; cases cfg) (simp_all add: recheckConfigured_def)
qed (use assms in \<open>simp add: recheckConfigured_def\<close>)

lemma ok_provider:
  assumes "service_ok cr sv"
  shows "service_ok cr (fst (recheckAnswered now k result sv))"
proof (cases "jm_get (sv_inflight sv) k")
  case (Some entry)
  obtain s ph where e: "entry = (s, ph)" by (cases entry)
  note wf = service_okD(1) [OF assms]
  have drop: "service_ok cr (sv\<lparr>sv_db := db, sv_inflight := jm_delete k (sv_inflight sv)\<rparr>)"
    if "login_wf cr db" "ld_draws db = ld_draws (sv_db sv)"
      "\<And>e. fst e \<noteq> k \<Longrightarrow> held_token (sv_db sv) e \<Longrightarrow> held_token db e" for db
    using ok_drop [OF assms that(1)] that(2,3) by simp
  show ?thesis
  proof (cases result)
    case (ROk f)
    have "service_ok cr (sv\<lparr>sv_db := fst (getSessionByHash now k (updateAfterCheckByHash now k f (sv_db sv))),
        sv_inflight := jm_delete k (sv_inflight sv)\<rparr>)"
      by (rule drop) (use wf in \<open>auto intro!: held_get simp: held_other\<close>)
    then show ?thesis using Some e ROk assms by (cases ph) (simp_all add: recheckAnswered_def split_beta Let_def)
  next
    case RRefused
    have "service_ok cr (sv\<lparr>sv_db := deleteSessionByHash k (sv_db sv), sv_inflight := jm_delete k (sv_inflight sv)\<rparr>)"
      by (rule drop) (use wf in \<open>auto intro: held_delete\<close>)
    then show ?thesis using Some e RRefused assms by (cases ph) (simp_all add: recheckAnswered_def Let_def)
  next
    case (RUnreachable a b)
    have "service_ok cr (sv\<lparr>sv_db := fst (getSessionByHash now k (markCheckAttemptByHash now k a b (sv_db sv))),
        sv_inflight := jm_delete k (sv_inflight sv)\<rparr>)"
      by (rule drop) (use wf in \<open>auto intro!: held_get simp: held_other\<close>)
    then show ?thesis using Some e RUnreachable assms by (cases ph) (simp_all add: recheckAnswered_def split_beta Let_def)
  qed
qed (use assms in \<open>simp add: recheckAnswered_def\<close>)

lemma ok_create:
  assumes "crypto_ok cr" and "service_ok cr sv"
  shows "service_ok cr (fst (create_session cr now identity sv))"
proof -
  let ?db = "fst (createSession cr now identity (sv_db sv))"
  note wf = service_okD(1) [OF assms(2)]
  have "service_ok cr (sv\<lparr>sv_db := ?db\<rparr>)"
  proof (rule ok_db [OF assms(2) login_wf_createSession [OF assms(1) wf]])
    fix e assume e: "e \<in> set (sv_inflight sv)" "held_token (sv_db sv) e"
    then have "fst e \<in> drawn cr (ld_draws (sv_db sv))" using assms(2) by (auto simp: service_ok_def)
    then have "fst e \<noteq> cr_hash cr (cr_rand cr (ld_draws (sv_db sv)))" using fresh_hash [OF assms(1)] by metis
    then have "session_at (fst e) ?db = session_at (fst e) (purgeExpired now (sv_db sv))"
      using session_at_createSession [OF assms(1) wf] by simp
    then show "held_token ?db e" using held_purge [OF wf e(2), of now] by (simp add: held_token_def)
  qed simp
  then show ?thesis by (simp add: create_session_def split_beta)
qed

lemma ok_step:
  assumes "crypto_ok cr" and "service_ok cr sv"
  shows "service_ok cr (fst (login_step cr ev sv))"
proof (cases ev)
  case (EDestroy now i)
  have g: "service_ok cr (sv\<lparr>sv_db := fst (getSession cr now i (sv_db sv))\<rparr>)"
    using assms(2) ok_get [OF assms(2)] by (simp add: getSession_def)
  have "service_ok cr (sv\<lparr>sv_db := fst (getSession cr now i (sv_db sv))\<rparr>\<lparr>sv_db := deleteSession cr i (fst (getSession cr now i (sv_db sv)))\<rparr>)"
    by (rule ok_db [OF g]) (use service_okD(1) [OF g] in \<open>auto intro: held_delete simp: deleteSession_def\<close>)

  with g show ?thesis by (simp add: EDestroy destroy_def split_beta)
next
  case (EDelete k)
  have "service_ok cr (sv\<lparr>sv_db := deleteSessionByHash k (sv_db sv)\<rparr>)"
    by (rule ok_db [OF assms(2)]) (use service_okD(1) [OF assms(2)] in \<open>auto intro: held_delete\<close>)
  then show ?thesis by (simp add: EDelete)

next
  case (EAttempt now input)
  then show ?thesis
    using ok_db [OF assms(2) login_wf_createAttempt [OF assms(1) service_okD(1) [OF assms(2)]], of now input]
    by (simp add: held_token_def)
next
  case (EConsume now i)
  then show ?thesis
    using ok_db [OF assms(2) login_wf_consume [OF service_okD(1) [OF assms(2)]], of now i] by (simp add: held_token_def)
next
  case (EReopen now)
  then show ?thesis using service_okD(1) [OF assms(2)] by (simp add: service_ok_def)
qed (simp_all add: assms ok_resolve ok_config ok_provider ok_create ok_get)

lemma ok_run:
  assumes "crypto_ok cr"
  shows "service_ok cr sv \<Longrightarrow> service_ok cr (login_run cr evs sv)"
  unfolding login_run_def by (induction evs arbitrary: sv) (simp_all add: ok_step [OF assms])

lemma ok_new: "service_ok cr new_service"
  by (simp add: service_ok_def new_service_def empty_login_def login_wf_def)

section \<open>Rows that are gone\<close>

lemma get_none [simp]: "session_at k db = None \<Longrightarrow> getSessionByHash now k db = (db, None)"
  by (simp add: getSessionByHash_def session_at_def)

lemma session_at_get_gone [simp]: "session_at k db = None \<Longrightarrow> session_at k (fst (getSessionByHash now k' db)) = None"
  by (cases "k' = k") (simp_all add: row_simps)

lemma resolveHash_db: "sv_db (fst (resolveHash now k sv)) = fst (getSessionByHash now k (sv_db sv))"
  by (simp add: resolveHash_def split_beta Let_def split: option.split)

lemma session_at_gone:

  assumes "crypto_ok cr" and "service_ok cr sv" and "k \<in> drawn cr (ld_draws (sv_db sv))" and "session_at k (sv_db sv) = None"
  shows "session_at k (sv_db (fst (login_step cr ev sv))) = None"
proof (cases ev)
  case (EConfig now k' cfg)
  then show ?thesis using assms(4)
    by (cases cfg) (auto simp: recheckConfigured_def row_simps split: option.splits recheck_phase.splits)

next
  case (EProvider now k' result)
  have "session_at k (sv_db (fst (recheckAnswered now k' result sv))) = None"
  proof (cases "k' = k")
    case True
    then show ?thesis using assms(4)
      by (cases result)
        (simp_all add: recheckAnswered_def row_simps Let_def split: option.splits recheck_phase.splits prod.splits)
  next
    case False
    then show ?thesis using assms(4)
      by (cases result)
        (simp_all add: recheckAnswered_def row_simps Let_def split_beta split: option.splits recheck_phase.splits)
  qed
  then show ?thesis by (simp add: EProvider)

next
  case (ECreate now identity)
  have "k \<noteq> cr_hash cr (cr_rand cr (ld_draws (sv_db sv)))" using fresh_hash [OF assms(1)] assms(3) by metis
  then show ?thesis
    using session_at_createSession [OF assms(1) service_okD(1) [OF assms(2)]] session_at_purge [OF service_okD(1) [OF assms(2)]]
      assms(4) by (simp add: ECreate create_session_def split_beta)
next
  case (EReopen now)
  then show ?thesis using session_at_purge [OF service_okD(1) [OF assms(2)]] assms(4) by simp
next
  case (EDestroy now i)
  have "session_at k (fst (getSession cr now i (sv_db sv))) = None"
    using assms(4) by (simp add: getSession_def)

  then show ?thesis by (simp add: EDestroy destroy_def split_beta deleteSession_def row_simps)
qed (use assms(4) in \<open>auto simp: resolveHash_db row_simps\<close>)

lemma draws_step: "ld_draws (sv_db sv) \<le> ld_draws (sv_db (fst (login_step cr ev sv)))"
  by (cases ev)
    (auto simp: resolveHash_def recheckConfigured_def recheckAnswered_def create_session_def destroy_def getSession_def
      deleteSession_def split_beta Let_def split: option.splits recheck_phase.splits login_config.splits recheck_result.splits)

lemma run_Cons: "login_run cr (ev # evs) sv = login_run cr evs (fst (login_step cr ev sv))"
  by (simp add: login_run_def)

lemma run_Nil [simp]: "login_run cr [] sv = sv"
  by (simp add: login_run_def)

text \<open>A property of a key that every step keeps, on states that satisfy the invariant, holds after any run.\<close>

lemma run_keeps:
  assumes "crypto_ok cr" and "service_ok cr sv" and "P sv" and "list_all Q evs"
    and "\<And>ev s. service_ok cr s \<Longrightarrow> P s \<Longrightarrow> Q ev \<Longrightarrow> P (fst (login_step cr ev s))"
  shows "P (login_run cr evs sv) \<and> service_ok cr (login_run cr evs sv)"
  using assms(2-4)
proof (induction evs arbitrary: sv)
  case (Cons ev evs)
  have "P (fst (login_step cr ev sv))" using Cons.prems by (intro assms(5)) simp_all
  then have "P (login_run cr evs (fst (login_step cr ev sv))) \<and> service_ok cr (login_run cr evs (fst (login_step cr ev sv)))"
    using Cons.prems ok_step [OF assms(1)] by (intro Cons.IH) simp_all
  then show ?case by (simp add: run_Cons)
qed simp

lemma gone_run:
  fixes sv :: "'a login_db_scheme session_service"
  assumes "crypto_ok cr" and "service_ok cr sv" and "k \<in> drawn cr (ld_draws (sv_db sv))" and "session_at k (sv_db sv) = None"
  shows "session_at k (sv_db (login_run cr evs sv)) = None"
proof -
  let ?P = "\<lambda>s :: 'a login_db_scheme session_service. k \<in> drawn cr (ld_draws (sv_db s)) \<and> session_at k (sv_db s) = None"
  have "?P (login_run cr evs sv) \<and> service_ok cr (login_run cr evs sv)"
  proof (rule run_keeps [OF assms(1,2), where Q = "\<lambda>_. True"])
    fix ev and s :: "'a login_db_scheme session_service" assume "service_ok cr s" and "?P s"
    then show "?P (fst (login_step cr ev s))"
      using session_at_gone [OF assms(1), of s k ev] drawn_mono [OF draws_step, of cr s cr ev] by blast
  qed (use assms(3,4) in \<open>simp_all add: list_all_iff\<close>)
  then show ?thesis by simp
qed

definition attempt_at :: "string \<Rightarrow> 'a login_db_scheme \<Rightarrow> attempt_row option" where
  "attempt_at k db = sql_find at_idHash k (ld_attempts db)"

lemma attempt_at_other [simp]:
  "attempt_at k (fst (getSessionByHash now k' db)) = attempt_at k db" "attempt_at k (deleteSessionByHash k' db) = attempt_at k db"
  "attempt_at k (updateAfterCheckByHash now k' f db) = attempt_at k db"
  "attempt_at k (markCheckAttemptByHash now k' a b db) = attempt_at k db"
  by (auto simp: getSessionByHash_def deleteSessionByHash_def updateAfterCheckByHash_def markCheckAttemptByHash_def
      attempt_at_def split: option.splits)

lemma attempt_at_purge: "attempt_at k db = None \<Longrightarrow> attempt_at k (purgeExpired now db) = None"
  by (auto simp: attempt_at_def sql_find_None_iff purgeExpired_def row_simps)

lemma attempt_at_gone:
  assumes "crypto_ok cr" and "k \<in> drawn cr (ld_draws (sv_db sv))" and "attempt_at k (sv_db sv) = None"
  shows "attempt_at k (sv_db (fst (login_step cr ev sv))) = None"
proof (cases ev)
  case (EAttempt now input)
  have "k \<noteq> cr_hash cr (cr_rand cr (ld_draws (sv_db sv)))" using fresh_hash [OF assms(1)] assms(2) by metis
  then show ?thesis
    using assms(3) by (auto simp: EAttempt createAttempt_def newId_def attempt_at_def row_simps sql_find_None_iff split: option.splits
        dest!: sql_find_SomeD)

next
  case (ECreate now identity)
  then show ?thesis using attempt_at_purge [OF assms(3), of now]
    by (simp add: create_session_def createSession_def newId_def attempt_at_def)
next
  case (EConsume now i)
  then show ?thesis using assms(3)
    by (auto simp: consumeAttempt_def attempt_at_def sql_find_delete_key split: option.splits)
qed (use assms(3) in \<open>auto simp: resolveHash_def recheckConfigured_def recheckAnswered_def destroy_def getSession_def
      deleteSession_def attempt_at_purge split_beta Let_def
      split: option.splits recheck_phase.splits login_config.splits recheck_result.splits\<close>)

section \<open>A re-check under way\<close>

definition ends_recheck :: "string \<Rightarrow> login_event \<Rightarrow> bool" where
  "ends_recheck k ev \<longleftrightarrow> (case ev of EProvider _ k' _ \<Rightarrow> k' = k | EReopen _ \<Rightarrow> True | _ \<Rightarrow> False)"

lemma recheck_kept:
  assumes "jm_get (sv_inflight sv) k = Some (s, AwaitProvider)" and "\<not> ends_recheck k ev"
  shows "jm_get (sv_inflight (fst (login_step cr ev sv))) k = Some (s, AwaitProvider)"
  using assms
  by (cases ev)
    (auto simp: resolveHash_def recheckConfigured_def recheckAnswered_def create_session_def destroy_def ends_recheck_def
      row_simps jm_has_get split_beta Let_def
      split: option.splits recheck_phase.splits login_config.splits recheck_result.splits)

lemma recheck_kept_run:
  assumes "crypto_ok cr" and "service_ok cr sv" and "jm_get (sv_inflight sv) k = Some (s, AwaitProvider)"
    and "list_all (\<lambda>ev. \<not> ends_recheck k ev) evs"
  shows "jm_get (sv_inflight (login_run cr evs sv)) k = Some (s, AwaitProvider) \<and> service_ok cr (login_run cr evs sv)"
  by (rule run_keeps [OF assms(1,2) _ assms(4), where P = "\<lambda>s'. jm_get (sv_inflight s') k = Some (s, AwaitProvider)"])
    (simp_all add: assms(3) recheck_kept)

lemma held_row:
  assumes "service_ok cr sv" and "jm_get (sv_inflight sv) k = Some (s, ph)" and "session_at k (sv_db sv) = Some row"
  shows "sn_refreshToken row = sn_refreshToken s \<and> toAuthUser row = toAuthUser s"
  using service_okD(3) [OF assms(1) service_okD(4) [OF assms(1,2)]] assms(3) by (simp add: held_token_def)

section \<open>Properties\<close>

lemma run_ok: "crypto_ok cr \<Longrightarrow> service_ok cr (login_run cr evs new_service)"
  by (rule ok_run [OF _ ok_new])

lemma presents_inflight:
  assumes "login_step cr (EConfig now key cfg) sv = (sv', Presents tk uid)"
  shows "\<exists>s. jm_get (sv_inflight sv') key = Some (s, AwaitProvider) \<and> sn_refreshToken s = tk \<and> sn_uid s = uid"
  using assms by (auto simp: recheckConfigured_def row_simps split: option.splits recheck_phase.splits login_config.splits)

text \<open>
  C18: Two requests never present one refresh token at once: from the moment a re-check presents a
  session's token until the provider's answer is handled, whatever requests, sign-ins and sign-outs come
  between, no other re-check of that session reaches the provider, and the session's row, while it exists,
  still holds the token and user presented.
\<close>

theorem single_flight_recheck:
  assumes "crypto_ok cr" and "sv = login_run cr before new_service"
    and "login_step cr (EConfig now key cfg) sv = (sv', Presents tk uid)"
    and "list_all (\<lambda>ev. \<not> ends_recheck key ev) between" and "later = login_run cr between sv'"
  shows "snd (login_step cr (EConfig now' key cfg') later) = Quiet \<and>
    (\<forall>row. session_at key (sv_db later) = Some row \<longrightarrow> sn_refreshToken row = tk \<and> sn_uid row = uid)"
proof -
  have ok: "service_ok cr sv'" using ok_step [OF assms(1), of sv "EConfig now key cfg"] run_ok [OF assms(1)] assms(2,3) by simp
  obtain s where s: "jm_get (sv_inflight sv') key = Some (s, AwaitProvider)" "sn_refreshToken s = tk" "sn_uid s = uid"
    using presents_inflight [OF assms(3)] by auto
  have later: "jm_get (sv_inflight later) key = Some (s, AwaitProvider)" "service_ok cr later"
    using recheck_kept_run [OF assms(1) ok s(1) assms(4)] assms(5) by simp_all
  then have "snd (login_step cr (EConfig now' key cfg') later) = Quiet" by (simp add: recheckConfigured_def)
  then show ?thesis using held_row [OF later(2,1)] s(2,3) by (auto simp: toAuthUser_def)
qed

definition plain_crypto :: crypto where
  "plain_crypto = \<lparr>cr_hash = (\<lambda>s. CHR ''h'' # s), cr_rand = (\<lambda>n. CHR ''i'' # replicate n (CHR ''x''))\<rparr>"

lemma plain_crypto_ok: "crypto_ok plain_crypto"
  by (auto simp: crypto_ok_def plain_crypto_def inj_def replicate_eq_replicate)

definition ann :: session_identity where
  "ann = \<lparr>si_username = ''ann'', si_uid = ''u1'', si_email = None, si_groups = [''admins''], si_refreshToken = ''r1'', si_idToken = ''t1''\<rparr>"

definition checked_out :: "login_event list" where
  "checked_out = [ECreate 0 ann, EResolve 300000 ''hi'']"

lemmas login_eval = login_run_def checked_out_def new_service_def empty_login_def create_session_def createSession_def newId_def
  purgeExpired_def sql_delete_def plain_crypto_def new_session_def ann_def resolveHash_def getSessionByHash_def sql_find_def
  session_at_def SESSION_MAX_AGE_MS_def checkDue_def CHECK_INTERVAL_MS_def CHECK_RETRY_MS_def recheckConfigured_def
  recheckAnswered_def jm_get_def jm_set_def jm_has_def deleteSessionByHash_def toAuthUser_def

lemma demo_presents: "snd (login_step plain_crypto (EConfig 300001 ''hi'' Configured) (login_run plain_crypto checked_out new_service)) =
    Presents ''r1'' ''u1''"
  by (simp add: login_eval)

theorem single_flight_recheck_witness:
  "snd (login_step plain_crypto (EConfig 300003 ''hi'' Configured) (login_run plain_crypto [EResolve 300002 ''hi'', EDelete ''hi'']
      (fst (login_step plain_crypto (EConfig 300001 ''hi'' Configured) (login_run plain_crypto checked_out new_service))))) = Quiet"
proof -
  obtain sv' where e: "login_step plain_crypto (EConfig 300001 ''hi'' Configured) (login_run plain_crypto checked_out new_service) =
      (sv', Presents ''r1'' ''u1'')" using demo_presents prod.collapse by metis
  show ?thesis
    using single_flight_recheck [OF plain_crypto_ok refl e, of "[EResolve 300002 ''hi'', EDelete ''hi'']" _ 300003 Configured]
    by (simp add: ends_recheck_def e del: login_step.simps)
qed

lemma resolve_backed:
  assumes "resolveHash now key sv = (sv', Answered (Some u))"
  shows "\<exists>row. session_at key (sv_db sv) = Some row \<and> session_at key (sv_db sv') = Some row \<and> u = toAuthUser row \<and>
    now < sn_createdAt row + SESSION_MAX_AGE_MS \<and> \<not> checkDue now row \<and> sv' = sv"
  using assms
  by (cases "session_at key (sv_db sv)")
    (auto simp: resolveHash_def getSessionByHash_def session_at_def split: option.splits if_splits)



text \<open>
  Browser ids are spent for good.  A sign-in attempt that was consumed is never found again, and after
  a sign-out no request and no re-check that was under way is ever answered with the user, as long as the
  settings can be read.
\<close>

theorem ids_are_spent_once:
  assumes "crypto_ok cr" and "sv = login_run cr before new_service"
  shows "(consumeAttempt cr now i (sv_db sv) = (db, Some row) \<longrightarrow>
      snd (consumeAttempt cr now' i (sv_db (login_run cr after (sv\<lparr>sv_db := db\<rparr>)))) = None) \<and>
    (destroy cr now i sv = (sv', Some session) \<and>
       (ev = EResolve now' (cr_hash cr i) \<or> ev = EProvider now' (cr_hash cr i) result) \<longrightarrow>
      (\<nexists>u. snd (login_step cr ev (login_run cr after sv')) = Answered (Some u)))"
proof -
  have ok: "service_ok cr sv" using run_ok [OF assms(1)] assms(2) by simp
  note wf = service_okD(1) [OF ok]
  let ?k = "cr_hash cr i"
  have "snd (consumeAttempt cr now' i (sv_db (login_run cr after (sv\<lparr>sv_db := db\<rparr>)))) = None"
    if c: "consumeAttempt cr now i (sv_db sv) = (db, Some row)"
  proof -
    obtain r where r: "sql_find at_idHash ?k (ld_attempts (sv_db sv)) = Some r"
        "db = (sv_db sv)\<lparr>ld_attempts := sql_delete (\<lambda>r. at_idHash r = ?k) (ld_attempts (sv_db sv))\<rparr>"
      using c by (auto simp: consumeAttempt_def split: if_splits option.splits)
    then have k: "?k \<in> drawn cr (ld_draws (sv_db sv))" using wf by (auto simp: login_wf_def dest!: sql_find_SomeD)
    let ?P = "\<lambda>s. ?k \<in> drawn cr (ld_draws (sv_db s)) \<and> attempt_at ?k (sv_db s) = None"
    have ok': "service_ok cr (sv\<lparr>sv_db := db\<rparr>)"
      using ok_step [OF assms(1) ok, of "EConsume now i"] c by simp
    have "?P (login_run cr after (sv\<lparr>sv_db := db\<rparr>)) \<and> service_ok cr (login_run cr after (sv\<lparr>sv_db := db\<rparr>))"
    proof (rule run_keeps [OF assms(1) ok', where Q = "\<lambda>_. True"])
      fix ev and s :: "login_db session_service" assume "service_ok cr s" and "?P s"
      then show "?P (fst (login_step cr ev s))"
        using attempt_at_gone [OF assms(1), of ?k s ev] drawn_mono [OF draws_step, of cr s cr ev] by blast
    qed (use r(2) k in \<open>simp_all add: list_all_iff attempt_at_def sql_find_delete_key\<close>)
    then show ?thesis by (simp add: consumeAttempt_def attempt_at_def)
  qed
  moreover have "\<nexists>u. snd (login_step cr ev (login_run cr after sv')) = Answered (Some u)"
    if d: "destroy cr now i sv = (sv', Some session)"
      and ev: "ev = EResolve now' ?k \<or> ev = EProvider now' ?k result"
  proof -
    have at: "session_at ?k (sv_db sv) = Some session"
      using d by (auto simp: destroy_def getSession_def split_beta getSessionByHash_Some split: if_splits)
    then have k: "?k \<in> drawn cr (ld_draws (sv_db sv))"
      using wf by (auto simp: login_wf_def session_at_def dest!: sql_find_SomeD)
    have sv': "sv' = fst (login_step cr (EDestroy now i) sv)" using d by simp
    have gone: "session_at ?k (sv_db sv') = None"
      using d by (auto simp: destroy_def split_beta deleteSession_def row_simps split: if_splits)
    have ok': "service_ok cr sv'" and k': "?k \<in> drawn cr (ld_draws (sv_db sv'))"
      using ok_step [OF assms(1) ok] drawn_mono [OF draws_step] k unfolding sv' by blast+
    let ?later = "login_run cr after sv'"
    have none: "session_at ?k (sv_db ?later) = None" by (rule gone_run [OF assms(1) ok' k' gone])
    show ?thesis
      using ev none
      by (cases result)
        (auto simp: resolveHash_def recheckAnswered_def row_simps Let_def split: option.splits recheck_phase.splits)
  qed
  ultimately show ?thesis by blast
qed

definition ann_attempt :: attempt_input where
  "ann_attempt = \<lparr>ai_state = ''s'', ai_nonce = ''n'', ai_codeVerifier = ''v'', ai_returnTo = ''/'', ai_mcpPendingHash = None\<rparr>"

definition spent :: "login_event list" where
  "spent = [EAttempt 0 ann_attempt]"

theorem ids_are_spent_once_witness:
  "snd (consumeAttempt plain_crypto 6 ''i'' (sv_db (login_run plain_crypto [ECreate 5 ann]
     (fst (login_step plain_crypto (EConsume 4 ''i'') (login_run plain_crypto spent new_service)))))) = None"
proof -
  let ?sv = "login_run plain_crypto spent new_service"
  have "\<exists>row. snd (consumeAttempt plain_crypto 4 ''i'' (sv_db ?sv)) = Some row"
    by (simp add: login_eval consumeAttempt_def spent_def createAttempt_def ATTEMPT_MAX_AGE_MS_def ann_attempt_def)
  then obtain db row where e: "consumeAttempt plain_crypto 4 ''i'' (sv_db ?sv) = (db, Some row)" using prod.collapse by metis
  show ?thesis
    using ids_are_spent_once [OF plain_crypto_ok refl, of 4 "''i''" spent db row 6 "[ECreate 5 ann]"] e by auto
qed

text \<open>
  The one path that answers a user who has signed out: the settings are read after a wait, and when reading
  them fails the re-check answers with the identity it started with, without looking whether the session
  is still there, as the path for an unreachable provider does.
\<close>

theorem signed_out_user_answered:
  assumes "jm_get (sv_inflight sv) key = Some (s, AwaitConfig)"
  shows "snd (login_step cr (EConfig now key ConfigError) (fst (login_step cr (EDelete key) sv))) = Answered (Some (toAuthUser s)) \<and>
    session_at key (sv_db (fst (login_step cr (EDelete key) sv))) = None"
  using assms by (simp add: recheckConfigured_def row_simps)

end
