(* ===== verification/Mcp_OAuth.thy ===== *)
theory Mcp_OAuth
  imports Mcp_Auth_Store Login_Theorems
begin

text \<open>
  Bellhop's OAuth authorization server for \<open>/mcp\<close>: the provider (\<open>src/src/web/mcp/oauth-provider.ts\<close>), the
  API key (\<open>src/src/web/mcp/api-key.ts\<close>), and the consent page and its sign-in
  (\<open>src/src/web/mcp/consent.ts\<close>).  The state is the session service over the database that also holds the
  MCP tables.  A request's outcome is \<open>Inl\<close> with the error's message or \<open>Inr\<close>; pages and redirects are
  values.  The effective API key, the admin groups and the consent form's cookies are arguments.  The SDK
  in front checks request shapes, PKCE and redirect URIs; it is not part of the repository.
\<close>

type_synonym mcp_state = "auth_db session_service"

definition on_db :: "(auth_db \<Rightarrow> auth_db \<times> 'r) \<Rightarrow> mcp_state \<Rightarrow> mcp_state \<times> 'r" where
  "on_db f sv = (let (db, r) = f (sv_db sv) in (sv\<lparr>sv_db := db\<rparr>, r))"

section \<open>Consent\<close>

definition consentCookieName :: "string \<Rightarrow> string" where
  "consentCookieName pendingHash = ''bellhop_mcp_'' @ take 16 pendingHash"

definition authorize :: "crypto \<Rightarrow> ms \<Rightarrow> pending_input \<Rightarrow> mcp_state \<Rightarrow> mcp_state \<times> string" where
  "authorize cr now input sv = on_db (createPending cr now input) sv"

datatype decision = Approve | Deny

datatype consent_reply =
    ConsentExpired
  | ErrorRedirect string string "string option"
  | BeginSignIn string
  | NotAdmin
  | CodeRedirect string string "string option"

definition postConsent ::
  "crypto \<Rightarrow> ms \<Rightarrow> string \<Rightarrow> decision \<Rightarrow> (string \<Rightarrow> string option) \<Rightarrow> mcp_state \<Rightarrow> mcp_state \<times> consent_reply" where
  "postConsent cr now pending decision cookies sv =
     (let pendingHash = cr_hash cr pending
      in if \<not> (1 \<le> length pending \<and> length pending \<le> 200) then (sv, ConsentExpired)
         else case getPending now pendingHash (sv_db sv) of
           None \<Rightarrow> (sv, ConsentExpired)
         | Some p \<Rightarrow>
             if cookies (consentCookieName pendingHash) \<noteq> Some pending then (sv, ConsentExpired)
             else (case decision of
                 Deny \<Rightarrow>
                   (fst (on_db (consumePending now pendingHash) sv),
                    ErrorRedirect (pe_redirectUri p) ''access_denied'' (pe_state p))
               | Approve \<Rightarrow>
                   (sv\<lparr>sv_db := touchPending now pendingHash (sv_db sv)\<rparr>, BeginSignIn pendingHash)))"

definition finishSignIn ::
  "crypto \<Rightarrow> ms \<Rightarrow> admin_groups \<Rightarrow> string \<Rightarrow> session_identity \<Rightarrow> mcp_state \<Rightarrow> mcp_state \<times> consent_reply" where
  "finishSignIn cr now cfg pendingHash identity sv =
     (let (sv1, pending) = on_db (consumePending now pendingHash) sv
      in case pending of
           None \<Rightarrow> (sv1, ConsentExpired)
         | Some p \<Rightarrow>
             if \<not> isAdminUser cfg (si_groups identity) then (sv1, NotAdmin)
             else
               let (sv2, sessionHash) = createDetached cr now identity sv1;
                   (sv3, code) = on_db (issueCode cr now
                     \<lparr>co_clientId = pe_clientId p, co_redirectUri = pe_redirectUri p,
                      co_codeChallenge = pe_codeChallenge p, co_resource = pe_resource p,
                      co_sessionHash = sessionHash\<rparr>) sv2
               in (sv3, CodeRedirect (pe_redirectUri p) code (pe_state p)))"

definition failSignIn :: "ms \<Rightarrow> string \<Rightarrow> string \<Rightarrow> mcp_state \<Rightarrow> mcp_state \<times> consent_reply" where
  "failSignIn now pendingHash err sv =
     (let (sv1, pending) = on_db (consumePending now pendingHash) sv
      in case pending of
           None \<Rightarrow> (sv1, ConsentExpired)
         | Some p \<Rightarrow> (sv1, ErrorRedirect (pe_redirectUri p) err (pe_state p)))"

section \<open>Tokens\<close>

definition challengeForAuthorizationCode :: "crypto \<Rightarrow> ms \<Rightarrow> string \<Rightarrow> string \<Rightarrow> mcp_state \<Rightarrow> string + string" where
  "challengeForAuthorizationCode cr now clientId authorizationCode sv =
     (case peekCode cr now clientId authorizationCode (sv_db sv) of
        None \<Rightarrow> Inl ''Invalid or expired authorization code''
      | Some code \<Rightarrow> Inr (co_codeChallenge code))"

definition exchangeAuthorizationCode ::
  "crypto \<Rightarrow> ms \<Rightarrow> string \<Rightarrow> string \<Rightarrow> string option \<Rightarrow> string option \<Rightarrow> mcp_state \<Rightarrow>
   mcp_state \<times> (string + issued_tokens)" where
  "exchangeAuthorizationCode cr now clientId authorizationCode redirectUri resource sv =
     (let (sv1, consumed) = on_db (consumeCode cr now clientId authorizationCode) sv
      in case consumed of
           None \<Rightarrow> (sv1, Inl ''Invalid or expired authorization code'')
         | Some code \<Rightarrow>
             if redirectUri \<noteq> None \<and> redirectUri \<noteq> Some (co_redirectUri code)
             then (sv1, Inl ''redirect_uri does not match the authorization request'')
             else if resource \<noteq> None \<and> co_resource code \<noteq> None \<and> resource \<noteq> co_resource code
             then (sv1, Inl ''resource does not match the authorization request'')
             else
               let (sv2, session) = on_db (getSessionByHash now (co_sessionHash code)) sv1
               in if session = None
                  then (sv2, Inl ''The sign-in behind this code has ended; sign in again'')
                  else
                    let (sv3, issued) = on_db (createGrant cr now clientId (co_sessionHash code) (co_resource code)) sv2
                    in (sv3, Inr issued))"

definition exchangeRefreshToken ::
  "crypto \<Rightarrow> ms \<Rightarrow> string \<Rightarrow> string \<Rightarrow> mcp_state \<Rightarrow> mcp_state \<times> (string + issued_tokens)" where
  "exchangeRefreshToken cr now clientId refreshToken sv =
     (let (sv1, rotated) = on_db (rotateRefresh cr now clientId refreshToken) sv
      in case rotated of
           None \<Rightarrow> (sv1, Inl ''Invalid refresh token'')
         | Some (issued, sessionHash) \<Rightarrow>
             let (sv2, session) = on_db (getSessionByHash now sessionHash) sv1
             in if session = None
                then (fst (on_db (deleteGrant (is_grantId issued)) sv2),
                      Inl ''The sign-in behind this token has ended; sign in again'')
                else (sv2, Inr issued))"

text \<open>
  \<open>verifyAccessToken\<close>.  The session's user may need a re-check: then the request waits, and is finished
  by \<open>verifyFinish\<close> with what the re-check answers.
\<close>

datatype access_outcome =
    ByApiKey
  | ByGrant nat string ms
  | TokenInvalid string
  | Forbidden string
  | Rechecking access_record

definition verifyApiKey :: "crypto \<Rightarrow> string option \<Rightarrow> string \<Rightarrow> bool" where
  "verifyApiKey cr key presented = (case key of None \<Rightarrow> False | Some k \<Rightarrow> cr_hash cr presented = cr_hash cr k)"

definition verifyFinish :: "admin_groups \<Rightarrow> access_record \<Rightarrow> auth_user option \<Rightarrow> mcp_state \<Rightarrow> mcp_state \<times> access_outcome" where
  "verifyFinish cfg access user sv =
     (case user of
        None \<Rightarrow>
          (fst (on_db (deleteGrant (ar_grantId access)) sv),
           TokenInvalid ''The sign-in behind this token has ended; sign in again'')
      | Some u \<Rightarrow>
          if \<not> isAdminUser cfg (au_groups u) then (sv, Forbidden ''MCP access is limited to Bellhop admins'')
          else (sv, ByGrant (ar_grantId access) (au_username u) (ar_expiresAt access)))"

definition verifyAccessToken ::
  "crypto \<Rightarrow> ms \<Rightarrow> admin_groups \<Rightarrow> string option \<Rightarrow> string \<Rightarrow> mcp_state \<Rightarrow> mcp_state \<times> access_outcome" where
  "verifyAccessToken cr now cfg key token sv =
     (if verifyApiKey cr key token then (sv, ByApiKey)
      else case resolveAccess cr now token (sv_db sv) of
        None \<Rightarrow> (sv, TokenInvalid ''Invalid or expired token'')
      | Some access \<Rightarrow>
          let (sv1, answer) = resolveHash now (ar_sessionHash access) sv
          in (case answer of
                Answered user \<Rightarrow> verifyFinish cfg access user sv1
              | _ \<Rightarrow> (sv1, Rechecking access)))"

definition revokeToken :: "crypto \<Rightarrow> string \<Rightarrow> string \<Rightarrow> mcp_state \<Rightarrow> mcp_state" where
  "revokeToken cr clientId token sv =
     (let (sv1, sessionHash) = on_db (revoke cr clientId token) sv
      in case sessionHash of None \<Rightarrow> sv1 | Some h \<Rightarrow> sv1\<lparr>sv_db := deleteSessionByHash h (sv_db sv1)\<rparr>)"

section \<open>Everything that happens to the database\<close>

datatype mcp_event =
    MLogin login_event
  | MRegister ms string string
  | MAuthorize ms pending_input
  | MConsent ms string decision "string \<Rightarrow> string option"
  | MFinish ms admin_groups string session_identity
  | MFail ms string string
  | MExchange ms string string "string option" "string option"
  | MRefresh ms string string
  | MVerify ms admin_groups "string option" string
  | MVerified admin_groups access_record "auth_user option"
  | MRevoke string string

fun mcp_step :: "crypto \<Rightarrow> mcp_event \<Rightarrow> mcp_state \<Rightarrow> mcp_state" where
  "mcp_step cr (MLogin ev) sv = fst (login_step cr ev sv)"
| "mcp_step cr (MRegister now i info) sv = sv\<lparr>sv_db := saveClient now i info (sv_db sv)\<rparr>"
| "mcp_step cr (MAuthorize now input) sv = fst (authorize cr now input sv)"
| "mcp_step cr (MConsent now pending dec cookies) sv = fst (postConsent cr now pending dec cookies sv)"
| "mcp_step cr (MFinish now cfg h identity) sv = fst (finishSignIn cr now cfg h identity sv)"
| "mcp_step cr (MFail now h err) sv = fst (failSignIn now h err sv)"
| "mcp_step cr (MExchange now cl code ru rs) sv = fst (exchangeAuthorizationCode cr now cl code ru rs sv)"
| "mcp_step cr (MRefresh now cl token) sv = fst (exchangeRefreshToken cr now cl token sv)"
| "mcp_step cr (MVerify now cfg key token) sv = fst (verifyAccessToken cr now cfg key token sv)"
| "mcp_step cr (MVerified cfg access user) sv = fst (verifyFinish cfg access user sv)"
| "mcp_step cr (MRevoke cl token) sv = revokeToken cr cl token sv"

definition mcp_run :: "crypto \<Rightarrow> mcp_event list \<Rightarrow> mcp_state \<Rightarrow> mcp_state" where
  "mcp_run cr evs sv = fold (mcp_step cr) evs sv"

definition new_mcp :: mcp_state where
  "new_mcp = \<lparr>sv_db = empty_auth, sv_inflight = []\<rparr>"

end
