(* ===== verification/Mcp_Invariant.thy ===== *)
theory Mcp_Invariant
  imports Mcp_OAuth
begin

text \<open>
  The invariant of the authorization server's tables and how the database may evolve: every stored secret
  is the hash of a drawn one, ids and hashes are distinct, and a step adds only fresh secrets and grant ids.
  The locale \<open>auth_operation\<close> is the contract of one statement; it is interpreted on every operation of
  \<open>Mcp_Auth_Store\<close>, and the login's own steps satisfy the same relation.
\<close>

section \<open>How the database may evolve\<close>

datatype secret_kind = KSession | KAttempt | KPending | KCode | KRefresh | KAccess

fun secrets :: "secret_kind \<Rightarrow> auth_db \<Rightarrow> string set" where
  "secrets KSession db = sn_idHash ` set (ld_sessions db)"
| "secrets KAttempt db = at_idHash ` set (ld_attempts db)"
| "secrets KPending db = pn_idHash ` set (ma_pending db)"
| "secrets KCode db = cd_codeHash ` set (ma_codes db)"
| "secrets KRefresh db = gr_refreshHash ` set (ma_grants db)"
| "secrets KAccess db = tk_hash ` set (ma_tokens db)"

definition fresh_hashes :: "crypto \<Rightarrow> nat \<Rightarrow> string set" where
  "fresh_hashes cr n = (\<lambda>k. cr_hash cr (cr_rand cr k)) ` {n..}"

definition grant_ids :: "auth_db \<Rightarrow> nat set" where
  "grant_ids db = gr_id ` set (ma_grants db)"

definition auth_le :: "crypto \<Rightarrow> auth_db \<Rightarrow> auth_db \<Rightarrow> bool" where
  "auth_le cr db db' \<longleftrightarrow> ld_draws db \<le> ld_draws db' \<and> ma_grantSeq db \<le> ma_grantSeq db' \<and>
     (\<forall>kd. secrets kd db' \<subseteq> secrets kd db \<union> fresh_hashes cr (ld_draws db)) \<and>
     grant_ids db' \<subseteq> grant_ids db \<union> {ma_grantSeq db <..}"

lemma fresh_hashes_mono: "m \<le> n \<Longrightarrow> fresh_hashes cr n \<subseteq> fresh_hashes cr m"
  by (auto simp: fresh_hashes_def)

lemma fresh_hashes_drawn: "crypto_ok cr \<Longrightarrow> fresh_hashes cr n \<inter> drawn cr n = {}"
  by (fastforce simp: fresh_hashes_def drawn_def crypto_ok_def dest: injD)

lemma auth_le_refl [simp]: "auth_le cr db db"
  by (simp add: auth_le_def)

lemma auth_le_trans: "auth_le cr a b \<Longrightarrow> auth_le cr b c \<Longrightarrow> auth_le cr a c"
  using fresh_hashes_mono [of "ld_draws a" "ld_draws b" cr] unfolding auth_le_def
  by (smt (verit, ccfv_threshold) Un_iff greaterThan_iff le_less_trans le_trans subset_iff)

lemma secret_stays_spent:
  assumes "crypto_ok cr" and "auth_le cr db db'" and "h \<in> drawn cr (ld_draws db)" and "h \<notin> secrets kd db"
  shows "h \<notin> secrets kd db'"
  using assms fresh_hashes_drawn [OF assms(1), of "ld_draws db"] unfolding auth_le_def by blast

lemma grant_stays_gone:
  assumes "auth_le cr db db'" and "g \<le> ma_grantSeq db" and "g \<notin> grant_ids db"
  shows "g \<notin> grant_ids db'"
  using assms by (auto simp: auth_le_def)

section \<open>The invariant of the tables\<close>

definition mcp_ok :: "crypto \<Rightarrow> auth_db \<Rightarrow> bool" where
  "mcp_ok cr db \<longleftrightarrow>
     (\<forall>kd \<in> {KPending, KCode, KRefresh, KAccess}. secrets kd db \<subseteq> drawn cr (ld_draws db)) \<and>
     distinct (map pn_idHash (ma_pending db)) \<and> distinct (map cd_codeHash (ma_codes db)) \<and>
     distinct (map tk_hash (ma_tokens db)) \<and>
     distinct (map gr_id (ma_grants db)) \<and> distinct (map gr_refreshHash (ma_grants db)) \<and>
     grant_ids db \<subseteq> {.. ma_grantSeq db} \<and>
     gr_sessionHash ` set (ma_grants db) \<subseteq> drawn cr (ld_draws db) \<and>
     (\<lambda>c. co_sessionHash (cd_input c)) ` set (ma_codes db) \<subseteq> drawn cr (ld_draws db)"

lemmas mcp_ok_defs = mcp_ok_def grant_ids_def

lemma mcp_ok_newId: "mcp_ok cr db \<Longrightarrow> mcp_ok cr (snd (newId cr db))"
  by (auto simp: mcp_ok_defs newId_def drawn_Suc)

text \<open>The contract of a statement of the authorization server: it keeps the tables well formed, adds fresh secrets only, and leaves the login's tables alone.  The precondition says what a call relies on.\<close>

locale auth_operation =
  fixes cr :: crypto and pre :: "auth_db \<Rightarrow> bool" and f :: "auth_db \<Rightarrow> auth_db \<times> 'r"
  assumes keeps_ok: "crypto_ok cr \<Longrightarrow> mcp_ok cr db \<Longrightarrow> pre db \<Longrightarrow> mcp_ok cr (fst (f db))"
    and evolves: "auth_le cr db (fst (f db))"
    and login_kept: "ld_sessions (fst (f db)) = ld_sessions db" "ld_attempts (fst (f db)) = ld_attempts db"
begin

lemma on_db_ok:
  assumes "crypto_ok cr" and "service_ok cr sv" and "mcp_ok cr (sv_db sv)" and "pre (sv_db sv)"
  shows "service_ok cr (fst (on_db f sv)) \<and> mcp_ok cr (sv_db (fst (on_db f sv))) \<and>
    auth_le cr (sv_db sv) (sv_db (fst (on_db f sv)))"
proof -
  have le: "ld_draws (sv_db sv) \<le> ld_draws (fst (f (sv_db sv)))" using evolves by (simp add: auth_le_def)
  have at: "session_at k (fst (f (sv_db sv))) = session_at k (sv_db sv)" for k by (simp add: session_at_def login_kept)
  have wf: "login_wf cr (fst (f (sv_db sv)))"
    using service_okD(1) [OF assms(2)] drawn_mono [OF le, of cr] by (auto simp: login_wf_def login_kept)
  have "service_ok cr (sv\<lparr>sv_db := fst (f (sv_db sv))\<rparr>)"
    by (rule ok_db [OF assms(2) wf le]) (simp add: held_token_def at)
  then show ?thesis using keeps_ok [OF assms(1,3,4)] evolves by (simp add: on_db_def split_beta)
qed

lemma on_db_session: "session_at k (sv_db (fst (on_db f sv))) = session_at k (sv_db sv)"
  by (simp add: on_db_def split_beta session_at_def login_kept)

end

lemma next_hash_fresh: "cr_hash cr (cr_rand cr n) \<in> fresh_hashes cr n"
  by (auto simp: fresh_hashes_def)

lemma auth_leI:
  assumes "ld_draws db \<le> ld_draws db'" and "ma_grantSeq db \<le> ma_grantSeq db'"
    and "\<And>kd. secrets kd db' \<subseteq> secrets kd db \<union> fresh_hashes cr (ld_draws db)"
    and "grant_ids db' \<subseteq> grant_ids db \<union> {ma_grantSeq db <..}"
  shows "auth_le cr db db'"
  using assms by (simp add: auth_le_def)

interpretation create_pending: auth_operation cr "\<lambda>_. True" "createPending cr now input" for cr now input
proof
  fix db assume "crypto_ok cr" and ok: "mcp_ok cr db"
  then have "cr_hash cr (cr_rand cr (ld_draws db)) \<notin> secrets KPending db"
    using fresh_hash [of cr "ld_draws db"] by (auto simp: mcp_ok_def)
  then show "mcp_ok cr (fst (createPending cr now input db))"
    using ok by (auto simp: mcp_ok_defs createPending_def newId_def drawn_Suc row_simps sql_delete_distinct)
next
  show "auth_le cr db (fst (createPending cr now input db))" for db
  proof (rule auth_leI)
    show "secrets kd (fst (createPending cr now input db)) \<subseteq> secrets kd db \<union> fresh_hashes cr (ld_draws db)" for kd
      by (cases kd) (auto simp: createPending_def newId_def row_simps next_hash_fresh)
  qed (auto simp: createPending_def newId_def grant_ids_def)
qed (simp_all add: createPending_def newId_def)

lemma distinct_drop: "distinct (map h xs) \<Longrightarrow> h ` set (sql_delete P xs) \<subseteq> h ` set xs \<and> distinct (map h (sql_delete P xs))"
  by (auto simp: row_simps sql_delete_distinct)

interpretation consume_pending: auth_operation cr "\<lambda>_. True" "consumePending now h" for cr now h
proof
  show "mcp_ok cr (fst (consumePending now h db))" if "mcp_ok cr db" for db
    using that by (auto simp: mcp_ok_defs consumePending_def row_simps sql_delete_distinct split: option.splits)
  show "auth_le cr db (fst (consumePending now h db))" for db
  proof (rule auth_leI)
    show "secrets kd (fst (consumePending now h db)) \<subseteq> secrets kd db \<union> fresh_hashes cr (ld_draws db)" for kd
      by (cases kd) (auto simp: consumePending_def row_simps split: option.splits)
  qed (auto simp: consumePending_def grant_ids_def split: option.splits)
qed (simp_all add: consumePending_def split: option.splits)

interpretation touch_upd: keyed_update pn_idHash "\<lambda>r. r\<lparr>pn_createdAt := now\<rparr>" for now
  by unfold_locales simp

interpretation touch_pending: auth_operation cr "\<lambda>_. True" "\<lambda>db. (touchPending now h db, ())" for cr now h
proof
  show "mcp_ok cr (fst (touchPending now h db, ()))" if "mcp_ok cr db" for db
    using that by (simp add: mcp_ok_defs touchPending_def touch_upd.keys_kept touch_upd.key_image)
  show "auth_le cr db (fst (touchPending now h db, ()))" for db
  proof (rule auth_leI)
    show "secrets kd (fst (touchPending now h db, ())) \<subseteq> secrets kd db \<union> fresh_hashes cr (ld_draws db)" for kd
      by (cases kd) (simp_all add: touchPending_def touch_upd.key_image)
  qed (auto simp: touchPending_def grant_ids_def)
qed (simp_all add: touchPending_def)

interpretation save_client: auth_operation cr "\<lambda>_. True" "\<lambda>db. (saveClient now i info db, ())" for cr now i info
proof
  show "mcp_ok cr (fst (saveClient now i info db, ()))" if "mcp_ok cr db" for db
    using that by (simp add: mcp_ok_defs saveClient_def Let_def)
  show "auth_le cr db (fst (saveClient now i info db, ()))" for db
  proof (rule auth_leI)
    show "secrets kd (fst (saveClient now i info db, ())) \<subseteq> secrets kd db \<union> fresh_hashes cr (ld_draws db)" for kd
      by (cases kd) (simp_all add: saveClient_def Let_def)
  qed (auto simp: saveClient_def grant_ids_def Let_def)
qed (simp_all add: saveClient_def Let_def)

interpretation issue_code: auth_operation cr "\<lambda>db. co_sessionHash input \<in> drawn cr (ld_draws db)" "issueCode cr now input"
  for cr now input
proof
  fix db assume "crypto_ok cr" and ok: "mcp_ok cr db" and pre: "co_sessionHash input \<in> drawn cr (ld_draws db)"
  then have "cr_hash cr (cr_rand cr (ld_draws db)) \<notin> secrets KCode db"
    using fresh_hash [of cr "ld_draws db"] by (auto simp: mcp_ok_def)
  then show "mcp_ok cr (fst (issueCode cr now input db))"
    using ok pre by (auto simp: mcp_ok_defs issueCode_def newId_def drawn_Suc row_simps sql_delete_distinct)
next
  show "auth_le cr db (fst (issueCode cr now input db))" for db
  proof (rule auth_leI)
    show "secrets kd (fst (issueCode cr now input db)) \<subseteq> secrets kd db \<union> fresh_hashes cr (ld_draws db)" for kd
      by (cases kd) (auto simp: issueCode_def newId_def row_simps next_hash_fresh)
  qed (auto simp: issueCode_def newId_def grant_ids_def)
qed (simp_all add: issueCode_def newId_def)

interpretation consume_code: auth_operation cr "\<lambda>_. True" "consumeCode cr now cl code" for cr now cl code
proof
  show "mcp_ok cr (fst (consumeCode cr now cl code db))" if "mcp_ok cr db" for db
    using that by (auto simp: mcp_ok_defs consumeCode_def row_simps sql_delete_distinct split: option.splits)
  show "auth_le cr db (fst (consumeCode cr now cl code db))" for db
  proof (rule auth_leI)
    show "secrets kd (fst (consumeCode cr now cl code db)) \<subseteq> secrets kd db \<union> fresh_hashes cr (ld_draws db)" for kd
      by (cases kd) (auto simp: consumeCode_def row_simps split: option.splits)
  qed (auto simp: consumeCode_def grant_ids_def split: option.splits)
qed (simp_all add: consumeCode_def split: option.splits)

interpretation delete_grant: auth_operation cr "\<lambda>_. True" "deleteGrant g" for cr g
proof
  show "mcp_ok cr (fst (deleteGrant g db))" if "mcp_ok cr db" for db
    using that by (auto simp: mcp_ok_defs deleteGrant_def row_simps sql_delete_distinct)
  show "auth_le cr db (fst (deleteGrant g db))" for db
  proof (rule auth_leI)
    show "secrets kd (fst (deleteGrant g db)) \<subseteq> secrets kd db \<union> fresh_hashes cr (ld_draws db)" for kd
      by (cases kd) (auto simp: deleteGrant_def row_simps)
  qed (auto simp: deleteGrant_def grant_ids_def row_simps)
qed (simp_all add: deleteGrant_def)

interpretation issue_access: auth_operation cr "\<lambda>_. True" "issueAccess cr now g" for cr now g
proof
  fix db assume "crypto_ok cr" and ok: "mcp_ok cr db"
  then have "cr_hash cr (cr_rand cr (ld_draws db)) \<notin> secrets KAccess db"
    using fresh_hash [of cr "ld_draws db"] by (auto simp: mcp_ok_def)
  then show "mcp_ok cr (fst (issueAccess cr now g db))"
    using ok by (auto simp: mcp_ok_defs issueAccess_def newId_def drawn_Suc row_simps sql_delete_distinct)
next
  show "auth_le cr db (fst (issueAccess cr now g db))" for db
  proof (rule auth_leI)
    show "secrets kd (fst (issueAccess cr now g db)) \<subseteq> secrets kd db \<union> fresh_hashes cr (ld_draws db)" for kd
      by (cases kd) (auto simp: issueAccess_def newId_def row_simps next_hash_fresh)
  qed (auto simp: issueAccess_def newId_def grant_ids_def)
qed (simp_all add: issueAccess_def newId_def)

definition grant_inserted :: "crypto \<Rightarrow> ms \<Rightarrow> string \<Rightarrow> string \<Rightarrow> string option \<Rightarrow> auth_db \<Rightarrow> auth_db" where
  "grant_inserted cr now cl sh res db =
     (let db2 = purgeGrants (now - SESSION_MAX_AGE_MS) (snd (newId cr db))
      in db2\<lparr>ma_clients := sql_update cl_id cl (\<lambda>c. c\<lparr>cl_used := True\<rparr>) (ma_clients db2),
             ma_grantSeq := ma_grantSeq db + 1,
             ma_grants := ma_grants db2 @
               [\<lparr>gr_id = ma_grantSeq db + 1, gr_clientId = cl, gr_sessionHash = sh,
                 gr_refreshHash = cr_hash cr (cr_rand cr (ld_draws db)), gr_resource = res, gr_createdAt = now\<rparr>]\<rparr>)"

lemma createGrant_eq:
  "createGrant cr now cl sh res db =
     (let (db5, token, seconds) = issueAccess cr now (ma_grantSeq db + 1) (grant_inserted cr now cl sh res db)
      in (db5, \<lparr>is_grantId = ma_grantSeq db + 1, is_accessToken = token,
                is_refreshToken = cr_rand cr (ld_draws db), is_expiresInSeconds = seconds\<rparr>))"
  by (simp add: createGrant_def grant_inserted_def newId_def purgeGrants_def Let_def)

lemma grant_inserted_ok:
  assumes "crypto_ok cr" and ok: "mcp_ok cr db" and pre: "sh \<in> drawn cr (ld_draws db)"
  shows "mcp_ok cr (grant_inserted cr now cl sh res db)"
proof -
  have "cr_hash cr (cr_rand cr (ld_draws db)) \<notin> secrets KRefresh db"
    using fresh_hash [OF assms(1), of "ld_draws db"] ok by (auto simp: mcp_ok_def)
  then show ?thesis
    using ok pre
    by (auto simp: mcp_ok_defs grant_inserted_def purgeGrants_def newId_def drawn_Suc row_simps sql_delete_distinct Let_def
        image_iff subset_iff)
qed

lemma grant_inserted_le: "auth_le cr db (grant_inserted cr now cl sh res db)"
proof (rule auth_leI)
  show "secrets kd (grant_inserted cr now cl sh res db) \<subseteq> secrets kd db \<union> fresh_hashes cr (ld_draws db)" for kd
    by (cases kd) (auto simp: grant_inserted_def purgeGrants_def newId_def row_simps next_hash_fresh Let_def)
qed (auto simp: grant_inserted_def purgeGrants_def newId_def grant_ids_def row_simps Let_def)

interpretation create_grant: auth_operation cr "\<lambda>db. sh \<in> drawn cr (ld_draws db)" "createGrant cr now cl sh res"
  for cr now cl sh res
proof
  have fst_eq: "fst (createGrant cr now cl sh res db) =
      fst (issueAccess cr now (ma_grantSeq db + 1) (grant_inserted cr now cl sh res db))" for db
    by (simp add: createGrant_eq split_beta)
  show "mcp_ok cr (fst (createGrant cr now cl sh res db))"
    if "crypto_ok cr" and "mcp_ok cr db" and "sh \<in> drawn cr (ld_draws db)" for db
    unfolding fst_eq using issue_access.keeps_ok grant_inserted_ok that by blast
  show "auth_le cr db (fst (createGrant cr now cl sh res db))" for db
    unfolding fst_eq by (rule auth_le_trans [OF grant_inserted_le issue_access.evolves])
  show "ld_sessions (fst (createGrant cr now cl sh res db)) = ld_sessions db"
    "ld_attempts (fst (createGrant cr now cl sh res db)) = ld_attempts db" for db
    unfolding fst_eq issue_access.login_kept by (simp_all add: grant_inserted_def purgeGrants_def newId_def Let_def)
qed

interpretation refresh_upd: keyed_update gr_id "\<lambda>r. r\<lparr>gr_refreshHash := h\<rparr>" for h
  by unfold_locales simp

definition grant_rotated :: "crypto \<Rightarrow> nat \<Rightarrow> auth_db \<Rightarrow> auth_db" where
  "grant_rotated cr g db =
     (snd (newId cr db))\<lparr>ma_grants := sql_update gr_id g (\<lambda>r. r\<lparr>gr_refreshHash := cr_hash cr (cr_rand cr (ld_draws db))\<rparr>)
        (ma_grants db)\<rparr>"

lemma rotateRefresh_eq:
  "rotateRefresh cr now cl token db =
     (case sql_find gr_refreshHash (cr_hash cr token) (ma_grants db) of
        None \<Rightarrow> (db, None)
      | Some g \<Rightarrow>
          if gr_clientId g \<noteq> cl then (db, None)
          else let (db3, token, seconds) = issueAccess cr now (gr_id g) (grant_rotated cr (gr_id g) db)
               in (db3, Some (\<lparr>is_grantId = gr_id g, is_accessToken = token,
                     is_refreshToken = cr_rand cr (ld_draws db), is_expiresInSeconds = seconds\<rparr>, gr_sessionHash g)))"
  by (simp add: rotateRefresh_def grant_rotated_def newId_def split: option.split)

lemma refresh_rows_sub:
  "gr_refreshHash ` set (sql_update gr_id g (\<lambda>r. r\<lparr>gr_refreshHash := h\<rparr>) rows) \<subseteq> insert h (gr_refreshHash ` set rows)"
  by (auto simp: set_sql_update)

lemma refresh_rows_session: "gr_sessionHash ` set (sql_update gr_id g (\<lambda>r. r\<lparr>gr_refreshHash := h\<rparr>) rows) = gr_sessionHash ` set rows"
proof -
  have "map gr_sessionHash (sql_update gr_id g (\<lambda>r. r\<lparr>gr_refreshHash := h\<rparr>) rows) = map gr_sessionHash rows"
    by (simp add: sql_update_def)
  then show ?thesis by (metis set_map)
qed

lemma refresh_rows_distinct:
  assumes "distinct (map gr_id rows)" and "distinct (map gr_refreshHash rows)" and "h \<notin> gr_refreshHash ` set rows"
  shows "distinct (map gr_refreshHash (sql_update gr_id g (\<lambda>r. r\<lparr>gr_refreshHash := h\<rparr>) rows))"
  using assms
proof (induction rows)
  case (Cons r rows)
  let ?f = "\<lambda>r. r\<lparr>gr_refreshHash := h\<rparr>"
  have Cons_eq: "sql_update gr_id g ?f (r # rows) = (if gr_id r = g then ?f r else r) # sql_update gr_id g ?f rows"
    by (simp add: sql_update_def)
  show ?case
  proof (cases "gr_id r = g")
    case True
    then have "sql_update gr_id g ?f rows = rows" using Cons.prems(1) by (intro sql_update_absent) auto
    then show ?thesis using Cons.prems True unfolding Cons_eq by simp
  next
    case False
    have "gr_refreshHash r \<notin> gr_refreshHash ` set (sql_update gr_id g ?f rows)"
      using refresh_rows_sub [of g h rows] Cons.prems by auto
    then show ?thesis using Cons False unfolding Cons_eq by simp
  qed
qed (simp add: sql_update_def)

lemma grant_rotated_ok:
  assumes "crypto_ok cr" and ok: "mcp_ok cr db"
  shows "mcp_ok cr (grant_rotated cr g db)"
proof -
  let ?h = "cr_hash cr (cr_rand cr (ld_draws db))"
  have "?h \<notin> gr_refreshHash ` set (ma_grants db)"
    using fresh_hash [OF assms(1), of "ld_draws db"] ok by (auto simp: mcp_ok_def)
  then have "distinct (map gr_refreshHash (sql_update gr_id g (\<lambda>r. r\<lparr>gr_refreshHash := ?h\<rparr>) (ma_grants db)))"
    using ok by (intro refresh_rows_distinct) (simp_all add: mcp_ok_def)
  moreover have "gr_refreshHash ` set (sql_update gr_id g (\<lambda>r. r\<lparr>gr_refreshHash := ?h\<rparr>) (ma_grants db)) \<subseteq>
      insert ?h (drawn cr (ld_draws db))"
    using refresh_rows_sub [of g ?h "ma_grants db"] ok by (auto simp: mcp_ok_def dest!: subsetD)
  ultimately show ?thesis
    using ok by (simp add: mcp_ok_defs grant_rotated_def newId_def drawn_Suc refresh_upd.keys_kept refresh_upd.key_image
        refresh_rows_session subset_insertI2)
qed

lemma grant_rotated_le: "auth_le cr db (grant_rotated cr g db)"
proof (rule auth_leI)
  show "secrets kd (grant_rotated cr g db) \<subseteq> secrets kd db \<union> fresh_hashes cr (ld_draws db)" for kd
    using refresh_rows_sub [of g "cr_hash cr (cr_rand cr (ld_draws db))" "ma_grants db"] next_hash_fresh [of cr "ld_draws db"]
    by (cases kd) (auto simp: grant_rotated_def newId_def)
qed (auto simp: grant_rotated_def newId_def grant_ids_def refresh_upd.key_image)

interpretation rotate_refresh: auth_operation cr "\<lambda>_. True" "rotateRefresh cr now cl token" for cr now cl token
proof
  show "mcp_ok cr (fst (rotateRefresh cr now cl token db))" if "crypto_ok cr" and "mcp_ok cr db" for db
    using that issue_access.keeps_ok grant_rotated_ok
    by (auto simp: rotateRefresh_eq split_beta split: option.split)
  show "auth_le cr db (fst (rotateRefresh cr now cl token db))" for db
    using auth_le_trans [OF grant_rotated_le issue_access.evolves]
    by (auto simp: rotateRefresh_eq split_beta split: option.split)
  show "ld_sessions (fst (rotateRefresh cr now cl token db)) = ld_sessions db"
    "ld_attempts (fst (rotateRefresh cr now cl token db)) = ld_attempts db" for db
    by (simp_all add: rotateRefresh_eq split_beta issue_access.login_kept grant_rotated_def newId_def split: option.split)
qed

interpretation revoke_op: auth_operation cr "\<lambda>_. True" "revoke cr cl token" for cr cl token
proof
  show "mcp_ok cr (fst (revoke cr cl token db))" if "crypto_ok cr" and "mcp_ok cr db" for db
    using that delete_grant.keeps_ok
    by (auto simp: revoke_def split: option.split) (auto simp: mcp_ok_defs row_simps sql_delete_distinct Let_def)
  show "auth_le cr db (fst (revoke cr cl token db))" for db
  proof (cases "sql_find gr_refreshHash (cr_hash cr token) (ma_grants db)")
    case None
    have "auth_le cr db (db\<lparr>ma_tokens := sql_delete P (ma_tokens db)\<rparr>)" for P
    proof (rule auth_leI)
      show "secrets kd (db\<lparr>ma_tokens := sql_delete P (ma_tokens db)\<rparr>) \<subseteq> secrets kd db \<union> fresh_hashes cr (ld_draws db)" for kd
        by (cases kd) (auto simp: row_simps)
    qed (auto simp: grant_ids_def)
    then show ?thesis using None by (simp add: revoke_def Let_def)
  qed (simp add: revoke_def delete_grant.evolves)
qed (simp_all add: revoke_def delete_grant.login_kept Let_def split: option.split)

section \<open>Every event\<close>

lemma more_ops [simp]:
  "login_db.more (fst (getSessionByHash now k db)) = login_db.more db" "login_db.more (deleteSessionByHash k db) = login_db.more db"
  "login_db.more (updateAfterCheckByHash now k f db) = login_db.more db"
  "login_db.more (markCheckAttemptByHash now k a b db) = login_db.more db"
  "login_db.more (purgeExpired now db) = login_db.more db" "login_db.more (fst (consumeAttempt cr now i db)) = login_db.more db"
  "login_db.more (fst (createSession cr now identity db)) = login_db.more db"
  "login_db.more (fst (createAttempt cr now input db)) = login_db.more db"
  by (auto simp: getSessionByHash_def deleteSessionByHash_def updateAfterCheckByHash_def markCheckAttemptByHash_def
      purgeExpired_def consumeAttempt_def createSession_def createAttempt_def newId_def split: option.splits)

lemma login_step_more: "login_db.more (sv_db (fst (login_step cr ev sv))) = login_db.more (sv_db sv)"
proof (cases ev)
  case (EConfig now k cfg)
  then show ?thesis by (cases cfg) (simp_all add: recheckConfigured_def split: option.split recheck_phase.split)
next
  case (EProvider now k result)
  then show ?thesis
    by (cases result) (simp_all add: recheckAnswered_def split_beta Let_def split: option.split recheck_phase.split)
qed (simp_all add: resolveHash_db create_session_def destroy_def getSession_def deleteSession_def split_beta)

lemma tables_of_more:
  assumes "login_db.more db' = login_db.more (db :: auth_db)"
  shows "ma_pending db' = ma_pending db" "ma_codes db' = ma_codes db" "ma_grants db' = ma_grants db"
    "ma_tokens db' = ma_tokens db" "ma_grantSeq db' = ma_grantSeq db" "ma_clients db' = ma_clients db"
  using assms by (cases db; cases db'; simp)+

lemmas login_tables = tables_of_more [OF login_step_more]

lemma sessions_sub:
  "sn_idHash ` set (ld_sessions (deleteSessionByHash k db)) \<subseteq> sn_idHash ` set (ld_sessions db)"
  "sn_idHash ` set (ld_sessions (fst (getSessionByHash now k db))) \<subseteq> sn_idHash ` set (ld_sessions db)"
  "sn_idHash ` set (ld_sessions (updateAfterCheckByHash now k f db)) = sn_idHash ` set (ld_sessions db)"
  "sn_idHash ` set (ld_sessions (markCheckAttemptByHash now k a b db)) = sn_idHash ` set (ld_sessions db)"
  "sn_idHash ` set (ld_sessions (purgeExpired now db)) \<subseteq> sn_idHash ` set (ld_sessions db)"
  by (auto simp: deleteSessionByHash_def getSessionByHash_def updateAfterCheckByHash_def markCheckAttemptByHash_def
      purgeExpired_def row_simps checked_upd.key_image attempted_upd.key_image split: option.splits)

lemma login_step_sessions:
  "sn_idHash ` set (ld_sessions (sv_db (fst (login_step cr ev sv)))) \<subseteq>
     sn_idHash ` set (ld_sessions (sv_db sv)) \<union> fresh_hashes cr (ld_draws (sv_db sv))"
proof (cases ev)
  case (ECreate now identity)
  then show ?thesis using sessions_sub(5) [of now "sv_db sv"]
    by (auto simp: create_session_def createSession_def newId_def new_session_def next_hash_fresh purgeExpired_def)
next
  case (EDestroy now i)
  then show ?thesis
    using sessions_sub(1) [of "cr_hash cr i" "fst (getSessionByHash now (cr_hash cr i) (sv_db sv))"]
      sessions_sub(2) [of now "cr_hash cr i" "sv_db sv"] sessions_sub(1) [of "cr_hash cr i" "sv_db sv"]
    by (auto simp: destroy_def getSession_def deleteSession_def split_beta)
next
  case (EResolve now k)
  then show ?thesis using sessions_sub(2) [of now k "sv_db sv"] by (auto simp: resolveHash_db)
next
  case (EConfig now k cfg)
  then show ?thesis using sessions_sub(1) [of k "sv_db sv"] sessions_sub(4) [of now k None None "sv_db sv"]
    by (cases cfg) (auto simp: recheckConfigured_def split: option.splits recheck_phase.splits)
next
  case (EProvider now k result)
  have get: "sn_idHash ` set (ld_sessions (fst (getSessionByHash now k db))) \<subseteq> sn_idHash ` set (ld_sessions (sv_db sv))"
    if "sn_idHash ` set (ld_sessions db) = sn_idHash ` set (ld_sessions (sv_db sv))" for db
    using sessions_sub(2) [of now k db] that by simp
  show ?thesis
    using EProvider get [OF sessions_sub(3), of now k] get [OF sessions_sub(4), of now k]
    by (cases result)
      (simp_all add: recheckAnswered_def split_beta Let_def le_supI1 sessions_sub split: option.split recheck_phase.split)

next
  case (EAttempt now input)
  then show ?thesis by (auto simp: createAttempt_def newId_def)
next
  case (EConsume now i)
  then show ?thesis by (auto simp: consumeAttempt_def split: option.splits)
qed (simp_all add: le_supI1 sessions_sub)

lemma attempts_ops [simp]:
  "ld_attempts (fst (getSessionByHash now k db)) = ld_attempts db" "ld_attempts (deleteSessionByHash k db) = ld_attempts db"
  "ld_attempts (updateAfterCheckByHash now k f db) = ld_attempts db"
  "ld_attempts (markCheckAttemptByHash now k a b db) = ld_attempts db"
  by (auto simp: getSessionByHash_def deleteSessionByHash_def updateAfterCheckByHash_def markCheckAttemptByHash_def
      split: option.splits)

lemma attempts_sub:
  "at_idHash ` set (ld_attempts (purgeExpired now db)) \<subseteq> at_idHash ` set (ld_attempts db)"
  "at_idHash ` set (ld_attempts (fst (consumeAttempt cr now i db))) \<subseteq> at_idHash ` set (ld_attempts db)"
  "at_idHash ` set (ld_attempts (fst (createSession cr now identity db))) \<subseteq> at_idHash ` set (ld_attempts db)"
  "at_idHash ` set (ld_attempts (fst (createAttempt cr now input db))) \<subseteq>
     at_idHash ` set (ld_attempts db) \<union> fresh_hashes cr (ld_draws db)"
  by (auto simp: purgeExpired_def consumeAttempt_def createSession_def createAttempt_def newId_def row_simps next_hash_fresh
      split: option.splits)

lemma login_step_attempts:
  "at_idHash ` set (ld_attempts (sv_db (fst (login_step cr ev sv)))) \<subseteq>
     at_idHash ` set (ld_attempts (sv_db sv)) \<union> fresh_hashes cr (ld_draws (sv_db sv))"
proof (cases ev)
  case (EConfig now k cfg)
  then show ?thesis by (cases cfg) (simp_all add: recheckConfigured_def split: option.split recheck_phase.split)
next
  case (EProvider now k result)
  then show ?thesis
    by (cases result) (simp_all add: recheckAnswered_def split_beta Let_def split: option.split recheck_phase.split)
qed (simp_all add: resolveHash_db create_session_def destroy_def getSession_def deleteSession_def split_beta le_supI1 attempts_sub)

lemma login_step_le: "auth_le cr (sv_db sv) (sv_db (fst (login_step cr ev sv)))"
proof (rule auth_leI)
  show "secrets kd (sv_db (fst (login_step cr ev sv))) \<subseteq> secrets kd (sv_db sv) \<union> fresh_hashes cr (ld_draws (sv_db sv))" for kd
    using login_step_sessions [of cr ev sv] login_step_attempts [of cr ev sv] by (cases kd) (auto simp: login_tables)
qed (auto simp: login_tables draws_step grant_ids_def)

lemma login_step_mcp_ok: "mcp_ok cr (sv_db sv) \<Longrightarrow> mcp_ok cr (sv_db (fst (login_step cr ev sv)))"
  using drawn_mono [OF draws_step, of cr sv cr ev] by (auto simp: mcp_ok_defs login_tables)

definition auth_ok :: "crypto \<Rightarrow> mcp_state \<Rightarrow> bool" where
  "auth_ok cr sv \<longleftrightarrow> service_ok cr sv \<and> mcp_ok cr (sv_db sv)"

definition step_ok :: "crypto \<Rightarrow> mcp_state \<Rightarrow> mcp_state \<Rightarrow> bool" where
  "step_ok cr sv sv' \<longleftrightarrow> auth_ok cr sv' \<and> auth_le cr (sv_db sv) (sv_db sv')"

lemma step_ok_refl [simp]: "auth_ok cr sv \<Longrightarrow> step_ok cr sv sv"
  by (simp add: step_ok_def)

lemma step_ok_trans: "step_ok cr a b \<Longrightarrow> step_ok cr b c \<Longrightarrow> step_ok cr a c"
  using auth_le_trans by (auto simp: step_ok_def)

lemma login_step_ok: "crypto_ok cr \<Longrightarrow> auth_ok cr sv \<Longrightarrow> step_ok cr sv (fst (login_step cr ev sv))"
  by (simp add: step_ok_def auth_ok_def ok_step login_step_mcp_ok login_step_le)

section \<open>The steps of the authorization server\<close>

lemma newId_draws: "ld_draws (snd (newId cr db)) = Suc (ld_draws db)"
  by (simp add: newId_def)

lemma createDetached_eq:
  "createDetached cr now identity sv =
     (fst (login_step cr (ECreate now identity) sv), cr_hash cr (cr_rand cr (ld_draws (sv_db sv))))"
  by (simp add: createDetached_def create_session_def createSession_def newId_def split_beta purgeExpired_def)

lemma createDetached_drawn:
  "createDetached cr now identity sv = (sv', h) \<Longrightarrow> h \<in> drawn cr (ld_draws (sv_db sv'))"
  by (auto simp: createDetached_eq create_session_def split_beta drawn_Suc)

lemma code_session_drawn:
  assumes "mcp_ok cr db" and "consumeCode cr now cl code db = (db', Some c)"
  shows "co_sessionHash c \<in> drawn cr (ld_draws db')"
  using assms
  by (auto simp: consumeCode_def liveCode_def mcp_ok_def split: option.splits if_splits dest!: sql_find_SomeD)

lemma on_db_step:
  assumes "crypto_ok cr" and "auth_ok cr sv" and "auth_operation cr pre f" and "pre (sv_db sv)"
  shows "step_ok cr sv (fst (on_db f sv))"
  using auth_operation.on_db_ok [OF assms(3,1)] assms(2,4) by (simp add: step_ok_def auth_ok_def)

lemma unit_op_step:
  assumes "crypto_ok cr" and "auth_ok cr sv" and "auth_operation cr (\<lambda>_. True) (\<lambda>db. (f db, ()))"
  shows "step_ok cr sv (sv\<lparr>sv_db := f (sv_db sv)\<rparr>)"
  using on_db_step [OF assms] by (simp add: on_db_def)

lemma get_step:
  assumes "crypto_ok cr" and "auth_ok cr sv"
  shows "step_ok cr sv (sv\<lparr>sv_db := fst (getSessionByHash now k (sv_db sv))\<rparr>)"
  using login_step_ok [OF assms, of "ELook now k"] by simp

lemma delete_session_step:
  assumes "crypto_ok cr" and "auth_ok cr sv"
  shows "step_ok cr sv (sv\<lparr>sv_db := deleteSessionByHash k (sv_db sv)\<rparr>)"
  using login_step_ok [OF assms, of "EDelete k"] by simp

lemma fst_on_db: "fst (on_db f sv) = sv\<lparr>sv_db := fst (f (sv_db sv))\<rparr>"
  by (simp add: on_db_def split_beta)

lemma snd_on_db: "snd (on_db f sv) = snd (f (sv_db sv))"
  by (simp add: on_db_def split_beta)

lemma finishSignIn_step:
  assumes "crypto_ok cr" and "auth_ok cr sv"
  shows "step_ok cr sv (fst (finishSignIn cr now cfg h identity sv))"
proof -
  let ?sv1 = "fst (on_db (consumePending now h) sv)"
  have s1: "step_ok cr sv ?sv1" by (rule on_db_step [OF assms consume_pending.auth_operation_axioms]) simp
  then have ok1: "auth_ok cr ?sv1" by (simp add: step_ok_def)
  let ?sv2 = "fst (createDetached cr now identity ?sv1)"
  let ?h = "snd (createDetached cr now identity ?sv1)"
  have s2: "step_ok cr ?sv1 ?sv2" using login_step_ok [OF assms(1) ok1, of "ECreate now identity"] by (simp add: createDetached_eq)
  then have ok2: "auth_ok cr ?sv2" by (simp add: step_ok_def)
  have "step_ok cr ?sv2 (fst (on_db (issueCode cr now input) ?sv2))" if "co_sessionHash input = ?h" for input
    by (rule on_db_step [OF assms(1) ok2 issue_code.auth_operation_axioms])
      (use createDetached_drawn [of cr now identity ?sv1] that in \<open>simp add: prod_eq_iff\<close>)
  then show ?thesis
    using s1 step_ok_trans [OF s1 step_ok_trans [OF s2]]
    by (auto simp: finishSignIn_def split_beta Let_def split: option.split)
qed

lemma exchangeCode_step:
  assumes "crypto_ok cr" and "auth_ok cr sv"
  shows "step_ok cr sv (fst (exchangeAuthorizationCode cr now cl code ru rs sv))"
proof -
  let ?sv1 = "fst (on_db (consumeCode cr now cl code) sv)"
  have s1: "step_ok cr sv ?sv1" by (rule on_db_step [OF assms consume_code.auth_operation_axioms]) simp
  then have ok1: "auth_ok cr ?sv1" by (simp add: step_ok_def)
  show ?thesis
  proof (cases "snd (on_db (consumeCode cr now cl code) sv)")
    case (Some c)
    let ?sv2 = "fst (on_db (getSessionByHash now (co_sessionHash c)) ?sv1)"
    have s2: "step_ok cr ?sv1 ?sv2" using get_step [OF assms(1) ok1] by (simp add: fst_on_db)
    then have ok2: "auth_ok cr ?sv2" by (simp add: step_ok_def)
    have "co_sessionHash c \<in> drawn cr (ld_draws (sv_db ?sv1))"
      using code_session_drawn [of cr "sv_db sv" now cl code "fst (consumeCode cr now cl code (sv_db sv))" c] Some assms(2)
      by (simp add: fst_on_db snd_on_db auth_ok_def prod_eq_iff)
    then have "co_sessionHash c \<in> drawn cr (ld_draws (sv_db ?sv2))" by (simp add: fst_on_db)
    then have "step_ok cr ?sv2 (fst (on_db (createGrant cr now cl (co_sessionHash c) (co_resource c)) ?sv2))"
      by (rule on_db_step [OF assms(1) ok2 create_grant.auth_operation_axioms])
    then show ?thesis
      using Some s1 step_ok_trans [OF s1 s2] step_ok_trans [OF s1 step_ok_trans [OF s2]]
      by (auto simp: exchangeAuthorizationCode_def split_beta Let_def)
  qed (use s1 in \<open>simp add: exchangeAuthorizationCode_def split_beta Let_def\<close>)
qed

lemma exchangeRefresh_step:
  assumes "crypto_ok cr" and "auth_ok cr sv"
  shows "step_ok cr sv (fst (exchangeRefreshToken cr now cl token sv))"
proof -
  let ?sv1 = "fst (on_db (rotateRefresh cr now cl token) sv)"
  have s1: "step_ok cr sv ?sv1" by (rule on_db_step [OF assms rotate_refresh.auth_operation_axioms]) simp
  then have ok1: "auth_ok cr ?sv1" by (simp add: step_ok_def)
  let ?sv2 = "\<lambda>h. fst (on_db (getSessionByHash now h) ?sv1)"
  have s2: "step_ok cr ?sv1 (?sv2 h)" for h using get_step [OF assms(1) ok1] by (simp add: fst_on_db)
  then have ok2: "auth_ok cr (?sv2 h)" for h by (simp add: step_ok_def)
  have s3: "step_ok cr (?sv2 h) (fst (on_db (deleteGrant g) (?sv2 h)))" for h g
    by (rule on_db_step [OF assms(1) ok2 delete_grant.auth_operation_axioms]) simp
  show ?thesis
    using s1 step_ok_trans [OF s1 s2] step_ok_trans [OF s1 step_ok_trans [OF s2 s3]]
    by (auto simp: exchangeRefreshToken_def split_beta Let_def split: option.split)
qed

lemma verifyFinish_step:
  assumes "crypto_ok cr" and "auth_ok cr sv"
  shows "step_ok cr sv (fst (verifyFinish cfg access user sv))"
  using on_db_step [OF assms delete_grant.auth_operation_axioms] assms(2)
  by (auto simp: verifyFinish_def split: option.split)

lemma verify_step:
  assumes "crypto_ok cr" and "auth_ok cr sv"
  shows "step_ok cr sv (fst (verifyAccessToken cr now cfg key token sv))"
proof -
  have s1: "step_ok cr sv (fst (resolveHash now h sv))" for h using login_step_ok [OF assms, of "EResolve now h"] by simp
  then have "step_ok cr (fst (resolveHash now h sv)) (fst (verifyFinish cfg a u (fst (resolveHash now h sv))))" for h a u
    by (intro verifyFinish_step [OF assms(1)]) (simp add: step_ok_def)
  then have "step_ok cr sv (fst (verifyFinish cfg a u (fst (resolveHash now h sv))))" for h a u
    by (rule step_ok_trans [OF s1])
  then show ?thesis
    using s1 assms(2)
    by (auto simp: verifyAccessToken_def split_beta split: option.split login_out.split)
qed

lemma revoke_step:
  assumes "crypto_ok cr" and "auth_ok cr sv"
  shows "step_ok cr sv (revokeToken cr cl token sv)"
proof -
  let ?sv1 = "fst (on_db (revoke cr cl token) sv)"
  have s1: "step_ok cr sv ?sv1" by (rule on_db_step [OF assms revoke_op.auth_operation_axioms]) simp
  then have "step_ok cr ?sv1 (?sv1\<lparr>sv_db := deleteSessionByHash h (sv_db ?sv1)\<rparr>)" for h
    by (intro delete_session_step [OF assms(1)]) (simp add: step_ok_def)
  then show ?thesis using s1 step_ok_trans [OF s1] by (auto simp: revokeToken_def split_beta split: option.split)
qed

lemma consent_step:
  assumes "crypto_ok cr" and "auth_ok cr sv"
  shows "step_ok cr sv (fst (postConsent cr now pending dec cookies sv))"
  using on_db_step [OF assms consume_pending.auth_operation_axioms] unit_op_step [OF assms touch_pending.auth_operation_axioms] assms(2)
  by (auto simp: postConsent_def Let_def split: option.split decision.split)

lemma mcp_step_ok:
  assumes "crypto_ok cr" and "auth_ok cr sv"
  shows "step_ok cr sv (mcp_step cr ev sv)"
proof (cases ev)
  case (MFail now h err)
  then show ?thesis
    using on_db_step [OF assms consume_pending.auth_operation_axioms]
    by (auto simp: failSignIn_def split_beta split: option.split)
next
  case (MAuthorize now input)
  then show ?thesis using on_db_step [OF assms create_pending.auth_operation_axioms] by (simp add: authorize_def)
next
  case (MRegister now i info)
  then show ?thesis using unit_op_step [OF assms save_client.auth_operation_axioms] by simp
qed (simp_all add: assms login_step_ok finishSignIn_step exchangeCode_step exchangeRefresh_step verifyFinish_step
    verify_step revoke_step consent_step)

lemma mcp_run_ok:
  assumes "crypto_ok cr" and "auth_ok cr sv"
  shows "step_ok cr sv (mcp_run cr evs sv)"
  unfolding mcp_run_def using assms(2)
proof (induction evs arbitrary: sv)
  case (Cons ev evs)
  have "step_ok cr sv (mcp_step cr ev sv)" by (rule mcp_step_ok [OF assms(1) Cons.prems])
  then show ?case using Cons.IH [of "mcp_step cr ev sv"] step_ok_trans by (simp add: step_ok_def)
qed simp

lemma new_mcp_ok: "auth_ok cr new_mcp"
  by (simp add: auth_ok_def service_ok_def new_mcp_def empty_auth_def login_wf_def mcp_ok_defs)

end
