(* ===== verification/Access_Theorems.thy ===== *)
theory Access_Theorems
  imports Access_Control
begin

text \<open>
  What the access model guarantees.  The locale \<open>rule_table\<close> is the contract between the rule editor and the
  decisions; it is interpreted on the tables of \<open>permissions.ts\<close>.  The properties are about the editor, the
  agreement of the inventory listing with the per-resource check, job visibility, and impersonation.
\<close>

section \<open>The tables as a map of rules\<close>

definition perm_wf :: "perm_db \<Rightarrow> bool" where
  "perm_wf db \<longleftrightarrow> distinct (map fst (pd_groups db)) \<and> distinct (pd_rules db) \<and>
     fst ` set (pd_rules db) \<subseteq> fst ` set (pd_groups db)"

definition rule_of :: "perm_db \<Rightarrow> string \<Rightarrow> group_permission option" where
  "rule_of db g = jm_get (loadPermissionRules db) g"

definition group_rules :: "string \<Rightarrow> (string \<times> resource_ref) list \<Rightarrow> resource_ref list" where
  "group_rules g rows = map snd (filter (\<lambda>row. fst row = g) rows)"

lemma jm_get_add_rules: "jm_get (fold add_rule rows result) g =
    map_option (\<lambda>p. p\<lparr>gp_resources := gp_resources p @ group_rules g rows\<rparr>) (jm_get result g)"
proof (induction rows arbitrary: result)
  case Nil
  then show ?case by (simp add: group_rules_def option.map_ident)
next
  case (Cons row rows)
  show ?case
    unfolding fold_simps(2) o_apply Cons.IH
    by (cases "jm_get result g"; cases "jm_get result (fst row)")
      (auto simp: add_rule_def row_simps group_rules_def)
qed

lemma jm_get_group_rows: "distinct (map fst rows) \<Longrightarrow> fst ` set rows \<inter> fst ` set result = {} \<Longrightarrow>
   jm_get (fold (\<lambda>(name, mode). jm_set name \<lparr>gp_mode = mode, gp_resources = []\<rparr>) rows result) g =
     (case map_of rows g of
        None \<Rightarrow> jm_get result g
      | Some mode \<Rightarrow> Some \<lparr>gp_mode = mode, gp_resources = []\<rparr>)"
proof (induction rows arbitrary: result)
  case (Cons row rows)
  obtain n m where [simp]: "row = (n, m)" by (cases row)
  have "fst ` set rows \<inter> fst ` set (jm_set n \<lparr>gp_mode = m, gp_resources = []\<rparr> result) = {}"
    using Cons.prems by (auto simp: jm_set_def dom_update)
  then have IH: "jm_get (fold (\<lambda>(name, mode). jm_set name \<lparr>gp_mode = mode, gp_resources = []\<rparr>) rows
       (jm_set n \<lparr>gp_mode = m, gp_resources = []\<rparr> result)) g =
     (case map_of rows g of None \<Rightarrow> jm_get (jm_set n \<lparr>gp_mode = m, gp_resources = []\<rparr> result) g
      | Some mode \<Rightarrow> Some \<lparr>gp_mode = mode, gp_resources = []\<rparr>)"
    using Cons.prems(1) by (intro Cons.IH) simp_all
  have "map_of rows n = None" using Cons.prems(1) by (simp add: map_of_eq_None_iff)
  then show ?case using IH by (auto simp: row_simps split: option.splits)
qed simp

lemma rule_of_rows: "distinct (map fst (pd_groups db)) \<Longrightarrow> rule_of db g =
    map_option (\<lambda>m. \<lparr>gp_mode = m, gp_resources = group_rules g (pd_rules db)\<rparr>) (map_of (pd_groups db) g)"
  using jm_get_group_rows [of "pd_groups db" "[]" g]
  by (simp add: rule_of_def loadPermissionRules_def jm_get_add_rules split: option.splits)

lemma insert_rules_rows: "insert_rules g rs rows =
    (if distinct rs \<and> (\<forall>r \<in> set rs. (g, r) \<notin> set rows) then Some (rows @ map (Pair g) rs) else None)"
  by (induction rs arbitrary: rows) auto

lemma map_of_deleted: "map_of (sql_delete (\<lambda>row. fst row = g) rows) g' = (if g' = g then None else map_of rows g')"
  using jm_get_delete [of g rows g'] by (simp add: jm_get_def jm_delete_def sql_delete_def)

lemma group_rules_deleted [simp]:
  "group_rules g' (sql_delete (\<lambda>row. fst row = g) rows) = (if g' = g then [] else group_rules g' rows)"
  by (induction rows) (auto simp: group_rules_def sql_delete_def)

lemma group_rules_append [simp]: "group_rules g (xs @ ys) = group_rules g xs @ group_rules g ys"
  by (simp add: group_rules_def)

lemma group_rules_own [simp]: "group_rules g' (map (Pair g) rs) = (if g' = g then rs else [])"
  by (induction rs) (auto simp: group_rules_def)

lemma save_group:
  assumes wf: "perm_wf db" and "distinct (gp_resources p)"
  shows "\<exists>db'. savePermissionGroup g p db = Some db' \<and> perm_wf db' \<and>
    (\<forall>g'. rule_of db' g' = (if g' = g then Some p else rule_of db g'))"
proof -
  let ?rules = "sql_delete (\<lambda>row. fst row = g) (pd_rules db) @ map (Pair g) (gp_resources p)"
  let ?groups = "sql_delete (\<lambda>row. fst row = g) (pd_groups db) @ [(g, gp_mode p)]"
  let ?db = "\<lparr>pd_groups = ?groups, pd_rules = ?rules\<rparr>"
  have d: "distinct (map fst (pd_groups db))" using wf by (simp add: perm_wf_def)
  have d': "distinct (map fst ?groups)" using sql_delete_distinct [OF d] by (auto simp: row_simps)
  have "savePermissionGroup g p db = Some ?db"
    using assms(2) by (auto simp: savePermissionGroup_def insert_rules_rows row_simps)
  moreover have "perm_wf ?db"
    using wf assms(2) d' by (auto simp: perm_wf_def row_simps distinct_map inj_on_def sql_delete_def)
  moreover have "rule_of ?db g' = (if g' = g then Some p else rule_of db g')" for g'
    using d' d rule_of_rows [of ?db g'] rule_of_rows [of db g']
    by (cases p) (auto simp: map_of_deleted map_add_def split: option.splits)
  ultimately show ?thesis by blast
qed

lemma clear_group:
  assumes wf: "perm_wf db"
  shows "perm_wf (clearPermissionGroup g db) \<and>
    (\<forall>g'. rule_of (clearPermissionGroup g db) g' = (if g' = g then None else rule_of db g'))"
proof -
  have d: "distinct (map fst (pd_groups db))" using wf by (simp add: perm_wf_def)
  have d': "distinct (map fst (pd_groups (clearPermissionGroup g db)))"
    using sql_delete_distinct [OF d] by (simp add: clearPermissionGroup_def)
  have "perm_wf (clearPermissionGroup g db)"
    using wf d' by (auto simp: perm_wf_def clearPermissionGroup_def row_simps sql_delete_def)
  then show ?thesis
    using rule_of_rows [OF d] rule_of_rows [OF d'] by (simp add: clearPermissionGroup_def map_of_deleted)
qed

text \<open>The contract of a table of group rules: a put or clear changes the rule of its own group only.\<close>

locale rule_table =
  fixes rule :: "'db \<Rightarrow> string \<Rightarrow> group_permission option"
    and put :: "string \<Rightarrow> group_permission \<Rightarrow> 'db \<Rightarrow> 'db option"
    and clear :: "string \<Rightarrow> 'db \<Rightarrow> 'db"
    and valid :: "'db \<Rightarrow> bool"
  assumes put_law: "valid db \<Longrightarrow> distinct (gp_resources p) \<Longrightarrow>
      \<exists>db'. put g p db = Some db' \<and> valid db' \<and> (\<forall>g'. rule db' g' = (if g' = g then Some p else rule db g'))"
    and clear_law: "valid db \<Longrightarrow>
      valid (clear g db) \<and> (\<forall>g'. rule (clear g db) g' = (if g' = g then None else rule db g'))"
begin

definition lets_all :: "'db \<Rightarrow> (group_permission \<Rightarrow> bool) \<Rightarrow> string list \<Rightarrow> bool" where
  "lets_all db lets groups \<longleftrightarrow> (\<forall>g \<in> set groups. case rule db g of None \<Rightarrow> True | Some p \<Rightarrow> lets p)"

lemma put_others:
  assumes "valid db" and "distinct (gp_resources p)" and "g \<notin> set groups" and "put g p db = Some db'"
  shows "lets_all db' lets groups = lets_all db lets groups"
proof -
  have eq: "rule db' g' = (if g' = g then Some p else rule db g')" for g'
    using put_law [OF assms(1,2), of g] assms(4) by auto
  then have "rule db' h = rule db h" if "h \<in> set groups" for h using assms(3) that by auto
  then show ?thesis by (simp add: lets_all_def)
qed

lemma clear_widens: "valid db \<Longrightarrow> lets_all db lets groups \<Longrightarrow> lets_all (clear g db) lets groups"
  using clear_law by (auto simp: lets_all_def)

lemma put_then_clear:
  assumes "valid db" and "distinct (gp_resources p)" and "put g p db = Some db'" and "rule db g = None"
  shows "rule (clear g db') = rule db"
proof
  fix g'
  from put_law [OF assms(1,2), of g] assms(3) have "valid db'" "\<And>x. rule db' x = (if x = g then Some p else rule db x)"
    by auto
  then show "rule (clear g db') g' = rule db g'" using clear_law [of db' g] assms(4) by auto
qed

end

interpretation group_table: rule_table rule_of savePermissionGroup clearPermissionGroup perm_wf
  by unfold_locales (simp_all add: save_group clear_group)

section \<open>The decision\<close>

lemma groups_allow_all: "groups_allow rules lets groups \<longleftrightarrow>
    (\<forall>g \<in> set groups. case jm_get rules g of None \<Rightarrow> True | Some p \<Rightarrow> lets p)"
  by (induction groups) (auto split: option.splits)

lemma groups_allow_table:
  "groups_allow (loadPermissionRules db) lets groups = group_table.lets_all db lets groups"
  by (simp add: groups_allow_all group_table.lets_all_def rule_of_def)

lemma isAdminUser_cong: "set gs = set gs' \<Longrightarrow> isAdminUser cfg gs = isAdminUser cfg gs'"
  by (simp add: isAdminUser_def isAdminOf_def)

lemma find_by_name: "distinct (map gv_name gs) \<Longrightarrow> g \<in> set gs \<Longrightarrow> find (\<lambda>x. gv_name x = gv_name g) gs = Some g"
  using sql_find_distinct [of gv_name gs g] by (simp add: sql_find_def)

lemma isCreatorOf_listed:
  "distinct (map gv_name (iv_guests inven)) \<Longrightarrow> g \<in> set (iv_guests inven) \<Longrightarrow>
   isCreatorOf inven caller \<lparr>rf_type = RGuest, rf_name = gv_name g\<rparr> = isGuestCreator (gv_creator g) caller"
  by (simp add: isCreatorOf_def find_by_name)

lemma isCreatorOf_host [simp]: "isCreatorOf inven caller \<lparr>rf_type = RHost, rf_name = h\<rparr> = False"
  by (simp add: isCreatorOf_def)

lemma guestCreators_fold:
  "jm_get (fold (\<lambda>g result. case gv_creator g of
             None \<Rightarrow> result
           | Some c \<Rightarrow> if gv_name g \<in> set hosts then result else jm_set (gv_name g) c result) guests result) t = Some c \<Longrightarrow>
   jm_get result t = Some c \<or>
   (t \<notin> set hosts \<and> (\<exists>g \<in> set guests. gv_name g = t \<and> gv_creator g = Some c))"
proof (induction guests arbitrary: result)
  case (Cons g guests)
  from Cons.IH [OF Cons.prems [unfolded fold_simps(2) o_apply]] show ?case
    by (auto simp: row_simps split: option.splits if_splits)
qed simp

lemma guestCreators_get: "jm_get (guestCreators inven) t = Some c \<Longrightarrow>
    t \<notin> set (iv_hosts inven) \<and> (\<exists>g \<in> set (iv_guests inven). gv_name g = t \<and> gv_creator g = Some c)"
  using guestCreators_fold [of "iv_hosts inven" "iv_guests inven" "[]" t c] by (simp add: guestCreators_def)

section \<open>The editor of the rules\<close>

lemma parse_type_text: "parse_type ty = Some t \<Longrightarrow> resource_type_text t = ty"
  by (auto simp: parse_type_def resource_type_text_def split: if_splits)

lemma parse_type_split: "parse_type ty \<noteq> None \<longleftrightarrow> ty = ''host'' \<or> ty = ''guest''"
  by (auto simp: parse_type_def)

lemma resource_key_inj:
  assumes "parse_type a \<noteq> None" and "parse_type b \<noteq> None"
  shows "a @ '':'' @ m = b @ '':'' @ n \<longleftrightarrow> a = b \<and> m = n"
  using assms unfolding parse_type_split by auto

definition resource_key :: "string \<times> string \<Rightarrow> string" where
  "resource_key r = fst r @ '':'' @ snd r"

lemma has_duplicate_keys: "has_duplicate seen rs \<longleftrightarrow> \<not> (distinct (map resource_key rs) \<and> resource_key ` set rs \<inter> set seen = {})"
  by (induction seen rs rule: has_duplicate.induct) (auto simp: resource_key_def row_simps)

lemma distinct_resource_keys:
  assumes "isValidResources rs"
  shows "distinct (map resource_key rs) \<longleftrightarrow> distinct rs"
proof -
  have "inj_on resource_key (set rs)"
  proof (rule inj_onI)
    fix x y assume "x \<in> set rs" and "y \<in> set rs" and k: "resource_key x = resource_key y"
    then have p: "parse_type (fst x) \<noteq> None" "parse_type (fst y) \<noteq> None"
      using assms by (auto simp: isValidResources_def list_all_iff)
    show "x = y" using resource_key_inj [OF p, of "snd x" "snd y"] k unfolding resource_key_def prod_eq_iff by blast
  qed
  then show ?thesis by (simp add: distinct_map)
qed

definition parse_resource :: "string \<times> string \<Rightarrow> resource_ref" where
  "parse_resource r = \<lparr>rf_type = the (parse_type (fst r)), rf_name = snd r\<rparr>"

definition print_resource :: "resource_ref \<Rightarrow> string \<times> string" where
  "print_resource r = (resource_type_text (rf_type r), rf_name r)"

lemma print_parse_resource: "isValidResources rs \<Longrightarrow> map (print_resource \<circ> parse_resource) rs = rs"
proof (rule map_idI)
  fix r assume "isValidResources rs" and "r \<in> set rs"
  then have "parse_type (fst r) \<noteq> None" by (auto simp: isValidResources_def list_all_iff)
  then show "(print_resource \<circ> parse_resource) r = r"
    by (auto simp: print_resource_def parse_resource_def parse_type_text)
qed

lemma distinct_parsed: "isValidResources rs \<Longrightarrow> distinct rs \<Longrightarrow> distinct (map parse_resource rs)"
  by (metis distinct_map map_map print_parse_resource)

lemma putPermission_ok:
  assumes "perm_wf db" and "parse_mode mode = Some m" and "isValidResources rs" and "distinct rs"
  shows "\<exists>db'. savePermissionGroup g \<lparr>gp_mode = m, gp_resources = map parse_resource rs\<rparr> db = Some db' \<and>
    putPermission g mode rs db = (db', 200, '''')"
proof -
  let ?p = "\<lparr>gp_mode = m, gp_resources = map parse_resource rs\<rparr>"
  have "\<not> has_duplicate [] rs" using assms(3,4) by (simp add: has_duplicate_keys distinct_resource_keys)
  moreover have eq: "(\<lambda>(ty, name). \<lparr>rf_type = the (parse_type ty), rf_name = name\<rparr>) = parse_resource"
    by (simp add: fun_eq_iff parse_resource_def)
  moreover obtain db' where "savePermissionGroup g ?p db = Some db'"
    using save_group [OF assms(1), of ?p g] assms(3,4) distinct_parsed by auto
  ultimately show ?thesis using assms(2,3) by (simp add: putPermission_def)
qed

lemma putPermission_bad:
  "parse_mode mode = None \<or> \<not> isValidResources rs \<or> \<not> distinct rs \<Longrightarrow> \<exists>msg. putPermission g mode rs db = (db, 400, msg)"
  by (auto simp: putPermission_def has_duplicate_keys distinct_resource_keys split: option.splits)

section \<open>Properties\<close>

text \<open>
  C14: The rule editor stores exactly what it is given: a valid list without repetitions becomes the
  group's rule, in its order, and no other group's rule changes; anything else is answered 400 and changes
  nothing, and the primary keys of the tables are never hit.
\<close>

theorem put_permission_exact:
  assumes "perm_wf db" and "putPermission g mode rs db = (db', code, msg)"
  shows "perm_wf db' \<and>
    (case parse_mode mode of
       None \<Rightarrow> code = 400 \<and> db' = db
     | Some m \<Rightarrow>
         if isValidResources rs \<and> distinct rs
         then code = 200 \<and>
           (\<exists>p. gp_mode p = m \<and> map print_resource (gp_resources p) = rs \<and>
              (\<forall>g'. jm_get (loadPermissionRules db') g' =
                 (if g' = g then Some p else jm_get (loadPermissionRules db) g')))
         else code = 400 \<and> db' = db)"
proof (cases "parse_mode mode \<noteq> None \<and> isValidResources rs \<and> distinct rs")
  case True
  then obtain m where m: "parse_mode mode = Some m" by auto
  let ?p = "\<lparr>gp_mode = m, gp_resources = map parse_resource rs\<rparr>"
  obtain d where d: "savePermissionGroup g ?p db = Some d" "perm_wf d"
      "\<And>x. rule_of d x = (if x = g then Some ?p else rule_of db x)"
    using save_group [OF assms(1), of ?p g] True distinct_parsed by auto
  have "db' = d" "code = 200"
    using putPermission_ok [OF assms(1) m, of rs g] assms(2) True d(1) by auto
  then show ?thesis
    using d(2,3) True m print_parse_resource [of rs] by (auto simp: rule_of_def intro!: exI [of _ ?p])
next
  case False
  then have "db' = db \<and> code = 400" using putPermission_bad [of mode rs g db] assms(2) by auto
  then show ?thesis using False assms(1) by (auto split: option.splits)
qed

lemmas access_eval = putPermission_def savePermissionGroup_def sql_delete_def parse_mode_def parse_type_def
  isValidResources_def js_add_def isAdminUser_def isAdminOf_def isAllowed_def jm_get_def jm_set_def truthy_def
  isGuestCreator_def startedSince_def

theorem put_permission_exact_witness:
  "\<exists>db' p. fst (snd (putPermission ''family'' ''block-list'' [(''host'', ''pve'')] \<lparr>pd_groups = [], pd_rules = []\<rparr>)) = 200 \<and>
     fst (putPermission ''family'' ''block-list'' [(''host'', ''pve'')] \<lparr>pd_groups = [], pd_rules = []\<rparr>) = db' \<and>
     jm_get (loadPermissionRules db') ''family'' = Some p \<and> gp_mode p = BlockList"
proof -
  obtain db' code msg where
    e: "putPermission ''family'' ''block-list'' [(''host'', ''pve'')] \<lparr>pd_groups = [], pd_rules = []\<rparr> = (db', code, msg)"
    by (cases "putPermission ''family'' ''block-list'' [(''host'', ''pve'')] \<lparr>pd_groups = [], pd_rules = []\<rparr>")
  have wf: "perm_wf \<lparr>pd_groups = [], pd_rules = []\<rparr>" by (simp add: perm_wf_def)
  have m: "parse_mode ''block-list'' = Some BlockList" "isValidResources [(''host'', ''pve'')]"
    by (simp_all add: parse_mode_def isValidResources_def parse_type_def)
  show ?thesis using put_permission_exact [OF wf e] e by (auto simp: m)
qed

text \<open>
  C15: The inventory a caller is shown and the check on one resource never disagree: a host or guest is
  listed exactly when a request naming it would be let through.
\<close>

theorem listing_agrees_with_check:
  assumes "distinct (map gv_name (iv_guests inven))"
  shows "filterInventoryForUser cfg db caller inven =
    (filter (\<lambda>h. isResourceAllowed cfg db inven caller \<lparr>rf_type = RHost, rf_name = h\<rparr>) (iv_hosts inven),
     filter (\<lambda>g. isResourceAllowed cfg db inven caller \<lparr>rf_type = RGuest, rf_name = gv_name g\<rparr>) (iv_guests inven))"
  using assms
  by (auto simp: filterInventoryForUser_def isResourceAllowed_def isCreatorOf_listed Let_def intro!: filter_cong)

definition demo_inventory :: inventory_view where
  "demo_inventory = \<lparr>iv_hosts = [''pve''], iv_guests =
     [\<lparr>gv_name = ''web'', gv_creator = Some \<lparr>gc_username = ''ann'', gc_uid = None, gc_since = Some 50\<rparr>\<rparr>,
      \<lparr>gv_name = ''db'', gv_creator = None\<rparr>]\<rparr>"

definition demo_caller :: auth_user where
  "demo_caller = ANONYMOUS_CALLER\<lparr>au_username := ''ann'', au_groups := [''family'']\<rparr>"

definition demo_admins :: admin_groups where
  "demo_admins = \<lparr>ag_adminGroup = ''admins'', ag_builtinAdminGroup = ''builtin''\<rparr>"

definition demo_rules :: perm_db where
  "demo_rules = \<lparr>pd_groups = [(''family'', AllowList)], pd_rules = []\<rparr>"

lemmas demo_access = demo_inventory_def demo_caller_def demo_admins_def demo_rules_def ANONYMOUS_CALLER_def
  loadPermissionRules_def access_eval

theorem listing_agrees_with_check_witness:
  "map gv_name (snd (filterInventoryForUser demo_admins demo_rules demo_caller demo_inventory)) = [''web'']"
  using listing_agrees_with_check [of demo_inventory demo_admins demo_rules demo_caller]
  by (simp add: demo_access isResourceAllowed_def isCreatorOf_def)

text \<open>
  A job is shown past an allow-list only to its target's creator: when a caller who is no admin
  sees a job although one of the caller's allow-list groups does not name its target, then the target is a
  guest, not also a host's name, that the caller is recorded as creating, the job started no earlier than
  that record was written, and the caller is not impersonating.
\<close>

theorem lifted_job_is_the_creators:
  assumes "isJobVisible cfg rules caller (Some j) (guestCreators inven)" and "\<not> isAdminUser cfg (au_groups caller)"
    and "g \<in> set (au_groups caller)" and "jm_get rules g = Some perm" and "gp_mode perm = AllowList"
    and "j_target j = Some t" and "t \<notin> rf_name ` set (gp_resources perm)"
  shows "t \<notin> set (iv_hosts inven) \<and> \<not> truthy (au_impersonating caller) \<and>
    (\<exists>v \<in> set (iv_guests inven). gv_name v = t \<and>
       (\<exists>c since started. gv_creator v = Some c \<and> isGuestCreator (Some c) caller \<and>
          gc_since c = Some since \<and> j_startedAt j = Some started \<and> since \<le> started))"
proof -
  let ?c = "jm_get (guestCreators inven) t"
  have "\<not> list_ex (\<lambda>r. rf_name r = t) (gp_resources perm)" using assms(7) by (auto simp: list_ex_iff)
  then have lift: "isGuestCreator ?c caller"
      "startedSince (j_startedAt j) (case ?c of None \<Rightarrow> None | Some c \<Rightarrow> gc_since c)"
    using assms(1-6) by (force simp: isJobVisible_def groups_allow_all Let_def)+
  obtain c where c: "?c = Some c" using lift(1) by (cases ?c) (auto simp: isGuestCreator_def split: if_splits)
  have "\<not> truthy (au_impersonating caller)" using lift(1) by (auto simp: isGuestCreator_def split: if_splits)
  moreover obtain since started where "gc_since c = Some since" "j_startedAt j = Some started" "since \<le> started"
    using lift(2) c by (auto simp: startedSince_def split: option.splits)
  ultimately show ?thesis using guestCreators_get [OF c] lift(1) c by auto
qed

definition demo_job :: "string \<Rightarrow> ms \<Rightarrow> job_row" where
  "demo_job target started =
     \<lparr>j_id = 1, j_command = ''update-app'', j_category = Maintenance, j_target = Some target, j_argsJson = ''{}'',
      j_status = Success, j_logFile = ''log'', j_startedAt = Some started, j_finishedAt = None, j_exitCode = None,
      j_errorMessage = None, j_promptText = None, j_expectedPrompts = None, j_promptOrigin = None,
      j_promptMatchedIndex = None, j_triggeredByUsername = None, j_triggeredByImpersonating = None,
      j_triggeredVia = None, j_owner = None\<rparr>"

theorem lifted_job_is_the_creators_witness:
  "isJobVisible demo_admins (loadPermissionRules demo_rules) demo_caller (Some (demo_job ''web'' 60)) (guestCreators demo_inventory) \<and>
   ''web'' \<notin> set (iv_hosts demo_inventory)"
proof -
  have v: "isJobVisible demo_admins (loadPermissionRules demo_rules) demo_caller (Some (demo_job ''web'' 60))
      (guestCreators demo_inventory)"
    by (simp add: demo_access isJobVisible_def demo_job_def guestCreators_def)
  show ?thesis
    using v lifted_job_is_the_creators [OF v, of "''family''" "\<lparr>gp_mode = AllowList, gp_resources = []\<rparr>" "''web''"]
    by (simp add: demo_access demo_job_def)
qed

section \<open>Impersonation\<close>

lemma isGuestCreator_impersonating: "truthy (au_impersonating u) \<Longrightarrow> \<not> isGuestCreator c u"
  by (simp add: isGuestCreator_def)

lemma isCreatorOf_impersonating: "truthy (au_impersonating u) \<Longrightarrow> \<not> isCreatorOf inven u ref"
  by (auto simp: isCreatorOf_def isGuestCreator_impersonating)

lemma startImpersonation_ok:
  assumes "startImpersonation cfg directory rq grp store = (store', 200, body)"
  shows "requireRealAdminGroup cfg rq \<and> grp \<noteq> '''' \<and> \<not> isAdminUser cfg [grp] \<and>
    (\<exists>u. real_user rq = Some u \<and> store' = jm_set (au_username u) grp store)"
  using assms by (auto simp: startImpersonation_def split: if_splits option.splits sum.splits)

lemma applyImpersonation_active:
  "rq_user rq = Some u \<Longrightarrow> jm_get store (au_username u) = Some grp \<Longrightarrow> grp \<noteq> '''' \<Longrightarrow>
   applyImpersonation store rq =
     rq\<lparr>rq_realUser := Some u, rq_user := Some (u\<lparr>au_groups := [grp], au_impersonating := Some grp\<rparr>)\<rparr>"
  by (simp add: applyImpersonation_def truthy_def Let_def)

text \<open>
  C16: While an admin views the application as a group, the admin gate is closed and every resource
  check answers exactly by that group's rule, with no creator's exception, yet jobs are attributed to the
  admin and the impersonation can be ended.
\<close>

theorem impersonation_shows_the_groups_view:
  assumes "startImpersonation cfg directory \<lparr>rq_user = Some u, rq_realUser = None\<rparr> grp store = (store', 200, body)"
    and "rq = applyImpersonation store' \<lparr>rq_user = Some u, rq_realUser = None\<rparr>" and "rq_user rq = Some seen"
  shows "\<not> requireAdminGroup cfg rq \<and> requireRealAdminGroup cfg rq \<and> real_user rq = Some u \<and>
    resolveTriggeredBy rq = (Some (au_username u), Some grp, ViaWeb) \<and>
    isResourceAllowed cfg db inven seen ref =
      (case jm_get (loadPermissionRules db) grp of
         None \<Rightarrow> True
       | Some perm \<Rightarrow> (gp_mode perm = AllowList) =
           list_ex (\<lambda>r. rf_type r = rf_type ref \<and> rf_name r = rf_name ref) (gp_resources perm))"
proof -
  have ok: "isAdminUser cfg (au_groups u)" "grp \<noteq> ''''" "\<not> isAdminUser cfg [grp]"
      "store' = jm_set (au_username u) grp store"
    using startImpersonation_ok [OF assms(1)] by (auto simp: requireRealAdminGroup_def real_user_def request_groups_def)
  have rq: "rq = \<lparr>rq_user = Some (u\<lparr>au_groups := [grp], au_impersonating := Some grp\<rparr>), rq_realUser = Some u\<rparr>"
    using assms(2) ok(2,4) applyImpersonation_active [of "\<lparr>rq_user = Some u, rq_realUser = None\<rparr>" u store' grp]
    by (simp add: row_simps)
  have seen: "seen = u\<lparr>au_groups := [grp], au_impersonating := Some grp\<rparr>" using assms(3) rq by simp
  have "\<not> isCreatorOf inven seen ref"
    by (rule isCreatorOf_impersonating) (simp add: seen truthy_def ok(2))
  then show ?thesis
    using ok by (auto simp: rq seen requireAdminGroup_def requireRealAdminGroup_def real_user_def request_groups_def
        resolveTriggeredBy_def isResourceAllowed_def isAllowed_def Let_def split: option.splits permission_mode.splits)
qed

definition demo_admin :: "string list \<Rightarrow> auth_user" where
  "demo_admin groups = ANONYMOUS_CALLER\<lparr>au_username := ''root'', au_groups := groups\<rparr>"

definition demo_session :: "string list \<Rightarrow> auth_request" where
  "demo_session groups = \<lparr>rq_user = Some (demo_admin groups), rq_realUser = None\<rparr>"

lemmas demo_impersonation = demo_session_def demo_admin_def demo_access startImpersonation_def
  requireRealAdminGroup_def real_user_def request_groups_def

lemma demo_start: "startImpersonation demo_admins (Some (Inr [''family''])) (demo_session [''admins'']) ''family'' [] =
    ([(''root'', ''family'')], 200, ''family'')"
  by (simp add: demo_impersonation)

theorem impersonation_shows_the_groups_view_witness:
  "\<not> requireAdminGroup demo_admins (applyImpersonation [(''root'', ''family'')] (demo_session [''admins'']))"
  using impersonation_shows_the_groups_view [of demo_admins "Some (Inr [''family''])" "demo_admin [''admins'']" "''family''" "[]"
      "[(''root'', ''family'')]" "''family''" _ _ demo_rules demo_inventory "\<lparr>rf_type = RHost, rf_name = ''pve''\<rparr>", OF _ refl]
    demo_start
  by (auto simp: demo_session_def applyImpersonation_def jm_get_def truthy_def demo_admin_def ANONYMOUS_CALLER_def)

text \<open>
  C17: An impersonation outlives its admin's rights.  Nothing checks the real user again when the overlay
  is applied: once the provider no longer lists the user as an admin, the requests still act as the
  impersonated group and neither route can change that.
\<close>

theorem impersonation_outlives_admin_rights:
  assumes "startImpersonation cfg directory rq0 grp store = (store', 200, body)" and "real_user rq0 = Some u0"
    and "au_username u = au_username u0" and "\<not> isAdminUser cfg (au_groups u)"
    and "rq = applyImpersonation store' \<lparr>rq_user = Some u, rq_realUser = None\<rparr>"
  shows "request_groups (rq_user rq) = [grp] \<and> stopImpersonation cfg rq store' = (store', 403, ''forbidden'') \<and>
    startImpersonation cfg directory' rq grp' store' = (store', 403, ''forbidden'')"
proof -
  have ok: "grp \<noteq> ''''" "jm_get store' (au_username u) = Some grp"
    using startImpersonation_ok [OF assms(1)] assms(2,3) by (auto simp: row_simps)
  have rq: "rq = \<lparr>rq_user = Some (u\<lparr>au_groups := [grp], au_impersonating := Some grp\<rparr>), rq_realUser = Some u\<rparr>"
    using assms(5) ok applyImpersonation_active [of "\<lparr>rq_user = Some u, rq_realUser = None\<rparr>" u store' grp] by simp
  show ?thesis
    using assms(4) by (simp add: rq request_groups_def stopImpersonation_def startImpersonation_def
        requireRealAdminGroup_def real_user_def)
qed

theorem impersonation_outlives_admin_rights_witness:
  "stopImpersonation demo_admins (applyImpersonation [(''root'', ''family'')] (demo_session [''staff''])) [(''root'', ''family'')] =
     ([(''root'', ''family'')], 403, ''forbidden'')"
  using impersonation_outlives_admin_rights [OF demo_start, of "demo_admin [''admins'']" "demo_admin [''staff'']"]
  by (simp add: demo_impersonation)

end
