(* ===== verification/Mcp_Theorems.thy ===== *)
theory Mcp_Theorems
  imports Mcp_Invariant Access_Theorems
begin

text \<open>
  What the MCP authorization server guarantees of every sequence of events, sign-ins, sign-outs and
  re-checks included: credentials work once, a revoked grant is dead, accepted tokens are live admins', and
  codes are issued to admins only.  The last section runs a sign-in from consent to an accepted token.
\<close>

lemma auth_okD:
  assumes "auth_ok cr sv"
  shows "service_ok cr sv" "mcp_ok cr (sv_db sv)"
  using assms by (simp_all add: auth_ok_def)

lemma run_auth_ok: "crypto_ok cr \<Longrightarrow> auth_ok cr (mcp_run cr evs new_mcp)"
  using mcp_run_ok [OF _ new_mcp_ok] by (auto simp: step_ok_def)

lemma later_state:
  assumes "crypto_ok cr" and "auth_ok cr sv"
  shows "auth_ok cr (mcp_run cr evs sv)" "auth_le cr (sv_db sv) (sv_db (mcp_run cr evs sv))"
  using mcp_run_ok [OF assms] by (simp_all add: step_ok_def)

lemma not_found: "k \<notin> key ` set rows \<longleftrightarrow> sql_find key k rows = None"
  by (simp add: sql_find_None_iff)

section \<open>Credentials\<close>

lemma code_spent:
  assumes "mcp_ok cr db" and "consumeCode cr now cl code db = (db', Some c)"
  shows "cr_hash cr code \<in> drawn cr (ld_draws db) \<and> cr_hash cr code \<notin> secrets KCode db'"
  using assms
  by (auto simp: consumeCode_def mcp_ok_def row_simps split: option.splits dest!: sql_find_SomeD)

lemma tables_get [simp]:
  "ma_codes (fst (getSessionByHash now k db)) = ma_codes db" "ma_grants (fst (getSessionByHash now k db)) = ma_grants db"
  "ma_tokens (fst (getSessionByHash now k db)) = ma_tokens db" "ma_pending (fst (getSessionByHash now k db)) = ma_pending db"
  "ma_grantSeq (fst (getSessionByHash now k db)) = ma_grantSeq db" for db :: auth_db
  by (simp_all add: tables_of_more [OF more_ops(1)])

lemma codes_createGrant [simp]: "ma_codes (fst (createGrant cr now cl sh res db)) = ma_codes db"
  by (simp add: createGrant_def newId_def purgeGrants_def issueAccess_def Let_def)

lemma exchange_code_codes: "ma_codes (sv_db (fst (exchangeAuthorizationCode cr now cl code ru rs sv))) =
    ma_codes (fst (consumeCode cr now cl code (sv_db sv)))"
  by (simp add: exchangeAuthorizationCode_def split_beta Let_def fst_on_db snd_on_db split: option.split)

lemma exchange_code_found: "exchangeAuthorizationCode cr now cl code ru rs sv = (sv', Inr issued) \<Longrightarrow>
    \<exists>c. snd (consumeCode cr now cl code (sv_db sv)) = Some c"
  by (auto simp: exchangeAuthorizationCode_def split_beta Let_def snd_on_db split: option.splits)

lemma exchange_code_spent: "cr_hash cr code \<notin> secrets KCode (sv_db sv) \<Longrightarrow>
    snd (exchangeAuthorizationCode cr now cl code ru rs sv) = Inl ''Invalid or expired authorization code''"
  by (simp add: exchangeAuthorizationCode_def split_beta snd_on_db consumeCode_def not_found)

lemma rotated_spent:
  assumes "crypto_ok cr" and "mcp_ok cr db" and "rotateRefresh cr now cl token db = (db', Some r)"
  shows "cr_hash cr token \<in> drawn cr (ld_draws db) \<and> cr_hash cr token \<notin> secrets KRefresh db'"
proof -
  obtain g where g: "sql_find gr_refreshHash (cr_hash cr token) (ma_grants db) = Some g" "gr_clientId g = cl"
    using assms(3) by (auto simp: rotateRefresh_eq split: option.splits if_splits)
  then have mem: "g \<in> set (ma_grants db)" "gr_refreshHash g = cr_hash cr token" by (auto dest: sql_find_SomeD)
  then have dr: "cr_hash cr token \<in> drawn cr (ld_draws db)" using assms(2) by (auto simp: mcp_ok_def)
  let ?h = "cr_hash cr (cr_rand cr (ld_draws db))"
  have ne: "cr_hash cr token \<noteq> ?h" using fresh_hash [OF assms(1)] dr by metis
  have grants: "ma_grants db' = sql_update gr_id (gr_id g) (\<lambda>r. r\<lparr>gr_refreshHash := ?h\<rparr>) (ma_grants db)"
    using assms(3) g by (auto simp: rotateRefresh_eq grant_rotated_def newId_def issueAccess_def)
  have "inj_on gr_refreshHash (set (ma_grants db))" using assms(2) by (simp add: mcp_ok_def distinct_map)
  then have "r = g" if "r \<in> set (ma_grants db)" "gr_refreshHash r = cr_hash cr token" for r
    using that mem by (metis inj_onD)

  then have "cr_hash cr token \<notin> gr_refreshHash ` set (ma_grants db')"
    using ne unfolding grants set_sql_update by auto
  then show ?thesis using dr by simp
qed

lemma exchange_refresh_found:
  assumes "exchangeRefreshToken cr now cl token sv = (sv', Inr issued)"
  shows "\<exists>r. snd (rotateRefresh cr now cl token (sv_db sv)) = Some r"
    "ma_grants (sv_db sv') = ma_grants (fst (rotateRefresh cr now cl token (sv_db sv)))"
  using assms by (auto simp: exchangeRefreshToken_def split_beta Let_def snd_on_db fst_on_db split: option.splits if_splits)

lemma exchange_refresh_spent: "cr_hash cr token \<notin> secrets KRefresh (sv_db sv) \<Longrightarrow>
    snd (exchangeRefreshToken cr now cl token sv) = Inl ''Invalid refresh token''"
  by (simp add: exchangeRefreshToken_def split_beta snd_on_db rotateRefresh_eq not_found)

lemma spent_later:
  assumes "crypto_ok cr" and "auth_ok cr sv" and "step_ok cr sv sv'" and "h \<in> drawn cr (ld_draws (sv_db sv))"
    and "h \<notin> secrets kd (sv_db sv')"
  shows "h \<notin> secrets kd (sv_db (mcp_run cr evs sv'))"
proof (rule secret_stays_spent [OF assms(1) _ _ assms(5)])
  show "auth_le cr (sv_db sv') (sv_db (mcp_run cr evs sv'))"
    using later_state(2) [OF assms(1)] assms(3) by (simp add: step_ok_def)
  have "ld_draws (sv_db sv) \<le> ld_draws (sv_db sv')" using assms(3) by (simp add: step_ok_def auth_le_def)
  then show "h \<in> drawn cr (ld_draws (sv_db sv'))" using drawn_mono assms(4) by blast
qed

text \<open>
  C20: Codes and refresh tokens work once.  A code that was exchanged for a grant, and a refresh token that
  was exchanged for the next one, are refused by every later exchange, whoever presents them and whatever
  happened in between.
\<close>

theorem credentials_work_once:
  assumes "crypto_ok cr" and "sv = mcp_run cr before new_mcp"
  shows "(exchangeAuthorizationCode cr now cl code ru rs sv = (sv', Inr issued) \<longrightarrow>
      snd (exchangeAuthorizationCode cr now' cl' code ru' rs' (mcp_run cr after sv')) =
        Inl ''Invalid or expired authorization code'') \<and>
    (exchangeRefreshToken cr now cl token sv = (sv', Inr issued) \<longrightarrow>
      snd (exchangeRefreshToken cr now' cl' token (mcp_run cr after sv')) = Inl ''Invalid refresh token'')"
proof -
  have ok: "auth_ok cr sv" using run_auth_ok [OF assms(1)] assms(2) by simp
  note mok = auth_okD(2) [OF ok]
  have "snd (exchangeAuthorizationCode cr now' cl' code ru' rs' (mcp_run cr after sv')) =
      Inl ''Invalid or expired authorization code''"
    if ex: "exchangeAuthorizationCode cr now cl code ru rs sv = (sv', Inr issued)"
  proof -
    obtain c where c: "consumeCode cr now cl code (sv_db sv) = (fst (consumeCode cr now cl code (sv_db sv)), Some c)"
      using exchange_code_found [OF ex] by (metis prod.collapse)
    have sp: "cr_hash cr code \<in> drawn cr (ld_draws (sv_db sv))" "cr_hash cr code \<notin> secrets KCode (sv_db sv')"
      using code_spent [OF mok c] exchange_code_codes [of cr now cl code ru rs sv] ex by simp_all
    have "cr_hash cr code \<notin> secrets KCode (sv_db (mcp_run cr after sv'))"
      using spent_later [OF assms(1) ok _ sp] exchangeCode_step [OF assms(1) ok, of now cl code ru rs] ex by simp
    then show ?thesis by (rule exchange_code_spent)
  qed
  moreover have "snd (exchangeRefreshToken cr now' cl' token (mcp_run cr after sv')) = Inl ''Invalid refresh token''"
    if ex: "exchangeRefreshToken cr now cl token sv = (sv', Inr issued)"
  proof -
    obtain r where r: "rotateRefresh cr now cl token (sv_db sv) = (fst (rotateRefresh cr now cl token (sv_db sv)), Some r)"
      using exchange_refresh_found(1) [OF ex] by (metis prod.collapse)
    have sp: "cr_hash cr token \<in> drawn cr (ld_draws (sv_db sv))" "cr_hash cr token \<notin> secrets KRefresh (sv_db sv')"
      using rotated_spent [OF assms(1) mok r] exchange_refresh_found(2) [OF ex] by simp_all
    have "cr_hash cr token \<notin> secrets KRefresh (sv_db (mcp_run cr after sv'))"
      using spent_later [OF assms(1) ok _ sp] exchangeRefresh_step [OF assms(1) ok, of now cl token] ex by simp
    then show ?thesis by (rule exchange_refresh_spent)
  qed
  ultimately show ?thesis by blast
qed

section \<open>Grants\<close>

lemma resolveAccess_grant:
  assumes "resolveAccess cr now token db = Some a"
  shows "\<exists>t g. t \<in> set (ma_tokens db) \<and> tk_hash t = cr_hash cr token \<and> tk_grantId t = ar_grantId a \<and> now < tk_expiresAt t \<and>
    g \<in> set (ma_grants db) \<and> gr_id g = ar_grantId a \<and> gr_clientId g = ar_clientId a \<and>
    gr_sessionHash g = ar_sessionHash a \<and> tk_expiresAt t = ar_expiresAt a"
proof -
  obtain t where t: "sql_find tk_hash (cr_hash cr token) (ma_tokens db) = Some t"
    using assms by (auto simp: resolveAccess_def split: option.splits)
  then obtain g where g: "sql_find gr_id (tk_grantId t) (ma_grants db) = Some g"
    using assms by (auto simp: resolveAccess_def split: option.splits)
  show ?thesis
    using sql_find_SomeD [OF t] sql_find_SomeD [OF g] assms t g
    by (intro exI [of _ t] exI [of _ g]) (auto simp: resolveAccess_def split: if_splits)
qed

lemma resolveAccess_ids: "resolveAccess cr now token db = Some a \<Longrightarrow> ar_grantId a \<in> grant_ids db"
  using resolveAccess_grant unfolding grant_ids_def by (metis imageI)

lemma revoke_grant:
  assumes "sql_find gr_refreshHash (cr_hash cr token) (ma_grants (sv_db sv)) = Some g" and "gr_clientId g = cl"
    and "sql_find gr_id (gr_id g) (ma_grants (sv_db sv)) = Some g"
  shows "revokeToken cr cl token sv =
    sv\<lparr>sv_db := deleteSessionByHash (gr_sessionHash g) (fst (deleteGrant (gr_id g) (sv_db sv)))\<rparr>"
  using assms by (simp add: revokeToken_def fst_on_db snd_on_db split_beta revoke_def deleteGrant_def)

lemma revoked_state:
  assumes "mcp_ok cr (sv_db sv)" and f: "sql_find gr_refreshHash (cr_hash cr token) (ma_grants (sv_db sv)) = Some g"
    and "gr_clientId g = cl"
  shows "gr_id g \<notin> grant_ids (sv_db (revokeToken cr cl token sv))"
    "session_at (gr_sessionHash g) (sv_db (revokeToken cr cl token sv)) = None"
    "gr_id g \<le> ma_grantSeq (sv_db (revokeToken cr cl token sv))"
    "cr_hash cr token \<notin> secrets KRefresh (sv_db (revokeToken cr cl token sv))"
proof -
  have mem: "g \<in> set (ma_grants (sv_db sv))" "gr_refreshHash g = cr_hash cr token" using sql_find_SomeD [OF f] by auto
  have d: "distinct (map gr_id (ma_grants (sv_db sv)))" "inj_on gr_refreshHash (set (ma_grants (sv_db sv)))"
    using assms(1) by (simp_all add: mcp_ok_def distinct_map)
  have "sql_find gr_id (gr_id g) (ma_grants (sv_db sv)) = Some g" by (rule sql_find_distinct [OF d(1) mem(1)])
  note eq = revoke_grant [OF f assms(3) this]
  have kept: "ma_grants (deleteSessionByHash k db) = ma_grants db" "ma_grantSeq (deleteSessionByHash k db) = ma_grantSeq db"
    for k and db :: auth_db
    by (simp_all add: tables_of_more [OF more_ops(2)])

  show "gr_id g \<notin> grant_ids (sv_db (revokeToken cr cl token sv))"
    by (auto simp: eq kept grant_ids_def deleteGrant_def row_simps)
  show "session_at (gr_sessionHash g) (sv_db (revokeToken cr cl token sv)) = None" by (simp add: eq row_simps)
  show "gr_id g \<le> ma_grantSeq (sv_db (revokeToken cr cl token sv))"
    using assms(1) mem(1) by (auto simp: eq kept deleteGrant_def mcp_ok_defs)
  show "cr_hash cr token \<notin> secrets KRefresh (sv_db (revokeToken cr cl token sv))"
    using d(2) mem by (auto simp: eq kept deleteGrant_def row_simps dest: inj_onD)
qed

lemma session_stays_gone:
  assumes "crypto_ok cr" and "auth_le cr db db'" and "h \<in> drawn cr (ld_draws db)" and "session_at h db = None"
  shows "session_at h db' = None"
  using secret_stays_spent [OF assms(1-3), of KSession] assms(4) by (simp add: session_at_def not_found)

text \<open>
  C21: Revoking a grant is final.  After a client revokes a refresh token of its own, whatever happens later,
  no access token of that grant resolves, the refresh token is refused, and the sign-in behind the grant
  is gone.
\<close>

theorem revoked_grant_is_dead:
  assumes "crypto_ok cr" and "sv = mcp_run cr before new_mcp"
    and "sql_find gr_refreshHash (cr_hash cr token) (ma_grants (sv_db sv)) = Some g" and "gr_clientId g = cl"
    and "later = mcp_run cr after (revokeToken cr cl token sv)"
  shows "(\<nexists>a. resolveAccess cr now access (sv_db later) = Some a \<and> ar_grantId a = gr_id g) \<and>
    snd (exchangeRefreshToken cr now cl' token later) = Inl ''Invalid refresh token'' \<and>
    session_at (gr_sessionHash g) (sv_db later) = None"
proof -
  have ok: "auth_ok cr sv" using run_auth_ok [OF assms(1)] assms(2) by simp
  note mok = auth_okD(2) [OF ok]
  note gone = revoked_state [OF mok assms(3,4)]
  have s: "step_ok cr sv (revokeToken cr cl token sv)" by (rule revoke_step [OF assms(1) ok])
  then have ok': "auth_ok cr (revokeToken cr cl token sv)"
    and draws: "ld_draws (sv_db sv) \<le> ld_draws (sv_db (revokeToken cr cl token sv))"
    by (simp_all add: step_ok_def auth_le_def)
  have le: "auth_le cr (sv_db (revokeToken cr cl token sv)) (sv_db later)"
    using later_state(2) [OF assms(1) ok'] assms(5) by simp
  have mem: "g \<in> set (ma_grants (sv_db sv))" "gr_refreshHash g = cr_hash cr token" using sql_find_SomeD [OF assms(3)] by auto
  then have dr: "gr_sessionHash g \<in> drawn cr (ld_draws (sv_db sv))" "cr_hash cr token \<in> drawn cr (ld_draws (sv_db sv))"
    using mok by (auto simp: mcp_ok_def)
  have "gr_id g \<notin> grant_ids (sv_db later)" by (rule grant_stays_gone [OF le gone(3,1)])
  then have "ar_grantId a \<noteq> gr_id g" if "resolveAccess cr now access (sv_db later) = Some a" for a
    using resolveAccess_ids [OF that] by auto
  then have "\<nexists>a. resolveAccess cr now access (sv_db later) = Some a \<and> ar_grantId a = gr_id g" by blast

  moreover have "cr_hash cr token \<notin> secrets KRefresh (sv_db later)"
    using spent_later [OF assms(1) ok s dr(2) gone(4)] assms(5) by simp
  moreover have "session_at (gr_sessionHash g) (sv_db later) = None"
    by (rule session_stays_gone [OF assms(1) le _ gone(2)]) (use dr(1) drawn_mono [OF draws] in blast)
  ultimately show ?thesis using exchange_refresh_spent by blast
qed

text \<open>
  C22: An accepted access token is a live admin's.  When \<open>/mcp\<close> accepts a token that is not the API key
  without a re-check, the token is unexpired, its grant exists, and the grant's sign-in is there, younger
  than 30 days, and says the user is an admin; the token of any other user is refused.
\<close>

theorem accepted_token_is_a_live_admins:
  assumes "crypto_ok cr" and "sv = mcp_run cr before new_mcp"
    and "verifyAccessToken cr now cfg key token sv = (sv', ByGrant gid user expires)"
  shows "\<exists>t g row. t \<in> set (ma_tokens (sv_db sv')) \<and> tk_hash t = cr_hash cr token \<and> now < tk_expiresAt t \<and>
    expires = tk_expiresAt t \<and> tk_grantId t = gid \<and> g \<in> set (ma_grants (sv_db sv')) \<and> gr_id g = gid \<and>
    session_at (gr_sessionHash g) (sv_db sv') = Some row \<and> now < sn_createdAt row + 30 * 86400000 \<and>
    sn_username row = user \<and> isAdminUser cfg (sn_groups row)"
proof -
  obtain a where a: "resolveAccess cr now token (sv_db sv) = Some a"
    using assms(3) by (auto simp: verifyAccessToken_def split: if_splits option.splits)
  obtain sv1 u where u: "resolveHash now (ar_sessionHash a) sv = (sv1, Answered (Some u))"
      "verifyFinish cfg a (Some u) sv1 = (sv', ByGrant gid user expires)"
    using assms(3) a
    by (cases "resolveHash now (ar_sessionHash a) sv")
      (auto simp: verifyAccessToken_def verifyFinish_def split: if_splits login_out.splits option.splits)
  obtain row where row: "session_at (ar_sessionHash a) (sv_db sv) = Some row" "u = toAuthUser row" "sv1 = sv"
      "now < sn_createdAt row + SESSION_MAX_AGE_MS"
    using resolve_backed [OF u(1)] by auto
  have fin: "sv' = sv" "gid = ar_grantId a" "user = sn_username row" "expires = ar_expiresAt a" "isAdminUser cfg (sn_groups row)"
    using u(2) row(2,3) by (auto simp: verifyFinish_def toAuthUser_def split: if_splits)
  show ?thesis
    using resolveAccess_grant [OF a] row fin by (fastforce simp: SESSION_MAX_AGE_MS_def)
qed

lemma pending_spent:
  assumes "mcp_ok cr db" and "snd (consumePending now h db) = Some p"
  shows "h \<in> drawn cr (ld_draws db) \<and> h \<notin> secrets KPending (fst (consumePending now h db)) \<and> getPending now h db = Some p"
  using assms
  by (auto simp: consumePending_def getPending_def mcp_ok_def row_simps split: option.splits dest!: sql_find_SomeD)

lemma finish_spent: "h \<notin> secrets KPending (sv_db sv) \<Longrightarrow> snd (finishSignIn cr now cfg h identity sv) = ConsentExpired"
  by (simp add: finishSignIn_def split_beta snd_on_db consumePending_def not_found Let_def)

lemma issued_code_row:
  assumes "crypto_ok cr" and "mcp_ok cr db" and "issueCode cr now input db = (db', code)"
  shows "sql_find cd_codeHash (cr_hash cr code) (ma_codes db') =
    Some \<lparr>cd_codeHash = cr_hash cr code, cd_input = input, cd_createdAt = now\<rparr>"
proof -
  have "cr_hash cr (cr_rand cr (ld_draws db)) \<notin> secrets KCode db"
    using fresh_hash [OF assms(1), of "ld_draws db"] assms(2) by (auto simp: mcp_ok_def)
  then have "sql_find cd_codeHash (cr_hash cr (cr_rand cr (ld_draws db))) (sql_delete P (ma_codes db)) = None" for P
    unfolding not_found [symmetric] by (auto simp: row_simps)
  then show ?thesis
    using assms(3) by (auto simp: issueCode_def newId_def row_simps)
qed

text \<open>
  An authorization code is only ever issued to an admin, for a consent that was pending, once: finishing
  the sign-in with a code means the identity is an admin's and the pending request was live; the code is
  good for that request's client and carries its redirect address and challenge; and no later sign-in
  finishes the same request.
\<close>

theorem codes_for_admins_only:
  assumes "crypto_ok cr" and "sv = mcp_run cr before new_mcp"
    and "finishSignIn cr now cfg h identity sv = (sv', CodeRedirect uri code st)"
  shows "isAdminUser cfg (si_groups identity) \<and>
    (\<exists>p. getPending now h (sv_db sv) = Some p \<and> uri = pe_redirectUri p \<and>
       (\<forall>later cl c. peekCode cr later cl code (sv_db sv') = Some c \<longrightarrow>
          cl = pe_clientId p \<and> co_redirectUri c = pe_redirectUri p \<and> co_codeChallenge c = pe_codeChallenge p)) \<and>
    snd (finishSignIn cr now' cfg' h identity' (mcp_run cr after sv')) = ConsentExpired"
proof -
  have ok: "auth_ok cr sv" using run_auth_ok [OF assms(1)] assms(2) by simp
  note mok = auth_okD(2) [OF ok]
  let ?sv1 = "fst (on_db (consumePending now h) sv)"
  obtain p where p: "snd (consumePending now h (sv_db sv)) = Some p"
    using assms(3) by (auto simp: finishSignIn_def split_beta snd_on_db split: option.splits)
  let ?sv2 = "fst (createDetached cr now identity ?sv1)"
  let ?c = "\<lparr>co_clientId = pe_clientId p, co_redirectUri = pe_redirectUri p, co_codeChallenge = pe_codeChallenge p,
      co_resource = pe_resource p, co_sessionHash = snd (createDetached cr now identity ?sv1)\<rparr>"
  have adm: "isAdminUser cfg (si_groups identity)" and uri: "uri = pe_redirectUri p"
    and code: "issueCode cr now ?c (sv_db ?sv2) = (sv_db sv', code)"
    using assms(3) p by (auto simp: finishSignIn_def split_beta Let_def snd_on_db fst_on_db prod_eq_iff split: if_splits)
  have s1: "auth_ok cr ?sv1"
    using on_db_step [OF assms(1) ok consume_pending.auth_operation_axioms, of now h] by (simp add: step_ok_def)
  have s2: "auth_ok cr ?sv2"
    using login_step_ok [OF assms(1) s1, of "ECreate now identity"] by (simp add: step_ok_def createDetached_eq)
  have "peekCode cr later cl code (sv_db sv') = Some c \<Longrightarrow> c = ?c \<and> cl = pe_clientId p" for later cl c
    using issued_code_row [OF assms(1) auth_okD(2) [OF s2] code] by (auto simp: peekCode_def liveCode_def split: if_splits)
  then have bound: "\<forall>later cl c. peekCode cr later cl code (sv_db sv') = Some c \<longrightarrow>
      cl = pe_clientId p \<and> co_redirectUri c = pe_redirectUri p \<and> co_codeChallenge c = pe_codeChallenge p" by fastforce
  have "sv_db sv' = fst (issueCode cr now ?c (sv_db ?sv2))" using code by (metis fst_conv)
  then have "ma_pending (sv_db sv') = ma_pending (sv_db ?sv2)" by (simp add: issueCode_def newId_def)

  also have "\<dots> = ma_pending (fst (consumePending now h (sv_db sv)))"
    by (simp add: createDetached_eq login_tables fst_on_db del: login_step.simps)
  finally have sp: "h \<notin> secrets KPending (sv_db sv')" using pending_spent [OF mok p] by simp
  have "h \<notin> secrets KPending (sv_db (mcp_run cr after sv'))"
    using spent_later [OF assms(1) ok _ _ sp] finishSignIn_step [OF assms(1) ok, of now cfg h identity] assms(3)
      pending_spent [OF mok p] by simp
  then show ?thesis using adm uri bound finish_spent pending_spent [OF mok p] by blast
qed

section \<open>A sign-in from end to end\<close>

definition demo_request :: pending_input where
  "demo_request = \<lparr>pe_clientId = ''c1'', pe_redirectUri = ''https://c'', pe_codeChallenge = ''ch'', pe_state = None,
     pe_scopes = [], pe_resource = None\<rparr>"

definition asked :: "mcp_event list" where
  "asked = [MAuthorize 0 demo_request]"

definition signed_in :: "mcp_event list" where
  "signed_in = asked @ [MFinish 1 demo_admins ''hi'' ann]"

definition granted :: "mcp_event list" where
  "granted = signed_in @ [MExchange 2 ''c1'' ''ixx'' None None]"

lemmas mcp_eval = granted_def signed_in_def asked_def demo_request_def mcp_run_def new_mcp_def empty_auth_def authorize_def
  on_db_def createPending_def newId_def sql_delete_def plain_crypto_def finishSignIn_def consumePending_def sql_find_def
  live_pending_def PENDING_TTL_MS_def toPending_def isAdminUser_def isAdminOf_def demo_admins_def ann_def createDetached_def
  create_session_def createSession_def purgeExpired_def new_session_def issueCode_def exchangeAuthorizationCode_def
  consumeCode_def liveCode_def CODE_TTL_MS_def getSessionByHash_def SESSION_MAX_AGE_MS_def createGrant_def purgeGrants_def
  issueAccess_def ACCESS_TOKEN_TTL_MS_def sql_update_def

lemma demo_code: "snd (finishSignIn plain_crypto 1 demo_admins ''hi'' ann (mcp_run plain_crypto asked new_mcp)) =
    CodeRedirect ''https://c'' ''ixx'' None"
  by (simp add: mcp_eval)

theorem codes_for_admins_only_witness:
  "snd (finishSignIn plain_crypto 3 demo_admins ''hi'' ann
     (mcp_run plain_crypto [MExchange 2 ''c1'' ''ixx'' None None] (fst (finishSignIn plain_crypto 1 demo_admins ''hi'' ann
        (mcp_run plain_crypto asked new_mcp))))) = ConsentExpired"
proof -
  obtain sv' where e: "finishSignIn plain_crypto 1 demo_admins ''hi'' ann (mcp_run plain_crypto asked new_mcp) =
      (sv', CodeRedirect ''https://c'' ''ixx'' None)" using demo_code by (metis prod.collapse)
  show ?thesis using codes_for_admins_only [OF plain_crypto_ok refl e] e by (metis fst_conv)
qed

lemma demo_grant: "\<exists>issued. snd (exchangeAuthorizationCode plain_crypto 2 ''c1'' ''ixx'' None None
    (mcp_run plain_crypto signed_in new_mcp)) = Inr issued"
  by (simp add: mcp_eval)

theorem credentials_work_once_witness:
  "snd (exchangeAuthorizationCode plain_crypto 4 ''c1'' ''ixx'' None None (mcp_run plain_crypto [MRefresh 3 ''c1'' ''ixxx'']
      (fst (exchangeAuthorizationCode plain_crypto 2 ''c1'' ''ixx'' None None (mcp_run plain_crypto signed_in new_mcp))))) =
    Inl ''Invalid or expired authorization code''"
proof -
  obtain sv' issued where e: "exchangeAuthorizationCode plain_crypto 2 ''c1'' ''ixx'' None None
      (mcp_run plain_crypto signed_in new_mcp) = (sv', Inr issued)" using demo_grant by (metis prod.collapse)
  show ?thesis using credentials_work_once [OF plain_crypto_ok refl, of 2 "''c1''" "''ixx''" None None signed_in sv' issued] e
    by (metis fst_conv)
qed

lemma demo_grant_row: "\<exists>g. sql_find gr_refreshHash (cr_hash plain_crypto ''ixxx'') (ma_grants (sv_db (mcp_run plain_crypto granted new_mcp))) =
    Some g \<and> gr_clientId g = ''c1''"
  by (simp add: mcp_eval)

theorem revoked_grant_is_dead_witness:
  "snd (exchangeRefreshToken plain_crypto 9 ''c1'' ''ixxx'' (mcp_run plain_crypto [] (revokeToken plain_crypto ''c1'' ''ixxx''
      (mcp_run plain_crypto granted new_mcp)))) = Inl ''Invalid refresh token''"
  using demo_grant_row revoked_grant_is_dead [OF plain_crypto_ok refl _ _ refl] by blast

lemma demo_accept: "snd (verifyAccessToken plain_crypto 5 demo_admins None ''ixxxx'' (mcp_run plain_crypto granted new_mcp)) =
    ByGrant 1 ''ann'' 3600002"
  by (simp add: mcp_eval verifyAccessToken_def verifyApiKey_def resolveAccess_def resolveHash_def checkDue_def
      CHECK_INTERVAL_MS_def verifyFinish_def toAuthUser_def)

theorem accepted_token_is_a_live_admins_witness:
  "\<exists>h row. session_at h (sv_db (fst (verifyAccessToken plain_crypto 5 demo_admins None ''ixxxx'' (mcp_run plain_crypto granted new_mcp)))) =
       Some row \<and> sn_username row = ''ann'' \<and> isAdminUser demo_admins (sn_groups row)"

proof -
  obtain sv' where e: "verifyAccessToken plain_crypto 5 demo_admins None ''ixxxx'' (mcp_run plain_crypto granted new_mcp) =
      (sv', ByGrant 1 ''ann'' 3600002)" using demo_accept by (metis prod.collapse)
  show ?thesis unfolding e fst_conv using accepted_token_is_a_live_admins [OF plain_crypto_ok refl e] by blast
qed

end
