(* ===== verification/Js_Text.thy ===== *)
theory Js_Text
  imports Bellhop_Prelude "HOL-Library.Char_ord" "HOL-Library.List_Lexorder" "HOL-Library.Product_Lexorder" "HOL-Library.Multiset"
begin

text \<open>
  What the library modules use of the language: string tests, trimming, lower case, splitting, the array
  \<open>Array.from(new Set(xs))\<close>, and \<open>Array.prototype.sort\<close> with a comparator.  A string is a list of
  characters of the range U+0000 to U+00FF, where code units, code points and SQLite's byte order agree.

  \<open>js_sort\<close> is a stable insertion sort.  The language fixes the result of a sort only when the comparator
  is consistent; then every stable sort gives this one, which is \<open>sort_key\<close> of a key the comparator
  compares (\<open>js_sort_key\<close>).  A comparator may return \<open>NaN\<close> (\<open>None\<close>), which counts as 0.
\<close>

section \<open>Characters and strings\<close>

definition code :: "char \<Rightarrow> nat" where
  "code c = of_char c"

definition in_range :: "nat \<Rightarrow> nat \<Rightarrow> char \<Rightarrow> bool" where
  "in_range lo hi c \<longleftrightarrow> lo \<le> code c \<and> code c \<le> hi"

definition is_alnum :: "char \<Rightarrow> bool" where
  "is_alnum c \<longleftrightarrow> in_range 48 57 c \<or> in_range 65 90 c \<or> in_range 97 122 c"

definition is_alpha :: "char \<Rightarrow> bool" where
  "is_alpha c \<longleftrightarrow> in_range 65 90 c \<or> in_range 97 122 c"

text \<open>The white space of \<open>trim\<close> and of \<open>\s\<close>.\<close>

definition js_space :: "char \<Rightarrow> bool" where
  "js_space c \<longleftrightarrow> in_range 9 13 c \<or> code c = 32 \<or> code c = 160"

definition trim_text :: "string \<Rightarrow> string" where
  "trim_text s = rev (dropWhile js_space (rev (dropWhile js_space s)))"

definition lower_char :: "char \<Rightarrow> char" where
  "lower_char c =
     (if in_range 65 90 c \<or> in_range 192 214 c \<or> in_range 216 222 c then char_of (code c + 32) else c)"

definition toLowerCase :: "string \<Rightarrow> string" where
  "toLowerCase s = map lower_char s"

definition startsWith :: "string \<Rightarrow> string \<Rightarrow> bool" where
  "startsWith s p \<longleftrightarrow> take (length p) s = p"

definition endsWith :: "string \<Rightarrow> string \<Rightarrow> bool" where
  "endsWith s p \<longleftrightarrow> startsWith (rev s) (rev p)"

fun indexOfChar :: "string \<Rightarrow> char \<Rightarrow> nat option" where
  "indexOfChar [] c = None"
| "indexOfChar (x # xs) c = (if x = c then Some 0 else map_option Suc (indexOfChar xs c))"

fun includesText :: "string \<Rightarrow> string \<Rightarrow> bool" where
  "includesText [] p = (p = [])"
| "includesText (x # xs) p = (startsWith (x # xs) p \<or> includesText xs p)"

fun join_with :: "string \<Rightarrow> string list \<Rightarrow> string" where
  "join_with sep [] = []"
| "join_with sep [x] = x"
| "join_with sep (x # y # ys) = x @ sep @ join_with sep (y # ys)"

lemma startsWith_iff: "startsWith s p \<longleftrightarrow> (\<exists>t. s = p @ t)"
  unfolding startsWith_def by (metis append_eq_conv_conj)

lemma indexOfChar_None: "indexOfChar s c = None \<longleftrightarrow> c \<notin> set s"
  by (induction s) auto

lemma indexOfChar_Some:
  "indexOfChar s c = Some i \<longleftrightarrow> i < length s \<and> s ! i = c \<and> c \<notin> set (take i s)"
proof (induction s arbitrary: i)
  case Nil
  then show ?case by simp
next
  case (Cons x xs)
  show ?case by (cases i) (auto simp: Cons.IH)
qed

lemma dropWhile_idem: "dropWhile P (dropWhile P xs) = dropWhile P xs"
  by (induction xs) auto

lemma trim_ends: "trim_text s = [] \<or> \<not> js_space (hd (trim_text s)) \<and> \<not> js_space (last (trim_text s))"
proof (cases "trim_text s = []")
  case True
  then show ?thesis by simp
next
  case False
  let ?t = "dropWhile js_space s"
  have ne: "dropWhile js_space (rev ?t) \<noteq> []" using False by (simp add: trim_text_def)
  then have last_ok: "\<not> js_space (last (trim_text s))"
    by (simp add: trim_text_def last_rev hd_dropWhile)
  have "?t \<noteq> []" using ne by (cases "?t = []") simp_all
  moreover have "hd (trim_text s) = hd ?t"
  proof -
    have "rev ?t = takeWhile js_space (rev ?t) @ dropWhile js_space (rev ?t)" by simp
    then have "?t = rev (dropWhile js_space (rev ?t)) @ rev (takeWhile js_space (rev ?t))"
      by (metis rev_append rev_rev_ident)
    then have "?t = trim_text s @ rev (takeWhile js_space (rev ?t))" by (simp add: trim_text_def)
    then show ?thesis using False by (metis hd_append2)
  qed
  ultimately show ?thesis using last_ok by (simp add: hd_dropWhile)
qed

section \<open>Array.from(new Set(xs))\<close>

definition uniq :: "'a list \<Rightarrow> 'a list" where
  "uniq xs = foldl (\<lambda>s x. js_add x s) [] xs"

lemma uniq_fold: "set (foldl (\<lambda>s x. js_add x s) s xs) = set s \<union> set xs"
  by (induction xs arbitrary: s) (auto simp: row_simps)

lemma set_uniq [simp]: "set (uniq xs) = set xs"
  by (simp add: uniq_def uniq_fold)

lemma distinct_uniq_fold: "distinct s \<Longrightarrow> distinct (foldl (\<lambda>s x. js_add x s) s xs)"
  by (induction xs arbitrary: s) (auto simp: distinct_js_add)

lemma distinct_uniq [simp]: "distinct (uniq xs)"
  by (simp add: uniq_def distinct_uniq_fold)

lemma uniq_snoc: "uniq (xs @ [x]) = (if x \<in> set xs then uniq xs else uniq xs @ [x])"
  using set_uniq [of xs] by (simp add: uniq_def js_add_def)

lemma uniq_distinct: "distinct xs \<Longrightarrow> uniq xs = xs"
  by (induction xs rule: rev_induct) (auto simp: uniq_snoc uniq_def [of "[]"])

lemma uniq_idem [simp]: "uniq (uniq xs) = uniq xs"
  by (simp add: uniq_distinct)

lemma uniq_Nil [simp]: "uniq [] = []"
  by (simp add: uniq_def)

section \<open>Array.prototype.sort\<close>

definition comes_after :: "int option \<Rightarrow> bool" where
  "comes_after r \<longleftrightarrow> (case r of Some d \<Rightarrow> d > 0 | None \<Rightarrow> False)"

fun js_insert :: "('a \<Rightarrow> 'a \<Rightarrow> int option) \<Rightarrow> 'a \<Rightarrow> 'a list \<Rightarrow> 'a list" where
  "js_insert cmp x [] = [x]"
| "js_insert cmp x (y # ys) = (if comes_after (cmp x y) then y # js_insert cmp x ys else x # y # ys)"

definition js_sort :: "('a \<Rightarrow> 'a \<Rightarrow> int option) \<Rightarrow> 'a list \<Rightarrow> 'a list" where
  "js_sort cmp xs = foldr (js_insert cmp) xs []"

lemma js_sort_simps [simp]:
  "js_sort cmp [] = []"
  "js_sort cmp (x # xs) = js_insert cmp x (js_sort cmp xs)"
  by (simp_all add: js_sort_def)

lemma set_js_insert [simp]: "set (js_insert cmp x xs) = insert x (set xs)"
  by (induction xs) auto

lemma set_js_sort [simp]: "set (js_sort cmp xs) = set xs"
  by (induction xs) auto

lemma mset_js_insert: "mset (js_insert cmp x xs) = add_mset x (mset xs)"
  by (induction xs) auto

lemma mset_js_sort [simp]: "mset (js_sort cmp xs) = mset xs"
  by (induction xs) (auto simp: mset_js_insert)

lemma length_js_sort [simp]: "length (js_sort cmp xs) = length xs"
  by (metis mset_js_sort size_mset)

lemma js_insert_key:
  assumes "\<And>y. y \<in> set ys \<Longrightarrow> comes_after (cmp x y) \<longleftrightarrow> (k x :: 'b :: linorder) > k y"
  shows "js_insert cmp x ys = insort_key k x ys"
  using assms by (induction ys) (auto simp: not_le)

lemma js_sort_key:
  assumes "\<And>x y. x \<in> set xs \<Longrightarrow> y \<in> set xs \<Longrightarrow> comes_after (cmp x y) \<longleftrightarrow> (k x :: 'b :: linorder) > k y"
  shows "js_sort cmp xs = sort_key k xs"
  using assms
proof (induction xs)
  case Nil
  then show ?case by simp
next
  case (Cons x xs)
  have "js_sort cmp xs = sort_key k xs" by (rule Cons.IH) (simp add: Cons.prems)
  moreover have "js_insert cmp x (sort_key k xs) = insort_key k x (sort_key k xs)"
    by (rule js_insert_key) (simp add: Cons.prems)
  ultimately show ?case by (simp add: sort_key_def)
qed

text \<open>Sorting what one key sorted, or any other order of the same distinct keys, gives the same list.\<close>

lemma sort_key_perm:
  fixes k :: "'a \<Rightarrow> 'b :: linorder"
  assumes "set xs = set ys" and "distinct (map k xs)" and "distinct (map k ys)"
  shows "sort_key k xs = sort_key k ys"
proof (rule map_sorted_distinct_set_unique)
  show "inj_on k (set (sort_key k xs) \<union> set (sort_key k ys))"
    using assms by (simp add: distinct_map)
  show "sorted (map k (sort_key k xs))" "sorted (map k (sort_key k ys))" by simp_all
  have "mset (map k (sort_key k zs)) = mset (map k zs)" for zs :: "'a list"
    by (metis mset_map mset_sort)
  then show "distinct (map k (sort_key k xs))" "distinct (map k (sort_key k ys))"
    using assms(2,3) by (metis mset_eq_imp_distinct_iff)+
  show "set (sort_key k xs) = set (sort_key k ys)" using assms(1) by simp
qed

end
