(* ===== verification/Settings_Schema.thy ===== *)
theory Settings_Schema
  imports Js_Text
begin

text \<open>
  The settings and what each may hold: \<open>SettingsSchema\<close> of \<open>src/src/lib/inventory.ts\<close>, the moved and the
  secret settings of \<open>src/src/lib/settings-defs.ts\<close>, and the identifiers of \<open>src/src/lib/proxy/ids.ts\<close>.
  A schema object is the list of its keys, in source order, with the test each value must pass.  The
  runtime's URL parser is a parameter: what \<open>new URL(s)\<close> gives, \<open>None\<close> where it throws.
\<close>

section \<open>URLs\<close>

record url_parts =
  up_protocol :: string
  up_hostname :: string
  up_pathname :: string

type_synonym url_parser = "string \<Rightarrow> url_parts option"

definition isAbsoluteHttpUrl :: "url_parser \<Rightarrow> string \<Rightarrow> bool" where
  "isAbsoluteHttpUrl parse_url value =
     (case parse_url value of
        None \<Rightarrow> False
      | Some url \<Rightarrow> up_protocol url = ''http:'' \<or> up_protocol url = ''https:'')"

definition LOOPBACK_HOSTS :: "string list" where
  "LOOPBACK_HOSTS = [''localhost'', ''127.0.0.1'', ''[::1]'']"

definition webUiOidcRedirectUri_ok :: "url_parser \<Rightarrow> string \<Rightarrow> bool" where
  "webUiOidcRedirectUri_ok parse_url value =
     (case parse_url value of
        None \<Rightarrow> False
      | Some url \<Rightarrow>
          (up_protocol url = ''https:'' \<or>
           up_protocol url = ''http:'' \<and> up_hostname url \<in> set LOOPBACK_HOSTS) \<and>
          up_pathname url = ''/auth/callback'')"

definition proxyApiUrl_ok :: "url_parser \<Rightarrow> string \<Rightarrow> bool" where
  "proxyApiUrl_ok parse_url value \<longleftrightarrow> CHR 39 \<notin> set value \<and> isAbsoluteHttpUrl parse_url value"

section \<open>Identifiers\<close>

definition PROXY_DRIVER_IDS :: "string list" where
  "PROXY_DRIVER_IDS =
     [''caddy'', ''nginx'', ''nginx-proxy-manager'', ''haproxy'', ''traefik'', ''none'', ''caddy-api'']"

definition TLS_SOURCES :: "string list" where
  "TLS_SOURCES = [''acme-dns'', ''acme-http'', ''internal'', ''files'', ''external'']"

definition ACME_DNS_PROVIDERS :: "string list" where
  "ACME_DNS_PROVIDERS = [''cloudflare'']"

definition WEB_UI_AUTH_MODES :: "string list" where
  "WEB_UI_AUTH_MODES = [''oidc'', ''none'']"

section \<open>Value tests\<close>

definition absolutePath_ok :: "string \<Rightarrow> bool" where
  "absolutePath_ok s \<longleftrightarrow> startsWith s ''/''"

definition name_char :: "char \<Rightarrow> bool" where
  "name_char c \<longleftrightarrow> is_alnum c \<or> c = CHR ''-'' \<or> c = CHR ''_''"

definition dotted_name_char :: "char \<Rightarrow> bool" where
  "dotted_name_char c \<longleftrightarrow> name_char c \<or> c = CHR ''.''"

definition certResolver_ok :: "string \<Rightarrow> bool" where
  "certResolver_ok s \<longleftrightarrow> s \<noteq> [] \<and> list_all name_char s"

text \<open>\<open>owner/repo\<close>: the owner starts and ends with a letter or digit and holds no other character but a hyphen.\<close>

definition customScriptsRepo_ok :: "string \<Rightarrow> bool" where
  "customScriptsRepo_ok s =
     (case split_on (CHR ''/'') s of
        [own, repo] \<Rightarrow>
          own \<noteq> [] \<and> is_alnum (hd own) \<and> is_alnum (last own) \<and>
          list_all (\<lambda>c. is_alnum c \<or> c = CHR ''-'') own \<and>
          repo \<noteq> [] \<and> list_all dotted_name_char repo
      | _ \<Rightarrow> False)"

definition customScriptsBranch_ok :: "string \<Rightarrow> bool" where
  "customScriptsBranch_ok s \<longleftrightarrow>
     s \<noteq> [] \<and> list_all (\<lambda>c. dotted_name_char c \<or> c = CHR ''/'') s \<and> \<not> includesText s ''..'' \<and>
     \<not> startsWith s ''/'' \<and> \<not> startsWith s ''-'' \<and> \<not> endsWith s ''/'' \<and> \<not> endsWith s ''.lock''"

definition pveUserRealm_ok :: "string \<Rightarrow> bool" where
  "pveUserRealm_ok s =
     (case s of [] \<Rightarrow> False | c # rest \<Rightarrow> is_alpha c \<and> rest \<noteq> [] \<and> list_all dotted_name_char rest)"

definition pveCreatorRole_ok :: "string \<Rightarrow> bool" where
  "pveCreatorRole_ok s \<longleftrightarrow> s \<noteq> [] \<and> list_all dotted_name_char s"

definition nonEmpty_ok :: "string \<Rightarrow> bool" where
  "nonEmpty_ok s \<longleftrightarrow> s \<noteq> []"

definition groupLadder_ok :: "string \<Rightarrow> bool" where
  "groupLadder_ok s \<longleftrightarrow> s \<noteq> [] \<and> list_ex (\<lambda>rung. trim_text rung \<noteq> []) (split_on (CHR '','') s)"

definition positiveInteger_ok :: "string \<Rightarrow> bool" where
  "positiveInteger_ok s \<longleftrightarrow> s \<noteq> [] \<and> list_all is_digit s \<and> read_nat s > 0"

definition token_ok :: "string \<Rightarrow> bool" where
  "token_ok s \<longleftrightarrow> s \<noteq> [] \<and> list_all (\<lambda>c. \<not> js_space c) s"

definition apiKey_ok :: "string \<Rightarrow> bool" where
  "apiKey_ok s \<longleftrightarrow> token_ok s \<and> length s \<ge> 32"

definition password_ok :: "string \<Rightarrow> bool" where
  "password_ok s \<longleftrightarrow> s \<noteq> [] \<and> list_all (\<lambda>c. 32 \<le> code c \<and> code c \<noteq> 127) s"

section \<open>The schemas\<close>

definition MovedSettingsSchema :: "url_parser \<Rightarrow> (string \<times> (string \<Rightarrow> bool)) list" where
  "MovedSettingsSchema u =
     [(''authentikApiUrl'', isAbsoluteHttpUrl u),
      (''authentikAdminGroup'', nonEmpty_ok),
      (''authentikBuiltinAdminGroup'', nonEmpty_ok),
      (''authentikGroupLadder'', groupLadder_ok),
      (''authentikOutpostName'', nonEmpty_ok),
      (''authentikOutpostPort'', positiveInteger_ok),
      (''authentikAuthorizationFlowSlug'', nonEmpty_ok),
      (''authentikInvalidationFlowSlug'', nonEmpty_ok),
      (''authentikOidcSigningKeyName'', nonEmpty_ok),
      (''webUiAuthMode'', (\<lambda>v. v \<in> set WEB_UI_AUTH_MODES)),
      (''webUiOidcIssuer'', isAbsoluteHttpUrl u),
      (''webUiOidcClientId'', nonEmpty_ok),
      (''webUiOidcRedirectUri'', webUiOidcRedirectUri_ok u),
      (''npmApiUrl'', isAbsoluteHttpUrl u),
      (''npmApiEmail'', nonEmpty_ok)]"

definition SecretSettingsSchema :: "(string \<times> (string \<Rightarrow> bool)) list" where
  "SecretSettingsSchema =
     [(''authentikApiToken'', token_ok),
      (''cloudflareDnsApiToken'', token_ok),
      (''npmApiPassword'', password_ok),
      (''githubApiToken'', token_ok),
      (''webUiOidcClientSecret'', token_ok),
      (''mcpApiKey'', apiKey_ok)]"

definition SettingsSchema :: "url_parser \<Rightarrow> (string \<times> (string \<Rightarrow> bool)) list" where
  "SettingsSchema u =
     [(''nfsServer'', nonEmpty_ok),
      (''backupStorage'', nonEmpty_ok),
      (''dnsServer'', nonEmpty_ok),
      (''statusPagePath'', absolutePath_ok),
      (''proxyDriver'', (\<lambda>v. v \<in> set PROXY_DRIVER_IDS)),
      (''proxyConfigPath'', absolutePath_ok),
      (''tlsSource'', (\<lambda>v. v \<in> set TLS_SOURCES)),
      (''acmeDnsProvider'', (\<lambda>v. v \<in> set ACME_DNS_PROVIDERS)),
      (''proxyTlsCertificate'', absolutePath_ok),
      (''proxyTlsKey'', absolutePath_ok),
      (''proxyCertResolver'', certResolver_ok),
      (''proxyApiUrl'', proxyApiUrl_ok u),
      (''customScriptsRepo'', customScriptsRepo_ok),
      (''customScriptsBranch'', customScriptsBranch_ok),
      (''pveUserRealm'', pveUserRealm_ok),
      (''pveCreatorRole'', pveCreatorRole_ok)] @ MovedSettingsSchema u"

definition SETTINGS_KEYS :: "string list" where
  "SETTINGS_KEYS = map fst (SettingsSchema (\<lambda>_. None))"

definition MOVED_SETTINGS_KEYS :: "string list" where
  "MOVED_SETTINGS_KEYS = map fst (MovedSettingsSchema (\<lambda>_. None))"

definition SECRET_SETTINGS_KEYS :: "string list" where
  "SECRET_SETTINGS_KEYS = map fst SecretSettingsSchema"

definition isSecretSettingKey :: "string \<Rightarrow> bool" where
  "isSecretSettingKey key \<longleftrightarrow> key \<in> set SECRET_SETTINGS_KEYS"

text \<open>\<open>settingSchema(key).safeParse(value).success\<close>, and a settings object's \<open>safeParse\<close>.\<close>

definition schema_ok :: "(string \<times> (string \<Rightarrow> bool)) list \<Rightarrow> string \<Rightarrow> string \<Rightarrow> bool" where
  "schema_ok schema key value = (case map_of schema key of None \<Rightarrow> True | Some p \<Rightarrow> p value)"

definition settingSchema :: "url_parser \<Rightarrow> string \<Rightarrow> (string \<Rightarrow> bool) option" where
  "settingSchema u key =
     (if isSecretSettingKey key then map_of SecretSettingsSchema key else map_of (MovedSettingsSchema u) key)"

type_synonym settings = "string \<Rightarrow> string option"

definition settings_ok :: "url_parser \<Rightarrow> settings \<Rightarrow> bool" where
  "settings_ok u st = list_all (\<lambda>(key, p). case st key of None \<Rightarrow> True | Some v \<Rightarrow> p v) (SettingsSchema u)"

section \<open>Facts the users rest on\<close>

lemma keys_of_schema:
  "map fst (SettingsSchema u) = SETTINGS_KEYS"
  "map fst (MovedSettingsSchema u) = MOVED_SETTINGS_KEYS"
  by (simp_all add: SETTINGS_KEYS_def MOVED_SETTINGS_KEYS_def SettingsSchema_def MovedSettingsSchema_def)

lemma distinct_keys: "distinct SETTINGS_KEYS" "distinct SECRET_SETTINGS_KEYS"
  by (simp_all add: SETTINGS_KEYS_def SECRET_SETTINGS_KEYS_def SettingsSchema_def MovedSettingsSchema_def
      SecretSettingsSchema_def)

lemma moved_are_settings: "set MOVED_SETTINGS_KEYS \<subseteq> set SETTINGS_KEYS"
  by (auto simp: SETTINGS_KEYS_def MOVED_SETTINGS_KEYS_def SettingsSchema_def)

lemma secrets_are_no_settings: "set SETTINGS_KEYS \<inter> set SECRET_SETTINGS_KEYS = {}"
  by (simp add: SETTINGS_KEYS_def SECRET_SETTINGS_KEYS_def SettingsSchema_def MovedSettingsSchema_def
      SecretSettingsSchema_def)

lemma settings_okD:
  assumes "settings_ok u st" and "key \<in> set SETTINGS_KEYS" and "st key = Some v"
  shows "schema_ok (SettingsSchema u) key v"
proof -
  have "distinct (map fst (SettingsSchema u))" using distinct_keys(1) by (simp add: keys_of_schema)
  moreover obtain p where p: "(key, p) \<in> set (SettingsSchema u)"
    using assms(2) keys_of_schema(1) [of u] by (metis in_set_conv_decomp list.set_map imageE prod.collapse)
  ultimately have "map_of (SettingsSchema u) key = Some p" by simp
  moreover have "p v"
    using assms(1,3) p unfolding settings_ok_def list_all_iff by force
  ultimately show ?thesis by (simp add: schema_ok_def)
qed

lemma settings_ok_update:
  assumes "settings_ok u st" and "\<And>v. value = Some v \<Longrightarrow> schema_ok (SettingsSchema u) key v"
  shows "settings_ok u (st(key := value))"
proof -
  have dist: "distinct (map fst (SettingsSchema u))" using distinct_keys(1) by (simp add: keys_of_schema)
  show ?thesis
    unfolding settings_ok_def list_all_iff
  proof (clarify)
    fix k p
    assume kp: "(k, p) \<in> set (SettingsSchema u)"
    show "case (st(key := value)) k of None \<Rightarrow> True | Some v \<Rightarrow> p v"
    proof (cases "k = key")
      case True
      with kp dist have "map_of (SettingsSchema u) key = Some p" by simp
      with True assms(2) show ?thesis by (auto simp: schema_ok_def split: option.splits)
    next
      case False
      with kp assms(1) show ?thesis unfolding settings_ok_def list_all_iff by force
    qed
  qed
qed

end
