(* ===== verification/Inventory_Types.thy ===== *)
theory Inventory_Types
  imports Settings_Schema
begin

text \<open>
  The inventory's data, \<open>src/src/lib/inventory.ts\<close>: hosts, guests and external sites with the settings.
  An optional property is an option.  The properties the three kinds of entry share are the record
  \<open>proxy_candidate\<close>, which \<open>host_entry\<close> and \<open>guest_entry\<close> extend, as the TypeScript functions over any
  entry are typed structurally; an external site has the same properties but always an address and a
  list of subdomains, and \<open>site_candidate\<close> is its view as a candidate.  The zod schemas are the
  \<open>_schema_ok\<close> tests.  Numbers are integers.
\<close>

section \<open>Entries\<close>

datatype gate_mode = Forward | Oidc

datatype guest_type = Lxc | Vm

datatype vpn_provider = Nordvpn | Pia

record mid_scheme =
  ms_vmidBase :: int
  ms_ipPrefix :: string
  ms_cidrSuffix :: "int option"
  ms_gateway :: string

record bridge_entry =
  br_name :: string
  br_alias :: "string option"
  br_active :: "bool option"

record storage_entry =
  sg_name :: string
  sg_type :: string
  sg_content :: "string list"
  sg_active :: bool
  sg_totalBytes :: "int option"

record nfs_mount_entry =
  nm_name :: string
  nm_export :: string
  nm_mountPoint :: string
  nm_active :: bool

record proxy_candidate =
  e_name :: string
  e_ip :: "string option"
  e_port :: "int option"
  e_subdomains :: "string list option"
  e_insecureBackendTls :: "bool option"
  e_proxyManual :: "bool option"
  e_authGroup :: "string option"
  e_authMode :: "gate_mode option"
  e_oidcRedirectUris :: "string list option"
  e_oidcMobileRedirectUris :: "string list option"
  e_unauthenticatedPaths :: "string list option"

text \<open>What hosts and guests have and external sites do not.\<close>

record managed_entry = proxy_candidate +
  e_proxy :: "bool option"
  e_authentik :: "bool option"

record host_entry = managed_entry +
  h_ssh_target :: string
  h_ssh_user :: string
  h_ssh_port :: "int option"
  h_ssh_identity_file :: "string option"
  h_midScheme :: "mid_scheme option"
  h_bridges :: "bridge_entry list option"
  h_storages :: "storage_entry list option"
  h_nfsMounts :: "nfs_mount_entry list option"

record creator_record =
  cr_uid :: "string option"
  cr_username :: string
  cr_since :: "string option"

record guest_entry = managed_entry +
  g_type :: guest_type
  g_vmid :: int
  g_host :: string
  g_bellhop :: "bool option"
  g_unprivileged :: "bool option"
  g_app :: "string option"
  g_appSourceCustom :: bool
  g_vpnGateway :: "vpn_provider option"
  g_vpn :: "string option"
  g_creator :: "creator_record option"

record external_site =
  x_name :: string
  x_ip :: string
  x_port :: "int option"
  x_subdomains :: "string list"
  x_insecureBackendTls :: "bool option"
  x_authGroup :: "string option"
  x_authMode :: "gate_mode option"
  x_oidcRedirectUris :: "string list option"
  x_oidcMobileRedirectUris :: "string list option"
  x_unauthenticatedPaths :: "string list option"

record inventory =
  i_domain :: string
  i_settings :: settings
  i_hosts :: "host_entry list"
  i_guests :: "guest_entry list"
  i_externalSites :: "external_site list option"

definition site_candidate :: "external_site \<Rightarrow> proxy_candidate" where
  "site_candidate x =
     \<lparr>e_name = x_name x, e_ip = Some (x_ip x), e_port = x_port x, e_subdomains = Some (x_subdomains x),
      e_insecureBackendTls = x_insecureBackendTls x, e_proxyManual = None, e_authGroup = x_authGroup x,
      e_authMode = x_authMode x, e_oidcRedirectUris = x_oidcRedirectUris x,
      e_oidcMobileRedirectUris = x_oidcMobileRedirectUris x,
      e_unauthenticatedPaths = x_unauthenticatedPaths x\<rparr>"

definition host_candidate :: "host_entry \<Rightarrow> proxy_candidate" where
  "host_candidate h = proxy_candidate.truncate h"

definition guest_candidate :: "guest_entry \<Rightarrow> proxy_candidate" where
  "guest_candidate g = proxy_candidate.truncate g"

text \<open>\<open>?? []\<close> and the truthiness of an optional flag or string.\<close>

definition or_empty :: "'a list option \<Rightarrow> 'a list" where
  "or_empty xs = (case xs of None \<Rightarrow> [] | Some ys \<Rightarrow> ys)"

definition flagged :: "bool option \<Rightarrow> bool" where
  "flagged b \<longleftrightarrow> b = Some True"

definition has_text :: "string option \<Rightarrow> bool" where
  "has_text s \<longleftrightarrow> s \<noteq> None \<and> s \<noteq> Some []"

definition external_sites :: "inventory \<Rightarrow> external_site list" where
  "external_sites iv = or_empty (i_externalSites iv)"

text \<open>\<open>allEntries\<close>: hosts, guests, external sites, as candidates.\<close>

definition all_entries :: "inventory \<Rightarrow> proxy_candidate list" where
  "all_entries iv =
     map host_candidate (i_hosts iv) @ map guest_candidate (i_guests iv) @ map site_candidate (external_sites iv)"

definition effectiveAuth :: "'z proxy_candidate_scheme \<Rightarrow> gate_mode option" where
  "effectiveAuth entry =
     (if \<not> has_text (e_authGroup entry) then None
      else if e_authMode entry = Some Oidc then Some Oidc else Some Forward)"

section \<open>The schemas\<close>

text \<open>A path exemption: an exact path, or a prefix whose only \<open>*\<close> is the last character, after a \<open>/\<close>.\<close>

definition isValidUnauthenticatedPath :: "string \<Rightarrow> bool" where
  "isValidUnauthenticatedPath raw =
     (if \<not> startsWith raw ''/'' then False
      else (case indexOfChar raw (CHR ''*'') of
              None \<Rightarrow> True
            | Some starIndex \<Rightarrow> starIndex = length raw - 1 \<and> raw ! (starIndex - 1) = CHR ''/''))"

definition DISALLOWED_MOBILE_REDIRECT_SCHEMES :: "string list" where
  "DISALLOWED_MOBILE_REDIRECT_SCHEMES = [''javascript'', ''data'', ''file'', ''vbscript'']"

definition isValidMobileRedirectUri :: "url_parser \<Rightarrow> string \<Rightarrow> bool" where
  "isValidMobileRedirectUri u value =
     (if list_ex (\<lambda>c. js_space c \<or> code c \<le> 31 \<or> code c = 127) value then False
      else (case u value of
              None \<Rightarrow> False
            | Some url \<Rightarrow>
                toLowerCase (butlast (up_protocol url)) \<notin> set DISALLOWED_MOBILE_REDIRECT_SCHEMES))"

definition short_number :: "string \<Rightarrow> bool" where
  "short_number s \<longleftrightarrow> s \<noteq> [] \<and> length s \<le> 3 \<and> list_all is_digit s"

definition ipPrefix_ok :: "string \<Rightarrow> bool" where
  "ipPrefix_ok s =
     (case split_on (CHR ''.'') s of
        [a, b, c, d] \<Rightarrow> short_number a \<and> short_number b \<and> short_number c \<and> d = []
      | _ \<Rightarrow> False)"

definition gateway_ok :: "string \<Rightarrow> bool" where
  "gateway_ok s =
     (case split_on (CHR ''.'') s of
        [a, b, c, d] \<Rightarrow> short_number a \<and> short_number b \<and> short_number c \<and> short_number d
      | _ \<Rightarrow> False)"

definition opt_all :: "('a \<Rightarrow> bool) \<Rightarrow> 'a option \<Rightarrow> bool" where
  "opt_all p x = (case x of None \<Rightarrow> True | Some v \<Rightarrow> p v)"

definition MidSchemeSchema :: "mid_scheme \<Rightarrow> bool" where
  "MidSchemeSchema m \<longleftrightarrow>
     0 \<le> ms_vmidBase m \<and> ipPrefix_ok (ms_ipPrefix m) \<and>
     opt_all (\<lambda>n. 0 \<le> n \<and> n \<le> 32) (ms_cidrSuffix m) \<and> gateway_ok (ms_gateway m)"

definition StorageEntrySchema :: "storage_entry \<Rightarrow> bool" where
  "StorageEntrySchema s \<longleftrightarrow> sg_name s \<noteq> [] \<and> sg_type s \<noteq> []"

definition NfsMountEntrySchema :: "nfs_mount_entry \<Rightarrow> bool" where
  "NfsMountEntrySchema m \<longleftrightarrow> nm_name m \<noteq> [] \<and> nm_export m \<noteq> [] \<and> nm_mountPoint m \<noteq> []"

text \<open>The properties the three entry schemas share.\<close>

definition candidate_schema :: "url_parser \<Rightarrow> 'z proxy_candidate_scheme \<Rightarrow> bool" where
  "candidate_schema u e \<longleftrightarrow>
     e_name e \<noteq> [] \<and> opt_all (\<lambda>s. s \<noteq> []) (e_authGroup e) \<and>
     opt_all (list_all (isAbsoluteHttpUrl u)) (e_oidcRedirectUris e) \<and>
     opt_all (list_all (isValidMobileRedirectUri u)) (e_oidcMobileRedirectUris e) \<and>
     opt_all (list_all isValidUnauthenticatedPath) (e_unauthenticatedPaths e)"

definition HostEntrySchema :: "url_parser \<Rightarrow> host_entry \<Rightarrow> bool" where
  "HostEntrySchema u h \<longleftrightarrow>
     candidate_schema u h \<and> h_ssh_target h \<noteq> [] \<and> h_ssh_user h \<noteq> [] \<and>
     opt_all (\<lambda>p. 1 \<le> p \<and> p \<le> 65535) (h_ssh_port h) \<and>
     opt_all (\<lambda>s. s \<noteq> []) (h_ssh_identity_file h) \<and> opt_all MidSchemeSchema (h_midScheme h) \<and>
     opt_all (list_all (\<lambda>b. br_name b \<noteq> [])) (h_bridges h) \<and>
     opt_all (list_all StorageEntrySchema) (h_storages h) \<and>
     opt_all (list_all NfsMountEntrySchema) (h_nfsMounts h)"

definition GuestCreatorSchema :: "creator_record \<Rightarrow> bool" where
  "GuestCreatorSchema c \<longleftrightarrow>
     opt_all (\<lambda>s. s \<noteq> []) (cr_uid c) \<and> cr_username c \<noteq> [] \<and> opt_all (\<lambda>s. s \<noteq> []) (cr_since c)"

definition GuestEntrySchema :: "url_parser \<Rightarrow> guest_entry \<Rightarrow> bool" where
  "GuestEntrySchema u g \<longleftrightarrow>
     candidate_schema u g \<and> 0 < g_vmid g \<and> g_host g \<noteq> [] \<and> opt_all GuestCreatorSchema (g_creator g)"

definition ExternalSiteSchema :: "url_parser \<Rightarrow> external_site \<Rightarrow> bool" where
  "ExternalSiteSchema u x \<longleftrightarrow>
     candidate_schema u (site_candidate x) \<and> x_ip x \<noteq> [] \<and> x_subdomains x \<noteq> []"

definition InventorySchema :: "url_parser \<Rightarrow> inventory \<Rightarrow> bool" where
  "InventorySchema u iv \<longleftrightarrow>
     i_domain iv \<noteq> [] \<and> settings_ok u (i_settings iv) \<and>
     list_all (HostEntrySchema u) (i_hosts iv) \<and> list_all (GuestEntrySchema u) (i_guests iv) \<and>
     list_all (ExternalSiteSchema u) (external_sites iv)"

section \<open>The path rule\<close>

lemma valid_path_cases:
  "isValidUnauthenticatedPath raw \<longleftrightarrow>
     (\<exists>p. raw = CHR ''/'' # p \<and> CHR ''*'' \<notin> set p) \<or>
     (\<exists>p. raw = p @ ''*'' \<and> startsWith p ''/'' \<and> last p = CHR ''/'' \<and> CHR ''*'' \<notin> set p)"
  (is "_ \<longleftrightarrow> ?exact \<or> ?pre")
proof
  assume v: "isValidUnauthenticatedPath raw"
  then have start: "startsWith raw ''/''" by (simp add: isValidUnauthenticatedPath_def split: if_splits)
  then obtain p where raw: "raw = CHR ''/'' # p" by (auto simp: startsWith_iff)
  show "?exact \<or> ?pre"
  proof (cases "indexOfChar raw (CHR ''*'')")
    case None
    then show ?thesis using raw by (auto simp: indexOfChar_None)
  next
    case (Some i)
    then have i: "i = length raw - 1" "raw ! (i - 1) = CHR ''/''" "i < length raw" "raw ! i = CHR ''*''"
        "CHR ''*'' \<notin> set (take i raw)"
      using v start iffD1 [OF indexOfChar_Some Some] unfolding isValidUnauthenticatedPath_def Some by auto
    let ?p = "take i raw"
    have pos: "i > 0" using i(4) raw by (cases i) auto
    have "raw = ?p @ [raw ! i]" using i(1,3) by (metis Suc_diff_1 length_greater_0_conv list.size(3) not_less0 take_Suc_conv_app_nth take_all order_refl)
    moreover have "startsWith ?p ''/''" using start pos raw by (cases i) (auto simp: startsWith_def)
    moreover have "last ?p = CHR ''/''"
    proof -
      have "?p \<noteq> []" using i(3) pos by auto
      then have "last ?p = ?p ! (i - 1)" using i(3) by (simp add: last_conv_nth)
      also have "\<dots> = raw ! (i - 1)" using pos by simp
      finally show ?thesis using i(2) by simp
    qed
    ultimately show ?thesis using i(4,5) by metis
  qed
next
  assume "?exact \<or> ?pre"
  then show "isValidUnauthenticatedPath raw"
  proof
    assume ?exact
    then obtain p where p: "raw = CHR ''/'' # p" "CHR ''*'' \<notin> set p" by blast
    then have "indexOfChar raw (CHR ''*'') = None" by (simp add: indexOfChar_None)
    then show ?thesis using p(1) by (simp add: isValidUnauthenticatedPath_def startsWith_def)
  next
    assume ?pre
    then obtain p where p: "raw = p @ ''*''" "startsWith p ''/''" "last p = CHR ''/''" "CHR ''*'' \<notin> set p" by blast
    have ne: "p \<noteq> []" using p(2) by (auto simp: startsWith_def)
    have "indexOfChar raw (CHR ''*'') = Some (length p)"
      using p by (simp add: indexOfChar_Some nth_append)
    moreover have "raw ! (length p - 1) = CHR ''/''"
      using p(1,3) ne by (simp add: nth_append last_conv_nth)
    moreover have "startsWith raw ''/''" using p(1,2) by (auto simp: startsWith_iff)
    ultimately show ?thesis using p(1) by (simp add: isValidUnauthenticatedPath_def)
  qed
qed

lemma candidate_fields [simp]:
  "e_name (host_candidate h) = e_name h" "e_name (guest_candidate g) = e_name g"
  "e_name (site_candidate x) = x_name x"
  "e_subdomains (host_candidate h) = e_subdomains h" "e_subdomains (guest_candidate g) = e_subdomains g"
  "e_subdomains (site_candidate x) = Some (x_subdomains x)"
  "e_ip (host_candidate h) = e_ip h" "e_ip (guest_candidate g) = e_ip g" "e_ip (site_candidate x) = Some (x_ip x)"
  "e_port (host_candidate h) = e_port h" "e_port (guest_candidate g) = e_port g"
  "e_port (site_candidate x) = x_port x"
  "e_proxyManual (host_candidate h) = e_proxyManual h" "e_proxyManual (guest_candidate g) = e_proxyManual g"
  "e_proxyManual (site_candidate x) = None"
  "e_insecureBackendTls (host_candidate h) = e_insecureBackendTls h"
  "e_insecureBackendTls (guest_candidate g) = e_insecureBackendTls g"
  "e_insecureBackendTls (site_candidate x) = x_insecureBackendTls x"
  "e_unauthenticatedPaths (host_candidate h) = e_unauthenticatedPaths h"
  "e_unauthenticatedPaths (guest_candidate g) = e_unauthenticatedPaths g"
  "e_unauthenticatedPaths (site_candidate x) = x_unauthenticatedPaths x"
  "effectiveAuth (host_candidate h) = effectiveAuth h" "effectiveAuth (guest_candidate g) = effectiveAuth g"
  "e_authGroup (site_candidate x) = x_authGroup x" "e_authMode (site_candidate x) = x_authMode x"
  by (simp_all add: host_candidate_def guest_candidate_def site_candidate_def proxy_candidate.truncate_def
      effectiveAuth_def)

end
