(* ===== verification/Inventory_Rules.thy ===== *)
theory Inventory_Rules
  imports Inventory_Types
begin

text \<open>
  The rules across entries and the parsers of submitted values, \<open>src/src/lib/inventory.ts\<close>.
  \<open>validateInventory\<close> returns its messages in the source's order, each a constructor with the names the
  message holds.  A submitted value is a \<open>json\<close> value; \<open>JUndef\<close> is an absent key.  \<open>Number(s)\<close> is read
  exactly, without rounding to a double, and is \<open>None\<close> when it is no integer.
\<close>

section \<open>validateInventory\<close>

datatype inventory_error =
    MultipleProxy "string list"
  | MultipleBellhop "string list"
  | MultipleAuthentik "string list"
  | NoAuthentik "string list"
  | NoAuthentikIp "string list"
  | UnknownHost string string
  | SharedVmidBase "string list" int
  | SharedIpPrefix "string list" string
  | NoIp string
  | SubdomainClaimed string "string list"

definition proxyNames :: "inventory \<Rightarrow> string list" where
  "proxyNames iv =
     map e_name (filter (\<lambda>h. flagged (e_proxy h)) (i_hosts iv)) @
     map e_name (filter (\<lambda>g. flagged (e_proxy g)) (i_guests iv))"

definition bellhopNames :: "inventory \<Rightarrow> string list" where
  "bellhopNames iv = map e_name (filter (\<lambda>g. flagged (g_bellhop g)) (i_guests iv))"

definition authentikNames :: "inventory \<Rightarrow> string list" where
  "authentikNames iv =
     map e_name (filter (\<lambda>h. flagged (e_authentik h)) (i_hosts iv)) @
     map e_name (filter (\<lambda>g. flagged (e_authentik g)) (i_guests iv))"

definition gatedNames :: "inventory \<Rightarrow> string list" where
  "gatedNames iv = map e_name (filter (\<lambda>e. effectiveAuth e = Some Forward) (all_entries iv))"

definition authentikHasIp :: "inventory \<Rightarrow> bool" where
  "authentikHasIp iv \<longleftrightarrow>
     list_ex (\<lambda>h. flagged (e_authentik h) \<and> has_text (e_ip h)) (i_hosts iv) \<or>
     list_ex (\<lambda>g. flagged (e_authentik g) \<and> has_text (e_ip g)) (i_guests iv)"

text \<open>\<open>owners.set(key, [...(owners.get(key) ?? []), name])\<close> over a list, and the keys with two owners.\<close>

definition add_owner :: "('k \<times> string) \<Rightarrow> ('k \<times> string list) list \<Rightarrow> ('k \<times> string list) list" where
  "add_owner kn m = jm_set (fst kn) (or_empty (jm_get m (fst kn)) @ [snd kn]) m"

definition owners_of :: "('k \<times> string) list \<Rightarrow> ('k \<times> string list) list" where
  "owners_of kns = fold add_owner kns []"

definition shared :: "('k \<times> string) list \<Rightarrow> ('k \<times> string list) list" where
  "shared kns = filter (\<lambda>(k, ns). length ns > 1) (owners_of kns)"

definition mid_schemes :: "inventory \<Rightarrow> (mid_scheme \<times> string) list" where
  "mid_schemes iv =
     List.map_filter (\<lambda>h. case h_midScheme h of None \<Rightarrow> None | Some m \<Rightarrow> Some (m, e_name h)) (i_hosts iv)"

definition claimed_subdomains :: "inventory \<Rightarrow> (string \<times> string) list" where
  "claimed_subdomains iv =
     concat (map (\<lambda>e. map (\<lambda>s. (toLowerCase s, e_name e)) (or_empty (e_subdomains e))) (all_entries iv))"

definition lacks_ip :: "proxy_candidate \<Rightarrow> bool" where
  "lacks_ip e \<longleftrightarrow>
     \<not> flagged (e_proxyManual e) \<and> or_empty (e_subdomains e) \<noteq> [] \<and> \<not> has_text (e_ip e)"

definition validateInventory :: "inventory \<Rightarrow> inventory_error list" where
  "validateInventory iv =
     (if length (proxyNames iv) > 1 then [MultipleProxy (proxyNames iv)] else []) @
     (if length (bellhopNames iv) > 1 then [MultipleBellhop (bellhopNames iv)] else []) @
     (if length (authentikNames iv) > 1 then [MultipleAuthentik (authentikNames iv)] else []) @
     (if gatedNames iv \<noteq> [] \<and> authentikNames iv = [] then [NoAuthentik (gatedNames iv)] else []) @
     (if gatedNames iv \<noteq> [] \<and> authentikNames iv \<noteq> [] \<and> \<not> authentikHasIp iv
      then [NoAuthentikIp (gatedNames iv)] else []) @
     map (\<lambda>g. UnknownHost (e_name g) (g_host g))
       (filter (\<lambda>g. g_host g \<notin> e_name ` set (i_hosts iv)) (i_guests iv)) @
     map (\<lambda>(b, ns). SharedVmidBase ns b) (shared (map (\<lambda>(m, n). (ms_vmidBase m, n)) (mid_schemes iv))) @
     map (\<lambda>(p, ns). SharedIpPrefix ns p) (shared (map (\<lambda>(m, n). (ms_ipPrefix m, n)) (mid_schemes iv))) @
     map (\<lambda>e. NoIp (e_name e)) (filter lacks_ip (all_entries iv)) @
     map (\<lambda>(s, ns). SubdomainClaimed s ns) (shared (claimed_subdomains iv))"

section \<open>Parsers of submitted values\<close>

datatype json =
    JUndef
  | JNull
  | JBool bool
  | JNum int
  | JStr string
  | JArr "json list"
  | JObj "(string \<times> json) list"

text \<open>\<open>String(v)\<close>; an array joins its elements with commas, absent ones as the empty text.\<close>

fun js_String :: "json \<Rightarrow> string" where
  "js_String JUndef = ''undefined''"
| "js_String JNull = ''null''"
| "js_String (JBool b) = (if b then ''true'' else ''false'')"
| "js_String (JNum n) = show_int n"
| "js_String (JStr s) = s"
| "js_String (JArr vs) =
     join_with '','' (map (\<lambda>v. if v = JNull \<or> v = JUndef then '''' else js_String v) vs)"
| "js_String (JObj _) = ''[object Object]''"

definition truthy_json :: "json \<Rightarrow> bool" where
  "truthy_json v =
     (case v of JUndef \<Rightarrow> False | JNull \<Rightarrow> False | JBool b \<Rightarrow> b | JNum n \<Rightarrow> n \<noteq> 0 | JStr s \<Rightarrow> s \<noteq> []
      | JArr _ \<Rightarrow> True | JObj _ \<Rightarrow> True)"

text \<open>\<open>raw.split(';').map(trim).filter(Boolean)\<close>\<close>

definition split_list :: "string \<Rightarrow> string list" where
  "split_list raw = filter (\<lambda>s. s \<noteq> []) (map trim_text (split_on (CHR '';'') raw))"

definition none_if_empty :: "'a list \<Rightarrow> 'a list option" where
  "none_if_empty xs = (if xs = [] then None else Some xs)"

definition parseSubdomains :: "json \<Rightarrow> string list option" where
  "parseSubdomains raw =
     (case raw of JStr s \<Rightarrow> if trim_text s = [] then None else none_if_empty (uniq (split_list s)) | _ \<Rightarrow> None)"

definition radix_digit :: "nat \<Rightarrow> char \<Rightarrow> nat option" where
  "radix_digit base c =
     (let d = (if in_range 48 57 c then code c - 48
               else if in_range 97 122 c then code c - 87
               else if in_range 65 90 c then code c - 55 else 99)
      in if d < base then Some d else None)"

fun read_radix :: "nat \<Rightarrow> nat \<Rightarrow> string \<Rightarrow> nat option" where
  "read_radix base acc [] = Some acc"
| "read_radix base acc (c # cs) =
     (case radix_digit base c of None \<Rightarrow> None | Some d \<Rightarrow> read_radix base (base * acc + d) cs)"

definition all_digits :: "string \<Rightarrow> bool" where
  "all_digits s \<longleftrightarrow> list_all is_digit s"

text \<open>The exponent part after the \<open>e\<close>: an optional sign and digits.\<close>

definition read_signed :: "string \<Rightarrow> int option" where
  "read_signed s =
     (case s of
        [] \<Rightarrow> None
      | c # ds \<Rightarrow>
          if c = CHR ''-'' then (if ds \<noteq> [] \<and> all_digits ds then Some (- int (read_nat ds)) else None)
          else if c = CHR ''+'' then (if ds \<noteq> [] \<and> all_digits ds then Some (int (read_nat ds)) else None)
          else if all_digits s then Some (int (read_nat s)) else None)"

text \<open>Digits with at most one point, at least one digit: the digits' number and how many follow the point.\<close>

definition read_mantissa :: "string \<Rightarrow> (nat \<times> nat) option" where
  "read_mantissa s =
     (case split_on (CHR ''.'') s of
        [w] \<Rightarrow> if w \<noteq> [] \<and> all_digits w then Some (read_nat w, 0) else None
      | [w, f] \<Rightarrow> if (w \<noteq> [] \<or> f \<noteq> []) \<and> all_digits w \<and> all_digits f then Some (read_nat (w @ f), length f) else None
      | _ \<Rightarrow> None)"

definition scaled :: "nat \<Rightarrow> int \<Rightarrow> nat option" where
  "scaled m e =
     (if 0 \<le> e then Some (m * 10 ^ nat e)
      else if 10 ^ nat (- e) dvd m then Some (m div 10 ^ nat (- e)) else None)"

definition read_unsigned :: "string \<Rightarrow> nat option" where
  "read_unsigned s =
     (let lower = toLowerCase s; ex = takeWhile (\<lambda>c. c \<noteq> CHR ''e'') lower; rest = drop (length ex) lower
      in case read_mantissa ex of
           None \<Rightarrow> None
         | Some (m, k) \<Rightarrow>
             if rest = [] then scaled m (- int k)
             else (case read_signed (tl rest) of None \<Rightarrow> None | Some e \<Rightarrow> scaled m (e - int k)))"

definition js_Number :: "string \<Rightarrow> int option" where
  "js_Number raw =
     (let s = trim_text raw; p = toLowerCase (take 2 s); body = drop 2 s in
      if s = [] then Some 0
      else if p = ''0x'' then (if body = [] then None else map_option int (read_radix 16 0 body))
      else if p = ''0o'' then (if body = [] then None else map_option int (read_radix 8 0 body))
      else if p = ''0b'' then (if body = [] then None else map_option int (read_radix 2 0 body))
      else if hd s = CHR ''-'' then map_option (\<lambda>n. - int n) (read_unsigned (tl s))
      else if hd s = CHR ''+'' then map_option int (read_unsigned (tl s))
      else map_option int (read_unsigned s))"

datatype edit_error =
    BadPort string
  | BadAuthGroup
  | BadPath string
  | OutpostPath string
  | BadAuthMode json
  | BadRedirectUri string
  | BadMobileRedirectUri string

definition parsePort :: "json \<Rightarrow> edit_error + int option" where
  "parsePort raw =
     (case raw of
        JStr s \<Rightarrow>
          if trim_text s = [] then Inr None
          else (case js_Number s of
                  Some port \<Rightarrow> if port \<le> 0 \<or> port > 65535 then Inl (BadPort s) else Inr (Some port)
                | None \<Rightarrow> Inl (BadPort s))
      | _ \<Rightarrow> Inr None)"

definition parseAuthGroup :: "json \<Rightarrow> edit_error + string option" where
  "parseAuthGroup raw =
     (case raw of
        JNull \<Rightarrow> Inr None
      | JUndef \<Rightarrow> Inr None
      | JStr s \<Rightarrow> Inr (if trim_text s = [] then None else Some (trim_text s))
      | _ \<Rightarrow> Inl BadAuthGroup)"

definition isOutpostNamespacePath :: "string \<Rightarrow> bool" where
  "isOutpostNamespacePath pattern \<longleftrightarrow>
     pattern = ''/outpost.goauthentik.io'' \<or> startsWith pattern ''/outpost.goauthentik.io/''"

definition check_path :: "string \<Rightarrow> edit_error option" where
  "check_path pattern =
     (if \<not> isValidUnauthenticatedPath pattern then Some (BadPath pattern)
      else if isOutpostNamespacePath pattern then Some (OutpostPath pattern) else None)"

definition parseUnauthenticatedPaths :: "json \<Rightarrow> edit_error + string list option" where
  "parseUnauthenticatedPaths raw =
     (case raw of
        JStr s \<Rightarrow>
          if trim_text s = [] then Inr None
          else (let paths = uniq (split_list s) in
                case List.map_filter check_path paths of
                  [] \<Rightarrow> Inr (none_if_empty paths)
                | e # _ \<Rightarrow> Inl e)
      | _ \<Rightarrow> Inr None)"

definition parseAuthMode :: "json \<Rightarrow> edit_error + gate_mode option" where
  "parseAuthMode raw =
     (if raw = JNull \<or> raw = JUndef \<or> raw = JStr [] then Inr None
      else if raw = JStr ''forward'' then Inr (Some Forward)
      else if raw = JStr ''oidc'' then Inr (Some Oidc)
      else Inl (BadAuthMode raw))"

definition parseUriList :: "json \<Rightarrow> (string \<Rightarrow> bool) \<Rightarrow> (string \<Rightarrow> edit_error) \<Rightarrow> edit_error + string list option" where
  "parseUriList raw isValid invalid =
     (case (case raw of
              JArr vs \<Rightarrow> Some (filter (\<lambda>s. s \<noteq> []) (map (\<lambda>v. trim_text (js_String v)) vs))
            | JStr s \<Rightarrow> if trim_text s = [] then None else Some (split_list s)
            | _ \<Rightarrow> None) of
        None \<Rightarrow> Inr None
      | Some uris \<Rightarrow>
          (case filter (\<lambda>uri. \<not> isValid uri) (uniq uris) of
             [] \<Rightarrow> Inr (none_if_empty (uniq uris))
           | uri # _ \<Rightarrow> Inl (invalid uri)))"

definition parseOidcRedirectUris :: "url_parser \<Rightarrow> json \<Rightarrow> edit_error + string list option" where
  "parseOidcRedirectUris u raw = parseUriList raw (isAbsoluteHttpUrl u) BadRedirectUri"

definition parseOidcMobileRedirectUris :: "url_parser \<Rightarrow> json \<Rightarrow> edit_error + string list option" where
  "parseOidcMobileRedirectUris u raw = parseUriList raw (isValidMobileRedirectUri u) BadMobileRedirectUri"

section \<open>The write-level OIDC rule\<close>

datatype oidc_error = NoCallback | AlsoWebCallback string

definition oidcConfigErrors :: "'z proxy_candidate_scheme \<Rightarrow> bool \<Rightarrow> oidc_error list" where
  "oidcConfigErrors entry checkCrossListDuplicates =
     (if effectiveAuth entry = Some Oidc \<and> or_empty (e_subdomains entry) \<noteq> [] \<and>
         or_empty (e_oidcRedirectUris entry) = []
      then [NoCallback] else []) @
     (if \<not> checkCrossListDuplicates then []
      else map AlsoWebCallback
             (filter (\<lambda>uri. uri \<in> set (or_empty (e_oidcRedirectUris entry)))
               (or_empty (e_oidcMobileRedirectUris entry))))"

section \<open>What validateInventory decides\<close>

lemma or_empty_simps [simp]: "or_empty None = []" "or_empty (Some xs) = xs"
  by (simp_all add: or_empty_def)

lemma owners_get:
  "or_empty (jm_get (fold add_owner kns m) k) =
     or_empty (jm_get m k) @ map snd (filter (\<lambda>kn. fst kn = k) kns)"
  by (induction kns arbitrary: m) (auto simp: add_owner_def row_simps)

lemma owners_keys: "jm_has (fold add_owner kns m) k \<longleftrightarrow> jm_has m k \<or> k \<in> fst ` set kns"
  by (induction kns arbitrary: m) (auto simp: add_owner_def row_simps)

lemma owners_distinct: "distinct (map fst m) \<Longrightarrow> distinct (map fst (fold add_owner kns m))"
  by (induction kns arbitrary: m) (simp_all add: add_owner_def jm_distinct_set)

lemma owners_of_mem:
  "(k, ns) \<in> set (owners_of kns) \<longleftrightarrow>
     k \<in> fst ` set kns \<and> ns = map snd (filter (\<lambda>kn. fst kn = k) kns)"
proof -
  have d: "distinct (map fst (owners_of kns))" by (simp add: owners_of_def owners_distinct)
  then have "(k, ns) \<in> set (owners_of kns) \<longleftrightarrow> jm_get (owners_of kns) k = Some ns"
    by (simp add: jm_get_def)
  also have "\<dots> \<longleftrightarrow> jm_has (owners_of kns) k \<and> ns = or_empty (jm_get (owners_of kns) k)"
    by (auto simp: jm_has_get)
  also have "\<dots> \<longleftrightarrow> k \<in> fst ` set kns \<and> ns = map snd (filter (\<lambda>kn. fst kn = k) kns)"
    unfolding owners_of_def by (simp add: owners_get owners_keys)
  finally show ?thesis .
qed

lemma filter_key_length:
  "(\<forall>k \<in> fst ` set kns. length (filter (\<lambda>kn. fst kn = k) kns) \<le> 1) \<longleftrightarrow> distinct (map fst kns)"
proof (induction kns)
  case Nil
  then show ?case by simp
next
  case (Cons kn kns)
  let ?P = "\<lambda>xs. \<forall>k \<in> fst ` set xs. length (filter (\<lambda>kn. fst kn = k) xs) \<le> 1"
  show ?case
  proof (cases "fst kn \<in> fst ` set kns")
    case True
    then have "filter (\<lambda>x. fst x = fst kn) kns \<noteq> []" by (force simp: filter_empty_conv)
    then have "length (filter (\<lambda>x. fst x = fst kn) (kn # kns)) > 1" by simp
    then have "\<not> ?P (kn # kns)" by force
    then show ?thesis using True by auto
  next
    case False
    then have none: "filter (\<lambda>x. fst x = fst kn) kns = []" by (auto simp: filter_empty_conv image_iff)
    have "?P (kn # kns) \<longleftrightarrow> ?P kns"
    proof
      assume all: "?P (kn # kns)"
      show "?P kns"
      proof
        fix k
        assume k: "k \<in> fst ` set kns"
        then have "k \<in> fst ` set (kn # kns)" by simp
        from all [rule_format, OF this] have "length (filter (\<lambda>x. fst x = k) (kn # kns)) \<le> 1" .
        then show "length (filter (\<lambda>x. fst x = k) kns) \<le> 1" by (simp split: if_splits)
      qed
    next
      assume all: "?P kns"
      show "?P (kn # kns)"
      proof
        fix k
        assume k: "k \<in> fst ` set (kn # kns)"
        show "length (filter (\<lambda>x. fst x = k) (kn # kns)) \<le> 1"
        proof (cases "k = fst kn")
          case True
          then show ?thesis using none by simp
        next
          case neq: False
          then have "k \<in> fst ` set kns" using k by auto
          then show ?thesis using all neq by auto
        qed
      qed
    qed
    then show ?thesis using Cons.IH False by simp
  qed
qed

lemma shared_Nil: "shared kns = [] \<longleftrightarrow> distinct (map fst kns)"
proof -
  have "shared kns = [] \<longleftrightarrow> (\<forall>k ns. (k, ns) \<in> set (owners_of kns) \<longrightarrow> length ns \<le> 1)"
    unfolding shared_def by (force simp: filter_empty_conv not_less)
  also have "\<dots> \<longleftrightarrow> (\<forall>k \<in> fst ` set kns. length (filter (\<lambda>kn. fst kn = k) kns) \<le> 1)"
    by (auto simp: owners_of_mem)
  finally show ?thesis unfolding filter_key_length .
qed

text \<open>The rule in its own terms: what holds of an inventory that is not refused.\<close>

definition inventory_valid :: "inventory \<Rightarrow> bool" where
  "inventory_valid iv \<longleftrightarrow>
     length (proxyNames iv) \<le> 1 \<and> length (bellhopNames iv) \<le> 1 \<and> length (authentikNames iv) \<le> 1 \<and>
     ((\<exists>e \<in> set (all_entries iv). effectiveAuth e = Some Forward) \<longrightarrow> authentikHasIp iv) \<and>
     (\<forall>g \<in> set (i_guests iv). g_host g \<in> e_name ` set (i_hosts iv)) \<and>
     distinct (map (\<lambda>(m, n). ms_vmidBase m) (mid_schemes iv)) \<and>
     distinct (map (\<lambda>(m, n). ms_ipPrefix m) (mid_schemes iv)) \<and>
     (\<forall>e \<in> set (all_entries iv). \<not> lacks_ip e) \<and>
     distinct (map fst (claimed_subdomains iv))"

lemma authentikHasIp_named: "authentikHasIp iv \<Longrightarrow> authentikNames iv \<noteq> []"
  by (auto simp: authentikHasIp_def authentikNames_def list_ex_iff filter_empty_conv)

lemma gatedNames_Nil: "gatedNames iv = [] \<longleftrightarrow> (\<forall>e \<in> set (all_entries iv). effectiveAuth e \<noteq> Some Forward)"
  by (simp add: gatedNames_def filter_empty_conv)

lemma map_fst_pairs:
  "map fst (map (\<lambda>(m, n). (f m, n)) xs) = map (\<lambda>(m, n). f m) xs"
  by (induction xs) auto

lemma validateInventory_Nil: "validateInventory iv = [] \<longleftrightarrow> inventory_valid iv"
proof -
  have gated: "(gatedNames iv \<noteq> [] \<and> authentikNames iv = [] \<or>
                gatedNames iv \<noteq> [] \<and> authentikNames iv \<noteq> [] \<and> \<not> authentikHasIp iv) \<longleftrightarrow>
               gatedNames iv \<noteq> [] \<and> \<not> authentikHasIp iv"
    using authentikHasIp_named by blast
  have hosts: "filter (\<lambda>g. g_host g \<notin> e_name ` set (i_hosts iv)) (i_guests iv) = [] \<longleftrightarrow>
               (\<forall>g \<in> set (i_guests iv). g_host g \<in> e_name ` set (i_hosts iv))"
    by (simp add: filter_empty_conv)
  have ips: "filter lacks_ip (all_entries iv) = [] \<longleftrightarrow> (\<forall>e \<in> set (all_entries iv). \<not> lacks_ip e)"
    by (simp add: filter_empty_conv)
  show ?thesis
    unfolding validateInventory_def inventory_valid_def append_is_Nil_conv map_is_Nil_conv shared_Nil
      map_fst_pairs hosts ips
    using gated by (auto simp: gatedNames_Nil not_less)
qed

section \<open>What the parsers accept\<close>

lemma none_if_empty_Some: "none_if_empty xs = Some ys \<longleftrightarrow> xs = ys \<and> ys \<noteq> []"
  by (auto simp: none_if_empty_def)

lemma map_filter_Nil: "List.map_filter f xs = [] \<longleftrightarrow> (\<forall>x \<in> set xs. f x = None)"
  by (induction xs) (auto simp: map_filter_simps split: option.splits)

lemma parsePort_range: "parsePort raw = Inr (Some p) \<Longrightarrow> 1 \<le> p \<and> p \<le> 65535"
  by (auto simp: parsePort_def split: json.splits option.splits if_splits)

lemma parseAuthGroup_nonempty: "parseAuthGroup raw = Inr (Some s) \<Longrightarrow> s \<noteq> []"
  by (auto simp: parseAuthGroup_def split: json.splits if_splits)

lemma parseUnauthenticatedPaths_ok:
  assumes "parseUnauthenticatedPaths raw = Inr (Some ps)"
  shows "ps \<noteq> [] \<and> distinct ps \<and> (\<forall>p \<in> set ps. isValidUnauthenticatedPath p \<and> \<not> isOutpostNamespacePath p)"
proof -
  obtain s where raw: "raw = JStr s" and s: "trim_text s \<noteq> []"
    using assms by (auto simp: parseUnauthenticatedPaths_def split: json.splits if_splits)
  have "List.map_filter check_path (uniq (split_list s)) = []" and ps: "none_if_empty (uniq (split_list s)) = Some ps"
    using assms raw s by (auto simp: parseUnauthenticatedPaths_def Let_def split: list.splits)
  then have "\<forall>p \<in> set (uniq (split_list s)). check_path p = None" by (simp add: map_filter_Nil)
  then show ?thesis using ps by (auto simp: none_if_empty_Some check_path_def split: if_splits)
qed

lemma parseUriList_ok:
  assumes "parseUriList raw isValid invalid = Inr (Some uris)"
  shows "uris \<noteq> [] \<and> distinct uris \<and> (\<forall>x \<in> set uris. isValid x)"
  using assms unfolding parseUriList_def
  by (auto simp: none_if_empty_Some filter_empty_conv split: option.splits list.splits)

lemma parseSubdomains_ok:
  "parseSubdomains raw = Some subs \<Longrightarrow> subs \<noteq> [] \<and> distinct subs \<and> [] \<notin> set subs"
  by (auto simp: parseSubdomains_def none_if_empty_Some split_list_def split: json.splits if_splits)

end
