(* ===== verification/Inventory_Store.thy ===== *)
theory Inventory_Store
  imports Inventory_Rules
begin

text \<open>
  The inventory database: \<open>saveInventory\<close>, \<open>loadInventory\<close>, \<open>sortInventoryForFile\<close>,
  \<open>refreshInventory\<close> and \<open>withFreshSettings\<close> of \<open>src/src/lib/inventory.ts\<close>.  Tables are lists of rows in
  rowid order; a column that holds JSON text holds the value, and \<open>ORDER BY\<close> is \<open>sort_key\<close>.  A statement a
  primary key, a unique or a foreign key refuses is \<open>None\<close>, and the transaction around the save then
  leaves the database as it was.  The migrations of an older file are not part of the model.
\<close>

section \<open>Rows\<close>

record base_row =
  r_name :: string
  r_port :: "int option"
  r_insecure_backend_tls :: "int option"
  r_auth_group :: "string option"
  r_auth_mode :: "string option"
  r_oidc_redirect_uris_json :: "string list option"
  r_oidc_mobile_redirect_uris_json :: "string list option"
  r_unauthenticated_paths_json :: "string list option"

record node_row = base_row +
  r_ip :: "string option"
  r_proxy :: int
  r_proxy_manual :: "int option"
  r_authentik :: "int option"

record host_row = node_row +
  hr_ssh_target :: string
  hr_ssh_user :: string
  hr_ssh_port :: "int option"
  hr_ssh_identity_file :: "string option"
  hr_mid_scheme_json :: "mid_scheme option"
  hr_bridges_json :: "bridge_entry list option"
  hr_storages_json :: "storage_entry list option"
  hr_nfs_mounts_json :: "nfs_mount_entry list option"

record guest_row = node_row +
  gr_type :: string
  gr_vmid :: int
  gr_host :: string
  gr_bellhop :: "int option"
  gr_unprivileged :: "int option"
  gr_app :: "string option"
  gr_app_source :: "string option"
  gr_vpn_gateway :: "string option"
  gr_vpn :: "string option"
  gr_created_by_uid :: "string option"
  gr_created_by_username :: "string option"
  gr_created_by_since :: "string option"

record site_row = base_row +
  sr_ip :: string

record subdomain_row =
  su_subdomain :: string
  su_owner_type :: string
  su_owner_name :: string

record inventory_db =
  b_meta :: "(string \<times> string) list"
  b_secrets :: "(string \<times> string) list"
  b_hosts :: "host_row list"
  b_guests :: "guest_row list"
  b_sites :: "site_row list"
  b_subdomains :: "subdomain_row list"
  b_proxyOwner :: "(string \<times> string) option"

datatype store_error =
    SchemaInvalid
  | InventoryInvalid "inventory_error list"
  | ConstraintFailed

section \<open>Order\<close>

definition compareByName :: "('a \<Rightarrow> string) \<Rightarrow> 'a \<Rightarrow> 'a \<Rightarrow> int option" where
  "compareByName name a b = Some (if name a < name b then -1 else if name a > name b then 1 else 0)"

definition ipParts :: "string \<Rightarrow> int option list" where
  "ipParts s = map js_Number (split_on (CHR ''.'') s)"

text \<open>\<open>pa[i] ?? 0\<close>; \<open>None\<close> is \<open>NaN\<close>.\<close>

definition ipPart :: "string \<Rightarrow> nat \<Rightarrow> int option" where
  "ipPart s i = (if i < length (ipParts s) then ipParts s ! i else Some 0)"

definition partDiff :: "string \<Rightarrow> string \<Rightarrow> nat \<Rightarrow> int option" where
  "partDiff a b i =
     (case (ipPart a i, ipPart b i) of (Some x, Some y) \<Rightarrow> Some (x - y) | _ \<Rightarrow> None)"

definition compareIp :: "string option \<Rightarrow> string option \<Rightarrow> int option" where
  "compareIp a b =
     (if a = b then Some 0
      else if \<not> has_text a then Some 1
      else if \<not> has_text b then Some (-1)
      else (case find (\<lambda>d. d \<noteq> Some 0) (map (partDiff (the a) (the b)) [0, 1, 2, 3]) of
              None \<Rightarrow> Some 0 | Some d \<Rightarrow> d))"

definition type_text :: "guest_type \<Rightarrow> string" where
  "type_text t = (case t of Lxc \<Rightarrow> ''lxc'' | Vm \<Rightarrow> ''vm'')"

definition compareGuests :: "guest_entry \<Rightarrow> guest_entry \<Rightarrow> int option" where
  "compareGuests a b =
     (if g_host a \<noteq> g_host b then Some (if g_host a < g_host b then -1 else 1)
      else if g_type a \<noteq> g_type b then Some (if type_text (g_type a) < type_text (g_type b) then -1 else 1)
      else if compareIp (e_ip a) (e_ip b) \<noteq> Some 0 then compareIp (e_ip a) (e_ip b)
      else compareByName e_name a b)"

definition compareNfsMounts :: "nfs_mount_entry \<Rightarrow> nfs_mount_entry \<Rightarrow> int option" where
  "compareNfsMounts a b =
     (if compareByName nm_name a b \<noteq> Some 0 then compareByName nm_name a b
      else Some (if nm_mountPoint a < nm_mountPoint b then -1
                 else if nm_mountPoint a > nm_mountPoint b then 1 else 0))"

definition sort_host_lists :: "host_entry \<Rightarrow> host_entry" where
  "sort_host_lists h =
     h\<lparr>h_bridges := map_option (js_sort (compareByName br_name)) (h_bridges h),
       h_storages := map_option (\<lambda>ss. js_sort (compareByName sg_name)
                       (map (\<lambda>s. s\<lparr>sg_content := sort (sg_content s)\<rparr>) ss)) (h_storages h),
       h_nfsMounts := map_option (js_sort compareNfsMounts) (h_nfsMounts h)\<rparr>"

definition sortInventoryForFile :: "inventory \<Rightarrow> inventory" where
  "sortInventoryForFile iv =
     iv\<lparr>i_hosts := map sort_host_lists (js_sort (compareByName e_name) (i_hosts iv)),
        i_guests := js_sort compareGuests (i_guests iv)\<rparr>"

section \<open>saveInventory\<close>

definition flag_int :: "bool option \<Rightarrow> int" where
  "flag_int b = (if flagged b then 1 else 0)"

definition flag_col :: "bool option \<Rightarrow> int option" where
  "flag_col b = (if flagged b then Some 1 else None)"

definition tri_col :: "bool option \<Rightarrow> int option" where
  "tri_col b = map_option (\<lambda>v. if v then 1 else 0) b"

definition mode_text :: "gate_mode \<Rightarrow> string" where
  "mode_text m = (case m of Forward \<Rightarrow> ''forward'' | Oidc \<Rightarrow> ''oidc'')"

definition vpn_text :: "vpn_provider \<Rightarrow> string" where
  "vpn_text p = (case p of Nordvpn \<Rightarrow> ''nordvpn'' | Pia \<Rightarrow> ''pia'')"

definition host_columns :: "host_entry \<Rightarrow> host_row" where
  "host_columns h =
     \<lparr>r_name = e_name h, r_port = e_port h, r_insecure_backend_tls = tri_col (e_insecureBackendTls h),
      r_auth_group = e_authGroup h, r_auth_mode = map_option mode_text (e_authMode h),
      r_oidc_redirect_uris_json = e_oidcRedirectUris h,
      r_oidc_mobile_redirect_uris_json = e_oidcMobileRedirectUris h,
      r_unauthenticated_paths_json = e_unauthenticatedPaths h,
      r_ip = e_ip h, r_proxy = flag_int (e_proxy h), r_proxy_manual = flag_col (e_proxyManual h),
      r_authentik = flag_col (e_authentik h),
      hr_ssh_target = h_ssh_target h, hr_ssh_user = h_ssh_user h, hr_ssh_port = h_ssh_port h,
      hr_ssh_identity_file = h_ssh_identity_file h, hr_mid_scheme_json = h_midScheme h,
      hr_bridges_json = h_bridges h, hr_storages_json = h_storages h, hr_nfs_mounts_json = h_nfsMounts h\<rparr>"

definition guest_columns :: "guest_entry \<Rightarrow> guest_row" where
  "guest_columns g =
     \<lparr>r_name = e_name g, r_port = e_port g, r_insecure_backend_tls = tri_col (e_insecureBackendTls g),
      r_auth_group = e_authGroup g, r_auth_mode = map_option mode_text (e_authMode g),
      r_oidc_redirect_uris_json = e_oidcRedirectUris g,
      r_oidc_mobile_redirect_uris_json = e_oidcMobileRedirectUris g,
      r_unauthenticated_paths_json = e_unauthenticatedPaths g,
      r_ip = e_ip g, r_proxy = flag_int (e_proxy g), r_proxy_manual = flag_col (e_proxyManual g),
      r_authentik = flag_col (e_authentik g),
      gr_type = type_text (g_type g), gr_vmid = g_vmid g, gr_host = g_host g,
      gr_bellhop = flag_col (g_bellhop g), gr_unprivileged = tri_col (g_unprivileged g), gr_app = g_app g,
      gr_app_source = (if g_appSourceCustom g then Some ''custom'' else None),
      gr_vpn_gateway = map_option vpn_text (g_vpnGateway g), gr_vpn = g_vpn g,
      gr_created_by_uid = Option.bind (g_creator g) cr_uid,
      gr_created_by_username = map_option cr_username (g_creator g),
      gr_created_by_since = Option.bind (g_creator g) cr_since\<rparr>"

definition site_columns :: "external_site \<Rightarrow> site_row" where
  "site_columns x =
     \<lparr>r_name = x_name x, r_port = x_port x, r_insecure_backend_tls = tri_col (x_insecureBackendTls x),
      r_auth_group = x_authGroup x, r_auth_mode = map_option mode_text (x_authMode x),
      r_oidc_redirect_uris_json = x_oidcRedirectUris x,
      r_oidc_mobile_redirect_uris_json = x_oidcMobileRedirectUris x,
      r_unauthenticated_paths_json = x_unauthenticatedPaths x, sr_ip = x_ip x\<rparr>"

fun each :: "('a \<Rightarrow> 's \<Rightarrow> 's option) \<Rightarrow> 'a list \<Rightarrow> 's \<Rightarrow> 's option" where
  "each f [] s = Some s"
| "each f (x # xs) s = Option.bind (f x s) (each f xs)"

definition insertSubdomain :: "string \<Rightarrow> string \<Rightarrow> string \<Rightarrow> inventory_db \<Rightarrow> inventory_db option" where
  "insertSubdomain ty nm sub db =
     (if sub \<in> su_subdomain ` set (b_subdomains db) then None
      else Some (db\<lparr>b_subdomains := b_subdomains db @
                      [\<lparr>su_subdomain = sub, su_owner_type = ty, su_owner_name = nm\<rparr>]\<rparr>))"

definition insertProxyOwner :: "bool option \<Rightarrow> string \<Rightarrow> string \<Rightarrow> inventory_db \<Rightarrow> inventory_db option" where
  "insertProxyOwner flag ty nm db =
     (if \<not> flagged flag then Some db
      else if b_proxyOwner db \<noteq> None then None
      else Some (db\<lparr>b_proxyOwner := Some (ty, nm)\<rparr>))"

definition insertHost :: "host_entry \<Rightarrow> inventory_db \<Rightarrow> inventory_db option" where
  "insertHost h db =
     (if e_name h \<in> r_name ` set (b_hosts db) then None
      else Option.bind
             (insertProxyOwner (e_proxy h) ''host'' (e_name h) (db\<lparr>b_hosts := b_hosts db @ [host_columns h]\<rparr>))
             (each (insertSubdomain ''host'' (e_name h)) (or_empty (e_subdomains h))))"

definition insertGuest :: "guest_entry \<Rightarrow> inventory_db \<Rightarrow> inventory_db option" where
  "insertGuest g db =
     (if e_name g \<in> r_name ` set (b_guests db) \<or>
         (g_host g, g_vmid g) \<in> (\<lambda>r. (gr_host r, gr_vmid r)) ` set (b_guests db) \<or>
         g_host g \<notin> r_name ` set (b_hosts db)
      then None
      else Option.bind
             (insertProxyOwner (e_proxy g) ''guest'' (e_name g) (db\<lparr>b_guests := b_guests db @ [guest_columns g]\<rparr>))
             (each (insertSubdomain ''guest'' (e_name g)) (or_empty (e_subdomains g))))"

definition insertExternalSite :: "external_site \<Rightarrow> inventory_db \<Rightarrow> inventory_db option" where
  "insertExternalSite x db =
     (if x_name x \<in> r_name ` set (b_sites db) then None
      else each (insertSubdomain ''external_site'' (x_name x)) (x_subdomains x)
             (db\<lparr>b_sites := b_sites db @ [site_columns x]\<rparr>))"

definition save_setting :: "settings \<Rightarrow> string \<Rightarrow> (string \<times> string) list \<Rightarrow> (string \<times> string) list" where
  "save_setting st key meta = (case st key of None \<Rightarrow> jm_delete key meta | Some v \<Rightarrow> jm_set key v meta)"

definition save_meta :: "inventory \<Rightarrow> (string \<times> string) list \<Rightarrow> (string \<times> string) list" where
  "save_meta iv meta =
     fold (save_setting (i_settings iv)) SETTINGS_KEYS (jm_set ''domain'' (i_domain iv) meta)"

definition saveInventory :: "inventory \<Rightarrow> inventory_db \<Rightarrow> store_error + inventory_db" where
  "saveInventory iv db =
     (if validateInventory iv \<noteq> [] then Inl (InventoryInvalid (validateInventory iv))
      else let data = sortInventoryForFile iv;
               cleared = db\<lparr>b_meta := save_meta data (b_meta db), b_hosts := [], b_guests := [], b_sites := [],
                            b_subdomains := [], b_proxyOwner := None\<rparr>
           in case Option.bind (Option.bind (each insertHost (i_hosts data) cleared)
                      (each insertGuest (i_guests data)))
                      (each insertExternalSite (external_sites data)) of
                None \<Rightarrow> Inl ConstraintFailed
              | Some db' \<Rightarrow> Inr db')"

section \<open>loadInventory\<close>

definition truthy_int :: "int option \<Rightarrow> bool option" where
  "truthy_int c = (case c of None \<Rightarrow> None | Some n \<Rightarrow> if n \<noteq> 0 then Some True else None)"

definition tri_bool :: "int option \<Rightarrow> bool option" where
  "tri_bool c = map_option (\<lambda>n. n \<noteq> 0) c"

text \<open>A column whose text is outside the enumeration fails the schema.\<close>

definition read_mode :: "string option \<Rightarrow> gate_mode option option" where
  "read_mode c =
     (if c = None then Some None else if c = Some ''forward'' then Some (Some Forward)
      else if c = Some ''oidc'' then Some (Some Oidc) else None)"

definition read_type :: "string \<Rightarrow> guest_type option" where
  "read_type s = (if s = ''lxc'' then Some Lxc else if s = ''vm'' then Some Vm else None)"

definition read_source :: "string option \<Rightarrow> bool option" where
  "read_source c = (if c = None then Some False else if c = Some ''custom'' then Some True else None)"

definition read_vpn :: "string option \<Rightarrow> vpn_provider option option" where
  "read_vpn c =
     (if c = None then Some None else if c = Some ''nordvpn'' then Some (Some Nordvpn)
      else if c = Some ''pia'' then Some (Some Pia) else None)"

definition subdomainsFor :: "subdomain_row list \<Rightarrow> string \<Rightarrow> string \<Rightarrow> string list option" where
  "subdomainsFor rows ownerType ownerName =
     none_if_empty (map su_subdomain
       (filter (\<lambda>s. su_owner_type s = ownerType \<and> su_owner_name s = ownerName) rows))"

definition load_host :: "subdomain_row list \<Rightarrow> host_row \<Rightarrow> host_entry option" where
  "load_host subs r =
     map_option (\<lambda>mode.
       \<lparr>e_name = r_name r, e_ip = r_ip r, e_port = r_port r,
        e_subdomains = subdomainsFor subs ''host'' (r_name r),
        e_insecureBackendTls = tri_bool (r_insecure_backend_tls r),
        e_proxyManual = truthy_int (r_proxy_manual r), e_authGroup = r_auth_group r, e_authMode = mode,
        e_oidcRedirectUris = r_oidc_redirect_uris_json r,
        e_oidcMobileRedirectUris = r_oidc_mobile_redirect_uris_json r,
        e_unauthenticatedPaths = r_unauthenticated_paths_json r,
        e_proxy = truthy_int (Some (r_proxy r)), e_authentik = truthy_int (r_authentik r),
        h_ssh_target = hr_ssh_target r, h_ssh_user = hr_ssh_user r, h_ssh_port = hr_ssh_port r,
        h_ssh_identity_file = hr_ssh_identity_file r, h_midScheme = hr_mid_scheme_json r,
        h_bridges = hr_bridges_json r, h_storages = hr_storages_json r, h_nfsMounts = hr_nfs_mounts_json r\<rparr>)
       (read_mode (r_auth_mode r))"

definition load_creator :: "guest_row \<Rightarrow> creator_record option" where
  "load_creator r =
     (if has_text (gr_created_by_username r)
      then Some \<lparr>cr_uid = (if has_text (gr_created_by_uid r) then gr_created_by_uid r else None),
                 cr_username = the (gr_created_by_username r),
                 cr_since = (if has_text (gr_created_by_since r) then gr_created_by_since r else None)\<rparr>
      else None)"

definition load_guest :: "subdomain_row list \<Rightarrow> guest_row \<Rightarrow> guest_entry option" where
  "load_guest subs r =
     (case (read_mode (r_auth_mode r), read_type (gr_type r), read_source (gr_app_source r),
            read_vpn (gr_vpn_gateway r)) of
        (Some mode, Some ty, Some source, Some provider) \<Rightarrow>
          Some \<lparr>e_name = r_name r, e_ip = r_ip r, e_port = r_port r,
                e_subdomains = subdomainsFor subs ''guest'' (r_name r),
                e_insecureBackendTls = tri_bool (r_insecure_backend_tls r),
                e_proxyManual = truthy_int (r_proxy_manual r), e_authGroup = r_auth_group r, e_authMode = mode,
                e_oidcRedirectUris = r_oidc_redirect_uris_json r,
                e_oidcMobileRedirectUris = r_oidc_mobile_redirect_uris_json r,
                e_unauthenticatedPaths = r_unauthenticated_paths_json r,
                e_proxy = truthy_int (Some (r_proxy r)), e_authentik = truthy_int (r_authentik r),
                g_type = ty, g_vmid = gr_vmid r, g_host = gr_host r, g_bellhop = truthy_int (gr_bellhop r),
                g_unprivileged = tri_bool (gr_unprivileged r), g_app = gr_app r, g_appSourceCustom = source,
                g_vpnGateway = provider, g_vpn = gr_vpn r, g_creator = load_creator r\<rparr>
      | _ \<Rightarrow> None)"

definition load_site :: "subdomain_row list \<Rightarrow> site_row \<Rightarrow> external_site option" where
  "load_site subs r =
     map_option (\<lambda>mode.
       \<lparr>x_name = r_name r, x_ip = sr_ip r, x_port = r_port r,
        x_subdomains = or_empty (subdomainsFor subs ''external_site'' (r_name r)),
        x_insecureBackendTls = tri_bool (r_insecure_backend_tls r), x_authGroup = r_auth_group r,
        x_authMode = mode, x_oidcRedirectUris = r_oidc_redirect_uris_json r,
        x_oidcMobileRedirectUris = r_oidc_mobile_redirect_uris_json r,
        x_unauthenticatedPaths = r_unauthenticated_paths_json r\<rparr>)
       (read_mode (r_auth_mode r))"

definition load_settings :: "(string \<times> string) list \<Rightarrow> settings" where
  "load_settings meta key = (if key \<in> set SETTINGS_KEYS then jm_get meta key else None)"

definition assemble :: "inventory_db \<Rightarrow> inventory option" where
  "assemble db =
     (let hosts = map (load_host (b_subdomains db)) (sort_key r_name (b_hosts db));
          guests = map (load_guest (b_subdomains db)) (sort_key (\<lambda>r. (gr_host r, r_name r)) (b_guests db));
          sites = map (load_site (b_subdomains db)) (sort_key r_name (b_sites db))
      in if None \<in> set hosts \<or> None \<in> set guests \<or> None \<in> set sites then None
         else Some (sortInventoryForFile
                \<lparr>i_domain = (case jm_get (b_meta db) ''domain'' of None \<Rightarrow> '''' | Some d \<Rightarrow> d),
                 i_settings = load_settings (b_meta db),
                 i_hosts = map the hosts, i_guests = map the guests,
                 i_externalSites = none_if_empty (map the sites)\<rparr>))"

definition loadInventory :: "url_parser \<Rightarrow> inventory_db \<Rightarrow> store_error + inventory" where
  "loadInventory u db =
     (case assemble db of
        None \<Rightarrow> Inl SchemaInvalid
      | Some iv \<Rightarrow>
          if \<not> InventorySchema u iv then Inl SchemaInvalid
          else if validateInventory iv \<noteq> [] then Inl (InventoryInvalid (validateInventory iv))
          else Inr iv)"

section \<open>The in-memory copy\<close>

definition refreshInventory :: "url_parser \<Rightarrow> inventory_db \<Rightarrow> inventory \<Rightarrow> inventory" where
  "refreshInventory u db memory = (case loadInventory u db of Inl _ \<Rightarrow> memory | Inr fresh \<Rightarrow> fresh)"

definition withFreshSettings :: "url_parser \<Rightarrow> inventory_db \<Rightarrow> inventory \<Rightarrow> store_error + inventory" where
  "withFreshSettings u db iv =
     map_sum id (\<lambda>fresh. iv\<lparr>i_settings := (\<lambda>key. if key \<in> set SETTINGS_KEYS then i_settings fresh key
                                                       else i_settings iv key)\<rparr>) (loadInventory u db)"

definition findProxyEntry :: "inventory \<Rightarrow> string option" where
  "findProxyEntry iv = (case proxyNames iv of [] \<Rightarrow> None | n # _ \<Rightarrow> Some n)"

section \<open>What a successful save has written\<close>

definition sub_rows :: "string \<Rightarrow> string \<Rightarrow> string list \<Rightarrow> subdomain_row list" where
  "sub_rows ty nm subs = map (\<lambda>s. \<lparr>su_subdomain = s, su_owner_type = ty, su_owner_name = nm\<rparr>) subs"

text \<open>The keys the tables enforce.\<close>

definition db_keys :: "inventory_db \<Rightarrow> bool" where
  "db_keys db \<longleftrightarrow>
     distinct (map r_name (b_hosts db)) \<and> distinct (map r_name (b_guests db)) \<and>
     distinct (map (\<lambda>r. (gr_host r, gr_vmid r)) (b_guests db)) \<and> distinct (map r_name (b_sites db)) \<and>
     distinct (map su_subdomain (b_subdomains db))"

lemma insert_subdomains:
  "each (insertSubdomain ty nm) subs db = Some db' \<longleftrightarrow>
     distinct subs \<and> set subs \<inter> su_subdomain ` set (b_subdomains db) = {} \<and>
     db' = db\<lparr>b_subdomains := b_subdomains db @ sub_rows ty nm subs\<rparr>"
proof (induction subs arbitrary: db)
  case Nil
  then show ?case by (auto simp: sub_rows_def)
next
  case (Cons s subs)
  let ?row = "\<lparr>su_subdomain = s, su_owner_type = ty, su_owner_name = nm\<rparr>"
  have "insertSubdomain ty nm s db =
      (if s \<in> su_subdomain ` set (b_subdomains db) then None
       else Some (db\<lparr>b_subdomains := b_subdomains db @ [?row]\<rparr>))"
    by (rule insertSubdomain_def)
  then have step: "each (insertSubdomain ty nm) (s # subs) db =
      (if s \<in> su_subdomain ` set (b_subdomains db) then None
       else each (insertSubdomain ty nm) subs (db\<lparr>b_subdomains := b_subdomains db @ [?row]\<rparr>))"
    by simp
  show ?case unfolding step by (auto simp: Cons.IH sub_rows_def)
qed

lemma insertHost_Some:
  assumes "insertHost h db = Some db'"
  shows "\<exists>own. db' = db\<lparr>b_hosts := b_hosts db @ [host_columns h], b_proxyOwner := own,
                  b_subdomains := b_subdomains db @ sub_rows ''host'' (e_name h) (or_empty (e_subdomains h))\<rparr>"
    and "db_keys db \<Longrightarrow> db_keys db'"
proof -
  obtain db1 where new: "e_name h \<notin> r_name ` set (b_hosts db)"
    and own: "insertProxyOwner (e_proxy h) ''host'' (e_name h) (db\<lparr>b_hosts := b_hosts db @ [host_columns h]\<rparr>) = Some db1"
    and subs: "each (insertSubdomain ''host'' (e_name h)) (or_empty (e_subdomains h)) db1 = Some db'"
    using assms by (auto simp: insertHost_def bind_eq_Some_conv split: if_splits)
  obtain o1 where db1: "db1 = db\<lparr>b_hosts := b_hosts db @ [host_columns h], b_proxyOwner := o1\<rparr>"
  proof -
    have "db1 = db\<lparr>b_hosts := b_hosts db @ [host_columns h], b_proxyOwner := b_proxyOwner db1\<rparr>"
      using own by (auto simp: insertProxyOwner_def split: if_splits)
    then show ?thesis by (rule that)
  qed
  then show "\<exists>own. db' = db\<lparr>b_hosts := b_hosts db @ [host_columns h], b_proxyOwner := own,
                  b_subdomains := b_subdomains db @ sub_rows ''host'' (e_name h) (or_empty (e_subdomains h))\<rparr>"
    using subs by (auto simp: insert_subdomains)
  show "db_keys db'" if "db_keys db"
    using that new subs db1 by (auto simp: insert_subdomains db_keys_def host_columns_def sub_rows_def comp_def)
qed

lemma insertGuest_Some:
  assumes "insertGuest g db = Some db'"
  shows "\<exists>own. db' = db\<lparr>b_guests := b_guests db @ [guest_columns g], b_proxyOwner := own,
                  b_subdomains := b_subdomains db @ sub_rows ''guest'' (e_name g) (or_empty (e_subdomains g))\<rparr>"
    and "db_keys db \<Longrightarrow> db_keys db'"
proof -
  obtain db1 where new: "e_name g \<notin> r_name ` set (b_guests db)"
      "(g_host g, g_vmid g) \<notin> (\<lambda>r. (gr_host r, gr_vmid r)) ` set (b_guests db)"
    and own: "insertProxyOwner (e_proxy g) ''guest'' (e_name g) (db\<lparr>b_guests := b_guests db @ [guest_columns g]\<rparr>) = Some db1"
    and subs: "each (insertSubdomain ''guest'' (e_name g)) (or_empty (e_subdomains g)) db1 = Some db'"
    using assms by (auto simp: insertGuest_def bind_eq_Some_conv split: if_splits)
  obtain o1 where db1: "db1 = db\<lparr>b_guests := b_guests db @ [guest_columns g], b_proxyOwner := o1\<rparr>"
  proof -
    have "db1 = db\<lparr>b_guests := b_guests db @ [guest_columns g], b_proxyOwner := b_proxyOwner db1\<rparr>"
      using own by (auto simp: insertProxyOwner_def split: if_splits)
    then show ?thesis by (rule that)
  qed
  then show "\<exists>own. db' = db\<lparr>b_guests := b_guests db @ [guest_columns g], b_proxyOwner := own,
                  b_subdomains := b_subdomains db @ sub_rows ''guest'' (e_name g) (or_empty (e_subdomains g))\<rparr>"
    using subs by (auto simp: insert_subdomains)
  show "db_keys db'" if "db_keys db"
    using that new subs db1 by (auto simp: insert_subdomains db_keys_def guest_columns_def sub_rows_def comp_def)
qed

lemma insertExternalSite_Some:
  assumes "insertExternalSite x db = Some db'"
  shows "db' = db\<lparr>b_sites := b_sites db @ [site_columns x],
                  b_subdomains := b_subdomains db @ sub_rows ''external_site'' (x_name x) (x_subdomains x)\<rparr>"
    and "db_keys db \<Longrightarrow> db_keys db'"
  using assms
  by (auto simp: insertExternalSite_def insert_subdomains db_keys_def site_columns_def sub_rows_def comp_def
      split: if_splits)

lemma insert_hosts:
  "each insertHost hs db = Some db' \<Longrightarrow>
   (\<exists>own. db' = db\<lparr>b_hosts := b_hosts db @ map host_columns hs, b_proxyOwner := own,
       b_subdomains := b_subdomains db @ concat (map (\<lambda>h. sub_rows ''host'' (e_name h) (or_empty (e_subdomains h))) hs)\<rparr>) \<and>
   (db_keys db \<longrightarrow> db_keys db')"
proof (induction hs arbitrary: db)
  case Nil
  then show ?case by (auto intro: exI [of _ "b_proxyOwner db"])
next
  case (Cons h hs)
  then obtain db1 where s: "insertHost h db = Some db1" and r: "each insertHost hs db1 = Some db'"
    by (auto simp: bind_eq_Some_conv)
  from insertHost_Some(1) [OF s] Cons.IH [OF r] insertHost_Some(2) [OF s] show ?case by auto
qed

lemma insert_guests:
  "each insertGuest gs db = Some db' \<Longrightarrow>
   (\<exists>own. db' = db\<lparr>b_guests := b_guests db @ map guest_columns gs, b_proxyOwner := own,
       b_subdomains := b_subdomains db @ concat (map (\<lambda>g. sub_rows ''guest'' (e_name g) (or_empty (e_subdomains g))) gs)\<rparr>) \<and>
   (db_keys db \<longrightarrow> db_keys db')"
proof (induction gs arbitrary: db)
  case Nil
  then show ?case by (auto intro: exI [of _ "b_proxyOwner db"])
next
  case (Cons g gs)
  then obtain db1 where s: "insertGuest g db = Some db1" and r: "each insertGuest gs db1 = Some db'"
    by (auto simp: bind_eq_Some_conv)
  from insertGuest_Some(1) [OF s] Cons.IH [OF r] insertGuest_Some(2) [OF s] show ?case by auto
qed

lemma insert_sites:
  "each insertExternalSite xs db = Some db' \<Longrightarrow>
   db' = db\<lparr>b_sites := b_sites db @ map site_columns xs,
       b_subdomains := b_subdomains db @ concat (map (\<lambda>x. sub_rows ''external_site'' (x_name x) (x_subdomains x)) xs)\<rparr> \<and>
   (db_keys db \<longrightarrow> db_keys db')"
proof (induction xs arbitrary: db)
  case Nil
  then show ?case by auto
next
  case (Cons x xs)
  then obtain db1 where s: "insertExternalSite x db = Some db1" and r: "each insertExternalSite xs db1 = Some db'"
    by (auto simp: bind_eq_Some_conv)
  from insertExternalSite_Some(1) [OF s] Cons.IH [OF r] insertExternalSite_Some(2) [OF s] show ?case by auto
qed

definition saved_subdomains :: "inventory \<Rightarrow> subdomain_row list" where
  "saved_subdomains data =
     concat (map (\<lambda>h. sub_rows ''host'' (e_name h) (or_empty (e_subdomains h))) (i_hosts data)) @
     concat (map (\<lambda>g. sub_rows ''guest'' (e_name g) (or_empty (e_subdomains g))) (i_guests data)) @
     concat (map (\<lambda>x. sub_rows ''external_site'' (x_name x) (x_subdomains x)) (external_sites data))"

lemma saveInventory_tables:
  assumes "saveInventory iv db = Inr db'"
  defines "data \<equiv> sortInventoryForFile iv"
  shows "inventory_valid iv \<and> b_meta db' = save_meta data (b_meta db) \<and> b_secrets db' = b_secrets db \<and>
         b_hosts db' = map host_columns (i_hosts data) \<and> b_guests db' = map guest_columns (i_guests data) \<and>
         b_sites db' = map site_columns (external_sites data) \<and> b_subdomains db' = saved_subdomains data \<and>
         db_keys db'"
proof -
  let ?c = "db\<lparr>b_meta := save_meta data (b_meta db), b_hosts := [], b_guests := [], b_sites := [],
               b_subdomains := [], b_proxyOwner := None\<rparr>"
  have valid: "validateInventory iv = []" using assms by (auto simp: saveInventory_def split: if_splits)
  then obtain d1 d2 where h: "each insertHost (i_hosts data) ?c = Some d1"
    and g: "each insertGuest (i_guests data) d1 = Some d2"
    and x: "each insertExternalSite (external_sites data) d2 = Some db'"
    using assms by (auto simp: saveInventory_def Let_def bind_eq_Some_conv split: option.splits)
  have "db_keys ?c" by (simp add: db_keys_def)
  then show ?thesis
    using valid insert_hosts [OF h] insert_guests [OF g] insert_sites [OF x]
    by (auto simp: validateInventory_Nil saved_subdomains_def)
qed

section \<open>Orders as keys\<close>

lemma sort_by_name: "js_sort (compareByName name) xs = sort_key name xs"
  by (rule js_sort_key) (auto simp: compareByName_def comes_after_def)

lemma sort_nfs: "js_sort compareNfsMounts xs = sort_key (\<lambda>m. (nm_name m, nm_mountPoint m)) xs"
  by (rule js_sort_key) (auto simp: compareNfsMounts_def compareByName_def comes_after_def less_prod_def)

lemma sort_key_idem [simp]: "sort_key k (sort_key k xs) = sort_key k xs"
  by (simp add: sort_key_id_if_sorted)

text \<open>The address of a guest, when it has one, is made of numbers.\<close>

definition numeric_ip :: "string option \<Rightarrow> bool" where
  "numeric_ip ip = (case ip of None \<Rightarrow> True | Some s \<Rightarrow> s \<noteq> [] \<and> list_all (\<lambda>i. ipPart s i \<noteq> None) [0, 1, 2, 3])"

definition ip_key :: "string option \<Rightarrow> nat \<times> int list" where
  "ip_key ip = (case ip of None \<Rightarrow> (1, []) | Some s \<Rightarrow> (0, map (\<lambda>i. the (ipPart s i)) [0, 1, 2, 3]))"

definition guest_key :: "guest_entry \<Rightarrow> string \<times> string \<times> (nat \<times> int list) \<times> string" where
  "guest_key g = (g_host g, type_text (g_type g), ip_key (e_ip g), e_name g)"

lemma type_text_inj [simp]: "type_text a = type_text b \<longleftrightarrow> a = b"
  by (cases a; cases b) (simp_all add: type_text_def)

lemma compareIp_key:
  assumes "numeric_ip a" and "numeric_ip b"
  shows "compareIp a b = Some 0 \<longleftrightarrow> ip_key a = ip_key b"
    and "comes_after (compareIp a b) \<longleftrightarrow> ip_key a > ip_key b"
proof -
  have none: "compareIp a b = Some (if a = b then 0 else if a = None then 1 else -1)" if "a = None \<or> b = None"
    using that assms by (auto simp: compareIp_def has_text_def numeric_ip_def)
  have some: "(compareIp a b = Some 0 \<longleftrightarrow> ip_key a = ip_key b) \<and>
              (comes_after (compareIp a b) \<longleftrightarrow> ip_key a > ip_key b)" if a: "a = Some s" and b: "b = Some t" for s t
  proof -
    obtain a0 a1 a2 a3 b0 b1 b2 b3 where
      p: "ipPart s 0 = Some a0" "ipPart s 1 = Some a1" "ipPart s 2 = Some a2" "ipPart s 3 = Some a3"
         "ipPart t 0 = Some b0" "ipPart t 1 = Some b1" "ipPart t 2 = Some b2" "ipPart t 3 = Some b3"
      using assms a b by (auto simp: numeric_ip_def)
    note q = p [unfolded One_nat_def]
    have keys: "ip_key a = (0, [a0, a1, a2, a3])" "ip_key b = (0, [b0, b1, b2, b3])"
      using p q a b by (simp_all add: ip_key_def)
    show ?thesis
    proof (cases "s = t")
      case True
      then show ?thesis using a b by (simp add: compareIp_def comes_after_def)
    next
      case False
      have ne: "s \<noteq> []" "t \<noteq> []" using assms a b by (auto simp: numeric_ip_def)
      have "compareIp a b =
          Some (if a0 \<noteq> b0 then a0 - b0 else if a1 \<noteq> b1 then a1 - b1 else if a2 \<noteq> b2 then a2 - b2 else a3 - b3)"
        using False ne a b p q by (simp add: compareIp_def has_text_def partDiff_def)
      then show ?thesis unfolding keys by (auto simp: comes_after_def less_prod_def)
    qed
  qed
  show "compareIp a b = Some 0 \<longleftrightarrow> ip_key a = ip_key b"
    using none some by (cases a; cases b) (auto simp: ip_key_def)
  show "comes_after (compareIp a b) \<longleftrightarrow> ip_key a > ip_key b"
    using none some by (cases a; cases b) (auto simp: ip_key_def comes_after_def less_prod_def)
qed

lemma less_quad:
  fixes h h' :: "'a :: linorder" and t t' :: "'b :: linorder" and i i' :: "'c :: linorder" and n n' :: "'d :: linorder"
  shows "(h', t', i', n') < (h, t, i, n) \<longleftrightarrow>
    h' < h \<or> h' = h \<and> (t' < t \<or> t' = t \<and> (i' < i \<or> i' = i \<and> n' < n))"
  by auto

lemma compareGuests_key:
  assumes "numeric_ip (e_ip a)" and "numeric_ip (e_ip b)"
  shows "comes_after (compareGuests a b) \<longleftrightarrow> guest_key a > guest_key b"
proof -
  note ip = compareIp_key [OF assms]
  show ?thesis
    unfolding guest_key_def less_quad
    using ip type_text_inj [of "g_type a" "g_type b"]
    by (auto simp: compareGuests_def compareByName_def comes_after_def not_less_iff_gr_or_eq
        simp del: type_text_inj)
qed

definition numeric_ips :: "inventory \<Rightarrow> bool" where
  "numeric_ips iv \<longleftrightarrow> list_all (\<lambda>g. numeric_ip (e_ip g)) (i_guests iv)"

lemma sort_guests:
  assumes "\<forall>g \<in> set gs. numeric_ip (e_ip g)"
  shows "js_sort compareGuests gs = sort_key guest_key gs"
  using assms by (intro js_sort_key) (simp add: compareGuests_key)

section \<open>Reading back what was written\<close>

lemma filter_other_type:
  "ty \<noteq> ty' \<Longrightarrow>
   filter (\<lambda>s. su_owner_type s = ty \<and> su_owner_name s = n) (concat (map (\<lambda>y. sub_rows ty' (nm y) (subs y)) xs)) = []"
  by (auto simp: filter_empty_conv sub_rows_def)

lemma filter_sub_rows:
  "filter (\<lambda>s. su_owner_type s = ty \<and> su_owner_name s = n) (sub_rows ty m subs) =
     (if m = n then sub_rows ty m subs else [])"
  by (induction subs) (auto simp: sub_rows_def)

lemma filter_own_rows:
  assumes "distinct (map nm xs)" and "x \<in> set xs"
  shows "map su_subdomain (filter (\<lambda>s. su_owner_type s = ty \<and> su_owner_name s = nm x)
           (concat (map (\<lambda>y. sub_rows ty (nm y) (subs y)) xs))) = subs x"
proof -
  have absent: "filter (\<lambda>s. su_owner_type s = ty \<and> su_owner_name s = n)
      (concat (map (\<lambda>y. sub_rows ty (nm y) (subs y)) ys)) = []" if "n \<notin> nm ` set ys" for n ys
    using that by (induction ys) (auto simp: filter_sub_rows)
  have "map su_subdomain (sub_rows ty n subs) = subs" for n subs
    by (simp add: sub_rows_def comp_def)
  then show ?thesis using assms
    by (induction xs) (auto simp: filter_sub_rows absent)
qed

lemma save_settings_get:
  "jm_get (fold (save_setting st) ks m) k = (if k \<in> set ks then st k else jm_get m k)"
  by (induction ks arbitrary: m) (auto simp: save_setting_def row_simps split: option.splits)

lemma domain_no_setting [simp]: "''domain'' \<notin> set SETTINGS_KEYS"
  by (simp add: SETTINGS_KEYS_def SettingsSchema_def MovedSettingsSchema_def)

lemma meta_back:
  "jm_get (save_meta iv meta) ''domain'' = Some (i_domain iv)"
  "load_settings (save_meta iv meta) = (\<lambda>key. if key \<in> set SETTINGS_KEYS then i_settings iv key else None)"
  by (auto simp: save_meta_def save_settings_get load_settings_def row_simps)

lemma mode_back [simp]: "read_mode (map_option mode_text m) = Some m"
  by (cases m) (auto simp: read_mode_def mode_text_def split: gate_mode.splits)

lemma vpn_back [simp]: "read_vpn (map_option vpn_text p) = Some p"
  by (cases p) (auto simp: read_vpn_def vpn_text_def split: vpn_provider.splits)

lemma column_back [simp]:
  "read_type (type_text t) = Some t" "tri_bool (tri_col b) = b"
  "truthy_int (flag_col b) = (if flagged b then Some True else None)"
  "truthy_int (Some (flag_int b)) = (if flagged b then Some True else None)"
  "read_source (if c then Some ''custom'' else None) = Some c"
  by (auto simp: read_type_def type_text_def tri_bool_def tri_col_def truthy_int_def flag_col_def flag_int_def
      read_source_def map_option_case split: guest_type.splits option.splits)

end
