(* ===== verification/Inventory_Theorems.thy ===== *)
theory Inventory_Theorems
  imports Inventory_Store
begin

text \<open>
  What the inventory database promises: a saved inventory is the one the next load gives, in a stored form
  (\<open>stored_form\<close>): lists in file order, a flag that is not set and an empty subdomain list absent.
\<close>

section \<open>The stored form\<close>

definition norm_flag :: "bool option \<Rightarrow> bool option" where
  "norm_flag b = (if flagged b then Some True else None)"

definition norm_host :: "host_entry \<Rightarrow> host_entry" where
  "norm_host h =
     h\<lparr>e_subdomains := none_if_empty (or_empty (e_subdomains h)), e_proxyManual := norm_flag (e_proxyManual h),
       e_proxy := norm_flag (e_proxy h), e_authentik := norm_flag (e_authentik h)\<rparr>"

definition norm_guest :: "guest_entry \<Rightarrow> guest_entry" where
  "norm_guest g =
     g\<lparr>e_subdomains := none_if_empty (or_empty (e_subdomains g)), e_proxyManual := norm_flag (e_proxyManual g),
       e_proxy := norm_flag (e_proxy g), e_authentik := norm_flag (e_authentik g),
       g_bellhop := norm_flag (g_bellhop g)\<rparr>"

definition stored_form :: "inventory \<Rightarrow> inventory" where
  "stored_form iv =
     (let data = sortInventoryForFile iv
      in data\<lparr>i_settings := (\<lambda>key. if key \<in> set SETTINGS_KEYS then i_settings iv key else None),
              i_hosts := map norm_host (i_hosts data), i_guests := map norm_guest (i_guests data),
              i_externalSites := none_if_empty (sort_key x_name (external_sites iv))\<rparr>)"

lemma flagged_norm [simp]: "flagged (norm_flag b) = flagged b"
  by (simp add: norm_flag_def flagged_def)

lemma or_empty_none_if_empty [simp]: "or_empty (none_if_empty xs) = xs"
  by (simp add: none_if_empty_def)

lemma norm_fields [simp]:
  "e_name (norm_host h) = e_name h" "e_name (norm_guest g) = e_name g"
  "e_ip (norm_host h) = e_ip h" "e_ip (norm_guest g) = e_ip g"
  "or_empty (e_subdomains (norm_host h)) = or_empty (e_subdomains h)"
  "or_empty (e_subdomains (norm_guest g)) = or_empty (e_subdomains g)"
  "flagged (e_proxy (norm_host h)) = flagged (e_proxy h)" "flagged (e_proxy (norm_guest g)) = flagged (e_proxy g)"
  "flagged (e_authentik (norm_host h)) = flagged (e_authentik h)"
  "flagged (e_authentik (norm_guest g)) = flagged (e_authentik g)"
  "flagged (e_proxyManual (norm_host h)) = flagged (e_proxyManual h)"
  "flagged (e_proxyManual (norm_guest g)) = flagged (e_proxyManual g)"
  "flagged (g_bellhop (norm_guest g)) = flagged (g_bellhop g)"
  "effectiveAuth (norm_host h) = effectiveAuth h" "effectiveAuth (norm_guest g) = effectiveAuth g"
  "g_host (norm_guest g) = g_host g" "h_midScheme (norm_host h) = h_midScheme h"
  "guest_key (norm_guest g) = guest_key g"
  by (simp_all add: norm_host_def norm_guest_def effectiveAuth_def guest_key_def)

lemma sorted_lists_fields [simp]:
  "e_name (sort_host_lists h) = e_name h" "e_ip (sort_host_lists h) = e_ip h"
  "e_subdomains (sort_host_lists h) = e_subdomains h" "e_proxy (sort_host_lists h) = e_proxy h"
  "e_authentik (sort_host_lists h) = e_authentik h" "e_proxyManual (sort_host_lists h) = e_proxyManual h"
  "effectiveAuth (sort_host_lists h) = effectiveAuth h" "h_midScheme (sort_host_lists h) = h_midScheme h"
  by (simp_all add: sort_host_lists_def effectiveAuth_def)

lemma insort_key_map: "insort_key k (f x) (map f xs) = map f (insort_key (\<lambda>y. k (f y)) x xs)"
  by (induction xs) auto

lemma sort_key_map: "sort_key k (map f xs) = map f (sort_key (\<lambda>y. k (f y)) xs)"
  by (induction xs) (simp_all add: insort_key_map)

lemma sort_lists_norm: "sort_host_lists (norm_host (sort_host_lists h)) = norm_host (sort_host_lists h)"
proof -
  have content: "map (\<lambda>s. s\<lparr>sg_content := sort (sg_content s)\<rparr>)
      (sort_key sg_name (map (\<lambda>s. s\<lparr>sg_content := sort (sg_content s)\<rparr>) ss)) =
      sort_key sg_name (map (\<lambda>s. s\<lparr>sg_content := sort (sg_content s)\<rparr>) ss)" for ss
    by (simp add: sort_key_map comp_def)
  have sorts: "js_sort (compareByName f) = sort_key f" "js_sort compareNfsMounts = sort_key (\<lambda>m. (nm_name m, nm_mountPoint m))"
    for f :: "'z \<Rightarrow> string"
    by (auto simp: sort_by_name sort_nfs)
  show ?thesis
    by (cases h) (simp add: sort_host_lists_def norm_host_def sorts option.map_comp comp_def content)
qed

section \<open>Reading the rows of a save\<close>

lemma load_host_back:
  "subdomainsFor subs ''host'' (e_name h) = none_if_empty (or_empty (e_subdomains h)) \<Longrightarrow>
   load_host subs (host_columns h) = Some (norm_host h)"
  by (cases h) (simp add: load_host_def host_columns_def norm_host_def norm_flag_def)

lemma load_creator_back:
  assumes "opt_all GuestCreatorSchema (g_creator g)"
  shows "load_creator (guest_columns g) = g_creator g"
proof (cases "g_creator g")
  case None
  then show ?thesis by (simp add: load_creator_def guest_columns_def has_text_def)
next
  case (Some c)
  then have "GuestCreatorSchema c" using assms by (simp add: opt_all_def)
  then show ?thesis using Some
    by (cases c; cases "cr_uid c"; cases "cr_since c")
      (auto simp: load_creator_def guest_columns_def has_text_def GuestCreatorSchema_def opt_all_def)
qed

lemma load_guest_back:
  assumes "subdomainsFor subs ''guest'' (e_name g) = none_if_empty (or_empty (e_subdomains g))"
    and "opt_all GuestCreatorSchema (g_creator g)"
  shows "load_guest subs (guest_columns g) = Some (norm_guest g)"
proof -
  note c = load_creator_back [OF assms(2)]
  have "gr_app_source (guest_columns g) = (if g_appSourceCustom g then Some ''custom'' else None)"
    by (simp add: guest_columns_def)
  then have src: "read_source (gr_app_source (guest_columns g)) = Some (g_appSourceCustom g)"
    by (simp only: column_back)
  show ?thesis
    using assms(1) c src
    by (cases g) (simp add: load_guest_def guest_columns_def norm_guest_def norm_flag_def)
qed

lemma load_site_back:
  "subdomainsFor subs ''external_site'' (x_name x) = none_if_empty (x_subdomains x) \<Longrightarrow>
   load_site subs (site_columns x) = Some x"
  by (cases x) (simp add: load_site_def site_columns_def)

lemma subdomains_back:
  assumes hosts: "distinct (map e_name (i_hosts data))" and guests: "distinct (map e_name (i_guests data))"
    and sites: "distinct (map x_name (external_sites data))"
  shows "h \<in> set (i_hosts data) \<Longrightarrow>
      subdomainsFor (saved_subdomains data) ''host'' (e_name h) = none_if_empty (or_empty (e_subdomains h))"
    and "g \<in> set (i_guests data) \<Longrightarrow>
      subdomainsFor (saved_subdomains data) ''guest'' (e_name g) = none_if_empty (or_empty (e_subdomains g))"
    and "x \<in> set (external_sites data) \<Longrightarrow>
      subdomainsFor (saved_subdomains data) ''external_site'' (x_name x) = none_if_empty (x_subdomains x)"
  using filter_own_rows [OF hosts, of h "''host''" "\<lambda>h. or_empty (e_subdomains h)"]
    filter_own_rows [OF guests, of g "''guest''" "\<lambda>g. or_empty (e_subdomains g)"]
    filter_own_rows [OF sites, of x "''external_site''" x_subdomains]
  by (simp_all add: subdomainsFor_def saved_subdomains_def filter_other_type)

lemma map_load:
  assumes "\<And>x. x \<in> set xs \<Longrightarrow> load (cols x) = Some (f x)"
  shows "map load (map cols xs) = map (\<lambda>x. Some (f x)) xs"
  using assms by (induction xs) auto

lemma assemble_Some:
  assumes "map (load_host (b_subdomains db)) (sort_key r_name (b_hosts db)) = map (\<lambda>h. Some (f h)) hs"
    and "map (load_guest (b_subdomains db)) (sort_key (\<lambda>r. (gr_host r, r_name r)) (b_guests db)) = map (\<lambda>g. Some (k g)) gs"
    and "map (load_site (b_subdomains db)) (sort_key r_name (b_sites db)) = map Some xs"
    and "jm_get (b_meta db) ''domain'' = Some d"
    and "load_settings (b_meta db) = st"
  shows "assemble db = Some (sortInventoryForFile
    \<lparr>i_domain = d, i_settings = st, i_hosts = map f hs, i_guests = map k gs, i_externalSites = none_if_empty xs\<rparr>)"
  unfolding assemble_def Let_def assms by (auto simp: comp_def)

lemma assemble_saved:
  assumes saved: "saveInventory iv db = Inr db'" and schema: "InventorySchema u iv" and nums: "numeric_ips iv"
  shows "assemble db' = Some (stored_form iv)"
proof -
  let ?data = "sortInventoryForFile iv"
  let ?hs = "i_hosts ?data" and ?gs = "i_guests ?data" and ?xs = "external_sites iv"
  let ?subs = "saved_subdomains ?data"
  note t = saveInventory_tables [OF saved]
  have num: "\<forall>g \<in> set (i_guests iv). numeric_ip (e_ip g)" using nums by (simp add: numeric_ips_def list_all_iff)
  have hs: "?hs = map sort_host_lists (sort_key e_name (i_hosts iv))"
    by (simp add: sortInventoryForFile_def sort_by_name)
  have gs: "?gs = sort_key guest_key (i_guests iv)"
    using sort_guests [OF num] by (simp add: sortInventoryForFile_def)
  have xs: "external_sites ?data = ?xs" by (simp add: sortInventoryForFile_def external_sites_def)
  have dist: "distinct (map e_name ?hs)" "distinct (map e_name ?gs)" "distinct (map x_name ?xs)"
    using t xs by (auto simp: db_keys_def host_columns_def guest_columns_def site_columns_def comp_def)
  note reads = subdomains_back [OF dist(1,2), unfolded xs, OF dist(3)]
  have hosts_sorted: "sorted (map e_name ?hs)" unfolding hs by (simp add: comp_def)
  have hosts: "map (load_host ?subs) (sort_key r_name (map host_columns ?hs)) = map (\<lambda>h. Some (norm_host h)) ?hs"
  proof -
    have "sort_key r_name (map host_columns ?hs) = map host_columns ?hs"
      using hosts_sorted by (intro sort_key_id_if_sorted) (simp add: host_columns_def comp_def)
    then show ?thesis using reads(1) by (simp only:) (intro map_load load_host_back)
  qed
  let ?gs' = "sort_key (\<lambda>g. (g_host g, e_name g)) ?gs"
  have guests: "map (load_guest ?subs) (sort_key (\<lambda>r. (gr_host r, r_name r)) (map guest_columns ?gs)) =
      map (\<lambda>g. Some (norm_guest g)) ?gs'"
  proof -
    have "sort_key (\<lambda>r. (gr_host r, r_name r)) (map guest_columns ?gs) = map guest_columns ?gs'"
      by (simp add: sort_key_map guest_columns_def)
    moreover have "load_guest ?subs (guest_columns g) = Some (norm_guest g)" if "g \<in> set ?gs'" for g
    proof (rule load_guest_back)
      have g: "g \<in> set ?gs" using that by simp
      then show "subdomainsFor ?subs ''guest'' (e_name g) = none_if_empty (or_empty (e_subdomains g))"
        by (rule reads(2))
      show "opt_all GuestCreatorSchema (g_creator g)"
        using g schema by (auto simp: gs InventorySchema_def list_all_iff GuestEntrySchema_def)
    qed
    ultimately show ?thesis by (simp only:) (rule map_load)
  qed
  let ?xs' = "sort_key x_name ?xs"
  have sites: "map (load_site ?subs) (sort_key r_name (map site_columns ?xs)) = map Some ?xs'"
  proof -
    have "sort_key r_name (map site_columns ?xs) = map site_columns ?xs'"
      by (simp add: sort_key_map site_columns_def)
    moreover have "load_site ?subs (site_columns x) = Some x" if "x \<in> set ?xs'" for x
      using reads(3) [of x] that by (intro load_site_back) simp
    ultimately show ?thesis by (simp only:) (rule map_load)
  qed
  have sort_hosts: "map sort_host_lists (js_sort (compareByName e_name) (map norm_host ?hs)) = map norm_host ?hs"
  proof -
    have "js_sort (compareByName e_name) (map norm_host ?hs) = map norm_host ?hs"
      unfolding sort_by_name using hosts_sorted by (intro sort_key_id_if_sorted) (simp add: comp_def)
    then show ?thesis by (simp add: hs sort_lists_norm)
  qed
  have sort_guests: "js_sort compareGuests (map norm_guest ?gs') = map norm_guest ?gs"
  proof -
    have keys: "distinct (map guest_key ?gs)"
      using dist(2) unfolding distinct_map by (auto simp: inj_on_def guest_key_def)
    have "js_sort compareGuests (map norm_guest ?gs') = sort_key guest_key (map norm_guest ?gs')"
      using num by (intro sort_guests) (simp add: gs)
    also have "\<dots> = map norm_guest (sort_key guest_key ?gs')"
      by (subst sort_key_map) (simp only: norm_fields(18))
    also have "sort_key guest_key ?gs' = sort_key guest_key ?gs"
    proof (rule sort_key_perm)
      show "distinct (map guest_key ?gs')" using keys by (simp add: distinct_map)
    qed (simp_all add: keys)
    also have "sort_key guest_key ?gs = ?gs" by (simp add: gs)
    finally show ?thesis .
  qed
  have "assemble db' = Some (sortInventoryForFile
      \<lparr>i_domain = i_domain ?data,
       i_settings = (\<lambda>key. if key \<in> set SETTINGS_KEYS then i_settings ?data key else None),
       i_hosts = map norm_host ?hs, i_guests = map norm_guest ?gs', i_externalSites = none_if_empty ?xs'\<rparr>)"
    by (rule assemble_Some) (simp_all only: t hosts guests sites xs meta_back)
  also have "\<dots> = Some (stored_form iv)"
    using sort_hosts sort_guests
    by (simp add: sortInventoryForFile_def [of "\<lparr>i_domain = _, i_settings = _, i_hosts = _, i_guests = _, i_externalSites = _\<rparr>"])
      (rule inventory.equality; simp add: stored_form_def Let_def sortInventoryForFile_def cong: if_cong)
  finally show ?thesis .
qed

section \<open>The stored form is accepted again\<close>

lemma length_filter_mset: "mset xs = mset ys \<Longrightarrow> length (filter P xs) = length (filter P ys)"
  by (metis mset_filter size_mset)

lemma mset_map_filter: "mset xs = mset ys \<Longrightarrow> mset (List.map_filter f xs) = mset (List.map_filter f ys)"
  by (simp add: List.map_filter_def)

lemma mset_concat_map: "mset xs = mset ys \<Longrightarrow> mset (concat (map f xs)) = mset (concat (map f ys))"
proof -
  have sums: "mset (concat (map f zs)) = (\<Sum>z \<in># mset zs. mset (f z))" for zs
    by (induction zs) auto
  show "mset xs = mset ys \<Longrightarrow> mset (concat (map f xs)) = mset (concat (map f ys))"
    by (simp only: sums)
qed

lemma stored_lists:
  "i_domain (stored_form iv) = i_domain iv"
  "i_hosts (stored_form iv) = map (\<lambda>h. norm_host (sort_host_lists h)) (sort_key e_name (i_hosts iv))"
  "i_guests (stored_form iv) = map norm_guest (js_sort compareGuests (i_guests iv))"
  "external_sites (stored_form iv) = sort_key x_name (external_sites iv)"
  by (simp_all add: stored_form_def Let_def sortInventoryForFile_def sort_by_name comp_def external_sites_def)

lemma candidate_schema_norm [simp]:
  "candidate_schema u (norm_host (sort_host_lists h)) = candidate_schema u h"
  "candidate_schema u (norm_guest g) = candidate_schema u g"
  by (simp_all add: candidate_schema_def norm_host_def sort_host_lists_def norm_guest_def)

lemma schema_norm:
  "HostEntrySchema u h \<Longrightarrow> HostEntrySchema u (norm_host (sort_host_lists h))"
  "GuestEntrySchema u g \<Longrightarrow> GuestEntrySchema u (norm_guest g)"
proof -
  have opt: "opt_all p (map_option f x) = opt_all (\<lambda>v. p (f v)) x" for p f and x :: "'x option"
    by (cases x) (simp_all add: opt_all_def)
  have mono: "opt_all p x \<Longrightarrow> (\<And>v. p v \<Longrightarrow> q v) \<Longrightarrow> opt_all q x" for p q and x :: "'x option"
    by (cases x) (simp_all add: opt_all_def)
  show "HostEntrySchema u h \<Longrightarrow> HostEntrySchema u (norm_host (sort_host_lists h))"
    by (auto simp: HostEntrySchema_def candidate_schema_norm [simplified])
      (auto simp: norm_host_def sort_host_lists_def opt list_all_iff StorageEntrySchema_def elim!: mono)
  show "GuestEntrySchema u g \<Longrightarrow> GuestEntrySchema u (norm_guest g)"
    by (auto simp: GuestEntrySchema_def) (auto simp: norm_guest_def)
qed

lemma stored_schema:
  assumes "InventorySchema u iv"
  shows "InventorySchema u (stored_form iv)"
proof -
  have "settings_ok u (i_settings (stored_form iv))"
    unfolding settings_ok_def list_all_iff
  proof (clarify)
    fix key p
    assume kp: "(key, p) \<in> set (SettingsSchema u)"
    then have "key \<in> set (map fst (SettingsSchema u))" by force
    then have "key \<in> set SETTINGS_KEYS" by (simp only: keys_of_schema)
    then have "i_settings (stored_form iv) key = i_settings iv key"
      by (simp add: stored_form_def Let_def)
    then show "case i_settings (stored_form iv) key of None \<Rightarrow> True | Some v \<Rightarrow> p v"
      using kp assms unfolding InventorySchema_def settings_ok_def list_all_iff by force
  qed
  then show ?thesis using assms
    by (auto simp: InventorySchema_def stored_lists list_all_iff intro: schema_norm)
qed

lemma stored_entries:
  assumes "\<And>h. P (host_candidate (norm_host (sort_host_lists h))) = P (host_candidate h)"
    and "\<And>g. P (guest_candidate (norm_guest g)) = P (guest_candidate g)"
  shows "(\<forall>e \<in> set (all_entries (stored_form iv)). P e) \<longleftrightarrow> (\<forall>e \<in> set (all_entries iv). P e)"
  by (simp add: all_entries_def stored_lists ball_Un assms)

lemma map_filter_norm:
  "List.map_filter (\<lambda>h. case h_midScheme h of None \<Rightarrow> None | Some m \<Rightarrow> Some (m, e_name h))
     (map (\<lambda>h. norm_host (sort_host_lists h)) hs) =
   List.map_filter (\<lambda>h. case h_midScheme h of None \<Rightarrow> None | Some m \<Rightarrow> Some (m, e_name h)) hs"
  by (induction hs) (auto simp: map_filter_simps split: option.splits)

lemma stored_valid: "inventory_valid (stored_form iv) = inventory_valid iv"
proof -
  let ?s = "stored_form iv"
  have host_count: "length (filter (\<lambda>h. P (norm_host (sort_host_lists h))) (sort_key e_name (i_hosts iv))) =
      length (filter (\<lambda>h. P (norm_host (sort_host_lists h))) (i_hosts iv))" for P
    by (rule length_filter_mset) simp
  have guest_count: "length (filter (\<lambda>g. P (norm_guest g)) (js_sort compareGuests (i_guests iv))) =
      length (filter (\<lambda>g. P (norm_guest g)) (i_guests iv))" for P
    by (rule length_filter_mset) simp
  note counts = host_count [of "\<lambda>h. flagged (e_proxy h)"] host_count [of "\<lambda>h. flagged (e_authentik h)"]
    guest_count [of "\<lambda>g. flagged (e_proxy g)"] guest_count [of "\<lambda>g. flagged (e_authentik g)"]
    guest_count [of "\<lambda>g. flagged (g_bellhop g)"]
  have names: "length (proxyNames ?s) = length (proxyNames iv)" "length (authentikNames ?s) = length (authentikNames iv)"
      "length (bellhopNames ?s) = length (bellhopNames iv)"
    using counts by (simp_all add: proxyNames_def authentikNames_def bellhopNames_def stored_lists filter_map comp_def)
  have hasIp: "authentikHasIp ?s = authentikHasIp iv"
    by (simp add: authentikHasIp_def stored_lists list_ex_iff)
  have gated: "(\<exists>e \<in> set (all_entries ?s). effectiveAuth e = Some Forward) \<longleftrightarrow>
               (\<exists>e \<in> set (all_entries iv). effectiveAuth e = Some Forward)"
    using stored_entries [of "\<lambda>e. effectiveAuth e \<noteq> Some Forward" iv] by auto
  have lacks: "(\<forall>e \<in> set (all_entries ?s). \<not> lacks_ip e) \<longleftrightarrow> (\<forall>e \<in> set (all_entries iv). \<not> lacks_ip e)"
    by (rule stored_entries) (simp_all add: lacks_ip_def)
  have hosts: "(\<forall>g \<in> set (i_guests ?s). g_host g \<in> e_name ` set (i_hosts ?s)) \<longleftrightarrow>
               (\<forall>g \<in> set (i_guests iv). g_host g \<in> e_name ` set (i_hosts iv))"
    by (simp add: stored_lists image_image)
  have "mset (mid_schemes ?s) = mset (mid_schemes iv)"
    unfolding mid_schemes_def stored_lists map_filter_norm by (rule mset_map_filter) simp
  then have schemes: "distinct (map f (mid_schemes ?s)) = distinct (map f (mid_schemes iv))" for f :: "mid_scheme \<times> string \<Rightarrow> 'x"
    by (intro mset_eq_imp_distinct_iff) simp
  let ?low = "\<lambda>e :: proxy_candidate. map toLowerCase (or_empty (e_subdomains e))"
  have claimed: "map fst (claimed_subdomains jv) = concat (map ?low (all_entries jv))" for jv
    by (simp add: claimed_subdomains_def map_concat comp_def)
  have "mset (concat (map ?low (all_entries ?s))) = mset (concat (map ?low (all_entries iv)))"
  proof -
    let ?perm = "map host_candidate (sort_key e_name (i_hosts iv)) @
        map guest_candidate (js_sort compareGuests (i_guests iv)) @
        map site_candidate (sort_key x_name (external_sites iv))"
    have "concat (map ?low (all_entries ?s)) = concat (map ?low ?perm)"
      by (simp add: all_entries_def stored_lists comp_def)
    moreover have "mset (concat (map ?low ?perm)) = mset (concat (map ?low (all_entries iv)))"
      by (rule mset_concat_map) (simp add: all_entries_def)
    ultimately show ?thesis by (rule ssubst)
  qed
  then have subs: "distinct (map fst (claimed_subdomains ?s)) = distinct (map fst (claimed_subdomains iv))"
    unfolding claimed by (rule mset_eq_imp_distinct_iff)
  show ?thesis
    unfolding inventory_valid_def names hasIp gated lacks hosts schemes subs by (rule refl)
qed

section \<open>The round trip\<close>

lemma save_then_load:
  assumes "saveInventory iv db = Inr db'" and "InventorySchema u iv" and "numeric_ips iv"
  shows "loadInventory u db' = Inr (stored_form iv)"
proof -
  have "inventory_valid (stored_form iv)"
    using saveInventory_tables [OF assms(1)] by (simp add: stored_valid)
  then show ?thesis
    using assemble_saved [OF assms] stored_schema [OF assms(2)]
    by (simp add: loadInventory_def validateInventory_Nil)
qed


definition sample_inventory :: inventory where
  "sample_inventory =
     \<lparr>i_domain = ''lab.example'', i_settings = (\<lambda>_. None),
      i_hosts =
        [\<lparr>e_name = ''pve1'', e_ip = Some ''10.0.0.2'', e_port = None, e_subdomains = None, e_insecureBackendTls = None,
          e_proxyManual = Some False, e_authGroup = None, e_authMode = None, e_oidcRedirectUris = None,
          e_oidcMobileRedirectUris = None, e_unauthenticatedPaths = None, e_proxy = None, e_authentik = None,
          h_ssh_target = ''10.0.0.2'', h_ssh_user = ''root'', h_ssh_port = Some 22, h_ssh_identity_file = None,
          h_midScheme = None, h_bridges = None, h_storages = None, h_nfsMounts = None\<rparr>],
      i_guests =
        [\<lparr>e_name = ''wiki'', e_ip = Some ''1.1.1.7'', e_port = Some 8080, e_subdomains = Some [''wiki''],
          e_insecureBackendTls = Some False, e_proxyManual = None, e_authGroup = Some ''family'', e_authMode = None,
          e_oidcRedirectUris = None, e_oidcMobileRedirectUris = None,
          e_unauthenticatedPaths = Some [''/api/*'', ''/health''], e_proxy = None, e_authentik = None, g_type = Lxc,
          g_vmid = 120, g_host = ''pve1'', g_bellhop = None, g_unprivileged = None, g_app = Some ''wiki'',
          g_appSourceCustom = False, g_vpnGateway = None, g_vpn = None, g_creator = None\<rparr>,
         \<lparr>e_name = ''auth'', e_ip = Some ''1.1.1.9'', e_port = None, e_subdomains = Some [''auth'', ''login''],
          e_insecureBackendTls = None, e_proxyManual = None, e_authGroup = None, e_authMode = None,
          e_oidcRedirectUris = None, e_oidcMobileRedirectUris = None, e_unauthenticatedPaths = None,
          e_proxy = Some True, e_authentik = Some True, g_type = Vm, g_vmid = 109, g_host = ''pve1'',
          g_bellhop = None, g_unprivileged = Some True, g_app = None, g_appSourceCustom = False,
          g_vpnGateway = None, g_vpn = None, g_creator = None\<rparr>],
      i_externalSites = None\<rparr>"

definition empty_inventory_db :: inventory_db where
  "empty_inventory_db =
     \<lparr>b_meta = [], b_secrets = [(''githubApiToken'', ''t'')], b_hosts = [], b_guests = [], b_sites = [],
      b_subdomains = [], b_proxyOwner = None\<rparr>"

lemma sample_saves: "\<exists>db'. saveInventory sample_inventory empty_inventory_db = Inr db'"
proof -
  have "isl (saveInventory sample_inventory empty_inventory_db) = False" by code_simp
  then show ?thesis by (cases "saveInventory sample_inventory empty_inventory_db") auto
qed

lemma sample_accepted: "InventorySchema (\<lambda>_. None) sample_inventory" "numeric_ips sample_inventory"
  by code_simp+

lemma sample_loads: "\<exists>db. loadInventory (\<lambda>_. None) db = Inr (stored_form sample_inventory)"
  using sample_saves sample_accepted save_then_load by blast


end
