(* ===== verification/Proxy_Routes.thy ===== *)
theory Proxy_Routes
  imports Inventory_Theorems
begin

text \<open>
  From the inventory to the routes a proxy serves: \<open>src/src/lib/proxy/routes.ts\<close>, the drivers'
  capabilities and their check (\<open>src/src/lib/proxy/driver.ts\<close>, \<open>index.ts\<close>, \<open>drivers/*.ts\<close>), the
  certificate source (\<open>tls.ts\<close>) and the decisions of \<open>src/src/commands/networking/sync-proxy.ts\<close> before a
  driver writes anything.  The outpost port of the Authentik configuration is an argument.
\<close>

section \<open>Routes\<close>

datatype path_pattern = ExactPath string | PrefixPath string

datatype owner_type = OwnHost | OwnGuest | OwnSite

datatype proxy_auth =
    Ungated
  | OidcGate
  | ForwardGate (exempt_paths: "path_pattern list") (raw_exempt_paths: "string list")

record proxy_backend =
  bk_ip :: "string option"
  bk_port :: int
  bk_insecureTls :: bool

record proxy_route =
  rt_owner :: "owner_type \<times> string"
  rt_hostnames :: "string list"
  rt_backend :: proxy_backend
  rt_auth :: proxy_auth

record proxy_context =
  px_outpost :: "(string \<times> int) option"
  px_externalPort :: int
  px_certificatePath :: string
  px_keyPath :: string
  px_certResolver :: string
  px_tlsSource :: string
  px_acmeDnsProvider :: string

datatype route_error = MissingAuthentik string | BadExemptPath string string

definition publicHostname :: "string \<Rightarrow> string \<Rightarrow> string" where
  "publicHostname sub zone = sub @ ''.'' @ zone"

definition parsePathPattern :: "string \<Rightarrow> path_pattern option" where
  "parsePathPattern raw =
     (if \<not> isValidUnauthenticatedPath raw then None
      else if indexOfChar raw (CHR ''*'') = None then Some (ExactPath raw)
      else Some (PrefixPath (butlast raw)))"

text \<open>The first flagged entry's address; \<open>None\<close> also when no entry is flagged.\<close>

definition authentikIp :: "inventory \<Rightarrow> string option" where
  "authentikIp iv =
     (case map e_ip (filter (\<lambda>h. flagged (e_authentik h)) (i_hosts iv)) @
           map e_ip (filter (\<lambda>g. flagged (e_authentik g)) (i_guests iv)) of
        [] \<Rightarrow> None | ip # _ \<Rightarrow> ip)"

definition candidates :: "inventory \<Rightarrow> (owner_type \<times> proxy_candidate) list" where
  "candidates iv =
     map (\<lambda>h. (OwnHost, host_candidate h)) (i_hosts iv) @
     map (\<lambda>g. (OwnGuest, guest_candidate g)) (i_guests iv) @
     map (\<lambda>x. (OwnSite, site_candidate x)) (external_sites iv)"

definition hasRoute :: "proxy_candidate \<Rightarrow> bool" where
  "hasRoute e \<longleftrightarrow> \<not> flagged (e_proxyManual e) \<and> length (or_empty (e_subdomains e)) > 0"

fun parse_exempt :: "string \<Rightarrow> string list \<Rightarrow> route_error + path_pattern list" where
  "parse_exempt nm [] = Inr []"
| "parse_exempt nm (raw # raws) =
     (case parsePathPattern raw of
        None \<Rightarrow> Inl (BadExemptPath nm raw)
      | Some p \<Rightarrow> map_sum id ((#) p) (parse_exempt nm raws))"

definition derive_auth :: "proxy_candidate \<Rightarrow> route_error + proxy_auth" where
  "derive_auth e =
     (case effectiveAuth e of
        Some Forward \<Rightarrow>
          map_sum id (\<lambda>ps. ForwardGate ps (or_empty (e_unauthenticatedPaths e)))
            (parse_exempt (e_name e) (or_empty (e_unauthenticatedPaths e)))
      | Some Oidc \<Rightarrow> Inr OidcGate
      | None \<Rightarrow> Inr Ungated)"

definition deriveRoute :: "owner_type \<Rightarrow> proxy_candidate \<Rightarrow> string \<Rightarrow> route_error + proxy_route" where
  "deriveRoute ty e zone =
     map_sum id (\<lambda>auth.
       \<lparr>rt_owner = (ty, e_name e),
        rt_hostnames = map (\<lambda>s. publicHostname s zone) (or_empty (e_subdomains e)),
        rt_backend = \<lparr>bk_ip = e_ip e, bk_port = (case e_port e of None \<Rightarrow> 80 | Some p \<Rightarrow> p),
                      bk_insecureTls = (e_insecureBackendTls e = Some True)\<rparr>,
        rt_auth = auth\<rparr>) (derive_auth e)"

fun build_loop :: "inventory \<Rightarrow> bool \<Rightarrow> (owner_type \<times> proxy_candidate) list \<Rightarrow> route_error + proxy_route list" where
  "build_loop iv requireOutpost [] = Inr []"
| "build_loop iv requireOutpost ((ty, e) # rest) =
     (if \<not> hasRoute e then build_loop iv requireOutpost rest
      else if requireOutpost \<and> effectiveAuth e = Some Forward \<and> \<not> has_text (authentikIp iv)
      then Inl (MissingAuthentik (e_name e))
      else case deriveRoute ty e (i_domain iv) of
             Inl err \<Rightarrow> Inl err
           | Inr route \<Rightarrow> map_sum id ((#) route) (build_loop iv requireOutpost rest))"

definition buildRoutes :: "inventory \<Rightarrow> bool \<Rightarrow> route_error + proxy_route list" where
  "buildRoutes iv requireOutpost = build_loop iv requireOutpost (candidates iv)"

definition buildRouteForEntry :: "inventory \<Rightarrow> owner_type \<times> string \<Rightarrow> route_error + proxy_route option" where
  "buildRouteForEntry iv own =
     (case find (\<lambda>(ty, e). (ty, e_name e) = own) (candidates iv) of
        None \<Rightarrow> Inr None
      | Some (ty, e) \<Rightarrow>
          if \<not> hasRoute e then Inr None else map_sum id Some (deriveRoute ty e (i_domain iv)))"

section \<open>Drivers\<close>

record proxy_driver =
  dr_id :: string
  dr_authModes :: "gate_mode list"
  dr_tlsSources :: "string list"
  dr_defaultTlsSource :: string
  dr_defaultConfigPath :: "string option"

definition caddyDriver :: proxy_driver where
  "caddyDriver = \<lparr>dr_id = ''caddy'', dr_authModes = [Forward, Oidc],
     dr_tlsSources = [''acme-dns'', ''acme-http'', ''internal'', ''files''], dr_defaultTlsSource = ''acme-dns'',
     dr_defaultConfigPath = Some ''/etc/caddy/Caddyfile''\<rparr>"

definition caddyApiDriver :: proxy_driver where
  "caddyApiDriver = \<lparr>dr_id = ''caddy-api'', dr_authModes = [Forward, Oidc],
     dr_tlsSources = [''acme-dns'', ''acme-http'', ''internal'', ''files''], dr_defaultTlsSource = ''acme-dns'',
     dr_defaultConfigPath = None\<rparr>"

definition nginxDriver :: proxy_driver where
  "nginxDriver = \<lparr>dr_id = ''nginx'', dr_authModes = [Forward, Oidc], dr_tlsSources = [''files''],
     dr_defaultTlsSource = ''files'', dr_defaultConfigPath = Some ''/etc/nginx/conf.d/bellhop.conf''\<rparr>"

definition nginxProxyManagerDriver :: proxy_driver where
  "nginxProxyManagerDriver = \<lparr>dr_id = ''nginx-proxy-manager'', dr_authModes = [Forward, Oidc],
     dr_tlsSources = [''acme-http''], dr_defaultTlsSource = ''acme-http'', dr_defaultConfigPath = None\<rparr>"

definition haproxyDriver :: proxy_driver where
  "haproxyDriver = \<lparr>dr_id = ''haproxy'', dr_authModes = [Oidc], dr_tlsSources = [''external''],
     dr_defaultTlsSource = ''external'', dr_defaultConfigPath = Some ''/etc/haproxy/bellhop.cfg''\<rparr>"

definition traefikDriver :: proxy_driver where
  "traefikDriver = \<lparr>dr_id = ''traefik'', dr_authModes = [Forward, Oidc],
     dr_tlsSources = [''acme-dns'', ''acme-http'', ''files'', ''external''], dr_defaultTlsSource = ''acme-dns'',
     dr_defaultConfigPath = Some ''/etc/traefik/dynamic/bellhop.yml''\<rparr>"

definition noneDriver :: proxy_driver where
  "noneDriver = \<lparr>dr_id = ''none'', dr_authModes = [Forward, Oidc],
     dr_tlsSources = [''acme-dns'', ''acme-http'', ''internal'', ''files'', ''external''],
     dr_defaultTlsSource = ''external'', dr_defaultConfigPath = None\<rparr>"

definition listDrivers :: "proxy_driver list" where
  "listDrivers = [caddyDriver, caddyApiDriver, nginxDriver, nginxProxyManagerDriver, haproxyDriver,
     traefikDriver, noneDriver]"

definition DEFAULT_PROXY_DRIVER_ID :: string where
  "DEFAULT_PROXY_DRIVER_ID = ''caddy''"

definition DEFAULT_ACME_DNS_PROVIDER :: string where
  "DEFAULT_ACME_DNS_PROVIDER = ''cloudflare''"

definition DEFAULT_CERT_RESOLVER :: string where
  "DEFAULT_CERT_RESOLVER = ''cloudflare''"

definition or_default :: "'a option \<Rightarrow> 'a \<Rightarrow> 'a" where
  "or_default x d = (case x of None \<Rightarrow> d | Some v \<Rightarrow> v)"

text \<open>\<open>None\<close> is the error for an id no driver has.\<close>

definition getDriver :: "inventory \<Rightarrow> proxy_driver option" where
  "getDriver iv =
     find (\<lambda>d. dr_id d = or_default (i_settings iv ''proxyDriver'') DEFAULT_PROXY_DRIVER_ID) listDrivers"

definition managesProxy :: "proxy_driver \<Rightarrow> bool" where
  "managesProxy d \<longleftrightarrow> dr_id d \<noteq> ''none''"

datatype capability_fix = SwitchMode gate_mode | ClearOrChooseDriver

definition route_mode :: "proxy_route \<Rightarrow> gate_mode option" where
  "route_mode r = (case rt_auth r of Ungated \<Rightarrow> None | OidcGate \<Rightarrow> Some Oidc | ForwardGate _ _ \<Rightarrow> Some Forward)"

definition other_mode :: "gate_mode \<Rightarrow> gate_mode" where
  "other_mode m = (case m of Forward \<Rightarrow> Oidc | Oidc \<Rightarrow> Forward)"

text \<open>One error per route whose mode the driver cannot enforce, with the fix its message names.\<close>

definition checkCapabilities :: "proxy_route list \<Rightarrow> proxy_driver \<Rightarrow> ((owner_type \<times> string) \<times> gate_mode \<times> capability_fix) list" where
  "checkCapabilities routes d =
     List.map_filter (\<lambda>r. case route_mode r of
         None \<Rightarrow> None
       | Some m \<Rightarrow>
           if m \<in> set (dr_authModes d) then None
           else Some (rt_owner r, m,
                  if other_mode m \<in> set (dr_authModes d) then SwitchMode (other_mode m) else ClearOrChooseDriver))
       routes"

definition effectiveTlsSource :: "inventory \<Rightarrow> proxy_driver \<Rightarrow> string" where
  "effectiveTlsSource iv d = or_default (i_settings iv ''tlsSource'') (dr_defaultTlsSource d)"

definition acmeDnsProvider :: "inventory \<Rightarrow> string" where
  "acmeDnsProvider iv = or_default (i_settings iv ''acmeDnsProvider'') DEFAULT_ACME_DNS_PROVIDER"

text \<open>Whether \<open>checkTlsSource\<close> returns a message.\<close>

definition checkTlsSource :: "inventory \<Rightarrow> proxy_driver \<Rightarrow> bool" where
  "checkTlsSource iv d \<longleftrightarrow> effectiveTlsSource iv d \<notin> set (dr_tlsSources d)"

definition usesCloudflareDns01 :: "inventory \<Rightarrow> proxy_driver \<Rightarrow> bool" where
  "usesCloudflareDns01 iv d \<longleftrightarrow>
     managesProxy d \<and> \<not> checkTlsSource iv d \<and> effectiveTlsSource iv d = ''acme-dns'' \<and>
     acmeDnsProvider iv = ''cloudflare''"

definition certResolverName :: "inventory \<Rightarrow> string" where
  "certResolverName iv = or_default (i_settings iv ''proxyCertResolver'') DEFAULT_CERT_RESOLVER"

definition buildProxyContext :: "inventory \<Rightarrow> proxy_driver \<Rightarrow> int \<Rightarrow> proxy_context" where
  "buildProxyContext iv d outpostPort =
     \<lparr>px_outpost = (if has_text (authentikIp iv) then Some (the (authentikIp iv), outpostPort) else None),
      px_externalPort = 443,
      px_certificatePath = or_default (i_settings iv ''proxyTlsCertificate'')
        (''/etc/letsencrypt/live/'' @ i_domain iv @ ''/fullchain.pem''),
      px_keyPath = or_default (i_settings iv ''proxyTlsKey'')
        (''/etc/letsencrypt/live/'' @ i_domain iv @ ''/privkey.pem''),
      px_certResolver = certResolverName iv,
      px_tlsSource = effectiveTlsSource iv d,
      px_acmeDnsProvider = acmeDnsProvider iv\<rparr>"

section \<open>sync-proxy\<close>

datatype sync_refusal =
    UnknownDriver
  | TlsUnsupported
  | NoProxyEntry
  | RouteRefused route_error
  | CapabilityRefused "((owner_type \<times> string) \<times> gate_mode \<times> capability_fix) list"

text \<open>Everything \<open>runSyncProxy\<close> decides before the driver plans: \<open>None\<close> when Bellhop manages no proxy.\<close>

definition planSync :: "inventory \<Rightarrow> int \<Rightarrow> sync_refusal + (proxy_driver \<times> proxy_route list \<times> proxy_context) option" where
  "planSync iv outpostPort =
     (case getDriver iv of
        None \<Rightarrow> Inl UnknownDriver
      | Some d \<Rightarrow>
          if \<not> managesProxy d then Inr None
          else if checkTlsSource iv d then Inl TlsUnsupported
          else if \<not> has_text (findProxyEntry iv) then Inl NoProxyEntry
          else case buildRoutes iv (Forward \<in> set (dr_authModes d)) of
                 Inl err \<Rightarrow> Inl (RouteRefused err)
               | Inr routes \<Rightarrow>
                   if checkCapabilities routes d \<noteq> [] then Inl (CapabilityRefused (checkCapabilities routes d))
                   else Inr (Some (d, routes, buildProxyContext iv d outpostPort)))"

section \<open>Routes of a valid inventory\<close>

lemma snd_candidates: "map snd (candidates iv) = all_entries iv"
  by (simp add: candidates_def all_entries_def comp_def)

lemma parse_exempt_ok:
  "(\<forall>raw \<in> set raws. isValidUnauthenticatedPath raw) \<Longrightarrow>
   parse_exempt nm raws = Inr (map (\<lambda>raw. the (parsePathPattern raw)) raws)"
  by (induction raws) (auto simp: parsePathPattern_def)

definition schema_paths :: "proxy_candidate \<Rightarrow> bool" where
  "schema_paths e \<longleftrightarrow> (\<forall>raw \<in> set (or_empty (e_unauthenticatedPaths e)). isValidUnauthenticatedPath raw)"

lemma entries_schema:
  assumes "InventorySchema u iv" and "e \<in> set (all_entries iv)"
  shows "schema_paths e"
proof -
  have opt: "opt_all (list_all isValidUnauthenticatedPath) ps \<Longrightarrow> raw \<in> set (or_empty ps) \<Longrightarrow> isValidUnauthenticatedPath raw"
    for ps raw by (cases ps) (auto simp: opt_all_def list_all_iff)
  show ?thesis using assms
    by (auto simp: InventorySchema_def all_entries_def list_all_iff HostEntrySchema_def GuestEntrySchema_def
        ExternalSiteSchema_def candidate_schema_def schema_paths_def intro: opt)
qed

text \<open>The route of one entry, when its exempt paths are valid.\<close>

definition route_of :: "string \<Rightarrow> owner_type \<Rightarrow> proxy_candidate \<Rightarrow> proxy_route" where
  "route_of zone ty e =
     \<lparr>rt_owner = (ty, e_name e), rt_hostnames = map (\<lambda>s. publicHostname s zone) (or_empty (e_subdomains e)),
      rt_backend = \<lparr>bk_ip = e_ip e, bk_port = or_default (e_port e) 80,
                    bk_insecureTls = (e_insecureBackendTls e = Some True)\<rparr>,
      rt_auth = (case effectiveAuth e of
                   Some Forward \<Rightarrow>
                     ForwardGate (map (\<lambda>raw. the (parsePathPattern raw)) (or_empty (e_unauthenticatedPaths e)))
                       (or_empty (e_unauthenticatedPaths e))
                 | Some Oidc \<Rightarrow> OidcGate
                 | None \<Rightarrow> Ungated)\<rparr>"

lemma deriveRoute_ok: "schema_paths e \<Longrightarrow> deriveRoute ty e zone = Inr (route_of zone ty e)"
  by (auto simp: deriveRoute_def derive_auth_def schema_paths_def parse_exempt_ok route_of_def or_default_def
      split: option.splits gate_mode.splits)

lemma build_loop_ok:
  assumes "\<forall>e \<in> snd ` set cs. schema_paths e"
    and "requireOutpost \<longrightarrow> (\<exists>e \<in> snd ` set cs. effectiveAuth e = Some Forward) \<longrightarrow> has_text (authentikIp iv)"
  shows "build_loop iv requireOutpost cs =
    Inr (map (\<lambda>(ty, e). route_of (i_domain iv) ty e) (filter (\<lambda>(ty, e). hasRoute e) cs))"
  using assms by (induction cs) (auto simp: deriveRoute_ok)

lemma authentikIp_valid:
  assumes "inventory_valid iv" and "authentikHasIp iv"
  shows "has_text (authentikIp iv)"
proof -
  let ?hs = "filter (\<lambda>h. flagged (e_authentik h)) (i_hosts iv)"
  let ?gs = "filter (\<lambda>g. flagged (e_authentik g)) (i_guests iv)"
  have "length ?hs + length ?gs \<le> 1" using assms(1) by (simp add: inventory_valid_def authentikNames_def)
  then consider "?hs = []" "length ?gs \<le> 1" | h where "?hs = [h]" "?gs = []"
    by (cases ?hs) (auto simp: Suc_le_eq)
  then show ?thesis
  proof cases
    case 1
    from assms(2) obtain g where "g \<in> set ?gs" "has_text (e_ip g)"
      using 1 by (auto simp: authentikHasIp_def list_ex_iff filter_empty_conv)
    with 1 have "?gs = [g]" by (cases ?gs) auto
    with 1 \<open>has_text (e_ip g)\<close> show ?thesis by (simp add: authentikIp_def)
  next
    case 2
    have "set ?hs = {h}" "set ?gs = {}" using 2 by simp_all
    moreover from assms(2) have "(\<exists>x \<in> set ?hs. has_text (e_ip x)) \<or> (\<exists>x \<in> set ?gs. has_text (e_ip x))"
      by (auto simp: authentikHasIp_def list_ex_iff)
    ultimately have "has_text (e_ip h)" by auto
    with 2 show ?thesis by (simp add: authentikIp_def)
  qed
qed

lemma buildRoutes_valid:
  assumes "inventory_valid iv" and "InventorySchema u iv"
  shows "buildRoutes iv requireOutpost =
    Inr (map (\<lambda>(ty, e). route_of (i_domain iv) ty e) (filter (\<lambda>(ty, e). hasRoute e) (candidates iv)))"
proof -
  have snds: "snd ` set (candidates iv) = set (all_entries iv)"
    by (metis list.set_map snd_candidates)
  show ?thesis
    unfolding buildRoutes_def
  proof (rule build_loop_ok)
    show "\<forall>e \<in> snd ` set (candidates iv). schema_paths e"
      using entries_schema [OF assms(2)] by (simp add: snds)
    show "requireOutpost \<longrightarrow> (\<exists>e \<in> snd ` set (candidates iv). effectiveAuth e = Some Forward) \<longrightarrow>
        has_text (authentikIp iv)"
      using assms(1) authentikIp_valid by (auto simp: snds inventory_valid_def)
  qed
qed

lemma distinct_concat_filter: "distinct (concat (map f xs)) \<Longrightarrow> distinct (concat (map f (filter P xs)))"
  by (induction xs) auto

lemma loadInventory_valid:
  "loadInventory u db = Inr iv \<Longrightarrow> inventory_valid iv \<and> InventorySchema u iv"
  by (auto simp: loadInventory_def validateInventory_Nil split: option.splits if_splits)

lemma route_hostnames_distinct:
  assumes "inventory_valid iv"
  shows "distinct (map toLowerCase (concat (map rt_hostnames
    (map (\<lambda>(ty, e). route_of z ty e) (filter (\<lambda>(ty, e). hasRoute e) (candidates iv))))))"
proof -
  let ?low = "\<lambda>e :: proxy_candidate. map toLowerCase (or_empty (e_subdomains e))"
  let ?kept = "filter (\<lambda>(ty, e). hasRoute e) (candidates iv)"
  have "map fst (claimed_subdomains iv) = concat (map ?low (all_entries iv))"
    by (simp add: claimed_subdomains_def map_concat comp_def)
  then have "distinct (concat (map ?low (map snd (candidates iv))))"
    using assms by (simp add: inventory_valid_def snd_candidates)
  then have "distinct (concat (map (\<lambda>c. ?low (snd c)) ?kept))"
    by (intro distinct_concat_filter) (simp add: comp_def)
  then have "distinct (map (\<lambda>s. s @ toLowerCase (''.'' @ z)) (concat (map (\<lambda>c. ?low (snd c)) ?kept)))"
    by (simp add: distinct_map inj_on_def)
  moreover have "map toLowerCase (concat (map rt_hostnames (map (\<lambda>(ty, e). route_of z ty e) ?kept))) =
      map (\<lambda>s. s @ toLowerCase (''.'' @ z)) (concat (map (\<lambda>c. ?low (snd c)) ?kept))"
    by (simp add: map_concat comp_def route_of_def publicHostname_def toLowerCase_def split_beta)
  ultimately show ?thesis by simp
qed

section \<open>What the routes of a loaded inventory are\<close>

text \<open>
  C24: An inventory that loads always has routes: one for each entry with a subdomain that is not
  hand-managed, in inventory order, each with a hostname and a backend address; no hostname, in any case,
  belongs to two routes or twice to one; and where a route asks for forward authentication the context
  holds the outpost's address.
\<close>

theorem loaded_inventory_has_routes:
  assumes "loadInventory u db = Inr iv"
  shows "\<exists>routes. buildRoutes iv requireOutpost = Inr routes \<and>
    map rt_owner routes = map (\<lambda>(ty, e). (ty, e_name e)) (filter (\<lambda>(ty, e). hasRoute e) (candidates iv)) \<and>
    (\<forall>r \<in> set routes. rt_hostnames r \<noteq> [] \<and> has_text (bk_ip (rt_backend r)) \<and>
       (route_mode r = Some Forward \<longrightarrow> px_outpost (buildProxyContext iv d port) \<noteq> None)) \<and>
    distinct (map toLowerCase (concat (map rt_hostnames routes)))"
proof -
  let ?kept = "filter (\<lambda>(ty, e). hasRoute e) (candidates iv)"
  let ?routes = "map (\<lambda>(ty, e). route_of (i_domain iv) ty e) ?kept"
  have valid: "inventory_valid iv" and schema: "InventorySchema u iv"
    using loadInventory_valid [OF assms] by auto
  have "rt_hostnames r \<noteq> [] \<and> has_text (bk_ip (rt_backend r)) \<and>
       (route_mode r = Some Forward \<longrightarrow> px_outpost (buildProxyContext iv d port) \<noteq> None)"
    if "r \<in> set ?routes" for r
  proof -
    from that obtain ty e where c: "(ty, e) \<in> set (candidates iv)" "hasRoute e" and r: "r = route_of (i_domain iv) ty e"
      by auto
    have e: "e \<in> set (all_entries iv)" using c(1) snd_candidates [of iv] by (metis image_eqI list.set_map snd_conv)
    then have "\<not> lacks_ip e" using valid by (simp add: inventory_valid_def)
    then have "or_empty (e_subdomains e) \<noteq> []" "has_text (e_ip e)"
      using c(2) by (auto simp: lacks_ip_def hasRoute_def)
    moreover have "has_text (authentikIp iv)" if "route_mode r = Some Forward"
    proof -
      have "effectiveAuth e = Some Forward"
        using that r by (auto simp: route_mode_def route_of_def split: option.splits gate_mode.splits)
      then have "authentikHasIp iv" using e valid by (auto simp: inventory_valid_def)
      then show ?thesis by (rule authentikIp_valid [OF valid])
    qed
    ultimately show ?thesis using r by (auto simp: route_of_def buildProxyContext_def)
  qed
  moreover have "map rt_owner ?routes = map (\<lambda>(ty, e). (ty, e_name e)) ?kept"
    by (simp add: route_of_def split_beta comp_def)
  ultimately show ?thesis
    using buildRoutes_valid [OF valid schema] route_hostnames_distinct [OF valid, of "i_domain iv"] by blast
qed

theorem loaded_inventory_has_routes_witness:
  "\<exists>db iv routes. loadInventory (\<lambda>_. None) db = Inr iv \<and> buildRoutes iv True = Inr routes \<and>
     distinct (map toLowerCase (concat (map rt_hostnames routes)))"
proof -
  obtain db where "loadInventory (\<lambda>_. None) db = Inr (stored_form sample_inventory)"
    using sample_loads by blast
  then show ?thesis using loaded_inventory_has_routes [of "\<lambda>_. None" db _ True] by blast
qed

end
