(* ===== verification/Nginx_Locations.thy ===== *)
theory Nginx_Locations
  imports Proxy_Routes
begin

text \<open>
  The nginx configuration of the routes: the server body \<open>src/src/lib/proxy/nginx-locations.ts\<close> renders
  for nginx and Nginx Proxy Manager, and nginx's own file (\<open>src/src/lib/proxy/drivers/nginx.ts\<close>), line by
  line as the source emits them.  \<open>location_block\<close> is the reading of those lines the theorems use: a
  location's selector and the lines inside it.
\<close>

section \<open>Exempt patterns\<close>

record server_vars =
  sv_host :: string
  sv_connection :: string

fun pattern_path :: "path_pattern \<Rightarrow> string" where
  "pattern_path (ExactPath p) = p"
| "pattern_path (PrefixPath p) = p"

fun pattern_key :: "path_pattern \<Rightarrow> string" where
  "pattern_key (ExactPath p) = ''exact:'' @ p"
| "pattern_key (PrefixPath p) = ''prefix:'' @ p"

definition isRootPrefix :: "path_pattern \<Rightarrow> bool" where
  "isRootPrefix p \<longleftrightarrow> p = PrefixPath ''/''"

fun dedupe_loop :: "string list \<Rightarrow> path_pattern list \<Rightarrow> path_pattern list" where
  "dedupe_loop seen [] = []"
| "dedupe_loop seen (p # ps) =
     (if pattern_key p \<in> set seen then dedupe_loop seen ps
      else p # dedupe_loop (pattern_key p # seen) ps)"

definition dedupeExemptPatterns :: "path_pattern list \<Rightarrow> path_pattern list" where
  "dedupeExemptPatterns ps = dedupe_loop [] ps"

definition OUTPOST_PATH :: string where
  "OUTPOST_PATH = ''/outpost.goauthentik.io''"

definition isOutpostPrefixed :: "path_pattern \<Rightarrow> bool" where
  "isOutpostPrefixed p \<longleftrightarrow>
     pattern_path p = OUTPOST_PATH \<or> startsWith (pattern_path p) (OUTPOST_PATH @ ''/'')"

definition candidateExemptPatterns :: "proxy_route \<Rightarrow> path_pattern list" where
  "candidateExemptPatterns r =
     (case rt_auth r of
        ForwardGate ps raws \<Rightarrow> filter (\<lambda>p. \<not> isOutpostPrefixed p) (dedupeExemptPatterns ps)
      | _ \<Rightarrow> [])"

section \<open>Lines\<close>

definition quote_char :: "char \<Rightarrow> string" where
  "quote_char c = (if c = CHR 92 \<or> c = CHR 34 then [CHR 92, c] else [c])"

definition quote_nginx :: "string \<Rightarrow> string" where
  "quote_nginx s = CHR 34 # concat (map quote_char s) @ [CHR 34]"

definition ip_text :: "string option \<Rightarrow> string" where
  "ip_text ip = (case ip of None \<Rightarrow> ''undefined'' | Some s \<Rightarrow> s)"

definition usesHttps :: "proxy_backend \<Rightarrow> bool" where
  "usesHttps b \<longleftrightarrow> bk_insecureTls b \<or> bk_port b = 443"

definition proxyLines :: "proxy_backend \<Rightarrow> proxy_context \<Rightarrow> server_vars \<Rightarrow> string list" where
  "proxyLines b ctx vars =
     [''        proxy_pass '' @ (if usesHttps b then ''https'' else ''http'') @ ''://'' @ ip_text (bk_ip b) @ '':'' @
        show_int (bk_port b) @ '';'',
      ''        proxy_http_version 1.1;'',
      ''        proxy_set_header Host '' @ sv_host vars @ '';'',
      ''        proxy_set_header X-Forwarded-For $remote_addr;'',
      ''        proxy_set_header X-Forwarded-Proto $scheme;'',
      ''        proxy_set_header X-Forwarded-Host '' @ sv_host vars @ '';'',
      ''        proxy_set_header X-Forwarded-Port '' @ show_int (px_externalPort ctx) @ '';'',
      ''        proxy_set_header Upgrade $http_upgrade;'',
      ''        proxy_set_header Connection '' @ sv_connection vars @ '';''] @
     (if \<not> usesHttps b then []
      else if bk_insecureTls b then [''        proxy_ssl_verify off;'']
      else [''        proxy_ssl_verify on;'',
            ''        proxy_ssl_trusted_certificate /etc/ssl/certs/ca-certificates.crt;''])"

definition AUTH_REQUEST_LINE :: string where
  "AUTH_REQUEST_LINE = ''        auth_request /outpost.goauthentik.io/auth/nginx;''"

definition FORWARD_AUTH_LINES :: "string list" where
  "FORWARD_AUTH_LINES =
     [AUTH_REQUEST_LINE,
      ''        error_page 401 = @goauthentik_proxy_signin;'',
      ''        auth_request_set $bellhop_auth_cookie $upstream_http_set_cookie;'',
      ''        add_header Set-Cookie $bellhop_auth_cookie;'',
      ''        auth_request_set $bellhop_authentik_username $upstream_http_x_authentik_username;'',
      ''        auth_request_set $bellhop_authentik_groups $upstream_http_x_authentik_groups;'',
      ''        auth_request_set $bellhop_authentik_email $upstream_http_x_authentik_email;'',
      ''        auth_request_set $bellhop_authentik_name $upstream_http_x_authentik_name;'',
      ''        auth_request_set $bellhop_authentik_uid $upstream_http_x_authentik_uid;'',
      ''        proxy_set_header X-authentik-username $bellhop_authentik_username;'',
      ''        proxy_set_header X-authentik-groups $bellhop_authentik_groups;'',
      ''        proxy_set_header X-authentik-email $bellhop_authentik_email;'',
      ''        proxy_set_header X-authentik-name $bellhop_authentik_name;'',
      ''        proxy_set_header X-authentik-uid $bellhop_authentik_uid;'']"

fun exempt_selector :: "path_pattern \<Rightarrow> string" where
  "exempt_selector (ExactPath p) = ''= '' @ quote_nginx p"
| "exempt_selector (PrefixPath p) = ''^~ '' @ quote_nginx p"

definition exemptLocations :: "path_pattern list \<Rightarrow> proxy_backend \<Rightarrow> proxy_context \<Rightarrow> server_vars \<Rightarrow> string list" where
  "exemptLocations patterns b ctx vars =
     concat (map (\<lambda>p. if isRootPrefix p then []
                       else [''''] @ [''    location '' @ exempt_selector p @ '' {''] @ proxyLines b ctx vars @ [''    }''])
       patterns)"

text \<open>The sources read \<open>ctx.outpost!\<close>, which a loaded inventory's forward route always has
  (see the property of \<open>Proxy_Routes\<close>); without it the code throws where this text stands.\<close>

definition outpost_addr :: "proxy_context \<Rightarrow> string" where
  "outpost_addr ctx =
     (case px_outpost ctx of None \<Rightarrow> ''undefined:undefined'' | Some (ip, port) \<Rightarrow> ip @ '':'' @ show_int port)"

definition outpostLocations :: "proxy_context \<Rightarrow> server_vars \<Rightarrow> string list" where
  "outpostLocations ctx vars =
     ['''',
      ''    location /outpost.goauthentik.io {'',
      ''        proxy_pass http://'' @ outpost_addr ctx @ ''/outpost.goauthentik.io;'',
      ''        proxy_set_header Host '' @ sv_host vars @ '';'',
      ''        proxy_set_header X-Original-URL $scheme://'' @ sv_host vars @ ''$request_uri;'',
      ''        add_header Set-Cookie $bellhop_auth_cookie;'',
      ''        auth_request_set $bellhop_auth_cookie $upstream_http_set_cookie;'',
      ''        proxy_pass_request_body off;'',
      ''        proxy_set_header Content-Length \"\";'',
      ''    }'',
      '''',
      ''    location @goauthentik_proxy_signin {'',
      ''        internal;'',
      ''        add_header Set-Cookie $bellhop_auth_cookie;'',
      ''        return 302 /outpost.goauthentik.io/start?rd=$scheme://'' @ sv_host vars @ ''$request_uri;'',
      ''    }'']"

definition SERVER_LINES :: "string list" where
  "SERVER_LINES =
     [''    client_max_body_size 0;'',
      ''    proxy_buffering off;'',
      ''    proxy_request_buffering off;'',
      ''    proxy_read_timeout 1d;'',
      ''    proxy_send_timeout 1d;'']"

definition renderServerBody :: "proxy_route \<Rightarrow> proxy_context \<Rightarrow> server_vars \<Rightarrow> string list" where
  "renderServerBody r ctx vars =
     (if route_mode r \<noteq> Some Forward
      then SERVER_LINES @ ['''', ''    location / {''] @ proxyLines (rt_backend r) ctx vars @ [''    }'']
      else let patterns = candidateExemptPatterns r;
               rootExempted = list_ex isRootPrefix patterns
           in SERVER_LINES @ [''    proxy_buffers 8 16k;'', ''    proxy_buffer_size 32k;'', ''''] @
              [''    location / {''] @ proxyLines (rt_backend r) ctx vars @
              (if rootExempted then [] else FORWARD_AUTH_LINES) @ [''    }''] @
              exemptLocations patterns (rt_backend r) ctx vars @ outpostLocations ctx vars)"

section \<open>nginx's file\<close>

definition NGINX_HEADER :: string where
  "NGINX_HEADER = ''# Generated by Bellhop sync-proxy. Do not edit: this file is replaced on every apply.''"

definition quote_pair :: string where
  "quote_pair = [CHR 39, CHR 39]"

definition MAP_BLOCKS :: "string list" where
  "MAP_BLOCKS =
     [''map $http_upgrade $bellhop_connection_upgrade {'',
      ''    default upgrade;'',
      ''    '' @ quote_pair @ ''      '' @ quote_pair @ '';'',
      ''}'',
      '''',
      ''map $http_host $bellhop_http_host {'',
      ''    default $http_host;'',
      ''    '' @ quote_pair @ ''      $host;'',
      ''}'']"

definition NGINX_VARS :: server_vars where
  "NGINX_VARS = \<lparr>sv_host = ''$bellhop_http_host'', sv_connection = ''$bellhop_connection_upgrade''\<rparr>"

definition renderServerBlock :: "proxy_route \<Rightarrow> proxy_context \<Rightarrow> string list" where
  "renderServerBlock r ctx =
     [''server {'',
      ''    listen 443 ssl;'',
      ''    listen [::]:443 ssl;'',
      ''    server_name '' @ join_with '' '' (rt_hostnames r) @ '';'',
      '''',
      ''    ssl_certificate '' @ quote_nginx (px_certificatePath ctx) @ '';'',
      ''    ssl_certificate_key '' @ quote_nginx (px_keyPath ctx) @ '';'',
      ''''] @ renderServerBody r ctx NGINX_VARS @ [''}'']"

definition render_nginx :: "proxy_route list \<Rightarrow> proxy_context \<Rightarrow> string list" where
  "render_nginx routes ctx =
     [NGINX_HEADER, ''''] @ MAP_BLOCKS @ concat (map (\<lambda>r. '''' # renderServerBlock r ctx) routes)"

section \<open>Reading the locations\<close>

type_synonym location_block = "string \<times> string list"

definition block_lines :: "location_block \<Rightarrow> string list" where
  "block_lines b = [''''] @ [''    location '' @ fst b @ '' {''] @ snd b @ [''    }'']"

lemma pattern_key_inj [simp]: "pattern_key p = pattern_key q \<longleftrightarrow> p = q"
  by (cases p; cases q) auto

lemma dedupe_loop_props:
  "set (dedupe_loop seen ps) = {p \<in> set ps. pattern_key p \<notin> set seen} \<and> distinct (dedupe_loop seen ps)"
proof (induction seen ps rule: dedupe_loop.induct)
  case (1 seen)
  then show ?case by simp
next
  case (2 seen p ps)
  then show ?case by auto
qed

lemma dedupe_props:
  "set (dedupeExemptPatterns ps) = set ps" "distinct (dedupeExemptPatterns ps)"
  using dedupe_loop_props [of "[]" ps] by (auto simp: dedupeExemptPatterns_def)

lemma candidate_patterns:
  assumes "rt_auth r = ForwardGate ps raws"
  shows "set (candidateExemptPatterns r) = {p \<in> set ps. \<not> isOutpostPrefixed p}"
    and "distinct (candidateExemptPatterns r)"
  using assms by (auto simp: candidateExemptPatterns_def dedupe_props)

lemma quote_char_cases:
  "quote_char c @ xs = quote_char d @ ys \<longleftrightarrow> c = d \<and> xs = ys"
  by (auto simp: quote_char_def split: if_splits)

lemma quote_char_no_end: "quote_char c @ xs \<noteq> CHR 34 # ys"
  by (auto simp: quote_char_def)

lemma quote_nginx_inj [simp]: "quote_nginx a = quote_nginx b \<longleftrightarrow> a = b"
proof
  have body: "concat (map quote_char a) @ [CHR 34] = concat (map quote_char b) @ [CHR 34] \<Longrightarrow> a = b" for a b
  proof (induction a arbitrary: b)
    case Nil
    then show ?case using quote_char_no_end [symmetric] by (cases b) simp_all
  next
    case (Cons c a)
    show ?case
    proof (cases b)
      case Nil
      then show ?thesis using Cons.prems quote_char_no_end [of c] by simp
    next
      case (Cons d b')
      then show ?thesis using Cons.prems Cons.IH [of b'] by (simp add: quote_char_cases)
    qed
  qed
  assume "quote_nginx a = quote_nginx b"
  then show "a = b" using body [of a b] by (simp add: quote_nginx_def)
qed simp

lemma exempt_selector_inj [simp]: "exempt_selector p = exempt_selector q \<longleftrightarrow> p = q"
  by (cases p; cases q) auto

lemma proxyLines_plain: "AUTH_REQUEST_LINE \<notin> set (proxyLines b ctx vars)"
  by (simp add: proxyLines_def AUTH_REQUEST_LINE_def)

definition rootExempted :: "proxy_route \<Rightarrow> bool" where
  "rootExempted r \<longleftrightarrow> list_ex isRootPrefix (candidateExemptPatterns r)"

definition outpost_blocks :: "proxy_context \<Rightarrow> server_vars \<Rightarrow> location_block list" where
  "outpost_blocks ctx vars =
     [(OUTPOST_PATH, take 7 (drop 2 (outpostLocations ctx vars))),
      (''@goauthentik_proxy_signin'', take 3 (drop 12 (outpostLocations ctx vars)))]"

definition server_blocks :: "proxy_route \<Rightarrow> proxy_context \<Rightarrow> server_vars \<Rightarrow> location_block list" where
  "server_blocks r ctx vars =
     (''/'', proxyLines (rt_backend r) ctx vars @ (if rootExempted r then [] else FORWARD_AUTH_LINES)) #
     map (\<lambda>p. (exempt_selector p, proxyLines (rt_backend r) ctx vars))
       (filter (\<lambda>p. \<not> isRootPrefix p) (candidateExemptPatterns r)) @
     outpost_blocks ctx vars"

lemma exempt_blocks:
  "exemptLocations ps b ctx vars =
     concat (map block_lines (map (\<lambda>p. (exempt_selector p, proxyLines b ctx vars)) (filter (\<lambda>p. \<not> isRootPrefix p) ps)))"
  by (induction ps) (simp_all add: exemptLocations_def block_lines_def)

lemma outpost_block_lines: "outpostLocations ctx vars = concat (map block_lines (outpost_blocks ctx vars))"
  by (simp add: outpostLocations_def outpost_blocks_def block_lines_def OUTPOST_PATH_def numeral_eq_Suc)

lemma forward_body:
  assumes "route_mode r = Some Forward"
  shows "renderServerBody r ctx vars =
    SERVER_LINES @ [''    proxy_buffers 8 16k;'', ''    proxy_buffer_size 32k;''] @
    concat (map block_lines (server_blocks r ctx vars))"
  using assms
  by (simp add: renderServerBody_def Let_def server_blocks_def rootExempted_def exempt_blocks outpost_block_lines
      block_lines_def)

lemma outpost_blocks_open:
  "AUTH_REQUEST_LINE \<notin> set (snd b)" if "b \<in> set (outpost_blocks ctx vars)"
  using that by (auto simp: outpost_blocks_def outpostLocations_def AUTH_REQUEST_LINE_def numeral_eq_Suc)

lemma exempt_selector_start: "exempt_selector p \<noteq> CHR ''/'' # s" "exempt_selector p \<noteq> CHR ''@'' # s"
  by (cases p; simp)+

lemma server_blocks_distinct:
  assumes "rt_auth r = ForwardGate ps raws"
  shows "distinct (map fst (server_blocks r ctx vars))"
proof -
  let ?kept = "filter (\<lambda>p. \<not> isRootPrefix p) (candidateExemptPatterns r)"
  have "distinct ?kept" using candidate_patterns(2) [OF assms] by simp
  then have "distinct (map exempt_selector ?kept)" by (simp add: distinct_map inj_on_def)
  moreover have "map fst (server_blocks r ctx vars) =
      ''/'' # map exempt_selector ?kept @ [OUTPOST_PATH, ''@goauthentik_proxy_signin'']"
    by (simp add: server_blocks_def outpost_blocks_def comp_def)
  ultimately show ?thesis
    by (auto simp: OUTPOST_PATH_def exempt_selector_start exempt_selector_start [symmetric])
qed

lemma open_selectors:
  assumes "rt_auth r = ForwardGate ps raws"
  shows "{fst b | b. b \<in> set (server_blocks r ctx vars) \<and> AUTH_REQUEST_LINE \<notin> set (snd b)} =
    exempt_selector ` {p \<in> set ps. \<not> isOutpostPrefixed p \<and> \<not> isRootPrefix p} \<union>
    (if PrefixPath ''/'' \<in> set ps then {''/''} else {}) \<union> {OUTPOST_PATH, ''@goauthentik_proxy_signin''}"
proof -
  have root: "rootExempted r \<longleftrightarrow> PrefixPath ''/'' \<in> set ps"
    using candidate_patterns(1) [OF assms]
    by (auto simp: rootExempted_def list_ex_iff isRootPrefix_def isOutpostPrefixed_def startsWith_def OUTPOST_PATH_def)
  have auth: "AUTH_REQUEST_LINE \<in> set FORWARD_AUTH_LINES" by (simp add: FORWARD_AUTH_LINES_def)
  let ?exempt = "map (\<lambda>p. (exempt_selector p, proxyLines (rt_backend r) ctx vars))
       (filter (\<lambda>p. \<not> isRootPrefix p) (candidateExemptPatterns r))"
  have parts: "{fst b | b. b \<in> set (x # ys @ zs) \<and> P b} =
      (if P x then {fst x} else {}) \<union> {fst b | b. b \<in> set ys \<and> P b} \<union> {fst b | b. b \<in> set zs \<and> P b}"
    for x :: location_block and ys zs P
  proof -
    have "x \<in> set (x # ys @ zs)" by simp
    then show ?thesis by (cases "P x") fastforce+
  qed
  have "{fst b | b. b \<in> set ?exempt \<and> AUTH_REQUEST_LINE \<notin> set (snd b)} =
      exempt_selector ` {p \<in> set ps. \<not> isOutpostPrefixed p \<and> \<not> isRootPrefix p}"
    using candidate_patterns(1) [OF assms] proxyLines_plain by auto
  moreover have "{fst b | b. b \<in> set (outpost_blocks ctx vars) \<and> AUTH_REQUEST_LINE \<notin> set (snd b)} =
      fst ` set (outpost_blocks ctx vars)"
    using outpost_blocks_open by blast
  moreover have "fst ` set (outpost_blocks ctx vars) = {OUTPOST_PATH, ''@goauthentik_proxy_signin''}"
    by (simp add: outpost_blocks_def)
  moreover have "AUTH_REQUEST_LINE \<notin> set (proxyLines (rt_backend r) ctx vars @ (if rootExempted r then [] else FORWARD_AUTH_LINES)) \<longleftrightarrow>
      PrefixPath ''/'' \<in> set ps"
    using auth proxyLines_plain root by simp
  ultimately show ?thesis unfolding server_blocks_def parts by auto
qed

lemma parse_raw:
  assumes "isValidUnauthenticatedPath raw"
  shows "isRootPrefix (the (parsePathPattern raw)) \<longleftrightarrow> raw = ''/*''"
    and "isOutpostPrefixed (the (parsePathPattern raw)) \<longleftrightarrow> isOutpostNamespacePath raw"
proof -
  from assms consider
      (exact) "indexOfChar raw (CHR ''*'') = None" "parsePathPattern raw = Some (ExactPath raw)"
    | (pre) p where "raw = p @ ''*''" "last p = CHR ''/''" "p \<noteq> []" "parsePathPattern raw = Some (PrefixPath p)"
  proof (cases "indexOfChar raw (CHR ''*'')")
    case None
    then show ?thesis using assms that(1) by (simp add: parsePathPattern_def)
  next
    case (Some i)
    then have "CHR ''*'' \<in> set raw" by (metis indexOfChar_None option.distinct(1))
    then obtain p where p: "raw = p @ ''*''" "startsWith p ''/''" "last p = CHR ''/''"
      using assms by (auto simp: valid_path_cases)
    moreover from p(2) have "p \<noteq> []" by (auto simp: startsWith_def)
    ultimately show ?thesis using that(2) [of p] assms Some by (auto simp: parsePathPattern_def)
  qed
  then show "isRootPrefix (the (parsePathPattern raw)) \<longleftrightarrow> raw = ''/*''"
  proof cases
    case exact
    then have "CHR ''*'' \<notin> set raw" by (simp add: indexOfChar_None)
    then show ?thesis using exact by (auto simp: isRootPrefix_def)
  qed (auto simp: isRootPrefix_def)
  show "isOutpostPrefixed (the (parsePathPattern raw)) \<longleftrightarrow> isOutpostNamespacePath raw"
    using \<open>isValidUnauthenticatedPath raw\<close>
  proof (cases "indexOfChar raw (CHR ''*'')")
    case None
    then show ?thesis using assms
      by (simp add: parsePathPattern_def isOutpostPrefixed_def isOutpostNamespacePath_def OUTPOST_PATH_def)
  next
    case (Some i)
    then have "CHR ''*'' \<in> set raw" by (metis indexOfChar_None option.distinct(1))
    then obtain p where p: "raw = p @ ''*''" "last p = CHR ''/''"
      using assms by (auto simp: valid_path_cases)
    have pat: "parsePathPattern raw = Some (PrefixPath p)" using p(1) assms Some by (simp add: parsePathPattern_def)
    have "last OUTPOST_PATH = CHR ''o''" by (simp add: OUTPOST_PATH_def)
    moreover have "last raw = CHR ''*''" using p(1) by simp
    ultimately have "p \<noteq> OUTPOST_PATH" "raw \<noteq> OUTPOST_PATH" using p(2) by auto
    moreover have "startsWith raw (q @ ''/'') \<longleftrightarrow> startsWith p (q @ ''/'')" for q
    proof
      assume "startsWith raw (q @ ''/'')"
      then obtain t where t: "p @ ''*'' = q @ ''/'' @ t" using p(1) by (auto simp: startsWith_iff)
      then have "t \<noteq> []" using last_snoc [of p "CHR ''*''"] by auto
      then have "butlast (p @ ''*'') = q @ ''/'' @ butlast t" unfolding t by (simp add: butlast_append)
      then have "p = q @ ''/'' @ butlast t" by simp
      then show "startsWith p (q @ ''/'')" by (auto simp: startsWith_iff)
    next
      assume "startsWith p (q @ ''/'')"
      then show "startsWith raw (q @ ''/'')" using p(1) by (auto simp: startsWith_iff)
    qed
    moreover have "isOutpostNamespacePath raw \<longleftrightarrow> raw = OUTPOST_PATH \<or> startsWith raw (OUTPOST_PATH @ ''/'')"
      by (simp add: isOutpostNamespacePath_def OUTPOST_PATH_def)
    ultimately show ?thesis using pat by (simp add: isOutpostPrefixed_def)
  qed
qed

section \<open>What the nginx configuration leaves open\<close>

lemma planSync_routes:
  assumes "loadInventory u db = Inr iv" and "planSync iv port = Inr (Some (d, routes, ctx))"
    and "(ty, e) \<in> set (candidates iv)" and "hasRoute e"
  shows "route_of (i_domain iv) ty e \<in> set routes" and "schema_paths e"
proof -
  have valid: "inventory_valid iv" and schema: "InventorySchema u iv"
    using loadInventory_valid [OF assms(1)] by auto
  have "routes = map (\<lambda>(ty, e). route_of (i_domain iv) ty e) (filter (\<lambda>(ty, e). hasRoute e) (candidates iv))"
    using assms(2) buildRoutes_valid [OF valid schema]
    by (auto simp: planSync_def split: option.splits if_splits)
  then show "route_of (i_domain iv) ty e \<in> set routes" using assms(3,4) by force
  have "e \<in> set (all_entries iv)" using assms(3) snd_candidates [of iv] by (metis image_eqI list.set_map snd_conv)
  then show "schema_paths e" using entries_schema [OF schema] by blast
qed

lemma open_selectors_raw:
  assumes "rt_auth r = ForwardGate (map (\<lambda>raw. the (parsePathPattern raw)) raws) raws"
    and "\<forall>raw \<in> set raws. isValidUnauthenticatedPath raw"
  shows "{fst b | b. b \<in> set (server_blocks r ctx vars) \<and> AUTH_REQUEST_LINE \<notin> set (snd b)} =
    (\<lambda>raw. exempt_selector (the (parsePathPattern raw))) `
      {raw \<in> set raws. \<not> isOutpostNamespacePath raw \<and> raw \<noteq> ''/*''} \<union>
    (if ''/*'' \<in> set raws then {''/''} else {}) \<union> {OUTPOST_PATH, ''@goauthentik_proxy_signin''}"
proof -
  let ?parse = "\<lambda>raw. the (parsePathPattern raw)"
  have "{p \<in> set (map ?parse raws). \<not> isOutpostPrefixed p \<and> \<not> isRootPrefix p} =
      ?parse ` {raw \<in> set raws. \<not> isOutpostNamespacePath raw \<and> raw \<noteq> ''/*''}"
    using assms(2) parse_raw by auto
  moreover have "PrefixPath ''/'' \<in> set (map ?parse raws) \<longleftrightarrow> ''/*'' \<in> set raws"
    using assms(2) parse_raw(1) by (force simp: isRootPrefix_def)
  ultimately show ?thesis unfolding open_selectors [OF assms(1)] by (simp add: image_image)
qed

text \<open>
  C25: After \<open>sync-proxy\<close> accepts a loaded inventory, the nginx server of a forward-gated entry is its
  fixed settings and a list of locations with distinct selectors, and the locations without the
  authentication check are exactly: one per listed unauthenticated path outside the outpost's namespace,
  the root location when \<open>/*\<close> is listed, and Authentik's own two.  Every other request is asked to sign in.
\<close>

theorem nginx_opens_only_the_exemptions:
  assumes "loadInventory u db = Inr iv" and "planSync iv port = Inr (Some (d, routes, ctx))"
    and "(ty, e) \<in> set (candidates iv)" and "hasRoute e" and "effectiveAuth e = Some Forward"
  shows "\<exists>r blocks. r \<in> set routes \<and> rt_owner r = (ty, e_name e) \<and>
    renderServerBody r ctx vars = SERVER_LINES @ [''    proxy_buffers 8 16k;'', ''    proxy_buffer_size 32k;''] @
      concat (map block_lines blocks) \<and>
    distinct (map fst blocks) \<and>
    {fst b | b. b \<in> set blocks \<and> AUTH_REQUEST_LINE \<notin> set (snd b)} =
      (\<lambda>raw. exempt_selector (the (parsePathPattern raw))) `
        {raw \<in> set (or_empty (e_unauthenticatedPaths e)). \<not> isOutpostNamespacePath raw \<and> raw \<noteq> ''/*''} \<union>
      (if ''/*'' \<in> set (or_empty (e_unauthenticatedPaths e)) then {''/''} else {}) \<union>
      {OUTPOST_PATH, ''@goauthentik_proxy_signin''}"
proof -
  let ?r = "route_of (i_domain iv) ty e"
  note planned = planSync_routes [OF assms(1-4)]
  have auth: "rt_auth ?r = ForwardGate (map (\<lambda>raw. the (parsePathPattern raw)) (or_empty (e_unauthenticatedPaths e)))
      (or_empty (e_unauthenticatedPaths e))"
    using assms(5) by (simp add: route_of_def)
  then have mode: "route_mode ?r = Some Forward" by (simp add: route_mode_def)
  have owner: "rt_owner ?r = (ty, e_name e)" by (simp add: route_of_def)
  have raws: "\<forall>raw \<in> set (or_empty (e_unauthenticatedPaths e)). isValidUnauthenticatedPath raw"
    using planned(2) by (simp add: schema_paths_def)
  show ?thesis
    using planned(1) owner forward_body [OF mode, of ctx vars] server_blocks_distinct [OF auth, of ctx vars]
      open_selectors_raw [OF auth raws, of ctx vars] by blast
qed

definition nginx_inventory :: inventory where
  "nginx_inventory = sample_inventory\<lparr>i_settings := (\<lambda>k. if k = ''proxyDriver'' then Some ''nginx'' else None)\<rparr>"

lemma nginx_inventory_loads: "\<exists>db. loadInventory (\<lambda>_. None) db = Inr (stored_form nginx_inventory)"
proof -
  have "isl (saveInventory nginx_inventory empty_inventory_db) = False" by code_simp
  then obtain db where "saveInventory nginx_inventory empty_inventory_db = Inr db"
    by (cases "saveInventory nginx_inventory empty_inventory_db") auto
  moreover have "InventorySchema (\<lambda>_. None) nginx_inventory" "numeric_ips nginx_inventory" by code_simp+
  ultimately show ?thesis using save_then_load by blast
qed

definition wiki_entry :: proxy_candidate where
  "wiki_entry = guest_candidate (i_guests (stored_form nginx_inventory) ! 0)"

lemma wiki_planned:
  "case planSync (stored_form nginx_inventory) 9000 of Inr (Some (d, _)) \<Rightarrow> dr_id d = ''nginx'' | _ \<Rightarrow> False"
  "list_ex (\<lambda>(ty, e). (ty, e) = (OwnGuest, wiki_entry)) (candidates (stored_form nginx_inventory))"
  "hasRoute wiki_entry" "effectiveAuth wiki_entry = Some Forward"
  "or_empty (e_unauthenticatedPaths wiki_entry) = [''/api/*'', ''/health'']"
  by code_simp+

lemma wiki_paths:
  "parsePathPattern ''/api/*'' = Some (PrefixPath ''/api/'')" "parsePathPattern ''/health'' = Some (ExactPath ''/health'')"
  "\<not> isOutpostNamespacePath ''/api/*''" "\<not> isOutpostNamespacePath ''/health''"
  by code_simp+

theorem nginx_opens_only_the_exemptions_witness:
  "\<exists>iv d routes ctx. planSync iv 9000 = Inr (Some (d, routes, ctx)) \<and> dr_id d = ''nginx'' \<and> (\<exists>r blocks. r \<in> set routes \<and>
    rt_owner r = (OwnGuest, ''wiki'') \<and>
    renderServerBody r ctx NGINX_VARS =
      SERVER_LINES @ [''    proxy_buffers 8 16k;'', ''    proxy_buffer_size 32k;''] @ concat (map block_lines blocks) \<and>
    distinct (map fst blocks) \<and>
    {fst b | b. b \<in> set blocks \<and> AUTH_REQUEST_LINE \<notin> set (snd b)} =
      {exempt_selector (PrefixPath ''/api/''), exempt_selector (ExactPath ''/health''), OUTPOST_PATH,
       ''@goauthentik_proxy_signin''})"
proof -
  let ?iv = "stored_form nginx_inventory"
  obtain db where loaded: "loadInventory (\<lambda>_. None) db = Inr ?iv" using nginx_inventory_loads by blast
  obtain d routes ctx where planned: "planSync ?iv 9000 = Inr (Some (d, routes, ctx))" "dr_id d = ''nginx''"
    using wiki_planned(1) by (auto split: sum.splits option.splits)
  have cand: "(OwnGuest, wiki_entry) \<in> set (candidates ?iv)"
    using wiki_planned(2) by (auto simp: list_ex_iff)
  have listed: "{raw \<in> set [''/api/*'', ''/health'']. \<not> isOutpostNamespacePath raw \<and> raw \<noteq> ''/*''} = {''/api/*'', ''/health''}"
    using wiki_paths(3,4) by auto
  have open_paths: "(\<lambda>raw. exempt_selector (the (parsePathPattern raw))) `
        {raw \<in> set (or_empty (e_unauthenticatedPaths wiki_entry)). \<not> isOutpostNamespacePath raw \<and> raw \<noteq> ''/*''} \<union>
      (if ''/*'' \<in> set (or_empty (e_unauthenticatedPaths wiki_entry)) then {''/''} else {}) \<union>
      {OUTPOST_PATH, ''@goauthentik_proxy_signin''} =
      {exempt_selector (PrefixPath ''/api/''), exempt_selector (ExactPath ''/health''), OUTPOST_PATH,
       ''@goauthentik_proxy_signin''}"
    unfolding wiki_planned(5) listed by (simp add: wiki_paths insert_commute)
  have name: "e_name wiki_entry = ''wiki''" by code_simp
  note opened = nginx_opens_only_the_exemptions
    [OF loaded planned(1) cand wiki_planned(3,4), of NGINX_VARS, unfolded open_paths name]
  show ?thesis
    by (rule exI, rule exI, rule exI, rule exI, rule conjI, rule planned(1), rule conjI, rule planned(2), rule opened)
qed

end
