(* ===== verification/File_Driver.thy ===== *)
theory File_Driver
  imports Nginx_Locations
begin

text \<open>
  Proxies configured by files on the proxy host: \<open>src/src/lib/proxy/file-driver.ts\<close>.  A driver renders its
  files; \<open>buildFileDriverScript\<close> turns them into the POSIX shell script that backs up, writes, validates and
  restores.  The script is a list of pushed entries, one per \<open>lines.push\<close>, joined with line feeds.

  A shell reads the text by lines: \<open>here_document\<close> is the rule POSIX gives for a here-document, from the
  line after \<open><<'TAG'\<close> to the first line that is exactly \<open>TAG\<close>, without any expansion.
\<close>

section \<open>Paths of node:path (posix)\<close>

definition dirname :: "string \<Rightarrow> string" where
  "dirname p =
     (if p = [] then ''.''
      else let r = dropWhile (\<lambda>c. c \<noteq> CHR ''/'') (dropWhile (\<lambda>c. c = CHR ''/'') (rev (tl p)))
           in if r = [] then (if hd p = CHR ''/'' then ''/'' else ''.'')
              else if hd p = CHR ''/'' \<and> tl r = [] then ''//''
              else hd p # rev (tl r))"

definition basename :: "string \<Rightarrow> string" where
  "basename p = rev (takeWhile (\<lambda>c. c \<noteq> CHR ''/'') (dropWhile (\<lambda>c. c = CHR ''/'') (rev p)))"

text \<open>The segments kept so far, last first.\<close>

fun normal_segments :: "bool \<Rightarrow> string list \<Rightarrow> string list \<Rightarrow> string list" where
  "normal_segments goes_up acc [] = rev acc"
| "normal_segments goes_up acc (seg # segs) =
     (if seg = [] \<or> seg = ''.'' then normal_segments goes_up acc segs
      else if seg = ''..'' then
        (case acc of
           [] \<Rightarrow> normal_segments goes_up (if goes_up then [''..''] else []) segs
         | last_seg # acc' \<Rightarrow>
             if last_seg = ''..'' then normal_segments goes_up (''..'' # acc) segs
             else normal_segments goes_up acc' segs)
      else normal_segments goes_up (seg # acc) segs)"

definition posix_normalize :: "string \<Rightarrow> string" where
  "posix_normalize p =
     (if p = [] then ''.''
      else let absolute = (hd p = CHR ''/'');
               trailing = (last p = CHR ''/'');
               body = join_with ''/'' (normal_segments (\<not> absolute) [] (split_on (CHR ''/'') p))
           in if body = [] then (if absolute then ''/'' else if trailing then ''./'' else ''.'')
              else (if absolute then ''/'' else []) @ body @ (if trailing then ''/'' else []))"

text \<open>\<open>posix.join(a, b)\<close> of two non-empty arguments.\<close>

definition posix_join :: "string \<Rightarrow> string \<Rightarrow> string" where
  "posix_join a b = posix_normalize (a @ ''/'' @ b)"

section \<open>Files and the script\<close>

datatype file_mode = Owned | ManagedSection

record file_spec =
  fs_path :: string
  fs_content :: string
  fs_mode :: file_mode
  fs_ownedHeader :: "string option"
  fs_atomic :: bool

definition LF :: string where
  "LF = [CHR 10]"

definition sq :: string where
  "sq = [CHR 39]"

definition BEGIN_MARKER :: string where
  "BEGIN_MARKER = ''# BEGIN bellhop-managed''"

definition END_MARKER :: string where
  "END_MARKER = ''# END bellhop-managed''"

definition wrapManagedSection :: "string \<Rightarrow> string" where
  "wrapManagedSection body = join_with LF ([BEGIN_MARKER] @ (if body = [] then [] else [body]) @ [END_MARKER])"

definition singleQuote :: "string \<Rightarrow> string" where
  "singleQuote value =
     sq @ concat (map (\<lambda>c. if c = CHR 39 then [CHR 39, CHR 92, CHR 39, CHR 39] else [c]) value) @ sq"

definition atomicTempTemplate :: "string \<Rightarrow> string" where
  "atomicTempTemplate path = dirname path @ ''/.'' @ basename path @ ''.XXXXXX''"

definition atomic_file :: "file_spec \<Rightarrow> bool" where
  "atomic_file f \<longleftrightarrow> fs_mode f = Owned \<and> fs_atomic f"

definition refusal_message :: "string \<Rightarrow> string" where
  "refusal_message path =
     ''Refusing to replace '' @ path @ '': the file exists but was not written by this proxy driver '' @
     ''(its first line is not the driver's generated header). To use this driver, point proxyConfigPath '' @
     ''at a different file (bellhop set-config proxyConfigPath <path> --apply, or '' @
     ''bellhop set-config proxyConfigPath --unset --apply for the driver's default), or remove the file.''"

definition printf_line :: "string \<Rightarrow> string \<Rightarrow> string" where
  "printf_line format arg = ''  printf '' @ sq @ format @ [CHR 92] @ ''n'' @ sq @ '' '' @ arg @ '' >&2''"

definition refuse_lines :: "file_spec \<Rightarrow> string list" where
  "refuse_lines f =
     (case fs_ownedHeader f of
        None \<Rightarrow> []
      | Some header \<Rightarrow>
          if fs_mode f \<noteq> Owned then []
          else let p = singleQuote (fs_path f) in
            [''if [ -f '' @ p @ '' ] && [ \"$(head -n 1 '' @ p @ '')\" != '' @ singleQuote header @ '' ]; then'',
             printf_line ''%s'' (singleQuote (refusal_message (fs_path f))),
             ''  exit 1'',
             ''fi''])"

definition backup_lines :: "nat \<Rightarrow> file_spec \<Rightarrow> string list" where
  "backup_lines i f =
     (let p = singleQuote (fs_path f); n = show_nat i in
      [''BAK_'' @ n @ ''=\"$(mktemp)\"'',
       ''if [ -f '' @ p @ '' ]; then'',
       (if atomic_file f then ''  cp -p '' else ''  cp '') @ p @ '' \"$BAK_'' @ n @ ''\"'',
       ''  EXISTED_'' @ n @ ''=1'',
       ''else'',
       ''  EXISTED_'' @ n @ ''=0'',
       ''fi''] @
      (if atomic_file f then [''TMP_'' @ n @ ''=\"\"''] else []))"

definition restore_lines :: "nat \<Rightarrow> file_spec \<Rightarrow> string list" where
  "restore_lines i f =
     (let p = singleQuote (fs_path f); n = show_nat i in
      (if atomic_file f then [''  if [ -n \"$TMP_'' @ n @ ''\" ]; then rm -f \"$TMP_'' @ n @ ''\"; fi''] else []) @
      [''  if [ \"$EXISTED_'' @ n @ ''\" = \"1\" ]; then''] @
      (if atomic_file f then
         [''    RESTORE_'' @ n @ ''=\"$(mktemp '' @ singleQuote (atomicTempTemplate (fs_path f)) @ '')\"'',
          ''    cp -p \"$BAK_'' @ n @ ''\" \"$RESTORE_'' @ n @ ''\"'',
          ''    mv -f \"$RESTORE_'' @ n @ ''\" '' @ p]
       else [''    cp \"$BAK_'' @ n @ ''\" '' @ p]) @
      [''  else'', ''    rm -f '' @ p, ''  fi'', ''  rm -f \"$BAK_'' @ n @ ''\"''])"

definition TRAP_LINES :: "string list" where
  "TRAP_LINES =
     [''trap '' @ sq @ ''BELLHOP_STATUS=$?; if [ \"$BELLHOP_STATUS\" != \"0\" ]; then bellhop_restore_all; fi'' @ sq @ '' EXIT'',
      ''bellhop_on_signal() {'',
      ''  trap - EXIT HUP INT TERM'',
      ''  bellhop_restore_all'',
      ''  printf '' @ sq @ ''interrupted; restored previous configuration'' @ [CHR 92] @ ''n'' @ sq @ '' >&2'',
      ''  exit 1'',
      ''}'',
      ''trap bellhop_on_signal HUP INT TERM'']"

definition heredoc_tag :: "nat \<Rightarrow> string" where
  "heredoc_tag i = ''BELLHOP_FILE_'' @ show_nat i"

definition write_lines :: "nat \<Rightarrow> file_spec \<Rightarrow> string list" where
  "write_lines i f =
     (let p = singleQuote (fs_path f); n = show_nat i; tag = heredoc_tag i;
          tmp = ''\"$TMP_'' @ n @ ''\"'' in
      if atomic_file f then
        [''TMP_'' @ n @ ''=\"$(mktemp '' @ singleQuote (atomicTempTemplate (fs_path f)) @ '')\"'',
         ''if [ -f '' @ p @ '' ]; then cp -p '' @ p @ '' '' @ tmp @ ''; else chmod 644 '' @ tmp @ ''; fi'',
         ''cat > '' @ tmp @ '' <<'' @ sq @ tag @ sq,
         fs_content f,
         tag,
         ''mv -f '' @ tmp @ '' '' @ p]
      else if fs_mode f = Owned then
        [''cat > '' @ p @ '' <<'' @ sq @ tag @ sq, fs_content f, tag]
      else
        [''TMP_'' @ n @ ''=\"$(mktemp)\"'',
         ''if [ -f '' @ p @ '' ] && grep -q '' @ sq @ BEGIN_MARKER @ sq @ '' '' @ p @ '' 2>/dev/null; then'',
         ''  sed '' @ sq @ ''/'' @ BEGIN_MARKER @ ''/,/'' @ END_MARKER @ ''/d'' @ sq @ '' '' @ p @ '' > '' @ tmp,
         ''elif [ -f '' @ p @ '' ]; then'',
         ''  cp '' @ p @ '' '' @ tmp,
         ''else'',
         ''  : > '' @ tmp,
         ''fi'',
         ''cat >> '' @ tmp @ '' <<'' @ sq @ tag @ sq,
         fs_content f,
         tag,
         ''cat '' @ tmp @ '' > '' @ p,
         ''rm -f '' @ tmp])"

definition or_label :: "string option \<Rightarrow> string \<Rightarrow> string" where
  "or_label l d = (case l of None \<Rightarrow> d | Some v \<Rightarrow> v)"

definition validate_lines :: "string option \<Rightarrow> string option \<Rightarrow> string list" where
  "validate_lines validateCommand label =
     (case validateCommand of
        None \<Rightarrow> []
      | Some cmd \<Rightarrow>
          [''if ! '' @ cmd @ ''; then'',
           printf_line ''%s failed; restored previous configuration'' (singleQuote (or_label label cmd)),
           ''  exit 1'',
           ''fi''])"

definition each_file :: "(nat \<Rightarrow> file_spec \<Rightarrow> string list) \<Rightarrow> file_spec list \<Rightarrow> string list" where
  "each_file g files = concat (map (\<lambda>(i, f). g i f) (enumerate 0 files))"

definition before_writes :: "file_spec list \<Rightarrow> string list" where
  "before_writes files =
     [''set -e''] @ concat (map refuse_lines files) @ each_file backup_lines files @
     [''bellhop_restore_all() {''] @ each_file restore_lines files @ [''}''] @ TRAP_LINES"

definition after_writes :: "file_spec list \<Rightarrow> string option \<Rightarrow> string option \<Rightarrow> string option \<Rightarrow> string list" where
  "after_writes files validateCommand reloadCommand label =
     validate_lines validateCommand label @
     [''trap - EXIT HUP INT TERM''] @
     each_file (\<lambda>i f. [''rm -f \"$BAK_'' @ show_nat i @ ''\"'']) files @
     (case reloadCommand of None \<Rightarrow> [] | Some cmd \<Rightarrow> [cmd])"

definition buildFileDriverScript ::
  "file_spec list \<Rightarrow> string option \<Rightarrow> string option \<Rightarrow> string option \<Rightarrow> string" where
  "buildFileDriverScript files validateCommand reloadCommand label =
     join_with LF (before_writes files @ each_file write_lines files @
                   after_writes files validateCommand reloadCommand label)"

definition buildSnapshotCommand :: "string list \<Rightarrow> string" where
  "buildSnapshotCommand paths =
     (if length paths \<le> 1 then
        (let s = join_with ''; '' (map (\<lambda>p. ''cat '' @ singleQuote p) paths) in if s = [] then ''true'' else s)
      else join_with ''; ''
        (map (\<lambda>p. ''echo '' @ singleQuote (''==> '' @ p @ '' <=='') @ ''; cat '' @ singleQuote p) paths))"

definition previewFiles :: "file_spec list \<Rightarrow> string" where
  "previewFiles files =
     (if length files \<le> 1 then join_with LF (map fs_content files)
      else join_with (LF @ LF) (map (\<lambda>f. ''==> '' @ fs_path f @ '' <=='' @ LF @ fs_content f) files))"

section \<open>What the shell reads\<close>

definition text_lines :: "string \<Rightarrow> string list" where
  "text_lines s = split_on (CHR 10) s"

definition here_document :: "string \<Rightarrow> string list \<Rightarrow> string list \<times> string list" where
  "here_document tag ls = (takeWhile (\<lambda>l. l \<noteq> tag) ls, drop 1 (dropWhile (\<lambda>l. l \<noteq> tag) ls))"

lemma split_on_nonempty [simp]: "split_on c s \<noteq> []"
  by (induction s) (auto split: list.splits)

lemma split_on_sep: "split_on c (xs @ c # ys) = split_on c xs @ split_on c ys"
proof (induction xs)
  case Nil
  then show ?case by simp
next
  case (Cons x xs)
  then show ?case by (cases "split_on c xs") (auto simp: Cons split: list.splits)
qed

lemma split_on_no_sep: "c \<notin> set s \<Longrightarrow> split_on c s = [s]"
  by (induction s) auto

lemma text_lines_join: "xs \<noteq> [] \<Longrightarrow> text_lines (join_with LF xs) = concat (map text_lines xs)"
proof (induction LF xs rule: join_with.induct)
  case (3 x y ys)
  then show ?case by (simp add: LF_def text_lines_def split_on_sep)
qed simp_all

lemma text_lines_single [simp]: "CHR 10 \<notin> set s \<Longrightarrow> text_lines s = [s]"
  by (simp add: text_lines_def split_on_no_sep)

lemma here_document_ends:
  "tag \<notin> set body \<Longrightarrow> here_document tag (body @ tag # rest) = (body, rest)"
  by (simp add: here_document_def takeWhile_append dropWhile_append)

lemma enumerate_split:
  assumes "i < length files"
  shows "enumerate 0 files = enumerate 0 (take i files) @ (i, files ! i) # enumerate (Suc i) (drop (Suc i) files)"
proof -
  have "files = take i files @ files ! i # drop (Suc i) files" using assms by (rule id_take_nth_drop)
  then have "enumerate 0 files = enumerate 0 (take i files @ files ! i # drop (Suc i) files)" by simp
  also have "\<dots> = enumerate 0 (take i files) @ (i, files ! i) # enumerate (Suc i) (drop (Suc i) files)"
    using assms by (simp add: enumerate_append_eq min_def)
  finally show ?thesis .
qed

lemma digit_no_lf: "is_digit c \<Longrightarrow> c \<noteq> CHR 10"
  by (auto simp: is_digit_def)

lemma heredoc_tag_no_lf: "CHR 10 \<notin> set (heredoc_tag i)"
  using show_nat_digits [of i] digit_no_lf by (auto simp: heredoc_tag_def list_all_iff)

text \<open>The entry that opens file \<open>i\<close>'s here-document, and the rest of the script after its tag.\<close>

definition open_line :: "nat \<Rightarrow> file_spec \<Rightarrow> string" where
  "open_line i f =
     (if atomic_file f then ''cat > \"$TMP_'' @ show_nat i @ ''\"''
      else if fs_mode f = Owned then ''cat > '' @ singleQuote (fs_path f)
      else ''cat >> \"$TMP_'' @ show_nat i @ ''\"'') @ '' <<'' @ sq @ heredoc_tag i @ sq"

definition close_lines :: "nat \<Rightarrow> file_spec \<Rightarrow> string list" where
  "close_lines i f =
     (let p = singleQuote (fs_path f); tmp = ''\"$TMP_'' @ show_nat i @ ''\"'' in
      if atomic_file f then [''mv -f '' @ tmp @ '' '' @ p]
      else if fs_mode f = Owned then []
      else [''cat '' @ tmp @ '' > '' @ p, ''rm -f '' @ tmp])"

definition script_rest :: "file_spec list \<Rightarrow> string option \<Rightarrow> string option \<Rightarrow> string option \<Rightarrow> nat \<Rightarrow> string list" where
  "script_rest files v r l i =
     close_lines i (files ! i) @
     concat (map (\<lambda>(j, f). write_lines j f) (enumerate (Suc i) (drop (Suc i) files))) @
     after_writes files v r l"

lemma write_lines_shape:
  "\<exists>prep. write_lines i f = prep @ [open_line i f, fs_content f, heredoc_tag i] @ close_lines i f"
  by (auto simp: write_lines_def open_line_def close_lines_def Let_def)

lemma script_shape:
  assumes "i < length files"
  shows "\<exists>pre. text_lines (buildFileDriverScript files v r l) =
    pre @ text_lines (open_line i (files ! i)) @ text_lines (fs_content (files ! i)) @ heredoc_tag i #
    concat (map text_lines (script_rest files v r l i))"
proof -
  obtain prep where prep: "write_lines i (files ! i) =
      prep @ [open_line i (files ! i), fs_content (files ! i), heredoc_tag i] @ close_lines i (files ! i)"
    using write_lines_shape by blast
  have "before_writes files @ each_file write_lines files @ after_writes files v r l =
      (before_writes files @ concat (map (\<lambda>(j, f). write_lines j f) (enumerate 0 (take i files))) @ prep) @
      [open_line i (files ! i), fs_content (files ! i), heredoc_tag i] @ script_rest files v r l i"
    unfolding each_file_def enumerate_split [OF assms] by (simp add: prep script_rest_def)
  then show ?thesis
    unfolding buildFileDriverScript_def by (subst text_lines_join) (simp_all add: before_writes_def heredoc_tag_no_lf)
qed

end
