(* ===== verification/File_Proxies.thy ===== *)
theory File_Proxies
  imports File_Driver
begin

text \<open>
  The drivers whose proxy reads files: nginx (\<open>src/src/lib/proxy/drivers/nginx.ts\<close>), HAProxy
  (\<open>haproxy.ts\<close>) and Caddy's Caddyfile (\<open>caddy.ts\<close>), as instances of \<open>fileDriver\<close>, and the script one
  \<open>sync-proxy --apply\<close> sends.  \<open>Inl\<close> is an error \<open>render\<close> throws.
\<close>

datatype render_error =
    PathNamesDirectory
  | PathIsMapFile
  | ForwardUnsupported string
  | TlsNotRenderable

text \<open>A driver built by \<open>fileDriver\<close>: its capabilities and what it supplies.\<close>

record file_driver_def =
  fd_driver :: proxy_driver
  fd_render :: "proxy_route list \<Rightarrow> proxy_context \<Rightarrow> string \<Rightarrow> render_error + file_spec list"
  fd_validateCommand :: "string \<Rightarrow> string option"
  fd_validateLabel :: "string option"
  fd_reloadCommand :: "string option"
  fd_configFiles :: "string \<Rightarrow> string list"

definition wrap_spec :: "file_spec \<Rightarrow> file_spec" where
  "wrap_spec f =
     (if fs_mode f = ManagedSection then f\<lparr>fs_content := wrapManagedSection (fs_content f)\<rparr> else f)"

definition plan_files :: "file_driver_def \<Rightarrow> proxy_route list \<Rightarrow> proxy_context \<Rightarrow> string \<Rightarrow> render_error + file_spec list" where
  "plan_files def routes ctx configPath = map_sum id (map wrap_spec) (fd_render def routes ctx configPath)"

definition apply_script :: "file_driver_def \<Rightarrow> string \<Rightarrow> file_spec list \<Rightarrow> string" where
  "apply_script def configPath files =
     buildFileDriverScript files (fd_validateCommand def configPath) (fd_reloadCommand def) (fd_validateLabel def)"

definition snapshot_command :: "file_driver_def \<Rightarrow> string \<Rightarrow> string" where
  "snapshot_command def configPath = buildSnapshotCommand (fd_configFiles def configPath)"

text \<open>\<open>driverDeps\<close>'s configuration path.\<close>

definition driver_configPath :: "inventory \<Rightarrow> proxy_driver \<Rightarrow> string option" where
  "driver_configPath iv d =
     (case dr_defaultConfigPath d of
        None \<Rightarrow> None
      | Some p \<Rightarrow> Some (or_default (i_settings iv ''proxyConfigPath'') p))"

section \<open>nginx\<close>

definition render_nginx_file :: "proxy_route list \<Rightarrow> proxy_context \<Rightarrow> string \<Rightarrow> render_error + file_spec list" where
  "render_nginx_file routes ctx configPath =
     Inr [\<lparr>fs_path = configPath, fs_content = join_with LF (render_nginx routes ctx), fs_mode = Owned,
           fs_ownedHeader = Some NGINX_HEADER, fs_atomic = False\<rparr>]"

definition nginx_def :: file_driver_def where
  "nginx_def =
     \<lparr>fd_driver = nginxDriver, fd_render = render_nginx_file, fd_validateCommand = (\<lambda>_. Some ''nginx -t''),
      fd_validateLabel = None, fd_reloadCommand = Some ''systemctl reload nginx'', fd_configFiles = (\<lambda>p. [p])\<rparr>"

section \<open>HAProxy\<close>

definition HAPROXY_HEADER :: string where
  "HAPROXY_HEADER =
     ''# Generated by Bellhop sync-proxy for HAProxy. Do not edit: this file is replaced on every apply.''"

definition CA_BUNDLE :: string where
  "CA_BUNDLE = ''/etc/ssl/certs/ca-certificates.crt''"

definition MAIN_CONFIG :: string where
  "MAIN_CONFIG = ''/etc/haproxy/haproxy.cfg''"

definition mapPath :: "string \<Rightarrow> string" where
  "mapPath configPath = posix_join (dirname configPath) ''bellhop.map''"

definition safe_name_char :: "char \<Rightarrow> char" where
  "safe_name_char c =
     (if is_alnum c \<or> c = CHR ''_'' \<or> c = CHR ''.'' \<or> c = CHR '':'' \<or> c = CHR ''-'' then c else CHR ''_'')"

definition owner_text :: "owner_type \<Rightarrow> string" where
  "owner_text ty = (case ty of OwnHost \<Rightarrow> ''host'' | OwnGuest \<Rightarrow> ''guest'' | OwnSite \<Rightarrow> ''externalSite'')"

definition backend_base :: "owner_type \<times> string \<Rightarrow> string" where
  "backend_base own = ''bellhop_'' @ owner_text (fst own) @ ''_'' @ map safe_name_char (snd own)"

definition suffixed :: "string \<Rightarrow> nat \<Rightarrow> string" where
  "suffixed base n = base @ ''_'' @ show_nat n"

lemma suffixed_inj [simp]: "suffixed base m = suffixed base n \<longleftrightarrow> m = n"
  by (auto simp: suffixed_def show_nat_inj)

text \<open>The \<open>for\<close> loop that tries \<open>_2\<close>, \<open>_3\<close>, ... until the name is free.\<close>

function free_suffix :: "string list \<Rightarrow> string \<Rightarrow> nat \<Rightarrow> string" where
  "free_suffix taken base n =
     (if suffixed base n \<in> set taken then free_suffix taken base (Suc n) else suffixed base n)"
  by auto

termination
proof (relation "measure (\<lambda>(taken, base, n). card {m. n \<le> m \<and> suffixed base m \<in> set taken})")
  fix taken base n
  assume used: "suffixed base n \<in> set taken"
  let ?A = "\<lambda>n. {m. n \<le> m \<and> suffixed base m \<in> set taken}"
  have "inj_on (suffixed base) (?A n)" by (auto simp: inj_on_def)
  moreover have "suffixed base ` ?A n \<subseteq> set taken" by auto
  ultimately have "finite (?A n)" by (metis finite_imageD finite_set finite_subset)
  moreover have "n \<in> ?A n" "n \<notin> ?A (Suc n)" "?A (Suc n) \<subseteq> ?A n" using used by auto
  then have "?A (Suc n) \<subset> ?A n" by blast
  ultimately show "((taken, base, Suc n), (taken, base, n))
      \<in> measure (\<lambda>(taken, base, n). card {m. n \<le> m \<and> suffixed base m \<in> set taken})"
    by (simp add: psubset_card_mono)
qed simp

declare free_suffix.simps [simp del]

definition backend_name :: "string list \<Rightarrow> owner_type \<times> string \<Rightarrow> string" where
  "backend_name taken own =
     (if backend_base own \<in> set taken then free_suffix taken (backend_base own) 2 else backend_base own)"

fun names_loop :: "string list \<Rightarrow> (owner_type \<times> string) list \<Rightarrow> string list" where
  "names_loop taken [] = []"
| "names_loop taken (own # owns) =
     (let name = backend_name taken own in name # names_loop (name # taken) owns)"

definition backendNames :: "proxy_route list \<Rightarrow> string list" where
  "backendNames routes = names_loop [] (map rt_owner routes)"

definition tlsSuffix :: "proxy_backend \<Rightarrow> string" where
  "tlsSuffix b =
     (if bk_insecureTls b then '' ssl verify none''
      else if bk_port b = 443 then '' ssl verify required ca-file '' @ CA_BUNDLE
      else [])"

definition renderBackend :: "proxy_route \<Rightarrow> string \<Rightarrow> proxy_context \<Rightarrow> string list" where
  "renderBackend r name ctx =
     [''backend '' @ name,
      ''    mode http'',
      ''    timeout server 1d'',
      ''    timeout tunnel 1d'',
      ''    http-request del-header x-authentik- -m beg'',
      ''    http-request set-header X-Forwarded-For %[src]'',
      ''    http-request set-header X-Forwarded-Proto https'',
      ''    http-request set-header X-Forwarded-Host %[req.hdr(host)]'',
      ''    http-request set-header X-Forwarded-Port '' @ show_int (px_externalPort ctx),
      ''    server app '' @ ip_text (bk_ip (rt_backend r)) @ '':'' @ show_int (bk_port (rt_backend r)) @
        tlsSuffix (rt_backend r)]"

definition map_line :: "string \<Rightarrow> string \<Rightarrow> string" where
  "map_line name hostname = toLowerCase hostname @ '' '' @ name"

definition backend_lines :: "proxy_route list \<Rightarrow> proxy_context \<Rightarrow> string list" where
  "backend_lines routes ctx =
     HAPROXY_HEADER # concat (map (\<lambda>(r, name). [] # renderBackend r name ctx) (zip routes (backendNames routes)))"

definition map_lines :: "proxy_route list \<Rightarrow> string list" where
  "map_lines routes =
     HAPROXY_HEADER # concat (map (\<lambda>(r, name). map (map_line name) (rt_hostnames r)) (zip routes (backendNames routes)))"

definition render_haproxy :: "proxy_route list \<Rightarrow> proxy_context \<Rightarrow> string \<Rightarrow> render_error + file_spec list" where
  "render_haproxy routes ctx configPath =
     (if endsWith configPath ''/'' then Inl PathNamesDirectory
      else if mapPath configPath = posix_normalize configPath then Inl PathIsMapFile
      else case find (\<lambda>r. route_mode r = Some Forward) routes of
             Some r \<Rightarrow> Inl (ForwardUnsupported (snd (rt_owner r)))
           | None \<Rightarrow>
               Inr [\<lparr>fs_path = configPath, fs_content = join_with LF (backend_lines routes ctx), fs_mode = Owned,
                     fs_ownedHeader = Some HAPROXY_HEADER, fs_atomic = False\<rparr>,
                    \<lparr>fs_path = mapPath configPath, fs_content = join_with LF (map_lines routes), fs_mode = Owned,
                     fs_ownedHeader = Some HAPROXY_HEADER, fs_atomic = False\<rparr>])"

definition haproxy_def :: file_driver_def where
  "haproxy_def =
     \<lparr>fd_driver = haproxyDriver, fd_render = render_haproxy,
      fd_validateCommand = (\<lambda>p. Some (''haproxy -c -f '' @ MAIN_CONFIG @ '' -f '' @ singleQuote p)),
      fd_validateLabel = None, fd_reloadCommand = Some ''systemctl reload haproxy'',
      fd_configFiles = (\<lambda>p. [p, mapPath p])\<rparr>"

section \<open>Caddy\<close>

definition CLOUDFLARE_TLS_BLOCK :: "string list" where
  "CLOUDFLARE_TLS_BLOCK =
     [''    tls {'', ''        dns cloudflare {env.CLOUDFLARE_API_TOKEN}'', ''        resolvers 1.1.1.1 8.8.8.8'', ''    }'']"

definition caddyfileToken :: "string \<Rightarrow> string" where
  "caddyfileToken value =
     (if \<not> list_ex (\<lambda>c. js_space c \<or> c = CHR 34 \<or> c = CHR 92) value then value
      else [CHR 34] @ concat (map (\<lambda>c. if c = CHR 34 then [CHR 92, CHR 34] else [c]) value) @ [CHR 34])"

text \<open>\<open>None\<close> is the error for a source Caddy's renderer does not know.\<close>

definition tlsClause :: "proxy_context \<Rightarrow> string list option" where
  "tlsClause ctx =
     (if px_tlsSource ctx = ''acme-dns'' then Some CLOUDFLARE_TLS_BLOCK
      else if px_tlsSource ctx = ''acme-http'' then Some []
      else if px_tlsSource ctx = ''internal'' then Some [''    tls internal'']
      else if px_tlsSource ctx = ''files'' then
        Some [''    tls '' @ caddyfileToken (px_certificatePath ctx) @ '' '' @ caddyfileToken (px_keyPath ctx)]
      else None)"

definition caddy_forward_lines :: "string list \<Rightarrow> proxy_context \<Rightarrow> string list" where
  "caddy_forward_lines raws ctx =
     (if raws \<noteq> [] then
        [''    @auth_required {'', ''        not path '' @ join_with '' '' raws, ''    }'',
         ''    forward_auth @auth_required '' @ outpost_addr ctx @ '' {'']
      else [''    forward_auth '' @ outpost_addr ctx @ '' {'']) @
     [''        uri /outpost.goauthentik.io/auth/caddy'',
      ''        copy_headers X-Authentik-Username X-Authentik-Groups X-Authentik-Email X-Authentik-Name X-Authentik-Uid'',
      ''    }'',
      ''    handle /outpost.goauthentik.io/* {'',
      ''        reverse_proxy '' @ outpost_addr ctx,
      ''    }'']"

definition caddy_site :: "proxy_route \<Rightarrow> proxy_context \<Rightarrow> string list option" where
  "caddy_site r ctx =
     map_option (\<lambda>tls.
       [join_with '', '' (rt_hostnames r) @ '' {'',
        ''    reverse_proxy '' @ ip_text (bk_ip (rt_backend r)) @ '':'' @ show_int (bk_port (rt_backend r)) @ '' {'',
        ''        header_up X-Forwarded-Port '' @ show_int (px_externalPort ctx)] @
       (if bk_insecureTls (rt_backend r)
        then [''        transport http {'', ''            tls_insecure_skip_verify'', ''        }''] else []) @
       [''    }''] @
       (case rt_auth r of ForwardGate _ raws \<Rightarrow> caddy_forward_lines raws ctx | _ \<Rightarrow> []) @
       tls @ [''}'']) (tlsClause ctx)"

definition render_caddy :: "proxy_route list \<Rightarrow> proxy_context \<Rightarrow> string \<Rightarrow> render_error + file_spec list" where
  "render_caddy routes ctx configPath =
     (if routes \<noteq> [] \<and> tlsClause ctx = None then Inl TlsNotRenderable
      else Inr [\<lparr>fs_path = configPath,
             fs_content = join_with LF (concat (map (\<lambda>r. the (caddy_site r ctx)) routes)),
             fs_mode = ManagedSection, fs_ownedHeader = None, fs_atomic = False\<rparr>])"

definition caddy_def :: file_driver_def where
  "caddy_def =
     \<lparr>fd_driver = caddyDriver, fd_render = render_caddy,
      fd_validateCommand = (\<lambda>p. Some (''caddy validate --adapter caddyfile --config '' @ singleQuote p)),
      fd_validateLabel = None, fd_reloadCommand = Some ''systemctl reload caddy'', fd_configFiles = (\<lambda>p. [p])\<rparr>"

section \<open>HAProxy's names and its map\<close>

lemma free_suffix_fresh: "free_suffix taken base n \<notin> set taken"
  by (induction taken base n rule: free_suffix.induct) (subst free_suffix.simps, simp)

lemma backend_name_fresh: "backend_name taken own \<notin> set taken"
  by (simp add: backend_name_def free_suffix_fresh)

lemma names_loop_props:
  "length (names_loop taken owns) = length owns \<and> distinct (names_loop taken owns) \<and>
   set (names_loop taken owns) \<inter> set taken = {}"
proof (induction taken owns rule: names_loop.induct)
  case (2 taken own owns)
  then show ?case using backend_name_fresh [of taken own] by (auto simp: Let_def)
qed simp

lemma backendNames_props:
  "length (backendNames routes) = length routes" "distinct (backendNames routes)"
  using names_loop_props [of "[]" "map rt_owner routes"] by (simp_all add: backendNames_def)

text \<open>The map file's lookup: the text after the blank of the first line whose first word is the key.\<close>

definition map_lookup :: "string list \<Rightarrow> string \<Rightarrow> string option" where
  "map_lookup ls host =
     map_option (\<lambda>l. drop (Suc (length host)) l) (find (\<lambda>l. startsWith l (host @ '' '')) ls)"

lemma find_unique:
  assumes "x \<in> set xs" and "P x" and "\<And>y. y \<in> set xs \<Longrightarrow> P y \<Longrightarrow> y = x"
  shows "find P xs = Some x"
proof -
  obtain y where y: "find P xs = Some y" using assms(1,2) by (cases "find P xs") (auto simp: find_None_iff)
  then have "y \<in> set xs" "P y" by (auto simp: find_Some_iff)
  with y assms(3) show ?thesis by simp
qed

lemma startsWith_word:
  assumes "CHR '' '' \<notin> set a" and "CHR '' '' \<notin> set b"
  shows "startsWith (a @ '' '' @ n) (b @ '' '') \<longleftrightarrow> a = b"
proof
  assume "startsWith (a @ '' '' @ n) (b @ '' '')"
  then obtain t where "a @ CHR '' '' # n = b @ CHR '' '' # t" by (auto simp: startsWith_iff)
  then have "takeWhile (\<lambda>c. c \<noteq> CHR '' '') (a @ CHR '' '' # n) = takeWhile (\<lambda>c. c \<noteq> CHR '' '') (b @ CHR '' '' # t)"
    by (rule arg_cong)
  moreover have "takeWhile (\<lambda>c. c \<noteq> CHR '' '') (x @ CHR '' '' # y) = x" if "CHR '' '' \<notin> set x" for x y
    using that by (subst takeWhile_append2) auto
  ultimately show "a = b" using assms by simp
qed (auto simp: startsWith_iff)

lemma distinct_concat_eq:
  assumes "distinct (concat (map f xs))" and "x \<in> set xs" and "y \<in> set xs" and "h \<in> set (f x)" and "h \<in> set (f y)"
  shows "x = y"
  using assms by (induction xs) auto

lemma lower_small: "code (lower_char c) < 97 \<Longrightarrow> lower_char c = c"
proof (rule ccontr)
  assume small: "code (lower_char c) < 97" and "lower_char c \<noteq> c"
  from this(2) have "in_range 65 90 c \<or> in_range 192 214 c \<or> in_range 216 222 c"
    by (rule contrapos_np) (simp add: lower_char_def)
  then have "code (lower_char c) = code c + 32 \<and> 65 \<le> code c"
    by (auto simp: lower_char_def in_range_def code_def of_char_of)
  with small show False by simp
qed

lemma lower_mem: "code d < 97 \<Longrightarrow> d \<in> set (toLowerCase h) \<Longrightarrow> d \<in> set h"
  using lower_small by (force simp: toLowerCase_def)

lemma lower_no_space: "CHR '' '' \<notin> set h \<Longrightarrow> CHR '' '' \<notin> set (toLowerCase h)"
  using lower_mem [of "CHR '' ''" h] by (auto simp: code_def)

lemma lower_hash: "toLowerCase h = ''#'' \<Longrightarrow> h = ''#''"
proof -
  assume "toLowerCase h = ''#''"
  then obtain c where h: "h = [c]" "lower_char c = CHR ''#''" by (auto simp: toLowerCase_def)
  moreover have "code (CHR ''#'') < 97" by (simp add: code_def)
  ultimately show ?thesis using lower_small [of c] by simp
qed

lemma backend_word: "''backend '' @ name \<in> set (renderBackend r name' ctx) \<longleftrightarrow> name = name'"
  by (auto simp: renderBackend_def)

lemma backend_lines_split:
  assumes "i < length routes"
  shows "\<exists>pre post. backend_lines routes ctx = pre @ renderBackend (routes ! i) (backendNames routes ! i) ctx @ post \<and>
    ''backend '' @ (backendNames routes ! i) \<notin> set (pre @ post)"
proof -
  let ?names = "backendNames routes" and ?block = "\<lambda>(r, name). [] # renderBackend r name ctx"
  let ?z = "zip routes ?names"
  have len: "i < length ?z" using assms by (simp add: backendNames_props)
  have nth: "?z ! i = (routes ! i, ?names ! i)" using assms by (simp add: backendNames_props)
  have split: "?z = take i ?z @ (routes ! i, ?names ! i) # drop (Suc i) ?z"
    using id_take_nth_drop [OF len] by (simp only: nth)
  have distinct_names: "distinct (map snd ?z)" by (simp add: backendNames_props)
  have "?names ! i \<notin> snd ` (set (take i ?z) \<union> set (drop (Suc i) ?z))"
    using distinct_names by (subst (asm) split) auto
  have absent: "''backend '' @ ?names ! i \<notin> set (concat (map ?block zs))"
    if sub: "set zs \<subseteq> set (take i ?z) \<union> set (drop (Suc i) ?z)" for zs
  proof
    assume "''backend '' @ ?names ! i \<in> set (concat (map ?block zs))"
    then obtain r name where m: "(r, name) \<in> set zs" "''backend '' @ ?names ! i \<in> set ([] # renderBackend r name ctx)"
      by auto
    then have "name = ?names ! i" using backend_word by simp
    with m(1) sub have "?names ! i \<in> snd ` (set (take i ?z) \<union> set (drop (Suc i) ?z))" by force
    with \<open>?names ! i \<notin> _\<close> show False by contradiction
  qed
  let ?pre = "HAPROXY_HEADER # concat (map ?block (take i ?z)) @ [[]]" and ?post = "concat (map ?block (drop (Suc i) ?z))"
  have "backend_lines routes ctx = HAPROXY_HEADER # concat (map ?block (take i ?z @ (routes ! i, ?names ! i) # drop (Suc i) ?z))"
    unfolding backend_lines_def by (simp only: split [symmetric])
  then have "backend_lines routes ctx = ?pre @ renderBackend (routes ! i) (?names ! i) ctx @ ?post" by simp
  moreover have "''backend '' @ ?names ! i \<notin> set (?pre @ ?post)"
    using absent [of "take i ?z"] absent [of "drop (Suc i) ?z"] by (simp add: HAPROXY_HEADER_def)
  ultimately show ?thesis by blast
qed

lemma map_line_lookup:
  assumes "distinct (map toLowerCase (concat (map rt_hostnames routes)))"
    and "\<forall>h \<in> set (concat (map rt_hostnames routes)). CHR '' '' \<notin> set h \<and> h \<noteq> ''#''"
    and "i < length routes" and "h \<in> set (rt_hostnames (routes ! i))"
  shows "map_lookup (map_lines routes) (toLowerCase h) = Some (backendNames routes ! i)"
proof -
  let ?names = "backendNames routes"
  let ?line = "map_line (?names ! i) h"
  have all_hosts: "g \<in> set (concat (map rt_hostnames routes))" if "g \<in> set (rt_hostnames (routes ! j))" "j < length routes" for g j
    using that by auto
  have no_space: "CHR '' '' \<notin> set (toLowerCase g)" if "g \<in> set (concat (map rt_hostnames routes))" for g
    using assms(2) that lower_no_space by blast
  have h: "h \<in> set (concat (map rt_hostnames routes))" using all_hosts assms(3,4) by blast
  have zip_in: "(r, name) \<in> set (zip routes ?names) \<longleftrightarrow> (\<exists>j < length routes. r = routes ! j \<and> name = ?names ! j)" for r name
    by (auto simp: in_set_zip backendNames_props)
  have "?line \<in> set (map_lines routes)"
  proof -
    have "(routes ! i, ?names ! i) \<in> set (zip routes ?names)" using assms(3) zip_in by blast
    then show ?thesis using assms(4) by (auto simp: map_lines_def intro!: bexI [rotated])
  qed
  moreover have "startsWith ?line (toLowerCase h @ '' '')" by (auto simp: map_line_def startsWith_iff)
  moreover have "l = ?line" if l: "l \<in> set (map_lines routes)" "startsWith l (toLowerCase h @ '' '')" for l
  proof -
    have "l \<noteq> HAPROXY_HEADER"
    proof
      assume "l = HAPROXY_HEADER"
      then have "startsWith (''#'' @ '' '' @ drop 2 HAPROXY_HEADER) (toLowerCase h @ '' '')"
        using l(2) by (simp add: HAPROXY_HEADER_def)
      then have "toLowerCase h = ''#''" using startsWith_word [of "''#''" "toLowerCase h"] no_space [OF h] by auto
      then show False using assms(2) h lower_hash by blast
    qed
    then obtain j g where j: "j < length routes" "g \<in> set (rt_hostnames (routes ! j))" "l = map_line (?names ! j) g"
      using l(1) by (auto simp: map_lines_def zip_in)
    have g: "g \<in> set (concat (map rt_hostnames routes))" using all_hosts j by blast
    have "toLowerCase g = toLowerCase h"
      using l(2) startsWith_word [OF no_space [OF g] no_space [OF h]] j(3) by (auto simp: map_line_def)
    then have "g = h" using assms(1) g h by (auto simp: distinct_map dest: inj_onD)
    moreover have "j = i"
    proof -
      have "map (\<lambda>k. rt_hostnames (routes ! k)) [0..<length routes] = map rt_hostnames routes"
        by (rule nth_equalityI) simp_all
      moreover have "distinct (concat (map rt_hostnames routes))" using assms(1) by (simp add: distinct_map)
      ultimately have "distinct (concat (map (\<lambda>k. rt_hostnames (routes ! k)) [0..<length routes]))" by simp
      then show ?thesis
        by (rule distinct_concat_eq [where h = h]) (use j(1,2) \<open>g = h\<close> assms(3,4) in auto)
    qed
    ultimately show ?thesis using j(3) by simp
  qed
  ultimately have "find (\<lambda>l. startsWith l (toLowerCase h @ '' '')) (map_lines routes) = Some ?line"
    by (intro find_unique)
  then show ?thesis by (simp add: map_lookup_def map_line_def)
qed

lemma planSync_valid:
  assumes "loadInventory u db = Inr iv" and "planSync iv port = Inr (Some (d, routes, ctx))"
  shows "routes = map (\<lambda>(ty, e). route_of (i_domain iv) ty e) (filter (\<lambda>(ty, e). hasRoute e) (candidates iv))"
    and "distinct (map toLowerCase (concat (map rt_hostnames routes)))"
proof -
  have valid: "inventory_valid iv" and schema: "InventorySchema u iv"
    using loadInventory_valid [OF assms(1)] by auto
  show routes: "routes = map (\<lambda>(ty, e). route_of (i_domain iv) ty e) (filter (\<lambda>(ty, e). hasRoute e) (candidates iv))"
    using assms(2) buildRoutes_valid [OF valid schema]
    by (auto simp: planSync_def split: option.splits if_splits)
  show "distinct (map toLowerCase (concat (map rt_hostnames routes)))"
    unfolding routes by (rule route_hostnames_distinct [OF valid])
qed


definition haproxy_inventory :: inventory where
  "haproxy_inventory = sample_inventory\<lparr>i_settings := (\<lambda>k. if k = ''proxyDriver'' then Some ''haproxy'' else None),
     i_guests := map (\<lambda>g. g\<lparr>e_authGroup := None\<rparr>) (i_guests sample_inventory)\<rparr>"

lemma haproxy_inventory_loads: "\<exists>db. loadInventory (\<lambda>_. None) db = Inr (stored_form haproxy_inventory)"
proof -
  have "isl (saveInventory haproxy_inventory empty_inventory_db) = False" by code_simp
  then obtain db where "saveInventory haproxy_inventory empty_inventory_db = Inr db"
    by (cases "saveInventory haproxy_inventory empty_inventory_db") auto
  moreover have "InventorySchema (\<lambda>_. None) haproxy_inventory" "numeric_ips haproxy_inventory" by code_simp+
  ultimately show ?thesis using save_then_load by blast
qed

lemma haproxy_planned:
  "case planSync (stored_form haproxy_inventory) 9000 of
     Inr (Some (d, routes, ctx)) \<Rightarrow> dr_id d = ''haproxy'' \<and>
       concat (map rt_hostnames routes) = [''wiki.lab.example'', ''auth.lab.example'', ''login.lab.example''] \<and>
       rt_hostnames (hd routes) = [''wiki.lab.example''] \<and> routes \<noteq> []
   | _ \<Rightarrow> False"
  by code_simp


section \<open>Here-documents and the values in them\<close>

text \<open>A line that cannot be the tag of a here-document.\<close>

definition safe_line :: "string \<Rightarrow> bool" where
  "safe_line l \<longleftrightarrow> CHR 10 \<notin> set l \<and> (l = [] \<or> hd l \<noteq> CHR ''B'' \<or> CHR '' '' \<in> set l)"

definition one_line :: "string \<Rightarrow> bool" where
  "one_line s \<longleftrightarrow> CHR 10 \<notin> set s"

lemma safe_line_Nil [simp]: "safe_line []"
  by (simp add: safe_line_def)

lemma safe_line_Cons: "c \<noteq> CHR ''B'' \<Longrightarrow> safe_line (c # l) \<longleftrightarrow> one_line (c # l)"
  by (simp add: safe_line_def one_line_def)

lemma one_line_Cons [simp]: "one_line (c # l) \<longleftrightarrow> c \<noteq> CHR 10 \<and> one_line l"
  by (auto simp: one_line_def)

lemma one_line_app [simp]: "one_line (a @ b) \<longleftrightarrow> one_line a \<and> one_line b" "one_line []"
  by (auto simp: one_line_def)

lemma one_line_show [simp]: "one_line (show_nat n)" "one_line (show_int i)"
proof -
  show nat: "one_line (show_nat n)" for n
    using show_nat_digits [of n] digit_no_lf by (auto simp: one_line_def list_all_iff)
  show "one_line (show_int i)" by (simp add: show_int_def nat)
qed

lemma one_line_join: "one_line sep \<Longrightarrow> (\<forall>x \<in> set xs. one_line x) \<Longrightarrow> one_line (join_with sep xs)"
  by (induction sep xs rule: join_with.induct) auto

lemma one_line_quote: "one_line s \<Longrightarrow> one_line (quote_nginx s)"
  by (auto simp: quote_nginx_def quote_char_def one_line_def)

lemma one_line_token: "one_line s \<Longrightarrow> one_line (caddyfileToken s)"
  by (auto simp: caddyfileToken_def one_line_def)

definition one_line_route :: "proxy_route \<Rightarrow> bool" where
  "one_line_route r \<longleftrightarrow>
     one_line (snd (rt_owner r)) \<and> (\<forall>h \<in> set (rt_hostnames r). one_line h) \<and> one_line (ip_text (bk_ip (rt_backend r))) \<and>
     (case rt_auth r of
        ForwardGate ps raws \<Rightarrow> (\<forall>p \<in> set ps. one_line (pattern_path p)) \<and> (\<forall>raw \<in> set raws. one_line raw)
      | _ \<Rightarrow> True)"

definition one_line_context :: "proxy_context \<Rightarrow> bool" where
  "one_line_context ctx \<longleftrightarrow>
     one_line (outpost_addr ctx) \<and> one_line (px_certificatePath ctx) \<and> one_line (px_keyPath ctx)"

definition safe_text :: "string \<Rightarrow> bool" where
  "safe_text s \<longleftrightarrow> (\<forall>l \<in> set (text_lines s). safe_line l)"

lemma safe_text_line: "safe_line l \<Longrightarrow> safe_text l"
  by (simp add: safe_text_def safe_line_def)

lemma safe_text_join: "\<forall>s \<in> set ss. safe_text s \<Longrightarrow> safe_text (join_with LF ss)"
proof (cases "ss = []")
  case True
  then show ?thesis by (simp add: safe_text_line)
next
  case False
  assume "\<forall>s \<in> set ss. safe_text s"
  with False show ?thesis by (auto simp: safe_text_def text_lines_join)
qed

lemma safe_text_tag:
  assumes "safe_text s"
  shows "heredoc_tag i \<notin> set (text_lines s)"
proof -
  have "CHR '' '' \<notin> set (show_nat i)"
    using show_nat_digits [of i] by (auto simp: list_all_iff is_digit_def)
  then have "\<not> safe_line (heredoc_tag i)" by (simp add: safe_line_def heredoc_tag_def)
  with assms show ?thesis by (auto simp: safe_text_def)
qed

lemma safe_proxyLines:
  assumes "one_line_route r" and "one_line (sv_host vars)" and "one_line (sv_connection vars)"
  shows "\<forall>l \<in> set (proxyLines (rt_backend r) ctx vars). safe_line l"
  using assms by (auto simp: proxyLines_def safe_line_Cons one_line_route_def)

lemma safe_exempt:
  assumes "one_line_route r" and "rt_auth r = ForwardGate ps raws" and "p \<in> set (candidateExemptPatterns r)"
  shows "one_line (exempt_selector p)"
proof -
  have "p \<in> set ps" using candidate_patterns(1) [OF assms(2)] assms(3) by blast
  then have "one_line (pattern_path p)" using assms(1,2) by (auto simp: one_line_route_def)
  then show ?thesis by (cases p) (simp_all add: one_line_quote)
qed

lemma safe_server_body:
  assumes "one_line_route r" and "one_line_context ctx"
  shows "\<forall>l \<in> set (renderServerBody r ctx NGINX_VARS). safe_line l"
proof -
  note proxy = safe_proxyLines [OF assms(1), of NGINX_VARS ctx]
  have vars: "one_line (sv_host NGINX_VARS)" "one_line (sv_connection NGINX_VARS)" by (simp_all add: NGINX_VARS_def)
  have server: "\<forall>l \<in> set SERVER_LINES. safe_line l" by (simp add: SERVER_LINES_def safe_line_Cons)
  have auth: "\<forall>l \<in> set FORWARD_AUTH_LINES. safe_line l"
    by (simp add: FORWARD_AUTH_LINES_def AUTH_REQUEST_LINE_def safe_line_Cons)
  have outpost: "\<forall>l \<in> set (outpostLocations ctx NGINX_VARS). safe_line l"
    using assms(2) vars by (simp add: outpostLocations_def safe_line_Cons one_line_context_def)
  show ?thesis
  proof (cases "rt_auth r")
    case (ForwardGate ps raws)
    have "\<forall>l \<in> set (exemptLocations (candidateExemptPatterns r) (rt_backend r) ctx NGINX_VARS). safe_line l"
      using proxy vars safe_exempt [OF assms(1) ForwardGate] by (auto simp: exemptLocations_def safe_line_Cons)
    with ForwardGate proxy vars server auth outpost show ?thesis
      by (auto simp: renderServerBody_def route_mode_def Let_def safe_line_Cons)
  qed (use proxy vars server in \<open>auto simp: renderServerBody_def route_mode_def safe_line_Cons\<close>)
qed

lemma safe_nginx:
  assumes "\<forall>r \<in> set routes. one_line_route r" and "one_line_context ctx"
  shows "\<forall>l \<in> set (render_nginx routes ctx). safe_line l"
proof -
  have header: "safe_line NGINX_HEADER" by (simp add: NGINX_HEADER_def safe_line_Cons)
  have maps: "\<forall>l \<in> set MAP_BLOCKS. safe_line l" by (simp add: MAP_BLOCKS_def quote_pair_def safe_line_Cons)
  have "\<forall>l \<in> set (renderServerBlock r ctx). safe_line l" if "r \<in> set routes" for r
  proof -
    have r: "one_line_route r" using that assms(1) by blast
    have "one_line (join_with '' '' (rt_hostnames r))"
      using r by (intro one_line_join) (auto simp: one_line_route_def)
    then show ?thesis using safe_server_body [OF r assms(2)] assms(2) one_line_quote
      by (auto simp: renderServerBlock_def safe_line_Cons one_line_context_def)
  qed
  then show ?thesis using header maps by (auto simp: render_nginx_def)
qed

lemma one_line_lower: "one_line h \<Longrightarrow> one_line (toLowerCase h)"
  using lower_mem [of "CHR 10" h] by (auto simp: one_line_def code_def)

lemma one_line_base: "one_line (backend_base own)"
proof -
  have "CHR 10 \<noteq> safe_name_char c" for c
    by (auto simp: safe_name_char_def is_alnum_def in_range_def code_def)
  then have "one_line (map safe_name_char s)" for s by (induction s) (simp_all add: one_line_def)
  then show ?thesis by (simp add: backend_base_def owner_text_def split: owner_type.split)
qed

lemma one_line_free: "one_line base \<Longrightarrow> one_line (free_suffix taken base n)"
  by (induction taken base n rule: free_suffix.induct) (subst free_suffix.simps, simp add: suffixed_def)

lemma one_line_names: "\<forall>name \<in> set (names_loop taken owns). one_line name"
  by (induction taken owns rule: names_loop.induct)
     (auto simp: Let_def backend_name_def one_line_base one_line_free)

lemma zip_backendNames:
  assumes "(r, name) \<in> set (zip routes (backendNames routes))"
  shows "r \<in> set routes" "one_line name"
  using assms one_line_names by (auto simp: backendNames_def dest: set_zip_leftD set_zip_rightD)

lemma safe_haproxy:
  assumes "\<forall>r \<in> set routes. one_line_route r"
  shows "\<forall>l \<in> set (backend_lines routes ctx). safe_line l" and "\<forall>l \<in> set (map_lines routes). safe_line l"
proof -
  have header: "safe_line HAPROXY_HEADER" by (simp add: HAPROXY_HEADER_def safe_line_Cons)
  have "\<forall>l \<in> set (renderBackend r name ctx). safe_line l" if "(r, name) \<in> set (zip routes (backendNames routes))" for r name
    using zip_backendNames [OF that] assms
    by (auto simp: renderBackend_def safe_line_Cons one_line_route_def tlsSuffix_def CA_BUNDLE_def)
  then show "\<forall>l \<in> set (backend_lines routes ctx). safe_line l" using header by (auto simp: backend_lines_def)
  have "safe_line (map_line name h)" if z: "(r, name) \<in> set (zip routes (backendNames routes))" "h \<in> set (rt_hostnames r)" for r name h
  proof -
    have "one_line h" using zip_backendNames(1) [OF z(1)] z(2) assms by (auto simp: one_line_route_def)
    then have "one_line (map_line name h)" using one_line_lower zip_backendNames(2) [OF z(1)] by (simp add: map_line_def)
    then show ?thesis by (simp add: safe_line_def one_line_def map_line_def)
  qed
  then show "\<forall>l \<in> set (map_lines routes). safe_line l" using header by (auto simp: map_lines_def)
qed

lemma safe_caddy_site:
  assumes "one_line_route r" and "one_line_context ctx" and "caddy_site r ctx = Some ls"
  shows "\<forall>l \<in> set ls. safe_line l"
proof -
  obtain tls where tls: "tlsClause ctx = Some tls" using assms(3) by (auto simp: caddy_site_def)
  have "one_line (join_with '', '' (rt_hostnames r))"
    using assms(1) by (intro one_line_join) (auto simp: one_line_route_def)
  then have head: "safe_line (join_with '', '' (rt_hostnames r) @ '' {'')" by (simp add: safe_line_def one_line_def)
  have tls_safe: "\<forall>l \<in> set tls. safe_line l"
  proof -
    have "safe_line (''    tls '' @ caddyfileToken (px_certificatePath ctx) @ '' '' @ caddyfileToken (px_keyPath ctx))"
      using assms(2) by (simp add: safe_line_Cons one_line_context_def one_line_token)
    moreover have "\<forall>l \<in> set CLOUDFLARE_TLS_BLOCK. safe_line l" by (simp add: CLOUDFLARE_TLS_BLOCK_def safe_line_Cons)
    moreover have "safe_line ''    tls internal''" by (simp add: safe_line_Cons)
    moreover have "tls = CLOUDFLARE_TLS_BLOCK \<or> tls = [] \<or> tls = [''    tls internal''] \<or>
        tls = [''    tls '' @ caddyfileToken (px_certificatePath ctx) @ '' '' @ caddyfileToken (px_keyPath ctx)]"
      using tls unfolding tlsClause_def by (metis option.distinct(1) option.inject)
    ultimately show ?thesis by (elim disjE) (simp_all only: list.set ball_simps simp_thms)
  qed
  have forward: "\<forall>l \<in> set (caddy_forward_lines raws ctx). safe_line l" if "rt_auth r = ForwardGate ps raws" for ps raws
  proof -
    have "one_line (join_with '' '' raws)"
      using assms(1) that by (intro one_line_join) (auto simp: one_line_route_def)
    then show ?thesis using assms(2) by (auto simp: caddy_forward_lines_def safe_line_Cons one_line_context_def)
  qed
  have ip: "one_line (ip_text (bk_ip (rt_backend r)))" using assms(1) by (simp add: one_line_route_def)
  let ?auth = "case rt_auth r of ForwardGate ps raws \<Rightarrow> caddy_forward_lines raws ctx | _ \<Rightarrow> []"
  have "\<forall>l \<in> set ?auth. safe_line l" using forward by (cases "rt_auth r") simp_all
  note auth_safe = this
  let ?top = "[join_with '', '' (rt_hostnames r) @ '' {'',
      ''    reverse_proxy '' @ ip_text (bk_ip (rt_backend r)) @ '':'' @ show_int (bk_port (rt_backend r)) @ '' {'',
      ''        header_up X-Forwarded-Port '' @ show_int (px_externalPort ctx)]"
    and ?skip = "if bk_insecureTls (rt_backend r)
      then [''        transport http {'', ''            tls_insecure_skip_verify'', ''        }''] else []"
  have top_safe: "\<forall>l \<in> set ?top. safe_line l" using head ip by (simp add: safe_line_Cons)
  have skip_safe: "\<forall>l \<in> set ?skip. safe_line l"
    by (cases "bk_insecureTls (rt_backend r)") (simp_all add: safe_line_Cons)
  have close_safe: "\<forall>l \<in> set [''    }'']. safe_line l" "\<forall>l \<in> set [''}'']. safe_line l"
    by (simp_all add: safe_line_Cons)
  have shape: "ls = ?top @ ?skip @ [''    }''] @ ?auth @ tls @ [''}'']"
    using assms(3) tls unfolding caddy_site_def by simp
  show ?thesis unfolding shape set_append ball_Un by (intro conjI top_safe skip_safe close_safe auth_safe tls_safe)
qed

lemma safe_lines_text: "\<forall>l \<in> set ls. safe_line l \<Longrightarrow> safe_text (join_with LF ls)"
  by (intro safe_text_join) (simp add: safe_text_line)

lemma safe_plan:
  assumes "def \<in> {nginx_def, haproxy_def, caddy_def}"
    and "\<forall>r \<in> set routes. one_line_route r" and "one_line_context ctx"
    and "plan_files def routes ctx configPath = Inr files" and "f \<in> set files"
  shows "safe_text (fs_content f)"
proof -
  obtain fs where fs: "fd_render def routes ctx configPath = Inr fs" "files = map wrap_spec fs"
    using assms(4) by (auto simp: plan_files_def map_sum_def split: sum.splits)
  have body: "safe_text (fs_content g)" if "g \<in> set fs" for g
  proof -
    consider "def = nginx_def" | "def = haproxy_def" | "def = caddy_def" using assms(1) by blast
    then show ?thesis
    proof cases
      case 1
      then show ?thesis using fs(1) that safe_lines_text [OF safe_nginx [OF assms(2,3)]]
        by (auto simp: nginx_def_def render_nginx_file_def)
    next
      case 2
      then show ?thesis using fs(1) that safe_haproxy [OF assms(2)] safe_lines_text
        by (auto simp: haproxy_def_def render_haproxy_def split: if_splits option.splits)
    next
      case 3
      have "\<forall>l \<in> set (concat (map (\<lambda>r. the (caddy_site r ctx)) routes)). safe_line l"
      proof (cases "tlsClause ctx")
        case None
        with 3 fs(1) show ?thesis by (cases "routes = []") (simp_all add: caddy_def_def render_caddy_def)
      next
        case (Some tls)
        then have "\<exists>ls. caddy_site r ctx = Some ls" for r by (simp add: caddy_site_def)
        then show ?thesis using safe_caddy_site assms(2,3) by fastforce
      qed
      then have "safe_text (join_with LF (concat (map (\<lambda>r. the (caddy_site r ctx)) routes)))" by (rule safe_lines_text)
      moreover have "fs_content g = join_with LF (concat (map (\<lambda>r. the (caddy_site r ctx)) routes))"
        using 3 fs(1) that by (auto simp: caddy_def_def render_caddy_def split: if_splits)
      ultimately show ?thesis by simp
    qed
  qed
  obtain g where g: "g \<in> set fs" "f = wrap_spec g" using assms(5) fs(2) by auto
  have "safe_text (wrapManagedSection (fs_content g))"
    unfolding wrapManagedSection_def
    by (rule safe_text_join)
       (use body [OF g(1)] in \<open>auto simp: safe_text_line BEGIN_MARKER_def END_MARKER_def safe_line_Cons\<close>)
  then show ?thesis using body [OF g(1)] g(2) by (simp add: wrap_spec_def)
qed

text \<open>
  C27: When no name, hostname, address, path or certificate path holds a line feed, whatever else they hold,
  the shell that runs the script of nginx, HAProxy or Caddy reads each file's here-document as exactly the
  lines rendered for it, and goes on with the script's own next command: no value is run as a command.
\<close>

theorem rendered_values_stay_data:
  assumes "def \<in> {nginx_def, haproxy_def, caddy_def}"
    and "\<forall>r \<in> set routes. one_line_route r" and "one_line_context ctx"
    and "plan_files def routes ctx configPath = Inr files" and "i < length files"
  shows "\<exists>before after. text_lines (apply_script def configPath files) = before @ text_lines (open_line i (files ! i)) @ after \<and>
    here_document (heredoc_tag i) after =
      (text_lines (fs_content (files ! i)),
       concat (map text_lines
         (script_rest files (fd_validateCommand def configPath) (fd_reloadCommand def) (fd_validateLabel def) i)))"
proof -
  have "safe_text (fs_content (files ! i))"
    using safe_plan [OF assms(1-4)] assms(5) nth_mem by blast
  then show ?thesis
    using script_shape [OF assms(5), of "fd_validateCommand def configPath" "fd_reloadCommand def" "fd_validateLabel def"]
      here_document_ends [OF safe_text_tag] unfolding apply_script_def by blast
qed

definition sample_context :: proxy_context where
  "sample_context =
     \<lparr>px_outpost = Some (''10.0.0.9'', 9000), px_externalPort = 443, px_certificatePath = ''/etc/ssl/a b.pem'',
      px_keyPath = ''/etc/ssl/k'', px_certResolver = ''cf'', px_tlsSource = ''files'', px_acmeDnsProvider = ''cloudflare''\<rparr>"

definition sample_route :: proxy_route where
  "sample_route =
     \<lparr>rt_owner = (OwnGuest, ''it's''), rt_hostnames = [''BELLHOP_FILE_0''],
      rt_backend = \<lparr>bk_ip = Some ''10.0.0.7'', bk_port = 443, bk_insecureTls = True\<rparr>,
      rt_auth = ForwardGate [PrefixPath ''/$(id)/''] [''/$(id)/*'']\<rparr>"

theorem rendered_values_stay_data_witness:
  "\<exists>f before after. plan_files caddy_def [sample_route] sample_context ''/etc/x'' = Inr [f] \<and>
    text_lines (apply_script caddy_def ''/etc/x'' [f]) = before @ text_lines (open_line 0 f) @ after \<and>
    here_document (heredoc_tag 0) after =
      (text_lines (fs_content f),
       concat (map text_lines (script_rest [f] (fd_validateCommand caddy_def ''/etc/x'') (fd_reloadCommand caddy_def)
         (fd_validateLabel caddy_def) 0)))"
proof -
  have lines: "\<forall>r \<in> set [sample_route]. one_line_route r" "one_line_context sample_context"
    by (simp_all add: sample_route_def sample_context_def one_line_route_def one_line_context_def ip_text_def
        outpost_addr_def)
  obtain f where f: "plan_files caddy_def [sample_route] sample_context ''/etc/x'' = Inr [f]"
    by (simp add: plan_files_def caddy_def_def render_caddy_def sample_context_def tlsClause_def)
  show ?thesis
    using f rendered_values_stay_data [OF _ lines f, of 0] by auto
qed

lemma forged_line_runs:
  assumes "text_lines content = pre @ tag # cmd # post"
  shows "cmd \<in> set (snd (here_document tag (text_lines content @ tag # rest)))"
proof -
  obtain ys zs where ys: "pre @ tag # cmd # post @ tag # rest = ys @ tag # zs" "tag \<notin> set ys"
    using split_list_first [of tag "pre @ tag # cmd # post @ tag # rest"] by auto
  then have "length ys \<le> length pre"
  proof -
    have "(pre @ tag # cmd # post @ tag # rest) ! length pre = tag" by simp
    then show ?thesis using ys by (metis length_append linorder_not_le nth_append nth_mem)
  qed
  moreover have "cmd = (ys @ tag # zs) ! Suc (length pre)" unfolding ys(1) [symmetric] by (simp add: nth_append)
  moreover have "Suc (length pre) < length (ys @ tag # zs)" unfolding ys(1) [symmetric] by simp
  ultimately have "cmd \<in> set zs"
    by (auto simp: nth_append nth_Cons' split: if_splits)
  moreover have "snd (here_document tag (ys @ tag # zs)) = zs" using here_document_ends [OF ys(2)] by simp
  ultimately show ?thesis using assms ys(1) by simp
qed

end
