(* ===== verification/Config_Values.thy ===== *)
theory Config_Values
  imports Inventory_Store
begin

text \<open>
  Settings as the consumers read them: the accessor of \<open>src/src/lib/config.ts\<close> (environment, then the
  stored value, then nothing) with its snapshot of the stored half, the table of environment variables of
  \<open>src/src/lib/settings-defs.ts\<close>, and the Authentik configuration of \<open>src/src/lib/authentik-config.ts\<close>.
  The environment is a function of the variable's name.  \<open>Inl\<close> is the error of an invalid stored value,
  which names the key and never the value.
\<close>

type_synonym environment = "string \<Rightarrow> string option"

type_synonym stored_values = "(string \<times> string) list"

datatype config_source = FromEnvironment | FromSettings | FromNothing

section \<open>The precedence rule\<close>

definition SETTING_DEFS :: "(string \<times> string) list" where
  "SETTING_DEFS =
     [(''authentikApiUrl'', ''AUTHENTIK_API_URL''),
      (''authentikApiToken'', ''AUTHENTIK_API_TOKEN''),
      (''authentikAdminGroup'', ''AUTHENTIK_ADMIN_GROUP''),
      (''authentikBuiltinAdminGroup'', ''AUTHENTIK_BUILTIN_ADMIN_GROUP''),
      (''authentikGroupLadder'', ''AUTHENTIK_GROUP_LADDER''),
      (''authentikOutpostName'', ''AUTHENTIK_OUTPOST_NAME''),
      (''authentikOutpostPort'', ''AUTHENTIK_OUTPOST_PORT''),
      (''authentikAuthorizationFlowSlug'', ''AUTHENTIK_AUTHORIZATION_FLOW_SLUG''),
      (''authentikInvalidationFlowSlug'', ''AUTHENTIK_INVALIDATION_FLOW_SLUG''),
      (''authentikOidcSigningKeyName'', ''AUTHENTIK_OIDC_SIGNING_KEY_NAME''),
      (''webUiAuthMode'', ''WEB_UI_AUTH_MODE''),
      (''cloudflareDnsApiToken'', ''CLOUDFLARE_DNS_API_TOKEN''),
      (''npmApiUrl'', ''NPM_API_URL''),
      (''npmApiEmail'', ''NPM_API_EMAIL''),
      (''npmApiPassword'', ''NPM_API_PASSWORD''),
      (''githubApiToken'', ''GITHUB_API_TOKEN''),
      (''webUiOidcIssuer'', ''WEB_UI_OIDC_ISSUER''),
      (''webUiOidcClientId'', ''WEB_UI_OIDC_CLIENT_ID''),
      (''webUiOidcRedirectUri'', ''WEB_UI_OIDC_REDIRECT_URI''),
      (''webUiOidcClientSecret'', ''WEB_UI_OIDC_CLIENT_SECRET''),
      (''mcpApiKey'', ''MCP_API_KEY'')]"

definition envVar :: "string \<Rightarrow> string" where
  "envVar key = (case map_of SETTING_DEFS key of None \<Rightarrow> [] | Some v \<Rightarrow> v)"

definition effectiveValue ::
  "url_parser \<Rightarrow> string \<Rightarrow> string option \<Rightarrow> environment \<Rightarrow> string + (string option \<times> config_source)" where
  "effectiveValue u key stored env =
     (if has_text (env (envVar key)) then Inr (env (envVar key), FromEnvironment)
      else case stored of
             None \<Rightarrow> Inr (None, FromNothing)
           | Some v \<Rightarrow>
               if (case settingSchema u key of None \<Rightarrow> False | Some test \<Rightarrow> test v) then Inr (Some v, FromSettings)
               else Inl key)"

section \<open>The stored half\<close>

text \<open>What \<open>readStored\<close> gives for the database as it stands.\<close>

definition readStored :: "inventory_db \<Rightarrow> stored_values" where
  "readStored db =
     filter (\<lambda>(k, v). k \<in> set MOVED_SETTINGS_KEYS) (b_meta db) @
     filter (\<lambda>(k, v). k \<in> set SECRET_SETTINGS_KEYS) (b_secrets db)"

definition CONFIG_SNAPSHOT_TTL_MS :: ms where
  "CONFIG_SNAPSHOT_TTL_MS = 2000"

record snapshot =
  sn_readAt :: ms
  sn_stored :: stored_values

text \<open>The snapshot of one database path, as every entry point registers one.\<close>

definition storedValues :: "ms \<Rightarrow> inventory_db \<Rightarrow> snapshot option \<Rightarrow> snapshot option \<times> stored_values" where
  "storedValues now db cached =
     (let fresh = readStored db in
      case cached of
        Some s \<Rightarrow>
          if 0 \<le> now - sn_readAt s \<and> now - sn_readAt s < CONFIG_SNAPSHOT_TTL_MS then (cached, sn_stored s)
          else (Some \<lparr>sn_readAt = now, sn_stored = fresh\<rparr>, fresh)
      | None \<Rightarrow> (Some \<lparr>sn_readAt = now, sn_stored = fresh\<rparr>, fresh))"

definition configValueAt ::
  "url_parser \<Rightarrow> ms \<Rightarrow> inventory_db \<Rightarrow> string \<Rightarrow> environment \<Rightarrow> snapshot option \<Rightarrow>
   snapshot option \<times> (string + (string option \<times> config_source))" where
  "configValueAt u now db key env cached =
     (case storedValues now db cached of
        (cached', stored) \<Rightarrow> (cached', effectiveValue u key (jm_get stored key) env))"

definition storedSecretKeys :: "ms \<Rightarrow> inventory_db \<Rightarrow> snapshot option \<Rightarrow> string list" where
  "storedSecretKeys now db cached =
     filter (\<lambda>k. jm_has (snd (storedValues now db cached)) k) SECRET_SETTINGS_KEYS"

text \<open>A secret's row is inserted or overwritten; either writer forgets the snapshot.\<close>

definition writeSecret ::
  "url_parser \<Rightarrow> string \<Rightarrow> string \<Rightarrow> inventory_db \<times> snapshot option \<Rightarrow> string + (inventory_db \<times> snapshot option)" where
  "writeSecret u key v st =
     (if (case settingSchema u key of None \<Rightarrow> False | Some test \<Rightarrow> test v)
      then Inr ((fst st)\<lparr>b_secrets := jm_set key v (b_secrets (fst st))\<rparr>, None)
      else Inl key)"

definition clearSecret :: "string \<Rightarrow> inventory_db \<times> snapshot option \<Rightarrow> inventory_db \<times> snapshot option" where
  "clearSecret key st = ((fst st)\<lparr>b_secrets := jm_delete key (b_secrets (fst st))\<rparr>, None)"

definition empty_db :: "(string \<times> string) list \<Rightarrow> inventory_db" where
  "empty_db meta =
     \<lparr>b_meta = meta, b_secrets = [], b_hosts = [], b_guests = [], b_sites = [], b_subdomains = [], b_proxyOwner = None\<rparr>"

section \<open>Authentik\<close>

definition DEFAULT_GROUP_LADDER :: string where
  "DEFAULT_GROUP_LADDER =
     ''bellhop-public-readonly,bellhop-public,bellhop-friends-family,bellhop-admin-family,authentik Admins''"

definition parseGroupLadder :: "string option \<Rightarrow> string list" where
  "parseGroupLadder raw =
     uniq (filter (\<lambda>n. n \<noteq> []) (map trim_text
       (split_on (CHR '','') (if has_text raw then the raw else DEFAULT_GROUP_LADDER))))"

datatype config_error = InvalidStored string | BadOutpostPort string

definition sum_bind :: "'e + 'a \<Rightarrow> ('a \<Rightarrow> 'e + 'b) \<Rightarrow> 'e + 'b" where
  "sum_bind x f = (case x of Inl e \<Rightarrow> Inl e | Inr v \<Rightarrow> f v)"

record authentik_config =
  ac_adminGroup :: string
  ac_builtinAdminGroup :: string
  ac_groupLadder :: "string list"
  ac_outpostName :: string
  ac_outpostPort :: nat
  ac_authorizationFlowSlug :: string
  ac_invalidationFlowSlug :: string
  ac_oidcSigningKeyName :: string

text \<open>\<open>cv\<close> is \<open>configValue\<close> at one moment: an error, or the value if there is one.\<close>

type_synonym config_reader = "string \<Rightarrow> config_error + string option"

definition reader_at :: "url_parser \<Rightarrow> ms \<Rightarrow> inventory_db \<Rightarrow> snapshot option \<Rightarrow> environment \<Rightarrow> config_reader" where
  "reader_at u now db cached env key =
     map_sum InvalidStored fst (snd (configValueAt u now db key env cached))"

definition str_setting :: "config_reader \<Rightarrow> string \<Rightarrow> string \<Rightarrow> config_error + string" where
  "str_setting cv key fallback = map_sum id (\<lambda>v. case v of None \<Rightarrow> fallback | Some s \<Rightarrow> s) (cv key)"

definition outpostPort :: "config_reader \<Rightarrow> config_error + nat" where
  "outpostPort cv =
     sum_bind (cv ''authentikOutpostPort'') (\<lambda>raw. case raw of
       None \<Rightarrow> Inr 9000
     | Some s \<Rightarrow>
         if s = [] \<or> \<not> list_all is_digit s \<or> read_nat s = 0 then Inl (BadOutpostPort s) else Inr (read_nat s))"

definition authentikConfig :: "config_reader \<Rightarrow> config_error + authentik_config" where
  "authentikConfig cv =
     sum_bind (str_setting cv ''authentikAdminGroup'' ''bellhop-admins'') (\<lambda>admin.
     sum_bind (str_setting cv ''authentikBuiltinAdminGroup'' ''authentik Admins'') (\<lambda>builtin.
     sum_bind (cv ''authentikGroupLadder'') (\<lambda>ladder.
     sum_bind (str_setting cv ''authentikOutpostName'' ''authentik Embedded Outpost'') (\<lambda>outpost.
     sum_bind (outpostPort cv) (\<lambda>port.
     sum_bind (str_setting cv ''authentikAuthorizationFlowSlug''
       ''default-provider-authorization-implicit-consent'') (\<lambda>flow.
     sum_bind (str_setting cv ''authentikInvalidationFlowSlug'' ''default-invalidation-flow'') (\<lambda>inval.
     sum_bind (str_setting cv ''authentikOidcSigningKeyName'' ''authentik Self-signed Certificate'') (\<lambda>signing.
       Inr \<lparr>ac_adminGroup = admin, ac_builtinAdminGroup = builtin, ac_groupLadder = parseGroupLadder ladder,
            ac_outpostName = outpost, ac_outpostPort = port, ac_authorizationFlowSlug = flow,
            ac_invalidationFlowSlug = inval, ac_oidcSigningKeyName = signing\<rparr>))))))))"

definition authentikConfigured :: "config_reader \<Rightarrow> config_error + bool" where
  "authentikConfigured cv =
     sum_bind (cv ''authentikApiUrl'') (\<lambda>url.
       if url = None then Inr False
       else map_sum id (\<lambda>token. token \<noteq> None) (cv ''authentikApiToken''))"

text \<open>\<open>overrides k\<close> is \<open>None\<close> when the request does not touch \<open>k\<close>, \<open>Some None\<close> when it clears it.\<close>

definition adminGroupsWith ::
  "(string \<Rightarrow> string option option) \<Rightarrow> config_reader \<Rightarrow> config_error + (string \<times> string)" where
  "adminGroupsWith overrides cv =
     sum_bind (authentikConfig cv) (\<lambda>now.
       let pick = (\<lambda>key default current.
             case overrides key of None \<Rightarrow> current | Some None \<Rightarrow> default | Some (Some v) \<Rightarrow> v)
       in Inr (pick ''authentikAdminGroup'' ''bellhop-admins'' (ac_adminGroup now),
               pick ''authentikBuiltinAdminGroup'' ''authentik Admins'' (ac_builtinAdminGroup now)))"

definition rungsAtOrAbove :: "string list \<Rightarrow> string \<Rightarrow> string list option" where
  "rungsAtOrAbove ladder grp =
     (if grp \<in> set ladder then Some (dropWhile (\<lambda>g. g \<noteq> grp) ladder) else None)"

section \<open>The accessor over time\<close>

text \<open>
  One process and the database file it shares with others.  \<open>cw_moments\<close> records, since this process last
  wrote, the clock and the database at each read: it is what the freshness of a value is measured against.
\<close>

record config_world =
  cw_db :: inventory_db
  cw_snapshot :: "snapshot option"
  cw_moments :: "(ms \<times> inventory_db) list"

datatype config_event =
    OtherWrites inventory_db
  | Saves inventory_db
  | WritesSecret string string
  | ClearsSecret string
  | Reads ms

definition start_config :: "inventory_db \<Rightarrow> config_world" where
  "start_config db = \<lparr>cw_db = db, cw_snapshot = None, cw_moments = []\<rparr>"

definition own_write :: "inventory_db \<times> snapshot option \<Rightarrow> config_world \<Rightarrow> config_world" where
  "own_write p w = w\<lparr>cw_db := fst p, cw_snapshot := snd p, cw_moments := []\<rparr>"

fun config_step :: "url_parser \<Rightarrow> config_event \<Rightarrow> config_world \<Rightarrow> config_world" where
  "config_step u (OtherWrites db) w = w\<lparr>cw_db := db\<rparr>"
| "config_step u (Saves db) w = own_write (db, None) w"
| "config_step u (WritesSecret k v) w =
     (case writeSecret u k v (cw_db w, cw_snapshot w) of Inl _ \<Rightarrow> w | Inr p \<Rightarrow> own_write p w)"
| "config_step u (ClearsSecret k) w = own_write (clearSecret k (cw_db w, cw_snapshot w)) w"
| "config_step u (Reads now) w =
     w\<lparr>cw_snapshot := fst (storedValues now (cw_db w) (cw_snapshot w)), cw_moments := (now, cw_db w) # cw_moments w\<rparr>"

definition config_run :: "url_parser \<Rightarrow> config_event list \<Rightarrow> config_world \<Rightarrow> config_world" where
  "config_run u es w = fold (config_step u) es w"

definition config_ok :: "config_world \<Rightarrow> bool" where
  "config_ok w \<longleftrightarrow>
     (\<forall>s. cw_snapshot w = Some s \<longrightarrow>
        (\<exists>db. (sn_readAt s, db) \<in> set (cw_moments w) \<and> sn_stored s = readStored db))"

lemma writeSecret_snapshot: "writeSecret u k v st = Inr p \<Longrightarrow> snd p = None"
  by (auto simp: writeSecret_def split: if_splits)

lemma config_step_ok: "config_ok w \<Longrightarrow> config_ok (config_step u e w)"
proof (cases e)
  case (Reads now)
  then show "config_ok w \<Longrightarrow> config_ok (config_step u e w)"
    by (auto simp: config_ok_def storedValues_def Let_def split: option.splits if_splits)
qed (auto simp: config_ok_def own_write_def clearSecret_def writeSecret_snapshot split: sum.splits)

lemma config_run_ok: "config_ok w \<Longrightarrow> config_ok (config_run u es w)"
  unfolding config_run_def by (induction es arbitrary: w) (simp_all add: config_step_ok)

text \<open>
  C37: Whatever this process and others read and write, in any order and with any clock, a setting read now
  is decided by the environment first and then by the stored rows as they were at some read less than two
  seconds ago and not before this process's own last write: one's own save is always seen at once.
\<close>

theorem settings_are_at_most_two_seconds_old:
  assumes "w = config_run u es (start_config db)"
  shows "\<exists>t db'. (t, db') \<in> set ((now, cw_db w) # cw_moments w) \<and> 0 \<le> now - t \<and> now - t < 2000 \<and>
    snd (configValueAt u now (cw_db w) key env (cw_snapshot w)) =
      effectiveValue u key (jm_get (readStored db') key) env"
proof -
  have ok: "config_ok w" unfolding assms by (rule config_run_ok) (simp add: config_ok_def start_config_def)
  show ?thesis
  proof (cases "snd (storedValues now (cw_db w) (cw_snapshot w)) = readStored (cw_db w)")
    case True
    then have "snd (configValueAt u now (cw_db w) key env (cw_snapshot w)) =
        effectiveValue u key (jm_get (readStored (cw_db w)) key) env"
      by (simp add: configValueAt_def split_beta)
    then show ?thesis by (intro exI [of _ now] exI [of _ "cw_db w"]) simp
  next
    case False
    then obtain s where s: "cw_snapshot w = Some s" "0 \<le> now - sn_readAt s" "now - sn_readAt s < 2000"
        "snd (storedValues now (cw_db w) (cw_snapshot w)) = sn_stored s"
      by (auto simp: storedValues_def Let_def CONFIG_SNAPSHOT_TTL_MS_def split: option.splits if_splits)
    then obtain db' where "(sn_readAt s, db') \<in> set (cw_moments w)" "sn_stored s = readStored db'"
      using ok by (auto simp: config_ok_def)
    with s show ?thesis by (intro exI [of _ "sn_readAt s"] exI [of _ db']) (simp add: configValueAt_def split_beta)
  qed
qed

theorem settings_are_at_most_two_seconds_old_witness:
  "\<exists>t db'. 0 \<le> 1500 - t \<and> 1500 - t < (2000 :: ms) \<and>
    snd (configValueAt (\<lambda>_. None) 1500
           (cw_db (config_run (\<lambda>_. None) [Reads 1000, OtherWrites (empty_db [(''npmApiEmail'', ''a'')])] (start_config (empty_db []))))
           ''npmApiEmail'' (\<lambda>_. None)
           (cw_snapshot (config_run (\<lambda>_. None) [Reads 1000, OtherWrites (empty_db [(''npmApiEmail'', ''a'')])] (start_config (empty_db []))))) =
      effectiveValue (\<lambda>_. None) ''npmApiEmail'' (jm_get (readStored db') ''npmApiEmail'') (\<lambda>_. None)"
  using settings_are_at_most_two_seconds_old [OF refl] by blast

section \<open>The ladder\<close>

lemma parseGroupLadder_distinct: "distinct (parseGroupLadder raw)"
  by (simp add: parseGroupLadder_def)

lemma rungs_suffix:
  "rungsAtOrAbove ladder g = Some rungs \<Longrightarrow> \<exists>pre rest. ladder = pre @ rungs \<and> rungs = g # rest \<and> g \<notin> set pre"
proof -
  assume r: "rungsAtOrAbove ladder g = Some rungs"
  then have g: "g \<in> set ladder" "rungs = dropWhile (\<lambda>x. x \<noteq> g) ladder" by (auto simp: rungsAtOrAbove_def split: if_splits)
  then have "rungs \<noteq> []" "hd rungs = g" using hd_dropWhile [of "\<lambda>x. x \<noteq> g" ladder] by auto
  moreover have "ladder = takeWhile (\<lambda>x. x \<noteq> g) ladder @ rungs" using g(2) by simp
  moreover have "g \<notin> set (takeWhile (\<lambda>x. x \<noteq> g) ladder)" by (auto dest: set_takeWhileD)
  ultimately show ?thesis by (metis list.collapse)
qed

end
