(* ===== verification/Guest_Edit.thy ===== *)
theory Guest_Edit
  imports File_Proxies Access_Control Config_Values
begin

text \<open>
  Editing a guest: \<open>src/src/operations/edit-guest.ts\<close>, the caller checks of the Dashboard's PATCH route
  (\<open>src/src/web/routes/dashboard.ts\<close>) and the guard of Bellhop's own sign-in
  (\<open>src/src/web/login/config.ts\<close>, \<open>managed.ts\<close>).  \<open>commitGuestEdit\<close> is cut where it waits for the TLS
  probe of the backend, so that other edits run in between: \<open>commit_start\<close> is what happens before,
  \<open>commit_finish\<close> what happens after.  Pushing the saved edit to the proxy is \<open>planSync\<close> and the driver.
\<close>

section \<open>The edited entry\<close>

type_synonym request_body = "(string \<times> json) list"

definition asDelimited :: "json \<Rightarrow> json" where
  "asDelimited v =
     (case v of
        JArr vs \<Rightarrow> JStr (join_with '';'' (map (\<lambda>w. if w = JNull \<or> w = JUndef then [] else js_String w) vs))
      | _ \<Rightarrow> v)"

definition on_field ::
  "request_body \<Rightarrow> string \<Rightarrow> (json \<Rightarrow> guest_entry \<Rightarrow> edit_error + guest_entry) \<Rightarrow> guest_entry \<Rightarrow> edit_error + guest_entry" where
  "on_field body k f g = (case map_of body k of None \<Rightarrow> Inr g | Some v \<Rightarrow> f v g)"

definition edit_port :: "json \<Rightarrow> guest_entry \<Rightarrow> edit_error + guest_entry" where
  "edit_port v g =
     map_sum id (\<lambda>p. g\<lparr>e_port := p\<rparr>) (parsePort (case v of JNum n \<Rightarrow> JStr (show_int n) | _ \<Rightarrow> v))"

definition edit_steps :: "url_parser \<Rightarrow> (string \<times> (json \<Rightarrow> guest_entry \<Rightarrow> edit_error + guest_entry)) list" where
  "edit_steps u =
       [(''subdomains'', \<lambda>v g. Inr (g\<lparr>e_subdomains := parseSubdomains (asDelimited v)\<rparr>)),
        (''port'', edit_port),
        (''proxyManual'', \<lambda>v g. Inr (g\<lparr>e_proxyManual := Some (truthy_json v)\<rparr>)),
        (''insecureBackendTls'', \<lambda>v g. Inr (g\<lparr>e_insecureBackendTls := Some (truthy_json v)\<rparr>)),
        (''bellhop'', \<lambda>v g. Inr (g\<lparr>g_bellhop := (if v = JBool True then Some True else None)\<rparr>)),
        (''authGroup'', \<lambda>v g. map_sum id (\<lambda>x. g\<lparr>e_authGroup := x\<rparr>) (parseAuthGroup v)),
        (''unauthenticatedPaths'',
           \<lambda>v g. map_sum id (\<lambda>x. g\<lparr>e_unauthenticatedPaths := x\<rparr>) (parseUnauthenticatedPaths (asDelimited v))),
        (''authMode'', \<lambda>v g. map_sum id (\<lambda>x. g\<lparr>e_authMode := x\<rparr>) (parseAuthMode v)),
        (''oidcRedirectUris'',
           \<lambda>v g. map_sum id (\<lambda>x. g\<lparr>e_oidcRedirectUris := x\<rparr>) (parseOidcRedirectUris u (asDelimited v))),
        (''oidcMobileRedirectUris'',
           \<lambda>v g. map_sum id (\<lambda>x. g\<lparr>e_oidcMobileRedirectUris := x\<rparr>) (parseOidcMobileRedirectUris u (asDelimited v)))]"

definition applyGuestEdits :: "url_parser \<Rightarrow> guest_entry \<Rightarrow> request_body \<Rightarrow> edit_error + guest_entry" where
  "applyGuestEdits u current body =
     foldl (\<lambda>acc (k, f). sum_bind acc (on_field body k f)) (Inr current) (edit_steps u)"

section \<open>Who may make the edit\<close>

datatype patch_reason =
    NoAccess
  | UnknownGuest
  | BadEdit edit_error
  | OidcFieldsForAdmins
  | BellhopFlagForAdmins
  | GateRemovalForAdmins
  | UnknownAuthGroup string
  | OffLadderForAdmins
  | WideningForAdmins
  | ExemptionNeedsReach
  | InvalidEdit
  | ConfirmationNeeded
  | SignInLockout
  | CapabilityMissing
  | ServerError

definition indexOf :: "string list \<Rightarrow> string \<Rightarrow> nat option" where
  "indexOf xs x = (if x \<in> set xs then Some (length (takeWhile (\<lambda>y. y \<noteq> x) xs)) else None)"

definition authGroupChangeError ::
  "string option \<Rightarrow> string option \<Rightarrow> string list \<Rightarrow> bool \<Rightarrow> (nat \<times> patch_reason) option" where
  "authGroupChangeError cur nxt ladder isAdmin =
     (case nxt of
        None \<Rightarrow> if cur = None \<or> isAdmin then None else Some (403, GateRemovalForAdmins)
      | Some g \<Rightarrow>
          (case indexOf ladder g of
             None \<Rightarrow> Some (400, UnknownAuthGroup g)
           | Some nextIdx \<Rightarrow>
               if isAdmin then None
               else (case cur of
                  None \<Rightarrow> None
                | Some c \<Rightarrow>
                    (case indexOf ladder c of
                       None \<Rightarrow> Some (403, OffLadderForAdmins)
                     | Some curIdx \<Rightarrow> if nextIdx < curIdx then Some (403, WideningForAdmins) else None))))"

definition unauthenticatedPathsChangeError ::
  "string list option \<Rightarrow> string list option \<Rightarrow> string option \<Rightarrow> string list \<Rightarrow> bool \<Rightarrow> string list \<Rightarrow>
   (nat \<times> patch_reason) option" where
  "unauthenticatedPathsChangeError cur nxt resultingAuthGroup ladder isAdmin callerGroups =
     (if isAdmin then None
      else if filter (\<lambda>p. p \<notin> set (or_empty cur)) (or_empty nxt) = [] then None
      else if \<not> has_text resultingAuthGroup then None
      else case rungsAtOrAbove ladder (the resultingAuthGroup) of
             None \<Rightarrow> Some (403, ExemptionNeedsReach)
           | Some rungs \<Rightarrow>
               if list_ex (\<lambda>g. g \<in> set rungs) callerGroups then None else Some (403, ExemptionNeedsReach))"

definition oidcEditChangeError :: "guest_entry \<Rightarrow> guest_entry \<Rightarrow> bool \<Rightarrow> (nat \<times> patch_reason) option" where
  "oidcEditChangeError current updated isAdmin =
     (if isAdmin then None
      else if e_authMode current \<noteq> e_authMode updated \<or>
              or_empty (e_oidcRedirectUris current) \<noteq> or_empty (e_oidcRedirectUris updated) \<or>
              or_empty (e_oidcMobileRedirectUris current) \<noteq> or_empty (e_oidcMobileRedirectUris updated)
      then Some (403, OidcFieldsForAdmins) else None)"

section \<open>Bellhop's own sign-in\<close>

definition callbackUri :: "url_parser \<Rightarrow> string list option \<Rightarrow> string option" where
  "callbackUri u uris =
     find (\<lambda>uri. case u uri of None \<Rightarrow> False | Some url \<Rightarrow> up_pathname url = ''/auth/callback'') (or_empty uris)"

text \<open>Whether \<open>managedGuestProblem\<close> returns a problem.\<close>

definition managedGuestProblem :: "url_parser \<Rightarrow> inventory \<Rightarrow> bool" where
  "managedGuestProblem u iv \<longleftrightarrow>
     (case find (\<lambda>g. flagged (g_bellhop g)) (i_guests iv) of
        None \<Rightarrow> True
      | Some g \<Rightarrow>
          effectiveAuth g \<noteq> Some Oidc \<or>
          (case callbackUri u (e_oidcRedirectUris g) of
             None \<Rightarrow> True
           | Some uri \<Rightarrow> \<not> webUiOidcRedirectUri_ok u uri))"

definition WEB_LOGIN_KEYS :: "string list" where
  "WEB_LOGIN_KEYS = [''webUiOidcIssuer'', ''webUiOidcClientId'', ''webUiOidcRedirectUri'', ''webUiOidcClientSecret'']"

text \<open>\<open>configValue\<close> at one moment, with the source.\<close>

type_synonym source_reader = "string \<Rightarrow> config_error + (string option \<times> config_source)"

text \<open>Whether \<open>readCustom\<close> returns a complete set; \<open>False\<close> also where it throws.\<close>

definition customComplete :: "url_parser \<Rightarrow> source_reader \<Rightarrow> bool" where
  "customComplete u cv \<longleftrightarrow>
     list_all (\<lambda>key. case cv key of
         Inr (Some v, src) \<Rightarrow>
           (src = FromEnvironment \<longrightarrow> (case settingSchema u key of None \<Rightarrow> False | Some test \<Rightarrow> test v))
       | _ \<Rightarrow> False) WEB_LOGIN_KEYS"

definition managedLoginLockoutError :: "url_parser \<Rightarrow> source_reader \<Rightarrow> inventory \<Rightarrow> inventory \<Rightarrow> config_error + bool" where
  "managedLoginLockoutError u cv before after =
     map_sum id (\<lambda>mode.
       fst mode = Some ''oidc'' \<and> \<not> customComplete u cv \<and>
       \<not> managedGuestProblem u before \<and> managedGuestProblem u after) (cv ''webUiAuthMode'')"

section \<open>commitGuestEdit\<close>

definition editDeletesOidcClient :: "guest_entry \<Rightarrow> guest_entry \<Rightarrow> bool" where
  "editDeletesOidcClient current updated \<longleftrightarrow>
     effectiveAuth current = Some Oidc \<and> effectiveAuth updated \<noteq> Some Oidc"

text \<open>The edit waiting for its probe: the guest list made before the wait, and where the edited guest is.\<close>

record pending_edit =
  pe_guests :: "guest_entry list"
  pe_index :: nat
  pe_probe :: bool

definition needs_probe :: "guest_entry \<Rightarrow> bool \<Rightarrow> bool" where
  "needs_probe updated touchedRouting \<longleftrightarrow>
     touchedRouting \<and> e_port updated \<noteq> None \<and> has_text (e_ip updated) \<and>
     or_empty (e_subdomains updated) \<noteq> [] \<and> \<not> flagged (e_proxyManual updated)"

definition own_capability_ok :: "inventory \<Rightarrow> string \<Rightarrow> (nat \<times> patch_reason) option" where
  "own_capability_ok iv name =
     (case buildRouteForEntry iv (OwnGuest, name) of
        Inl _ \<Rightarrow> Some (500, ServerError)
      | Inr None \<Rightarrow> None
      | Inr (Some r) \<Rightarrow>
          (case getDriver iv of
             None \<Rightarrow> Some (500, ServerError)
           | Some d \<Rightarrow> if checkCapabilities [r] d \<noteq> [] then Some (400, CapabilityMissing) else None))"

definition commit_start ::
  "url_parser \<Rightarrow> source_reader \<Rightarrow> inventory \<Rightarrow> string \<Rightarrow> guest_entry \<Rightarrow> bool \<Rightarrow> bool \<Rightarrow> (nat \<times> patch_reason) + pending_edit" where
  "commit_start u cv iv name updated touchedRouting confirmed =
     (case find (\<lambda>i. e_name (i_guests iv ! i) = name) [0..<length (i_guests iv)] of
        None \<Rightarrow> Inl (500, ServerError)
      | Some idx \<Rightarrow>
          let current = i_guests iv ! idx;
              guests = (i_guests iv)[idx := updated];
              after = iv\<lparr>i_guests := guests\<rparr>
          in if editDeletesOidcClient current updated \<and> \<not> confirmed then Inl (400, ConfirmationNeeded)
             else if validateInventory after \<noteq> [] then Inl (400, InvalidEdit)
             else case managedLoginLockoutError u cv iv after of
                    Inl _ \<Rightarrow> Inl (500, ServerError)
                  | Inr locked \<Rightarrow>
                      if locked then Inl (400, SignInLockout)
                      else if oidcConfigErrors updated
                                (or_empty (e_oidcRedirectUris current) \<noteq> or_empty (e_oidcRedirectUris updated) \<or>
                                 or_empty (e_oidcMobileRedirectUris current) \<noteq>
                                   or_empty (e_oidcMobileRedirectUris updated)) \<noteq> []
                      then Inl (400, InvalidEdit)
                      else case own_capability_ok after name of
                             Some refusal \<Rightarrow> Inl refusal
                           | None \<Rightarrow> Inr \<lparr>pe_guests = guests, pe_index = idx,
                                          pe_probe = needs_probe updated touchedRouting\<rparr>)"

datatype probe_result = ProbeInsecure | ProbeTrusted | ProbeInconclusive

definition interpretCurlExitCode :: "int \<Rightarrow> probe_result" where
  "interpretCurlExitCode c =
     (if c = 60 \<or> c = 51 then ProbeInsecure else if c = 0 \<or> c = 35 then ProbeTrusted else ProbeInconclusive)"

definition probed_guests :: "pending_edit \<Rightarrow> probe_result \<Rightarrow> guest_entry list" where
  "probed_guests p res =
     (if \<not> pe_probe p \<or> res = ProbeInconclusive then pe_guests p
      else (pe_guests p)[pe_index p :=
             (pe_guests p ! pe_index p)\<lparr>e_insecureBackendTls := Some (res = ProbeInsecure)\<rparr>])"

text \<open>The web process: its in-memory inventory and the database file.\<close>

type_synonym edit_world = "inventory \<times> inventory_db"

definition commit_finish :: "url_parser \<Rightarrow> pending_edit \<Rightarrow> probe_result \<Rightarrow> edit_world \<Rightarrow> (nat \<times> patch_reason) + edit_world" where
  "commit_finish u p res w =
     (let guests = probed_guests p res in
      case withFreshSettings u (snd w) ((fst w)\<lparr>i_guests := guests\<rparr>) of
        Inl _ \<Rightarrow> Inl (500, ServerError)
      | Inr fresh \<Rightarrow>
          (case saveInventory fresh (snd w) of
             Inl _ \<Rightarrow> Inl (500, ServerError)
           | Inr db \<Rightarrow> Inr ((fst w)\<lparr>i_guests := guests\<rparr>, db)))"

section \<open>The PATCH route\<close>

definition guest_view_of :: "(string \<Rightarrow> ms option) \<Rightarrow> guest_entry \<Rightarrow> guest_view" where
  "guest_view_of parseDate g =
     \<lparr>gv_name = e_name g,
      gv_creator = map_option (\<lambda>c. \<lparr>gc_username = cr_username c, gc_uid = cr_uid c,
                                     gc_since = Option.bind (cr_since c) parseDate\<rparr>) (g_creator g)\<rparr>"

definition view_of :: "(string \<Rightarrow> ms option) \<Rightarrow> inventory \<Rightarrow> inventory_view" where
  "view_of parseDate iv =
     \<lparr>iv_hosts = map e_name (i_hosts iv), iv_guests = map (guest_view_of parseDate) (i_guests iv)\<rparr>"

definition caller_problem ::
  "request_body \<Rightarrow> guest_entry \<Rightarrow> guest_entry \<Rightarrow> string list \<Rightarrow> bool \<Rightarrow> string list \<Rightarrow> (nat \<times> patch_reason) option" where
  "caller_problem body current updated ladder isAdmin groups =
     (let touched = (\<lambda>k. map_of body k \<noteq> None);
          checks =
            [if touched ''authMode'' \<or> touched ''oidcRedirectUris'' \<or> touched ''oidcMobileRedirectUris''
             then oidcEditChangeError current updated isAdmin else None,
             if touched ''bellhop'' \<and> flagged (g_bellhop current) \<noteq> flagged (g_bellhop updated) \<and> \<not> isAdmin
             then Some (403, BellhopFlagForAdmins) else None,
             if touched ''authGroup''
             then authGroupChangeError (e_authGroup current) (e_authGroup updated) ladder isAdmin else None,
             if touched ''unauthenticatedPaths''
             then unauthenticatedPathsChangeError (e_unauthenticatedPaths current) (e_unauthenticatedPaths updated)
                    (e_authGroup updated) ladder isAdmin groups else None]
      in (case List.map_filter id checks of [] \<Rightarrow> None | problem # _ \<Rightarrow> Some problem))"

record patch_env =
  pa_url :: url_parser
  pa_settings :: source_reader
  pa_ladder :: "string list"
  pa_admins :: admin_groups
  pa_permissions :: perm_db
  pa_parseDate :: "string \<Rightarrow> ms option"

definition user_groups :: "auth_user option \<Rightarrow> string list" where
  "user_groups user = (case user of None \<Rightarrow> [] | Some u \<Rightarrow> au_groups u)"

definition patch_guest ::
  "patch_env \<Rightarrow> auth_user option \<Rightarrow> inventory \<Rightarrow> string \<Rightarrow> request_body \<Rightarrow> (nat \<times> patch_reason) + pending_edit" where
  "patch_guest pe user iv name body =
     (if requireResourceAccess (pa_admins pe) (pa_permissions pe) (view_of (pa_parseDate pe) iv) user
           (Some \<lparr>rf_type = RGuest, rf_name = name\<rparr>) \<noteq> None
      then Inl (403, NoAccess)
      else case find (\<lambda>g. e_name g = name) (i_guests iv) of
             None \<Rightarrow> Inl (404, UnknownGuest)
           | Some current \<Rightarrow>
               (case applyGuestEdits (pa_url pe) current body of
                  Inl err \<Rightarrow> Inl (400, BadEdit err)
                | Inr updated \<Rightarrow>
                    (case caller_problem body current updated (pa_ladder pe)
                            (isAdminUser (pa_admins pe) (user_groups user)) (user_groups user) of
                       Some problem \<Rightarrow> Inl problem
                     | None \<Rightarrow>
                         commit_start (pa_url pe) (pa_settings pe) iv name updated
                           (map_of body ''subdomains'' \<noteq> None \<or> map_of body ''port'' \<noteq> None)
                           (map_of body ''confirmOidcClientDeletion'' = Some (JBool True)))))"

section \<open>What an edit leaves alone\<close>

lemma sum_bind_simps [simp]: "sum_bind (Inl e) f = Inl e" "sum_bind (Inr x) f = f x"
  by (simp_all add: sum_bind_def)

lemma foldl_bind_Inl [simp]: "foldl (\<lambda>acc (k, f). sum_bind acc (on_field body k f)) (Inl e) fs = Inl e"
  by (induction fs) auto

lemma foldl_bind_inv:
  assumes "foldl (\<lambda>acc (k, f). sum_bind acc (on_field body k f)) (Inr g) fs = Inr g'"
    and "P g" and "\<And>k f x y. (k, f) \<in> set fs \<Longrightarrow> P x \<Longrightarrow> on_field body k f x = Inr y \<Longrightarrow> P y"
  shows "P g'"
  using assms
proof (induction fs arbitrary: g)
  case Nil
  then show ?case by simp
next
  case (Cons kf fs)
  obtain k f where kf: "kf = (k, f)" by fastforce
  show ?case
  proof (cases "on_field body k f g")
    case (Inl e)
    with Cons.prems(1) kf show ?thesis by simp
  next
    case (Inr y)
    then have "P y" using Cons.prems(2,3) kf by (metis list.set_intros(1))
    moreover have "foldl (\<lambda>acc (k, f). sum_bind acc (on_field body k f)) (Inr y) fs = Inr g'"
      using Cons.prems(1) Inr kf by simp
    ultimately show ?thesis using Cons.IH Cons.prems(3) by (metis list.set_intros(2))
  qed
qed

lemma map_sum_Inr: "map_sum f h x = Inr y \<longleftrightarrow> (\<exists>z. x = Inr z \<and> y = h z)"
  by (cases x) auto

lemma edit_step_keeps:
  assumes "(k, f) \<in> set (edit_steps u)" and "on_field body k f x = Inr y"
  shows "e_name y = e_name x \<and> e_ip y = e_ip x \<and>
    (map_of body ''authMode'' = None \<longrightarrow> e_authMode y = e_authMode x) \<and>
    (map_of body ''oidcRedirectUris'' = None \<longrightarrow> e_oidcRedirectUris y = e_oidcRedirectUris x) \<and>
    (map_of body ''oidcMobileRedirectUris'' = None \<longrightarrow> e_oidcMobileRedirectUris y = e_oidcMobileRedirectUris x) \<and>
    (map_of body ''bellhop'' = None \<longrightarrow> g_bellhop y = g_bellhop x) \<and>
    (map_of body ''authGroup'' = None \<longrightarrow> e_authGroup y = e_authGroup x) \<and>
    (map_of body ''unauthenticatedPaths'' = None \<longrightarrow> e_unauthenticatedPaths y = e_unauthenticatedPaths x)"
proof (cases "map_of body k")
  case None
  then show ?thesis using assms(2) by (simp add: on_field_def)
next
  case (Some v)
  then have "f v x = Inr y" using assms(2) by (simp add: on_field_def)
  with assms(1) Some show ?thesis
    unfolding edit_steps_def set_simps
    by (elim insertE emptyE) (auto simp: edit_port_def map_sum_Inr)
qed

lemma edits_keep:
  assumes "applyGuestEdits u current body = Inr updated"
  shows "e_name updated = e_name current \<and> e_ip updated = e_ip current \<and>
    (map_of body ''authMode'' = None \<longrightarrow> e_authMode updated = e_authMode current) \<and>
    (map_of body ''oidcRedirectUris'' = None \<longrightarrow> e_oidcRedirectUris updated = e_oidcRedirectUris current) \<and>
    (map_of body ''oidcMobileRedirectUris'' = None \<longrightarrow> e_oidcMobileRedirectUris updated = e_oidcMobileRedirectUris current) \<and>
    (map_of body ''bellhop'' = None \<longrightarrow> g_bellhop updated = g_bellhop current) \<and>
    (map_of body ''authGroup'' = None \<longrightarrow> e_authGroup updated = e_authGroup current) \<and>
    (map_of body ''unauthenticatedPaths'' = None \<longrightarrow> e_unauthenticatedPaths updated = e_unauthenticatedPaths current)"
  by (rule foldl_bind_inv [OF assms [unfolded applyGuestEdits_def]], simp) (drule (1) edit_step_keeps, simp)

section \<open>Edits by callers who are not admins\<close>

lemma find_index:
  assumes "find (\<lambda>i. P (xs ! i)) [0..<length xs] = Some i"
  shows "i < length xs \<and> find P xs = Some (xs ! i)"
proof -
  have i: "i < length xs" "P (xs ! i)" "\<forall>j < i. \<not> P (xs ! j)"
    using assms by (auto simp: find_Some_iff)
  then have "find P xs = Some (xs ! i)" by (auto simp: find_Some_iff)
  with i(1) show ?thesis by simp
qed

lemma commit_start_pending:
  assumes "commit_start u cv iv name updated touched confirmed = Inr p"
  shows "\<exists>current. find (\<lambda>g. e_name g = name) (i_guests iv) = Some current \<and>
    pe_index p < length (i_guests iv) \<and> i_guests iv ! pe_index p = current \<and>
    pe_guests p = (i_guests iv)[pe_index p := updated] \<and>
    validateInventory (iv\<lparr>i_guests := pe_guests p\<rparr>) = [] \<and> pe_probe p = needs_probe updated touched"
  using assms unfolding commit_start_def
  by (auto simp: Let_def dest!: find_index split: option.splits if_splits sum.splits)

lemma patch_guest_pending:
  assumes "patch_guest pe user iv name body = Inr p"
  shows "\<exists>current updated. find (\<lambda>g. e_name g = name) (i_guests iv) = Some current \<and>
    applyGuestEdits (pa_url pe) current body = Inr updated \<and>
    caller_problem body current updated (pa_ladder pe) (isAdminUser (pa_admins pe) (user_groups user))
      (user_groups user) = None \<and>
    pe_index p < length (i_guests iv) \<and> i_guests iv ! pe_index p = current \<and>
    pe_guests p = (i_guests iv)[pe_index p := updated]"
proof -
  obtain current updated where c: "find (\<lambda>g. e_name g = name) (i_guests iv) = Some current"
      "applyGuestEdits (pa_url pe) current body = Inr updated"
      "caller_problem body current updated (pa_ladder pe) (isAdminUser (pa_admins pe) (user_groups user))
        (user_groups user) = None"
      "commit_start (pa_url pe) (pa_settings pe) iv name updated
         (map_of body ''subdomains'' \<noteq> None \<or> map_of body ''port'' \<noteq> None)
         (map_of body ''confirmOidcClientDeletion'' = Some (JBool True)) = Inr p"
    using assms unfolding patch_guest_def by (auto split: if_splits option.splits sum.splits)
  then show ?thesis using commit_start_pending [OF c(4)] by auto
qed

lemma caller_problem_None:
  assumes "caller_problem body current updated ladder isAdmin groups = None"
  shows "map_of body ''authMode'' \<noteq> None \<or> map_of body ''oidcRedirectUris'' \<noteq> None \<or>
      map_of body ''oidcMobileRedirectUris'' \<noteq> None \<Longrightarrow> oidcEditChangeError current updated isAdmin = None"
    and "map_of body ''bellhop'' \<noteq> None \<Longrightarrow> isAdmin \<or> flagged (g_bellhop current) = flagged (g_bellhop updated)"
    and "map_of body ''authGroup'' \<noteq> None \<Longrightarrow>
      authGroupChangeError (e_authGroup current) (e_authGroup updated) ladder isAdmin = None"
    and "map_of body ''unauthenticatedPaths'' \<noteq> None \<Longrightarrow>
      unauthenticatedPathsChangeError (e_unauthenticatedPaths current) (e_unauthenticatedPaths updated)
        (e_authGroup updated) ladder isAdmin groups = None"
proof -
  have first: "(case List.map_filter id cs of [] \<Rightarrow> None | c # _ \<Rightarrow> Some c) = None \<longleftrightarrow> (\<forall>c \<in> set cs. c = None)"
    for cs :: "(nat \<times> patch_reason) option list"
    using map_filter_Nil [of id cs] by (cases "List.map_filter id cs") simp_all
  note none = assms [unfolded caller_problem_def Let_def first list.set ball_simps]
  show "map_of body ''authMode'' \<noteq> None \<or> map_of body ''oidcRedirectUris'' \<noteq> None \<or>
      map_of body ''oidcMobileRedirectUris'' \<noteq> None \<Longrightarrow> oidcEditChangeError current updated isAdmin = None"
    using none by presburger
  show "map_of body ''bellhop'' \<noteq> None \<Longrightarrow> isAdmin \<or> flagged (g_bellhop current) = flagged (g_bellhop updated)"
    using none by (metis option.distinct(1))
  show "map_of body ''authGroup'' \<noteq> None \<Longrightarrow>
      authGroupChangeError (e_authGroup current) (e_authGroup updated) ladder isAdmin = None"
    using none by presburger
  show "map_of body ''unauthenticatedPaths'' \<noteq> None \<Longrightarrow>
      unauthenticatedPathsChangeError (e_unauthenticatedPaths current) (e_unauthenticatedPaths updated)
        (e_authGroup updated) ladder isAdmin groups = None"
    using none by presburger
qed

lemma rungs_index: "indexOf ladder g = Some i \<Longrightarrow> rungsAtOrAbove ladder g = Some (drop i ladder)"
  by (auto simp: indexOf_def rungsAtOrAbove_def dropWhile_eq_drop split: if_splits)

lemma raised_gate:
  assumes "authGroupChangeError (Some c) nxt ladder False = None"
  shows "\<exists>g rc rg. nxt = Some g \<and> rungsAtOrAbove ladder c = Some rc \<and> rungsAtOrAbove ladder g = Some rg \<and> set rg \<subseteq> set rc"
  using assms
  by (auto simp: authGroupChangeError_def rungs_index linorder_not_less intro!: set_drop_subset_set_drop
      split: option.splits if_splits)

lemma reached_exemption:
  assumes "unauthenticatedPathsChangeError cur nxt gate ladder False groups = None"
    and "path \<in> set (or_empty nxt) - set (or_empty cur)" and "has_text gate"
  shows "\<exists>rungs. rungsAtOrAbove ladder (the gate) = Some rungs \<and> set groups \<inter> set rungs \<noteq> {}"
proof -
  have "filter (\<lambda>p. p \<notin> set (or_empty cur)) (or_empty nxt) \<noteq> []"
    using assms(2) by (auto simp: filter_empty_conv)
  then show ?thesis using assms(1,3)
    by (auto simp: unauthenticatedPathsChangeError_def list_ex_iff split: option.splits if_splits)
qed

text \<open>
  C38: An edit accepted from a caller who is not an admin never lowers a gate: the guest's authentication
  mode, its callback URLs and the flag of Bellhop's own guest stay; a gate that was there is still there
  and admits no group it did not admit before; and a path exempted anew from a gate is added only by a
  member of a group that gate admits.
\<close>

theorem non_admin_edits_keep_the_gate:
  assumes "patch_guest pe user iv name body = Inr p"
    and "\<not> isAdminUser (pa_admins pe) (user_groups user)"
  shows "\<exists>current updated. find (\<lambda>g. e_name g = name) (i_guests iv) = Some current \<and>
    pe_guests p = (i_guests iv)[pe_index p := updated] \<and> i_guests iv ! pe_index p = current \<and>
    e_authMode updated = e_authMode current \<and>
    or_empty (e_oidcRedirectUris updated) = or_empty (e_oidcRedirectUris current) \<and>
    or_empty (e_oidcMobileRedirectUris updated) = or_empty (e_oidcMobileRedirectUris current) \<and>
    flagged (g_bellhop updated) = flagged (g_bellhop current) \<and>
    (\<forall>c. e_authGroup current = Some c \<longrightarrow> e_authGroup updated = Some c \<or>
       (\<exists>g rc rg. e_authGroup updated = Some g \<and> rungsAtOrAbove (pa_ladder pe) c = Some rc \<and>
          rungsAtOrAbove (pa_ladder pe) g = Some rg \<and> set rg \<subseteq> set rc)) \<and>
    (\<forall>path \<in> set (or_empty (e_unauthenticatedPaths updated)) - set (or_empty (e_unauthenticatedPaths current)).
       has_text (e_authGroup updated) \<longrightarrow>
       (\<exists>rungs. rungsAtOrAbove (pa_ladder pe) (the (e_authGroup updated)) = Some rungs \<and>
          set (user_groups user) \<inter> set rungs \<noteq> {}))"
proof -
  obtain current updated where p: "find (\<lambda>g. e_name g = name) (i_guests iv) = Some current"
      "applyGuestEdits (pa_url pe) current body = Inr updated"
      "caller_problem body current updated (pa_ladder pe) False (user_groups user) = None"
      "i_guests iv ! pe_index p = current" "pe_guests p = (i_guests iv)[pe_index p := updated]"
    using patch_guest_pending [OF assms(1)] assms(2) by auto
  note kept = edits_keep [OF p(2)] and checks = caller_problem_None [OF p(3)]
  have oidc: "e_authMode updated = e_authMode current \<and>
    or_empty (e_oidcRedirectUris updated) = or_empty (e_oidcRedirectUris current) \<and>
    or_empty (e_oidcMobileRedirectUris updated) = or_empty (e_oidcMobileRedirectUris current)"
    using kept checks(1) by (auto simp: oidcEditChangeError_def split: if_splits)
  have flag: "flagged (g_bellhop updated) = flagged (g_bellhop current)" using kept checks(2) by metis
  have gate: "e_authGroup updated = Some c \<or>
       (\<exists>g rc rg. e_authGroup updated = Some g \<and> rungsAtOrAbove (pa_ladder pe) c = Some rc \<and>
          rungsAtOrAbove (pa_ladder pe) g = Some rg \<and> set rg \<subseteq> set rc)" if "e_authGroup current = Some c" for c
    using kept checks(3) raised_gate that by (metis option.distinct(1))
  have paths: "\<exists>rungs. rungsAtOrAbove (pa_ladder pe) (the (e_authGroup updated)) = Some rungs \<and>
          set (user_groups user) \<inter> set rungs \<noteq> {}"
    if "path \<in> set (or_empty (e_unauthenticatedPaths updated)) - set (or_empty (e_unauthenticatedPaths current))"
      "has_text (e_authGroup updated)" for path
    using kept checks(4) reached_exemption [OF _ that] that by fastforce
  show ?thesis using p(1,4,5) oidc flag gate paths by blast
qed

section \<open>A subdomain with line feeds\<close>

text \<open>A subdomain of three lines between two harmless ones: the tag of the first here-document, and a command.\<close>

definition line_breaking_subdomain :: "string \<Rightarrow> string" where
  "line_breaking_subdomain cmd = ''x'' @ LF @ heredoc_tag 0 @ LF @ cmd @ LF @ ''x''"

lemma parse_line_breaking:
  assumes "CHR '';'' \<notin> set cmd"
  shows "parseSubdomains (JStr (line_breaking_subdomain cmd)) = Some [line_breaking_subdomain cmd]"
proof -
  let ?s = "line_breaking_subdomain cmd"
  have zero: "heredoc_tag 0 = ''BELLHOP_FILE_0''" by code_simp
  have x: "\<not> js_space (CHR ''x'')" by code_simp
  have ends: "?s = ''x'' @ (LF @ heredoc_tag 0 @ LF @ cmd @ LF) @ ''x''" by (simp add: line_breaking_subdomain_def)
  have trim: "trim_text ?s = ?s" unfolding ends using x by (simp add: trim_text_def)
  have "CHR '';'' \<notin> set ?s" using assms by (simp add: line_breaking_subdomain_def zero LF_def)
  then have "split_on (CHR '';'') ?s = [?s]" by (rule split_on_no_sep)
  moreover have "?s \<noteq> []" by (simp add: line_breaking_subdomain_def)
  ultimately show ?thesis using trim by (simp add: parseSubdomains_def split_list_def none_if_empty_def uniq_def js_add_def)
qed

lemma sublist_grow: "sublist t x \<Longrightarrow> sublist t (a @ x @ b)"
  unfolding sublist_def by (metis append.assoc)

lemma sublist_join: "x \<in> set xs \<Longrightarrow> sublist t x \<Longrightarrow> sublist t (join_with sep xs)"
proof (induction sep xs rule: join_with.induct)
  case (3 sep x' y ys)
  then consider "x = x'" | "sublist t (join_with sep (y # ys))" by auto
  then show ?case
  proof cases
    case 1
    then show ?thesis using sublist_grow [OF 3(3), of "[]" "sep @ join_with sep (y # ys)"] by simp
  next
    case 2
    then show ?thesis using sublist_grow [OF 2, of "x' @ sep" "[]"] by simp
  qed
qed auto

lemma sublist_forged:
  assumes "sublist (LF @ heredoc_tag i @ LF @ cmd @ LF) s" and "CHR 10 \<notin> set cmd"
  shows "\<exists>pre post. text_lines s = pre @ heredoc_tag i # cmd # post"
proof -
  obtain a b where "s = a @ (LF @ heredoc_tag i @ LF @ cmd @ LF) @ b" using assms(1) by (auto simp: sublist_def)
  then have s: "s = a @ CHR 10 # heredoc_tag i @ CHR 10 # cmd @ CHR 10 # b" by (simp add: LF_def)
  have "text_lines s = text_lines a @ heredoc_tag i # cmd # text_lines b"
    unfolding s text_lines_def split_on_sep
    using split_on_no_sep [OF heredoc_tag_no_lf] split_on_no_sep [OF assms(2)] by simp
  then show ?thesis by blast
qed

lemma hostname_rendered:
  assumes "def = caddy_def \<or> def = nginx_def" and "plan_files def routes ctx configPath = Inr files"
    and "r \<in> set routes" and "h \<in> set (rt_hostnames r)" and "sublist t h"
  shows "\<exists>f. files = [f] \<and> sublist t (fs_content f)"
proof -
  have host: "sublist t (join_with sep (rt_hostnames r))" for sep using sublist_join assms(4,5) by blast
  from assms(1) show ?thesis
  proof
    assume d: "def = caddy_def"
    have tls: "tlsClause ctx \<noteq> None"
      using assms(2,3) unfolding d by (auto simp: caddy_def_def plan_files_def render_caddy_def split: if_splits)
    then obtain ls where ls: "caddy_site r ctx = Some ((join_with '', '' (rt_hostnames r) @ '' {'') # ls)"
      by (auto simp: caddy_site_def)
    let ?body = "join_with LF (concat (map (\<lambda>r. the (caddy_site r ctx)) routes))"
    have "(join_with '', '' (rt_hostnames r) @ '' {'') \<in> set (concat (map (\<lambda>r. the (caddy_site r ctx)) routes))"
      using assms(3) ls by force
    moreover have "sublist t (join_with '', '' (rt_hostnames r) @ '' {'')"
      using sublist_grow [OF host, of "[]"] by simp
    ultimately have body: "sublist t ?body" by (rule sublist_join)
    have "sublist t (wrapManagedSection ?body)"
    proof (cases "?body = []")
      case True
      then show ?thesis using body by simp
    next
      case False
      then show ?thesis unfolding wrapManagedSection_def by (intro sublist_join [OF _ body]) simp
    qed
    moreover have "\<exists>f. files = [f] \<and> fs_content f = wrapManagedSection ?body"
      using tls assms(2) unfolding d by (auto simp: caddy_def_def plan_files_def render_caddy_def wrap_spec_def)
    ultimately show ?thesis by auto
  next
    assume d: "def = nginx_def"
    let ?line = "''    server_name '' @ join_with '' '' (rt_hostnames r) @ '';''"
    have "?line \<in> set (renderServerBlock r ctx)" by (simp add: renderServerBlock_def)
    then have "?line \<in> set (render_nginx routes ctx)" using assms(3) unfolding render_nginx_def by auto
    moreover have "sublist t ?line" using host by (rule sublist_grow)
    ultimately have "sublist t (join_with LF (render_nginx routes ctx))" by (rule sublist_join)
    moreover have "\<exists>f. files = [f] \<and> fs_content f = join_with LF (render_nginx routes ctx)"
      using assms(2) unfolding d by (auto simp: nginx_def_def plan_files_def render_nginx_file_def wrap_spec_def)
    ultimately show ?thesis by auto
  qed
qed

text \<open>
  C39: A caller who is not an admin but has access to a guest may give it a subdomain that holds line feeds,
  and nothing on the way to the proxy host takes them out: under Caddy or nginx, once the edited inventory
  loads and is synchronised, the chosen line is not read into the here-document but follows it, where the
  root shell on the proxy host reads its commands.
\<close>

theorem edited_subdomain_becomes_a_command:
  assumes "CHR 10 \<notin> set cmd" and "CHR '';'' \<notin> set cmd"
    and "patch_guest pe user before_edit name [(''subdomains'', JStr (line_breaking_subdomain cmd))] = Inr p"
    and "loadInventory u db = Inr iv" and "planSync iv port = Inr (Some (d, routes, ctx))"
    and "pe_guests p ! pe_index p \<in> set (i_guests iv)" and "\<not> flagged (e_proxyManual (pe_guests p ! pe_index p))"
    and "def = caddy_def \<or> def = nginx_def" and "plan_files def routes ctx configPath = Inr files"
  shows "\<exists>before after. text_lines (apply_script def configPath files) = before @ text_lines (open_line 0 (files ! 0)) @ after \<and>
    cmd \<in> set (snd (here_document (heredoc_tag 0) after))"
proof -
  let ?evil = "line_breaking_subdomain cmd" and ?g = "pe_guests p ! pe_index p"
  obtain current where c: "applyGuestEdits (pa_url pe) current [(''subdomains'', JStr ?evil)] = Inr ?g"
    using patch_guest_pending [OF assms(3)] by (metis nth_list_update_eq)
  have "e_subdomains ?g = Some [?evil]"
  proof -
    have "?g = current\<lparr>e_subdomains := Some [?evil]\<rparr>"
      using c parse_line_breaking [OF assms(2)] by (simp add: applyGuestEdits_def edit_steps_def on_field_def asDelimited_def)
    then show ?thesis by simp
  qed
  then have subs: "e_subdomains (guest_candidate ?g) = Some [?evil]" and "\<not> flagged (e_proxyManual (guest_candidate ?g))"
    using assms(7) by (simp_all add: guest_candidate_def proxy_candidate.defs)
  then have route: "hasRoute (guest_candidate ?g)" by (simp add: hasRoute_def)
  let ?r = "route_of (i_domain iv) OwnGuest (guest_candidate ?g)"
  have "(OwnGuest, guest_candidate ?g) \<in> set (candidates iv)" using assms(6) by (auto simp: candidates_def)
  then have r: "?r \<in> set routes" by (rule planSync_routes(1) [OF assms(4,5) _ route])
  have h: "publicHostname ?evil (i_domain iv) \<in> set (rt_hostnames ?r)" using subs by (simp add: route_of_def)
  let ?t = "LF @ heredoc_tag 0 @ LF @ cmd @ LF"
  have "publicHostname ?evil (i_domain iv) = ''x'' @ ?t @ (''x.'' @ i_domain iv)"
    by (simp add: publicHostname_def line_breaking_subdomain_def)
  then have "sublist ?t (publicHostname ?evil (i_domain iv))" unfolding sublist_def by blast
  then obtain f where f: "files = [f]" "sublist ?t (fs_content f)"
    using hostname_rendered [OF assms(8,9) r h] by blast
  obtain pre post where lines: "text_lines (fs_content f) = pre @ heredoc_tag 0 # cmd # post"
    using sublist_forged [OF f(2) assms(1)] by blast
  show ?thesis
    using script_shape [of 0 files "fd_validateCommand def configPath" "fd_reloadCommand def" "fd_validateLabel def"] f(1)
      forged_line_runs [OF lines] unfolding apply_script_def by fastforce
qed

definition family_member :: auth_user where
  "family_member = \<lparr>au_username = ''ann'', au_email = None, au_groups = [''family''], au_impersonating = None,
     au_localOperator = False, au_uid = None, au_viaOidc = True\<rparr>"

definition demo_env :: patch_env where
  "demo_env = \<lparr>pa_url = (\<lambda>_. None), pa_settings = (\<lambda>_. Inr (None, FromNothing)), pa_ladder = [''public'', ''family'', ''admins''],
     pa_admins = \<lparr>ag_adminGroup = ''admins'', ag_builtinAdminGroup = ''authentik Admins''\<rparr>,
     pa_permissions = \<lparr>pd_groups = [], pd_rules = []\<rparr>, pa_parseDate = (\<lambda>_. None)\<rparr>"

definition demo_edit :: "(nat \<times> patch_reason) + pending_edit" where
  "demo_edit = patch_guest demo_env (Some family_member) sample_inventory ''wiki''
     [(''subdomains'', JStr (line_breaking_subdomain ''id''))]"

definition edited_wiki :: guest_entry where
  "edited_wiki = (hd (i_guests sample_inventory))\<lparr>e_subdomains := Some [line_breaking_subdomain ''id'']\<rparr>"

definition edited_inventory :: inventory where
  "edited_inventory = sample_inventory\<lparr>i_guests := edited_wiki # tl (i_guests sample_inventory)\<rparr>"

lemma demo_edit_accepted:
  "case demo_edit of Inl _ \<Rightarrow> False | Inr p \<Rightarrow> pe_index p = 0 \<and> pe_guests p ! 0 = edited_wiki"
  by code_simp

lemma demo_caller_no_admin: "\<not> isAdminUser (pa_admins demo_env) (user_groups (Some family_member))"
  by code_simp

lemma edited_inventory_saves: "isl (saveInventory edited_inventory empty_inventory_db) = False"
  by code_simp

lemma edited_inventory_accepted: "InventorySchema (\<lambda>_. None) edited_inventory" "numeric_ips edited_inventory"
  by code_simp+

lemma edited_wiki_stored:
  "list_ex (\<lambda>g. g = edited_wiki) (i_guests (stored_form edited_inventory))" "\<not> flagged (e_proxyManual edited_wiki)"
  by code_simp+

lemma edited_inventory_planned:
  "case planSync (stored_form edited_inventory) 9000 of
     Inr (Some (d, routes, ctx)) \<Rightarrow> routes \<noteq> [] \<and> tlsClause ctx \<noteq> None | _ \<Rightarrow> False"
  by code_simp

theorem edited_subdomain_becomes_a_command_witness:
  "\<exists>p routes ctx files before after. demo_edit = Inr p \<and>
    \<not> isAdminUser (pa_admins demo_env) (user_groups (Some family_member)) \<and>
    plan_files caddy_def routes ctx ''/etc/caddy/Caddyfile'' = Inr files \<and>
    text_lines (apply_script caddy_def ''/etc/caddy/Caddyfile'' files) = before @ text_lines (open_line 0 (files ! 0)) @ after \<and>
    ''id'' \<in> set (snd (here_document (heredoc_tag 0) after))"
proof -
  let ?iv = "stored_form edited_inventory"
  obtain p where p: "demo_edit = Inr p" "pe_guests p ! pe_index p \<in> set (i_guests ?iv)"
      "\<not> flagged (e_proxyManual (pe_guests p ! pe_index p))"
  proof -
    obtain p where "demo_edit = Inr p" "pe_index p = 0" "pe_guests p ! 0 = edited_wiki"
      using demo_edit_accepted by (auto split: sum.splits)
    then show ?thesis using that edited_wiki_stored by (auto simp: list_ex_iff)
  qed
  obtain db0 where "saveInventory edited_inventory empty_inventory_db = Inr db0"
    using edited_inventory_saves by (cases "saveInventory edited_inventory empty_inventory_db") auto
  then have loaded: "loadInventory (\<lambda>_. None) db0 = Inr ?iv"
    using save_then_load edited_inventory_accepted by blast
  obtain d routes ctx where plan: "planSync ?iv 9000 = Inr (Some (d, routes, ctx))"
      and ok: "tlsClause ctx \<noteq> None"
    using edited_inventory_planned by (auto split: sum.splits option.splits)
  obtain files where files: "plan_files caddy_def routes ctx ''/etc/caddy/Caddyfile'' = Inr files"
    using ok by (simp add: plan_files_def caddy_def_def render_caddy_def)
  have cmd: "CHR 10 \<notin> set ''id''" "CHR '';'' \<notin> set ''id''" by simp_all
  note runs = edited_subdomain_becomes_a_command
    [OF cmd p(1) [unfolded demo_edit_def] loaded plan p(2,3) disjI1 [OF refl] files]
  show ?thesis using p(1) demo_caller_no_admin files runs by blast
qed

section \<open>Two edits at once\<close>

text \<open>
  C40: The save after the TLS probe writes the guest list made before it: whatever other edits were saved
  while the probe ran, every guest but the edited one is put back, in memory and in the database, as it
  was when the edit began.
\<close>

theorem probe_wait_reverts_other_edits:
  assumes "patch_guest pe user iv name body = Inr p"
    and "commit_finish u p res (iv_now, db_now) = Inr (iv_after, db_after)"
  shows "length (i_guests iv_after) = length (i_guests iv) \<and>
    (\<forall>j < length (i_guests iv). j \<noteq> pe_index p \<longrightarrow> i_guests iv_after ! j = i_guests iv ! j) \<and>
    (\<exists>saved. i_guests saved = i_guests iv_after \<and> saveInventory saved db_now = Inr db_after)"
proof -
  obtain updated where g: "pe_guests p = (i_guests iv)[pe_index p := updated]"
    using patch_guest_pending [OF assms(1)] by blast
  obtain fresh where f: "withFreshSettings u db_now (iv_now\<lparr>i_guests := probed_guests p res\<rparr>) = Inr fresh"
      "saveInventory fresh db_now = Inr db_after" "iv_after = iv_now\<lparr>i_guests := probed_guests p res\<rparr>"
    using assms(2) by (auto simp: commit_finish_def Let_def split: sum.splits)
  have "i_guests fresh = probed_guests p res" using f(1) by (auto simp: withFreshSettings_def map_sum_Inr)
  then have after: "i_guests iv_after = probed_guests p res \<and>
      (\<exists>saved. i_guests saved = probed_guests p res \<and> saveInventory saved db_now = Inr db_after)"
    using f(2,3) by auto
  have "length (probed_guests p res) = length (i_guests iv)" by (simp add: probed_guests_def g)
  moreover have "probed_guests p res ! j = i_guests iv ! j" if "j \<noteq> pe_index p" for j
    using that by (simp add: probed_guests_def g)
  ultimately show ?thesis using after by auto
qed

definition slow_edit :: "(nat \<times> patch_reason) + pending_edit" where
  "slow_edit = patch_guest demo_env (Some family_member) sample_inventory ''wiki'' [(''subdomains'', JStr ''w'')]"

definition quick_edit :: "(nat \<times> patch_reason) + pending_edit" where
  "quick_edit = patch_guest demo_env (Some family_member) sample_inventory ''auth'' [(''proxyManual'', JBool True)]"

definition slow_guests :: "guest_entry list" where
  "slow_guests = (hd (i_guests sample_inventory))\<lparr>e_subdomains := Some [''w'']\<rparr> # tl (i_guests sample_inventory)"

definition quick_guests :: "guest_entry list" where
  "quick_guests = [hd (i_guests sample_inventory), (i_guests sample_inventory ! 1)\<lparr>e_proxyManual := Some True\<rparr>]"

lemma slow_edit_accepted: "slow_edit = Inr \<lparr>pe_guests = slow_guests, pe_index = 0, pe_probe = True\<rparr>"
  by code_simp

lemma quick_edit_accepted: "quick_edit = Inr \<lparr>pe_guests = quick_guests, pe_index = 1, pe_probe = False\<rparr>"
  by code_simp

lemma two_saves:
  "case saveInventory sample_inventory empty_inventory_db of Inl _ \<Rightarrow> False
   | Inr db0 \<Rightarrow>
       (case saveInventory (sample_inventory\<lparr>i_guests := quick_guests\<rparr>) db0 of Inl _ \<Rightarrow> False
        | Inr db1 \<Rightarrow> \<not> isl (saveInventory (sample_inventory\<lparr>i_guests := slow_guests\<rparr>) db1))"
  by code_simp

lemma quick_accepted: "InventorySchema (\<lambda>_. None) (sample_inventory\<lparr>i_guests := quick_guests\<rparr>)"
  "numeric_ips (sample_inventory\<lparr>i_guests := quick_guests\<rparr>)"
  by code_simp+

lemma commit_finish_sample:
  assumes "loadInventory u db = Inr loaded" and "i_settings loaded = (\<lambda>_. None)" and "i_settings iv = (\<lambda>_. None)"
    and "saveInventory (iv\<lparr>i_guests := probed_guests p res\<rparr>) db = Inr db'"
  shows "commit_finish u p res (iv, db) = Inr (iv\<lparr>i_guests := probed_guests p res\<rparr>, db')"
proof -
  let ?iv = "iv\<lparr>i_guests := probed_guests p res\<rparr>"
  have "?iv\<lparr>i_settings := (\<lambda>_. None)\<rparr> = ?iv" using assms(3) by simp
  then have "withFreshSettings u db ?iv = Inr ?iv" using assms(1-3) by (simp add: withFreshSettings_def cong: if_cong)
  then show ?thesis using assms(4) by (simp add: commit_finish_def)
qed

lemma stored_no_settings: "i_settings iv = (\<lambda>_. None) \<Longrightarrow> i_settings (stored_form iv) = (\<lambda>_. None)"
  by (auto simp: stored_form_def Let_def sortInventoryForFile_def)

theorem probe_wait_reverts_other_edits_witness:
  "\<exists>db0 slow quick w1 w2. saveInventory sample_inventory empty_inventory_db = Inr db0 \<and>
     slow_edit = Inr slow \<and> quick_edit = Inr quick \<and>
     commit_finish (\<lambda>_. None) quick ProbeInconclusive (sample_inventory, db0) = Inr w1 \<and>
     commit_finish (\<lambda>_. None) slow ProbeInconclusive w1 = Inr w2 \<and>
     e_proxyManual (i_guests (fst w1) ! 1) = Some True \<and> e_proxyManual (i_guests (fst w2) ! 1) = None"
proof -
  let ?slow = "\<lparr>pe_guests = slow_guests, pe_index = 0, pe_probe = True\<rparr>"
    and ?quick = "\<lparr>pe_guests = quick_guests, pe_index = 1, pe_probe = False\<rparr>"
    and ?iv1 = "sample_inventory\<lparr>i_guests := quick_guests\<rparr>"
  obtain db0 db1 db2 where db: "saveInventory sample_inventory empty_inventory_db = Inr db0"
      "saveInventory ?iv1 db0 = Inr db1" "saveInventory (sample_inventory\<lparr>i_guests := slow_guests\<rparr>) db1 = Inr db2"
    using two_saves by (auto simp: isl_def split: sum.splits) (metis sum.exhaust)
  have none: "i_settings sample_inventory = (\<lambda>_. None)" by (simp add: sample_inventory_def)
  have "loadInventory (\<lambda>_. None) db0 = Inr (stored_form sample_inventory)"
    using save_then_load db(1) sample_accepted by blast
  then have w1: "commit_finish (\<lambda>_. None) ?quick ProbeInconclusive (sample_inventory, db0) = Inr (?iv1, db1)"
    using commit_finish_sample [OF _ stored_no_settings [OF none] none, of _ db0 ?quick ProbeInconclusive db1] db(2)
    by (simp add: probed_guests_def)
  have "loadInventory (\<lambda>_. None) db1 = Inr (stored_form ?iv1)"
    using save_then_load db(2) quick_accepted by blast
  then have w2: "commit_finish (\<lambda>_. None) ?slow ProbeInconclusive (?iv1, db1) =
      Inr (?iv1\<lparr>i_guests := slow_guests\<rparr>, db2)"
    using commit_finish_sample [OF _ stored_no_settings, of _ db1 ?iv1 ?iv1 ?slow ProbeInconclusive db2] db(3) none
    by (simp add: probed_guests_def)
  have "i_guests (?iv1\<lparr>i_guests := slow_guests\<rparr>) ! 1 = i_guests sample_inventory ! 1"
    using probe_wait_reverts_other_edits [OF slow_edit_accepted [unfolded slow_edit_def] w2]
    by (simp add: sample_inventory_def)
  then have "e_proxyManual (i_guests (?iv1\<lparr>i_guests := slow_guests\<rparr>) ! 1) = None"
    by (simp add: sample_inventory_def)
  moreover have "e_proxyManual (i_guests ?iv1 ! 1) = Some True" by (simp add: quick_guests_def)
  ultimately show ?thesis
    using db(1) slow_edit_accepted quick_edit_accepted w1 w2 by (metis fst_conv)
qed

theorem non_admin_edits_keep_the_gate_witness:
  "\<exists>p updated. slow_edit = Inr p \<and> pe_guests p = (i_guests sample_inventory)[pe_index p := updated] \<and>
     e_authGroup (i_guests sample_inventory ! pe_index p) = Some ''family'' \<and> e_authGroup updated \<noteq> None"
proof -
  obtain p where p: "slow_edit = Inr p" "pe_index p = 0" using slow_edit_accepted by simp
  obtain current updated where e: "pe_guests p = (i_guests sample_inventory)[pe_index p := updated]"
      "i_guests sample_inventory ! pe_index p = current"
      "\<forall>c. e_authGroup current = Some c \<longrightarrow> e_authGroup updated = Some c \<or>
       (\<exists>g rc rg. e_authGroup updated = Some g \<and> rungsAtOrAbove (pa_ladder demo_env) c = Some rc \<and>
          rungsAtOrAbove (pa_ladder demo_env) g = Some rg \<and> set rg \<subseteq> set rc)"
    using non_admin_edits_keep_the_gate [OF p(1) [unfolded slow_edit_def] demo_caller_no_admin] by (elim exE conjE)
  moreover have "e_authGroup (i_guests sample_inventory ! pe_index p) = Some ''family''"
    unfolding p(2) by (simp add: sample_inventory_def)
  ultimately show ?thesis using p(1) by (metis option.distinct(1))
qed

end
