(* ===== verification/Traefik_Config.thy ===== *)
theory Traefik_Config
  imports File_Proxies
begin

text \<open>
  Traefik's dynamic configuration: \<open>src/src/lib/proxy/drivers/traefik.ts\<close>.  The document is its routers,
  services, middlewares and transports in insertion order (an empty list is an absent key) with the
  optional certificate pair.  The \<open>yaml\<close> package and SHA-256 are parameters: \<open>yaml\<close> writes a document,
  \<open>parse\<close> reads a file's text, \<open>sha\<close> is the hexadecimal digest.
\<close>

section \<open>Names and rules\<close>

definition encode_char :: "char \<Rightarrow> string" where
  "encode_char c = (if c = CHR ''-'' then ''--'' else if c = CHR ''.'' then ''-'' else [c])"

definition encodeHostname :: "string \<Rightarrow> string" where
  "encodeHostname hostname = concat (map encode_char (toLowerCase hostname))"

definition routeName :: "string \<Rightarrow> string" where
  "routeName canonical = ''bellhop-route-'' @ encodeHostname canonical"

definition exemptName :: "string \<Rightarrow> string" where
  "exemptName canonical = ''bellhop-exempt-'' @ encodeHostname canonical"

definition outpostName :: "string \<Rightarrow> string" where
  "outpostName canonical = ''bellhop-outpost-'' @ encodeHostname canonical"

definition hex_char :: "nat \<Rightarrow> char" where
  "hex_char d = (if d < 10 then char_of (48 + d) else char_of (87 + d))"

definition json_char :: "char \<Rightarrow> string" where
  "json_char c =
     (if c = CHR 34 then [CHR 92, CHR 34]
      else if c = CHR 92 then [CHR 92, CHR 92]
      else if c = CHR 8 then [CHR 92, CHR ''b'']
      else if c = CHR 9 then [CHR 92, CHR ''t'']
      else if c = CHR 10 then [CHR 92, CHR ''n'']
      else if c = CHR 12 then [CHR 92, CHR ''f'']
      else if c = CHR 13 then [CHR 92, CHR ''r'']
      else if code c < 32 then [CHR 92] @ ''u00'' @ [hex_char (code c div 16), hex_char (code c mod 16)]
      else [c])"

definition json_string :: "string \<Rightarrow> string" where
  "json_string s = [CHR 34] @ concat (map json_char s) @ [CHR 34]"

definition ruleValue :: "string \<Rightarrow> string" where
  "ruleValue v = (if CHR 96 \<in> set v then json_string v else [CHR 96] @ v @ [CHR 96])"

section \<open>Objects\<close>

record traefik_router =
  tr_rule :: string
  tr_entryPoints :: "string list"
  tr_service :: string
  tr_middlewares :: "string list"
  tr_certResolver :: "string option"

record traefik_service =
  ts_url :: string
  ts_serversTransport :: "string option"

datatype traefik_middleware =
    RequestHeaders "(string \<times> string) list"
  | ForwardAuth string bool "string list"

record traefik_doc =
  td_routers :: "(string \<times> traefik_router) list"
  td_services :: "(string \<times> traefik_service) list"
  td_middlewares :: "(string \<times> traefik_middleware) list"
  td_serversTransports :: "(string \<times> bool) list"
  td_certificates :: "(string \<times> string) option"

definition TRAEFIK_HEADER :: string where
  "TRAEFIK_HEADER = ''# Generated by Bellhop sync-proxy. Do not edit: this file is replaced on every apply.''"

definition AUTHENTIK_IDENTITY_HEADERS :: "string list" where
  "AUTHENTIK_IDENTITY_HEADERS =
     [''X-authentik-username'', ''X-authentik-groups'', ''X-authentik-email'', ''X-authentik-name'', ''X-authentik-uid'']"

definition BASE_MIDDLEWARES :: "string list" where
  "BASE_MIDDLEWARES = [''bellhop-strip-authentik-headers'', ''bellhop-forwarded-port'']"

definition forwardedPortMiddleware :: "proxy_context \<Rightarrow> traefik_middleware" where
  "forwardedPortMiddleware ctx = RequestHeaders [(''X-Forwarded-Port'', show_int (px_externalPort ctx))]"

definition stripAuthentikHeadersMiddleware :: traefik_middleware where
  "stripAuthentikHeadersMiddleware = RequestHeaders (map (\<lambda>name. (name, [])) AUTHENTIK_IDENTITY_HEADERS)"

definition generationMarkerMiddleware :: "string \<Rightarrow> traefik_middleware" where
  "generationMarkerMiddleware hash = RequestHeaders [(''X-Bellhop-Generation'', hash)]"

definition backendUrl :: "proxy_backend \<Rightarrow> string" where
  "backendUrl b =
     (if usesHttps b then ''https'' else ''http'') @ ''://'' @ ip_text (bk_ip b) @ '':'' @ show_int (bk_port b)"

definition hostsRule :: "proxy_route \<Rightarrow> string" where
  "hostsRule r = join_with '' || '' (map (\<lambda>h. ''Host('' @ ruleValue h @ '')'') (rt_hostnames r))"

fun patternRule :: "path_pattern \<Rightarrow> string" where
  "patternRule (ExactPath p) = ''Path('' @ ruleValue p @ '')''"
| "patternRule (PrefixPath p) = ''PathPrefix('' @ ruleValue p @ '')''"

definition OUTPOST_PATH_PREFIX :: string where
  "OUTPOST_PATH_PREFIX = ''/outpost.goauthentik.io/''"

text \<open>\<open>None\<close> is the error for the source Traefik cannot render; the value is the resolver a router names.\<close>

definition routerTls :: "proxy_context \<Rightarrow> string option option" where
  "routerTls ctx =
     (if px_tlsSource ctx = ''acme-dns'' \<or> px_tlsSource ctx = ''acme-http'' then Some (Some (px_certResolver ctx))
      else if px_tlsSource ctx = ''files'' \<or> px_tlsSource ctx = ''external'' then Some None
      else None)"

definition filesTlsSection :: "proxy_context \<Rightarrow> (string \<times> string) option" where
  "filesTlsSection ctx =
     (if px_tlsSource ctx \<noteq> ''files'' then None else Some (px_certificatePath ctx, px_keyPath ctx))"

definition exemptTerms :: "proxy_route \<Rightarrow> path_pattern list" where
  "exemptTerms r = (if rootExempted r then [] else candidateExemptPatterns r)"

definition canonical :: "proxy_route \<Rightarrow> string" where
  "canonical r = hd (rt_hostnames r)"

definition main_router :: "string option \<Rightarrow> proxy_route \<Rightarrow> traefik_router" where
  "main_router tls r =
     \<lparr>tr_rule = hostsRule r, tr_entryPoints = [''websecure''], tr_service = routeName (canonical r),
      tr_middlewares = BASE_MIDDLEWARES @
        (if route_mode r = Some Forward \<and> \<not> rootExempted r then [''bellhop-authentik''] else []),
      tr_certResolver = tls\<rparr>"

definition main_service :: "proxy_route \<Rightarrow> traefik_service" where
  "main_service r =
     \<lparr>ts_url = backendUrl (rt_backend r),
      ts_serversTransport = (if bk_insecureTls (rt_backend r) then Some ''bellhop-insecure-backend-tls'' else None)\<rparr>"

definition outpost_router :: "string option \<Rightarrow> proxy_route \<Rightarrow> traefik_router" where
  "outpost_router tls r =
     \<lparr>tr_rule = ''('' @ hostsRule r @ '') && PathPrefix('' @ ruleValue OUTPOST_PATH_PREFIX @ '')'',
      tr_entryPoints = [''websecure''], tr_service = ''bellhop-authentik-outpost'', tr_middlewares = BASE_MIDDLEWARES,
      tr_certResolver = tls\<rparr>"

definition exempt_router :: "string option \<Rightarrow> proxy_route \<Rightarrow> traefik_router" where
  "exempt_router tls r =
     \<lparr>tr_rule = ''('' @ hostsRule r @ '') && ('' @ join_with '' || '' (map patternRule (exemptTerms r)) @ '')'',
      tr_entryPoints = [''websecure''], tr_service = routeName (canonical r), tr_middlewares = BASE_MIDDLEWARES,
      tr_certResolver = tls\<rparr>"

definition renderRouteObjects ::
  "string option \<Rightarrow> proxy_route \<Rightarrow> (string \<times> traefik_router) list \<times> (string \<times> traefik_service) list \<Rightarrow>
   (string \<times> traefik_router) list \<times> (string \<times> traefik_service) list" where
  "renderRouteObjects tls r objs =
     (let name = routeName (canonical r);
          routers = jm_set name (main_router tls r) (fst objs);
          services = jm_set name (main_service r) (snd objs)
      in if route_mode r \<noteq> Some Forward then (routers, services)
         else let routers = jm_set (outpostName (canonical r)) (outpost_router tls r) routers
              in (if exemptTerms r = [] then routers
                  else jm_set (exemptName (canonical r)) (exempt_router tls r) routers, services))"

definition authentikMiddleware :: "proxy_context \<Rightarrow> traefik_middleware" where
  "authentikMiddleware ctx =
     ForwardAuth (''http://'' @ outpost_addr ctx @ OUTPOST_PATH_PREFIX @ ''auth/traefik'') True AUTHENTIK_IDENTITY_HEADERS"

definition authentikOutpostService :: "proxy_context \<Rightarrow> traefik_service" where
  "authentikOutpostService ctx = \<lparr>ts_url = ''http://'' @ outpost_addr ctx, ts_serversTransport = None\<rparr>"

section \<open>The file\<close>

datatype traefik_error = DirectoryPath | NotYamlPath | SameObjectName string string | TlsNotSupported

definition checkConfigPath :: "string \<Rightarrow> traefik_error option" where
  "checkConfigPath p =
     (if endsWith p ''/'' then Some DirectoryPath
      else if \<not> endsWith p ''.yml'' \<and> \<not> endsWith p ''.yaml'' then Some NotYamlPath else None)"

fun names_unique :: "(string \<times> string) list \<Rightarrow> proxy_route list \<Rightarrow> traefik_error option" where
  "names_unique seen [] = None"
| "names_unique seen (r # rs) =
     (case jm_get seen (routeName (canonical r)) of
        Some previous \<Rightarrow> Some (SameObjectName previous (canonical r))
      | None \<Rightarrow> names_unique (jm_set (routeName (canonical r)) (canonical r) seen) rs)"

definition checkRouteNamesUnique :: "proxy_route list \<Rightarrow> traefik_error option" where
  "checkRouteNamesUnique routes = names_unique [] routes"

text \<open>The document before the generation marker is added.\<close>

definition buildDocument :: "proxy_route list \<Rightarrow> proxy_context \<Rightarrow> string option \<Rightarrow> traefik_doc" where
  "buildDocument routes ctx tls =
     (let objs = foldl (\<lambda>objs r. renderRouteObjects tls r objs) ([], []) routes;
          gated = list_ex (\<lambda>r. route_mode r = Some Forward) routes
      in \<lparr>td_routers = fst objs,
          td_services = (if gated then jm_set ''bellhop-authentik-outpost'' (authentikOutpostService ctx) (snd objs)
                         else snd objs),
          td_middlewares =
            [(''bellhop-strip-authentik-headers'', stripAuthentikHeadersMiddleware),
             (''bellhop-forwarded-port'', forwardedPortMiddleware ctx)] @
            (if gated then [(''bellhop-authentik'', authentikMiddleware ctx)] else []),
          td_serversTransports =
            (if list_ex (\<lambda>r. bk_insecureTls (rt_backend r)) routes then [(''bellhop-insecure-backend-tls'', True)] else []),
          td_certificates = filesTlsSection ctx\<rparr>)"

definition with_marker :: "string \<Rightarrow> traefik_doc \<Rightarrow> traefik_doc" where
  "with_marker hash doc =
     doc\<lparr>td_middlewares := td_middlewares doc @ [(''bellhop-generation-'' @ hash, generationMarkerMiddleware hash)]\<rparr>"

definition file_text :: "(traefik_doc \<Rightarrow> string) \<Rightarrow> traefik_doc \<Rightarrow> string" where
  "file_text yaml doc = TRAEFIK_HEADER @ LF @ yaml doc"

definition traefik_generation :: "(traefik_doc \<Rightarrow> string) \<Rightarrow> (string \<Rightarrow> string) \<Rightarrow> traefik_doc \<Rightarrow> string" where
  "traefik_generation yaml sha doc = take 12 (sha (file_text yaml doc))"

definition render_traefik ::
  "(traefik_doc \<Rightarrow> string) \<Rightarrow> (string \<Rightarrow> string) \<Rightarrow> proxy_route list \<Rightarrow> proxy_context \<Rightarrow> string \<Rightarrow>
   traefik_error + file_spec" where
  "render_traefik yaml sha routes ctx configPath =
     (case checkConfigPath configPath of
        Some err \<Rightarrow> Inl err
      | None \<Rightarrow>
          (case checkRouteNamesUnique routes of
             Some err \<Rightarrow> Inl err
           | None \<Rightarrow>
               if routes \<noteq> [] \<and> routerTls ctx = None then Inl TlsNotSupported
               else let doc = buildDocument routes ctx (Option.bind (routerTls ctx) id)
                    in Inr \<lparr>fs_path = configPath,
                            fs_content = file_text yaml (with_marker (traefik_generation yaml sha doc) doc),
                            fs_mode = Owned, fs_ownedHeader = Some TRAEFIK_HEADER, fs_atomic = True\<rparr>))"

section \<open>The check through Traefik's API\<close>

definition generationMarkerName :: "(string \<Rightarrow> traefik_doc option) \<Rightarrow> string \<Rightarrow> string option" where
  "generationMarkerName parse content =
     (case parse content of
        None \<Rightarrow> None
      | Some doc \<Rightarrow> find (\<lambda>name. startsWith name ''bellhop-generation-'') (map fst (td_middlewares doc)))"

definition routerNames :: "(string \<Rightarrow> traefik_doc option) \<Rightarrow> string \<Rightarrow> string list" where
  "routerNames parse content = (case parse content of None \<Rightarrow> [] | Some doc \<Rightarrow> map fst (td_routers doc))"

definition strip_slashes :: "string \<Rightarrow> string" where
  "strip_slashes s = rev (dropWhile (\<lambda>c. c = CHR ''/'') (rev s))"

definition CURL_MISSING_MESSAGE :: string where
  "CURL_MISSING_MESSAGE =
     ''curl is not installed on the proxy host; the Traefik API check (proxyApiUrl) needs it -- '' @
     ''install curl there, or unset proxyApiUrl''"

definition router_check_lines :: "string \<Rightarrow> string list" where
  "router_check_lines router =
     [''  bellhop_body=\"$(curl -s --max-time 5 \"$bellhop_api/api/http/routers/'' @ router @ ''@file\")\"'',
      ''  case \"$bellhop_body\" in'',
      ''    *'' @ sq @ ''\"status\":\"enabled\"'' @ sq @ ''*) ;;'',
      ''    *) printf '' @ sq @ ''Traefik router %s is not healthy: %s'' @ [CHR 92] @ ''n'' @ sq @ '' '' @
        singleQuote router @ '' \"$bellhop_body\" >&2; bellhop_failed=1 ;;'',
      ''  esac'']"

definition buildApiCheck :: "(string \<Rightarrow> traefik_doc option) \<Rightarrow> string \<Rightarrow> string \<Rightarrow> string \<Rightarrow> string option" where
  "buildApiCheck parse apiUrl configPath content =
     map_option (\<lambda>marker. join_with LF
       ([''('',
         ''  if ! command -v curl >/dev/null 2>&1; then'',
         ''    printf '' @ sq @ ''%s'' @ [CHR 92] @ ''n'' @ sq @ '' '' @ singleQuote CURL_MISSING_MESSAGE @ '' >&2'',
         ''    exit 1'',
         ''  fi'',
         ''  bellhop_api='' @ singleQuote (strip_slashes apiUrl),
         ''  bellhop_tries=0'',
         ''  while :; do'',
         ''    bellhop_code=\"$(curl -s -o /dev/null -w '' @ sq @ ''%{http_code}'' @ sq @
           '' --max-time 5 \"$bellhop_api/api/http/middlewares/'' @ marker @ ''@file\")\"'',
         ''    [ \"$bellhop_code\" = \"200\" ] && break'',
         ''    bellhop_tries=$((bellhop_tries + 1))'',
         ''    if [ \"$bellhop_tries\" -ge 30 ]; then'',
         ''      if [ \"$bellhop_code\" = \"000\" ]; then'',
         ''        bellhop_result=\"unreachable\"'',
         ''      else'',
         ''        bellhop_result=\"HTTP $bellhop_code\"'',
         ''      fi'',
         ''      printf '' @ sq @ ''Traefik did not load %s after 30 checks one second apart (%s at %s)'' @ [CHR 92] @ ''n'' @ sq @
           '' '' @ singleQuote configPath @ '' \"$bellhop_result\" \"$bellhop_api\" >&2'',
         ''      exit 1'',
         ''    fi'',
         ''    sleep 1'',
         ''  done'',
         ''  bellhop_failed=0''] @
        concat (map router_check_lines (routerNames parse content)) @
        [''  exit \"$bellhop_failed\"'', '')''])) (generationMarkerName parse content)"

text \<open>Traefik's validate command: none without \<open>proxyApiUrl\<close>.\<close>

definition traefik_validateCommand ::
  "(string \<Rightarrow> traefik_doc option) \<Rightarrow> inventory \<Rightarrow> string \<Rightarrow> file_spec \<Rightarrow> string option" where
  "traefik_validateCommand parse iv path f =
     (if has_text (i_settings iv ''proxyApiUrl'')
      then buildApiCheck parse (the (i_settings iv ''proxyApiUrl'')) path (fs_content f) else None)"

definition traefik_script :: "(string \<Rightarrow> traefik_doc option) \<Rightarrow> inventory \<Rightarrow> string \<Rightarrow> file_spec \<Rightarrow> string" where
  "traefik_script parse iv path f =
     buildFileDriverScript [f] (traefik_validateCommand parse iv path f) None (Some ''Traefik API check'')"

section \<open>Object names\<close>

text \<open>No dot beside a dot or a hyphen: the labels of a host name are not empty and do not begin or end with a hyphen.\<close>

fun plain_dots :: "string \<Rightarrow> bool" where
  "plain_dots (c # d # s) \<longleftrightarrow>
     \<not> (c = CHR ''.'' \<and> d \<in> {CHR ''.'', CHR ''-''}) \<and> \<not> (c = CHR ''-'' \<and> d = CHR ''.'') \<and> plain_dots (d # s)"
| "plain_dots _ \<longleftrightarrow> True"

definition encode_all :: "string \<Rightarrow> string" where
  "encode_all s = concat (map encode_char s)"

lemma encode_all_simps [simp]: "encode_all [] = []" "encode_all (c # s) = encode_char c @ encode_all s"
  by (simp_all add: encode_all_def)

lemma encode_after_dot: "plain_dots (CHR ''.'' # t) \<Longrightarrow> encode_all t \<noteq> CHR ''-'' # u"
  by (cases t) (auto simp: encode_char_def)

lemma encode_all_inj: "plain_dots s \<Longrightarrow> plain_dots t \<Longrightarrow> encode_all s = encode_all t \<Longrightarrow> s = t"
proof (induction s arbitrary: t)
  case Nil
  then show ?case by (cases t) (auto simp: encode_char_def split: if_splits)
next
  case (Cons c s)
  have tails: "plain_dots s" using Cons.prems(1) by (cases s) auto
  obtain d t' where t: "t = d # t'" using Cons.prems(3) by (cases t) (auto simp: encode_char_def split: if_splits)
  have tails': "plain_dots t'" using Cons.prems(2) t by (cases t') auto
  have same: "encode_char c @ encode_all s = encode_char d @ encode_all t'" using Cons.prems(3) t by simp
  have "c = d"
  proof (rule ccontr)
    assume "c \<noteq> d"
    then have "(c = CHR ''-'' \<and> d = CHR ''.'') \<or> (c = CHR ''.'' \<and> d = CHR ''-'')"
      using same by (auto simp: encode_char_def split: if_splits)
    then show False
    proof
      assume "c = CHR ''-'' \<and> d = CHR ''.''"
      then have "encode_all t' = CHR ''-'' # encode_all s" using same by (simp add: encode_char_def)
      then show False using encode_after_dot [of t' "encode_all s"] Cons.prems(2) t \<open>c = CHR ''-'' \<and> d = CHR ''.''\<close> by simp
    next
      assume "c = CHR ''.'' \<and> d = CHR ''-''"
      then have "encode_all s = CHR ''-'' # encode_all t'" using same by (simp add: encode_char_def)
      then show False using encode_after_dot [of s "encode_all t'"] Cons.prems(1) \<open>c = CHR ''.'' \<and> d = CHR ''-''\<close> by simp
    qed
  qed
  then show ?case using Cons.IH [OF tails tails'] same t by simp
qed

lemma encodeHostname_all: "encodeHostname h = encode_all (toLowerCase h)"
  by (simp add: encodeHostname_def encode_all_def)

lemma plain_dots_map:
  assumes "plain_dots h"
  shows "plain_dots (toLowerCase h)"
proof -
  have dot: "lower_char c = CHR ''.'' \<Longrightarrow> c = CHR ''.''" "lower_char c = CHR ''-'' \<Longrightarrow> c = CHR ''-''" for c
    using lower_small [of c] by (simp_all add: code_def)
  show ?thesis using assms by (induction h rule: plain_dots.induct) (auto simp: toLowerCase_def dest: dot)
qed

lemma object_names [simp]:
  "routeName a = routeName b \<longleftrightarrow> encodeHostname a = encodeHostname b"
  "exemptName a = exemptName b \<longleftrightarrow> encodeHostname a = encodeHostname b"
  "outpostName a = outpostName b \<longleftrightarrow> encodeHostname a = encodeHostname b"
  "routeName a \<noteq> exemptName b" "routeName a \<noteq> outpostName b" "exemptName a \<noteq> routeName b"
  "outpostName a \<noteq> routeName b" "exemptName a \<noteq> outpostName b" "outpostName a \<noteq> exemptName b"
  by (simp_all add: routeName_def exemptName_def outpostName_def)

lemma names_unique_iff:
  "names_unique seen rs = None \<longleftrightarrow>
     distinct (map (\<lambda>r. routeName (canonical r)) rs) \<and> (\<forall>r \<in> set rs. jm_get seen (routeName (canonical r)) = None)"
proof (induction rs arbitrary: seen)
  case (Cons r rs)
  show ?case by (cases "jm_get seen (routeName (canonical r))") (auto simp: Cons.IH jm_get_set image_iff simp del: object_names)
qed simp

section \<open>The routers and services of a document\<close>

definition gated_terms :: "proxy_route \<Rightarrow> bool" where
  "gated_terms r \<longleftrightarrow> route_mode r = Some Forward \<and> exemptTerms r \<noteq> []"

definition router_for :: "string option \<Rightarrow> proxy_route \<Rightarrow> string \<Rightarrow> traefik_router option" where
  "router_for tls r name =
     (if name = routeName (canonical r) then Some (main_router tls r)
      else if name = outpostName (canonical r) \<and> route_mode r = Some Forward then Some (outpost_router tls r)
      else if name = exemptName (canonical r) \<and> gated_terms r then Some (exempt_router tls r)
      else None)"

lemma render_one:
  "jm_get (fst (renderRouteObjects tls r objs)) name =
     (case router_for tls r name of None \<Rightarrow> jm_get (fst objs) name | Some x \<Rightarrow> Some x)"
  "jm_get (snd (renderRouteObjects tls r objs)) name =
     (if name = routeName (canonical r) then Some (main_service r) else jm_get (snd objs) name)"
  by (auto simp: renderRouteObjects_def Let_def router_for_def gated_terms_def jm_get_set simp del: object_names(1-3))

lemma router_for_other:
  "encodeHostname (canonical r) \<noteq> encodeHostname (canonical r') \<Longrightarrow> router_for tls r name \<noteq> None \<Longrightarrow>
   router_for tls r' name = None"
  by (auto simp: router_for_def split: if_splits)

lemma render_all:
  assumes "distinct (map (\<lambda>r. encodeHostname (canonical r)) rs)"
  shows "r \<in> set rs \<Longrightarrow> router_for tls r name = Some x \<Longrightarrow>
      jm_get (fst (foldl (\<lambda>objs r. renderRouteObjects tls r objs) objs rs)) name = Some x"
    and "\<forall>r \<in> set rs. router_for tls r name = None \<Longrightarrow>
      jm_get (fst (foldl (\<lambda>objs r. renderRouteObjects tls r objs) objs rs)) name = jm_get (fst objs) name"
    and "r \<in> set rs \<Longrightarrow>
      jm_get (snd (foldl (\<lambda>objs r. renderRouteObjects tls r objs) objs rs)) (routeName (canonical r)) = Some (main_service r)"
    and "name \<notin> (\<lambda>r. routeName (canonical r)) ` set rs \<Longrightarrow>
      jm_get (snd (foldl (\<lambda>objs r. renderRouteObjects tls r objs) objs rs)) name = jm_get (snd objs) name"
  using assms
proof (induction rs arbitrary: objs rule: rev_induct)
  case (snoc q rs)
  {
    case 1
    then show ?case
      using snoc.IH(1) [of objs] router_for_other [of r q tls name]
      by (cases "r = q") (auto simp: render_one image_iff)
  next
    case 2
    then show ?case using snoc.IH(2) [of objs] by (simp add: render_one)
  next
    case 3
    then show ?case using snoc.IH(3) [of objs] by (cases "r = q") (auto simp: render_one image_iff)
  next
    case 4
    then show ?case using snoc.IH(4) [of objs] by (auto simp: render_one simp del: object_names)
  }
qed simp_all

lemma routers_of_document:
  "jm_get (td_routers (buildDocument rs ctx tls)) name =
     jm_get (fst (foldl (\<lambda>objs r. renderRouteObjects tls r objs) ([], []) rs)) name"
  "td_routers (with_marker h doc) = td_routers doc" "td_services (with_marker h doc) = td_services doc"
  by (simp_all add: buildDocument_def Let_def with_marker_def)

lemma services_of_document:
  "jm_get (td_services (buildDocument rs ctx tls)) (routeName c) =
     jm_get (snd (foldl (\<lambda>objs r. renderRouteObjects tls r objs) ([], []) rs)) (routeName c)"
  by (simp add: buildDocument_def Let_def jm_get_set routeName_def)

definition plain_names :: "proxy_route list \<Rightarrow> bool" where
  "plain_names rs \<longleftrightarrow> (\<forall>r \<in> set rs. plain_dots (canonical r))"

lemma distinct_canonical:
  assumes "\<forall>r \<in> set rs. rt_hostnames r \<noteq> []" and "distinct (map toLowerCase (concat (map rt_hostnames rs)))"
  shows "distinct (map (\<lambda>r. toLowerCase (canonical r)) rs)"
  using assms
proof (induction rs)
  case (Cons r rs)
  have "toLowerCase (canonical r) \<in> toLowerCase ` set (rt_hostnames r)"
    using Cons.prems(1) by (auto simp: canonical_def)
  moreover have "toLowerCase (canonical q) \<in> toLowerCase ` set (concat (map rt_hostnames rs))" if "q \<in> set rs" for q
    using Cons.prems(1) that by (auto simp: canonical_def intro!: imageI)
  moreover have "toLowerCase ` set (rt_hostnames r) \<inter> toLowerCase ` set (concat (map rt_hostnames rs)) = {}"
    using Cons.prems(2) by (auto simp: map_concat)
  ultimately show ?case using Cons by fastforce
qed simp

lemma distinct_encoded:
  assumes "plain_names rs" and "distinct (map (\<lambda>r. toLowerCase (canonical r)) rs)"
  shows "distinct (map (\<lambda>r. encodeHostname (canonical r)) rs)"
  using assms
proof (induction rs)
  case (Cons r rs)
  have "encodeHostname (canonical r) \<noteq> encodeHostname (canonical q)" if "q \<in> set rs" for q
  proof -
    have "plain_dots (toLowerCase (canonical q))" "plain_dots (toLowerCase (canonical r))"
      using Cons.prems(1) that by (auto simp: plain_names_def plain_dots_map)
    moreover have "toLowerCase (canonical q) \<noteq> toLowerCase (canonical r)"
      using Cons.prems(2) that by (auto simp: image_iff)
    ultimately show ?thesis using encode_all_inj encodeHostname_all by metis
  qed
  then show ?case using Cons by (auto simp: plain_names_def image_iff)
qed simp

lemma unique_names: "checkRouteNamesUnique rs = None \<longleftrightarrow> distinct (map (\<lambda>r. encodeHostname (canonical r)) rs)"
proof -
  have "distinct (map (\<lambda>r. routeName (canonical r)) rs) \<longleftrightarrow> distinct (map (\<lambda>r. encodeHostname (canonical r)) rs)"
    by (simp add: distinct_map inj_on_def)
  then show ?thesis by (simp add: checkRouteNamesUnique_def names_unique_iff)
qed

section \<open>A planned Traefik configuration\<close>

lemma planSync_driver:
  assumes "planSync iv port = Inr (Some (d, routes, ctx))"
  shows "d \<in> set listDrivers" and "px_tlsSource ctx \<in> set (dr_tlsSources d)"
proof -
  have found: "getDriver iv = Some d" and tls: "\<not> checkTlsSource iv d" and ctx: "ctx = buildProxyContext iv d port"
    using assms by (auto simp: planSync_def split: option.splits if_splits sum.splits)
  show "d \<in> set listDrivers" using found by (auto simp: getDriver_def find_Some_iff)
  show "px_tlsSource ctx \<in> set (dr_tlsSources d)"
    using tls by (simp add: ctx buildProxyContext_def checkTlsSource_def)
qed

lemma traefik_tls:
  assumes "planSync iv port = Inr (Some (d, routes, ctx))" and "dr_id d = ''traefik''"
  shows "routerTls ctx \<noteq> None"
proof -
  have "d = traefikDriver"
    using planSync_driver(1) [OF assms(1)] assms(2)
    by (auto simp: listDrivers_def caddyDriver_def caddyApiDriver_def nginxDriver_def nginxProxyManagerDriver_def
        haproxyDriver_def noneDriver_def)
  then show ?thesis using planSync_driver(2) [OF assms(1)] by (auto simp: traefikDriver_def routerTls_def)
qed

lemma loaded_routes_named:
  assumes "loadInventory u db = Inr iv" and "planSync iv port = Inr (Some (d, routes, ctx))"
  shows "\<forall>r \<in> set routes. rt_hostnames r \<noteq> []"
  unfolding planSync_valid(1) [OF assms]
  using loadInventory_valid [OF assms(1)] snd_candidates [of iv]
  by (auto simp: route_of_def inventory_valid_def lacks_ip_def hasRoute_def)

lemma router_for_names:
  "router_for tls r (routeName (canonical q)) =
     (if encodeHostname (canonical q) = encodeHostname (canonical r) then Some (main_router tls r) else None)"
  "router_for tls r (outpostName (canonical q)) =
     (if encodeHostname (canonical q) = encodeHostname (canonical r) \<and> route_mode r = Some Forward
      then Some (outpost_router tls r) else None)"
  "router_for tls r (exemptName (canonical q)) =
     (if encodeHostname (canonical q) = encodeHostname (canonical r) \<and> gated_terms r
      then Some (exempt_router tls r) else None)"
  by (simp_all add: router_for_def)

lemma document_routers:
  assumes "distinct (map (\<lambda>r. encodeHostname (canonical r)) rs)"
  shows "r \<in> set rs \<Longrightarrow> router_for tls r name = Some x \<Longrightarrow> jm_get (td_routers (buildDocument rs ctx tls)) name = Some x"
    and "\<forall>r \<in> set rs. router_for tls r name = None \<Longrightarrow> jm_get (td_routers (buildDocument rs ctx tls)) name = None"
  using render_all(1,2) [OF assms] by (simp_all add: routers_of_document)

lemma document_objects:
  assumes "distinct (map (\<lambda>r. encodeHostname (canonical r)) rs)" and "r \<in> set rs"
  shows "jm_get (td_routers (buildDocument rs ctx tls)) (routeName (canonical r)) = Some (main_router tls r)"
    and "jm_get (td_services (buildDocument rs ctx tls)) (routeName (canonical r)) = Some (main_service r)"
    and "jm_get (td_routers (buildDocument rs ctx tls)) (outpostName (canonical r)) =
      (if route_mode r = Some Forward then Some (outpost_router tls r) else None)"
    and "jm_get (td_routers (buildDocument rs ctx tls)) (exemptName (canonical r)) =
      (if route_mode r = Some Forward \<and> exemptTerms r \<noteq> [] then Some (exempt_router tls r) else None)"
proof -
  have same: "q = r" if "q \<in> set rs" "encodeHostname (canonical r) = encodeHostname (canonical q)" for q
    using assms that by (auto simp: distinct_map inj_on_def)
  show "jm_get (td_routers (buildDocument rs ctx tls)) (routeName (canonical r)) = Some (main_router tls r)"
    by (rule document_routers(1) [OF assms]) (simp add: router_for_names)
  show "jm_get (td_services (buildDocument rs ctx tls)) (routeName (canonical r)) = Some (main_service r)"
    using render_all(3) [OF assms] by (simp add: services_of_document)
  show "jm_get (td_routers (buildDocument rs ctx tls)) (outpostName (canonical r)) =
      (if route_mode r = Some Forward then Some (outpost_router tls r) else None)"
  proof (cases "route_mode r = Some Forward")
    case True
    then show ?thesis using document_routers(1) [OF assms, of tls "outpostName (canonical r)"] by (simp add: router_for_names)
  next
    case False
    then have "\<forall>q \<in> set rs. router_for tls q (outpostName (canonical r)) = None" using same by (auto simp: router_for_names)
    then show ?thesis using document_routers(2) [OF assms(1)] False by auto
  qed
  show "jm_get (td_routers (buildDocument rs ctx tls)) (exemptName (canonical r)) =
      (if route_mode r = Some Forward \<and> exemptTerms r \<noteq> [] then Some (exempt_router tls r) else None)"
  proof (cases "route_mode r = Some Forward \<and> exemptTerms r \<noteq> []")
    case True
    then show ?thesis using document_routers(1) [OF assms, of tls "exemptName (canonical r)"] by (simp add: router_for_names gated_terms_def)
  next
    case False
    then have "\<forall>q \<in> set rs. router_for tls q (exemptName (canonical r)) = None" using same by (auto simp: router_for_names gated_terms_def)
    then show ?thesis using document_routers(2) [OF assms(1)] False by auto
  qed
qed

lemma document_router_names:
  assumes "distinct (map (\<lambda>r. encodeHostname (canonical r)) rs)"
  shows "fst ` set (td_routers (buildDocument rs ctx tls)) =
      (\<Union>r \<in> set rs. {routeName (canonical r)} \<union>
         (if route_mode r = Some Forward then {outpostName (canonical r)} \<union>
            (if exemptTerms r \<noteq> [] then {exemptName (canonical r)} else {}) else {}))"
    (is "?names = ?union")
proof -
  have doc: "name \<in> ?names \<longleftrightarrow> (\<exists>r \<in> set rs. router_for tls r name \<noteq> None)" for name
  proof -
    have "name \<in> ?names \<longleftrightarrow> jm_get (td_routers (buildDocument rs ctx tls)) name \<noteq> None"
      by (simp add: jm_get_def map_of_eq_None_iff)
    also have "\<dots> \<longleftrightarrow> (\<exists>r \<in> set rs. router_for tls r name \<noteq> None)"
      using document_routers(1) [OF assms, of _ tls name _ ctx] document_routers(2) [OF assms, of tls name ctx]
      by (metis not_Some_eq)
    finally show ?thesis .
  qed
  have one: "router_for tls r name \<noteq> None \<longleftrightarrow> name \<in> {routeName (canonical r)} \<union>
         (if route_mode r = Some Forward then {outpostName (canonical r)} \<union>
            (if exemptTerms r \<noteq> [] then {exemptName (canonical r)} else {}) else {})" for r name
    by (auto simp: router_for_def gated_terms_def)
  show ?thesis by (intro set_eqI) (simp only: doc one UN_iff)
qed

text \<open>
  C28: When the inventory loads, Traefik is its proxy, the configured path is a YAML file and no host name has an
  empty label or a label with a hyphen at its end, \<open>sync-proxy\<close> renders a file whose document gives every route its
  own objects: the router and service of its name are the route's own; a forward-gated route has its outpost router,
  and its exempt router exactly when there are paths to open; and there is no other router.
\<close>

theorem traefik_routes_keep_their_objects:
  assumes "loadInventory u db = Inr iv" and "planSync iv port = Inr (Some (d, routes, ctx))" and "dr_id d = ''traefik''"
    and "checkConfigPath path = None" and "\<forall>r \<in> set routes. plain_dots (canonical r)"
  shows "\<exists>f hash doc tls. render_traefik yaml sha routes ctx path = Inr f \<and> routerTls ctx = Some tls \<and>
    fs_content f = file_text yaml (with_marker hash doc) \<and>
    (\<forall>r \<in> set routes.
       jm_get (td_routers doc) (routeName (canonical r)) = Some (main_router tls r) \<and>
       jm_get (td_services doc) (routeName (canonical r)) = Some (main_service r) \<and>
       jm_get (td_routers doc) (outpostName (canonical r)) =
         (if route_mode r = Some Forward then Some (outpost_router tls r) else None) \<and>
       jm_get (td_routers doc) (exemptName (canonical r)) =
         (if route_mode r = Some Forward \<and> exemptTerms r \<noteq> [] then Some (exempt_router tls r) else None)) \<and>
    fst ` set (td_routers doc) =
      (\<Union>r \<in> set routes. {routeName (canonical r)} \<union>
         (if route_mode r = Some Forward then {outpostName (canonical r)} \<union>
            (if exemptTerms r \<noteq> [] then {exemptName (canonical r)} else {}) else {}))"
proof -
  have hosts: "\<forall>r \<in> set routes. rt_hostnames r \<noteq> []"
    using loaded_routes_named [OF assms(1,2)] by blast
  then have enc: "distinct (map (\<lambda>r. encodeHostname (canonical r)) routes)"
    using distinct_encoded distinct_canonical planSync_valid(2) [OF assms(1,2)] assms(5) by (auto simp: plain_names_def)
  obtain tls where tls: "routerTls ctx = Some tls" using traefik_tls [OF assms(2,3)] by auto
  let ?doc = "buildDocument routes ctx tls"
  let ?f = "\<lparr>fs_path = path, fs_content = file_text yaml (with_marker (traefik_generation yaml sha ?doc) ?doc),
              fs_mode = Owned, fs_ownedHeader = Some TRAEFIK_HEADER, fs_atomic = True\<rparr>"
  have f: "render_traefik yaml sha routes ctx path = Inr ?f"
    by (simp add: render_traefik_def assms(4) unique_names [THEN iffD2, OF enc] tls Let_def)
  note found = document_objects [OF enc, where ctx = ctx and tls = tls]
  show ?thesis
    by (rule exI [of _ ?f], rule exI [of _ "traefik_generation yaml sha ?doc"], rule exI [of _ ?doc], rule exI [of _ tls])
       (use f tls found document_router_names [OF enc, where ctx = ctx and tls = tls] in simp)
qed
definition traefik_inventory :: inventory where
  "traefik_inventory = sample_inventory\<lparr>i_settings := (\<lambda>k. if k = ''proxyDriver'' then Some ''traefik'' else None)\<rparr>"

lemma traefik_inventory_loads: "\<exists>db. loadInventory (\<lambda>_. None) db = Inr (stored_form traefik_inventory)"
proof -
  have "isl (saveInventory traefik_inventory empty_inventory_db) = False" by code_simp
  then obtain db where "saveInventory traefik_inventory empty_inventory_db = Inr db"
    by (cases "saveInventory traefik_inventory empty_inventory_db") auto
  moreover have "InventorySchema (\<lambda>_. None) traefik_inventory" "numeric_ips traefik_inventory" by code_simp+
  ultimately show ?thesis using save_then_load by blast
qed

lemma traefik_planned:
  "case planSync (stored_form traefik_inventory) 9000 of
     Inr (Some (d, routes, ctx)) \<Rightarrow> dr_id d = ''traefik'' \<and> list_all (\<lambda>r. plain_dots (canonical r)) routes \<and>
       routes \<noteq> [] \<and> canonical (hd routes) = ''wiki.lab.example'' \<and>
       rt_hostnames (hd routes) = [''wiki.lab.example''] \<and>
       route_mode (hd routes) = Some Forward \<and> exemptTerms (hd routes) = [PrefixPath ''/api/'', ExactPath ''/health'']
   | _ \<Rightarrow> False"
  "checkConfigPath ''/etc/traefik/dynamic/bellhop.yml'' = None"
  "routeName ''wiki.lab.example'' = ''bellhop-route-wiki-lab-example''"
  "exemptName ''wiki.lab.example'' = ''bellhop-exempt-wiki-lab-example''"
  by code_simp+

theorem traefik_routes_keep_their_objects_witness:
  "\<exists>iv d routes ctx f hash doc tls. planSync iv 9000 = Inr (Some (d, routes, ctx)) \<and> dr_id d = ''traefik'' \<and>
    render_traefik (\<lambda>_. []) id routes ctx ''/etc/traefik/dynamic/bellhop.yml'' = Inr f \<and>
    fs_content f = file_text (\<lambda>_. []) (with_marker hash doc) \<and>
    jm_get (td_routers doc) ''bellhop-route-wiki-lab-example'' = Some (main_router tls (hd routes)) \<and>
    jm_get (td_routers doc) ''bellhop-exempt-wiki-lab-example'' = Some (exempt_router tls (hd routes)) \<and>
    tr_rule (exempt_router tls (hd routes)) =
      ''(Host(`wiki.lab.example`)) && (PathPrefix(`/api/`) || Path(`/health`))''"
proof -
  obtain db where loaded: "loadInventory (\<lambda>_. None) db = Inr (stored_form traefik_inventory)"
    using traefik_inventory_loads by blast
  obtain d routes ctx where planned: "planSync (stored_form traefik_inventory) 9000 = Inr (Some (d, routes, ctx))"
      and id: "dr_id d = ''traefik''" and plain: "\<forall>r \<in> set routes. plain_dots (canonical r)"
      and hosts: "rt_hostnames (hd routes) = [''wiki.lab.example'']"
      and first: "hd routes \<in> set routes" "canonical (hd routes) = ''wiki.lab.example''"
        "route_mode (hd routes) = Some Forward" "exemptTerms (hd routes) = [PrefixPath ''/api/'', ExactPath ''/health'']"
    using traefik_planned(1) by (auto simp: list_all_iff split: sum.splits option.splits)
  from traefik_routes_keep_their_objects
    [OF loaded planned id traefik_planned(2) plain, of "\<lambda>_. []" id]
  obtain f hash doc tls where f: "render_traefik (\<lambda>_. []) id routes ctx ''/etc/traefik/dynamic/bellhop.yml'' = Inr f"
      and content: "fs_content f = file_text (\<lambda>_. []) (with_marker hash doc)"
      and objs: "\<forall>r \<in> set routes.
       jm_get (td_routers doc) (routeName (canonical r)) = Some (main_router tls r) \<and>
       jm_get (td_services doc) (routeName (canonical r)) = Some (main_service r) \<and>
       jm_get (td_routers doc) (outpostName (canonical r)) =
         (if route_mode r = Some Forward then Some (outpost_router tls r) else None) \<and>
       jm_get (td_routers doc) (exemptName (canonical r)) =
         (if route_mode r = Some Forward \<and> exemptTerms r \<noteq> [] then Some (exempt_router tls r) else None)"
    by (elim exE conjE) (rule that; assumption)
  note own = objs [rule_format, OF first(1), unfolded first(2)]
  have main: "jm_get (td_routers doc) ''bellhop-route-wiki-lab-example'' = Some (main_router tls (hd routes))"
    using own unfolding traefik_planned(3) by (elim conjE)
  have "exemptTerms (hd routes) \<noteq> []" unfolding first(4) by simp
  then have exempt: "jm_get (td_routers doc) ''bellhop-exempt-wiki-lab-example'' = Some (exempt_router tls (hd routes))"
    using own unfolding traefik_planned(4) first(3) by (simp only: simp_thms if_True)
  have terms: "tr_rule (exempt_router tls (hd routes)) =
      ''(Host(`wiki.lab.example`)) && (PathPrefix(`/api/`) || Path(`/health`))''"
    by (simp add: exempt_router_def hosts first(4) ruleValue_def hostsRule_def)
  show ?thesis
    by (rule exI, rule exI, rule exI, rule exI, rule exI, rule exI, rule exI, rule exI, rule conjI, rule planned,
        rule conjI, rule id, rule conjI, rule f, rule conjI, rule content, rule conjI, rule main, rule conjI, rule exempt,
        rule terms)
qed

section \<open>What stays open\<close>

lemma exempt_selector_ends: "exempt_selector p \<noteq> ''/''" "exempt_selector p \<noteq> OUTPOST_PATH"
    "exempt_selector p \<noteq> ''@goauthentik_proxy_signin''"
  by (simp_all add: exempt_selector_start OUTPOST_PATH_def)

text \<open>
  C29: For a forward-gated route the nginx and the Traefik configuration ask for the sign-in alike: the nginx server
  checks the requests no other location takes exactly when the Traefik router of the host names the Authentik
  middleware, and when it does, the locations nginx leaves open besides Authentik's own are those of the patterns in
  the rule of the host's exempt router, which has no such middleware.
\<close>

theorem nginx_and_traefik_open_the_same:
  assumes "rt_auth r = ForwardGate ps raws"
  shows "\<exists>blocks. renderServerBody r ctx vars =
      SERVER_LINES @ [''    proxy_buffers 8 16k;'', ''    proxy_buffer_size 32k;''] @ concat (map block_lines blocks) \<and>
    ((\<exists>b \<in> set blocks. fst b = ''/'' \<and> AUTH_REQUEST_LINE \<in> set (snd b)) \<longleftrightarrow>
      ''bellhop-authentik'' \<in> set (tr_middlewares (main_router tls r))) \<and>
    (''bellhop-authentik'' \<in> set (tr_middlewares (main_router tls r)) \<longrightarrow>
      {fst b | b. b \<in> set blocks \<and> AUTH_REQUEST_LINE \<notin> set (snd b)} - {OUTPOST_PATH, ''@goauthentik_proxy_signin''} =
        exempt_selector ` set (exemptTerms r)) \<and>
    ''bellhop-authentik'' \<notin> set (tr_middlewares (exempt_router tls r))"
proof -
  have mode: "route_mode r = Some Forward" using assms by (simp add: route_mode_def)
  let ?blocks = "server_blocks r ctx vars"
  have base: "''bellhop-authentik'' \<notin> set BASE_MIDDLEWARES" by (simp add: BASE_MIDDLEWARES_def)
  have main: "''bellhop-authentik'' \<in> set (tr_middlewares (main_router tls r)) \<longleftrightarrow> \<not> rootExempted r"
    using base by (simp add: main_router_def mode)
  have root: "rootExempted r \<longleftrightarrow> PrefixPath ''/'' \<in> set ps"
    using candidate_patterns(1) [OF assms]
    by (auto simp: rootExempted_def list_ex_iff isRootPrefix_def isOutpostPrefixed_def startsWith_def OUTPOST_PATH_def)
  let ?root = "(''/'', proxyLines (rt_backend r) ctx vars @ (if rootExempted r then [] else FORWARD_AUTH_LINES))"
  have others: "\<forall>b \<in> set (tl ?blocks). fst b \<noteq> ''/''"
    by (auto simp: server_blocks_def outpost_blocks_def exempt_selector_ends OUTPOST_PATH_def)
  have head: "?blocks = ?root # tl ?blocks" by (simp add: server_blocks_def)
  have one: "(\<exists>b \<in> set (x # ys). fst b = s \<and> Q b) \<longleftrightarrow> Q x"
    if "fst x = s" "\<forall>b \<in> set ys. fst b \<noteq> s" for x :: location_block and ys s Q
    using that by auto
  have "AUTH_REQUEST_LINE \<in> set FORWARD_AUTH_LINES" by (simp add: FORWARD_AUTH_LINES_def)
  then have "AUTH_REQUEST_LINE \<in> set (snd ?root) \<longleftrightarrow> \<not> rootExempted r" using proxyLines_plain by simp
  then have "(\<exists>b \<in> set ?blocks. fst b = ''/'' \<and> AUTH_REQUEST_LINE \<in> set (snd b)) \<longleftrightarrow> \<not> rootExempted r"
    using one [of ?root "''/''" "tl ?blocks" "\<lambda>b. AUTH_REQUEST_LINE \<in> set (snd b)", OF _ others]
    unfolding head [symmetric] by simp
  moreover have "{fst b | b. b \<in> set ?blocks \<and> AUTH_REQUEST_LINE \<notin> set (snd b)} - {OUTPOST_PATH, ''@goauthentik_proxy_signin''} =
        exempt_selector ` set (exemptTerms r)" if "\<not> rootExempted r"
  proof -
    have "set (exemptTerms r) = {p \<in> set ps. \<not> isOutpostPrefixed p \<and> \<not> isRootPrefix p}"
      using that candidate_patterns(1) [OF assms] by (auto simp: exemptTerms_def rootExempted_def list_ex_iff)
    then show ?thesis unfolding open_selectors [OF assms] using that root exempt_selector_ends by fastforce
  qed
  moreover have "''bellhop-authentik'' \<notin> set (tr_middlewares (exempt_router tls r))"
    using base by (simp add: exempt_router_def)
  ultimately show ?thesis
    using forward_body [OF mode, of ctx vars] main by (intro exI [of _ ?blocks]) blast
qed

theorem nginx_and_traefik_open_the_same_witness:
  "\<exists>r blocks. rt_auth r = ForwardGate [PrefixPath ''/api/''] [''/api/*''] \<and>
    renderServerBody r sample_context NGINX_VARS =
      SERVER_LINES @ [''    proxy_buffers 8 16k;'', ''    proxy_buffer_size 32k;''] @ concat (map block_lines blocks) \<and>
    ''bellhop-authentik'' \<in> set (tr_middlewares (main_router None r)) \<and>
    (\<exists>b \<in> set blocks. fst b = ''/'' \<and> AUTH_REQUEST_LINE \<in> set (snd b)) \<and>
    {fst b | b. b \<in> set blocks \<and> AUTH_REQUEST_LINE \<notin> set (snd b)} - {OUTPOST_PATH, ''@goauthentik_proxy_signin''} =
      exempt_selector ` {PrefixPath ''/api/''}"
proof -
  let ?r = "sample_route\<lparr>rt_auth := ForwardGate [PrefixPath ''/api/''] [''/api/*'']\<rparr>"
  have auth: "rt_auth ?r = ForwardGate [PrefixPath ''/api/''] [''/api/*'']" by simp
  have "exemptTerms ?r = [PrefixPath ''/api/'']" "\<not> rootExempted ?r" "route_mode ?r = Some Forward" by code_simp+
  then have gated: "''bellhop-authentik'' \<in> set (tr_middlewares (main_router None ?r))" and
      terms: "set (exemptTerms ?r) = {PrefixPath ''/api/''}"
    by (simp_all add: main_router_def)
  show ?thesis
    using nginx_and_traefik_open_the_same [OF auth, of sample_context NGINX_VARS None] gated auth unfolding terms by blast
qed

end
