(* ===== verification/Caddy_Json.thy ===== *)
theory Caddy_Json
  imports File_Proxies
begin

text \<open>
  The admin-API Caddy driver's planner: \<open>src/src/lib/proxy/caddy-json.ts\<close>.  A configuration is a record per
  object the schemas name, each with the other keys it carries through.  Objects are in the form
  \<open>canonicalJson\<close> compares, with their keys in order, so two of them are equal exactly when their canonical
  texts are.
\<close>

section \<open>Configurations\<close>

datatype caddy_value =
    JNull
  | JBool bool
  | JNum int
  | JStr string
  | JArr "caddy_value list"
  | JObj "(string \<times> caddy_value) list"

type_synonym other_keys = "(string \<times> caddy_value) list"

record host_match =
  hm_host :: "string list option"
  hm_rest :: other_keys

record caddy_route =
  cr_id :: "string option"
  cr_match :: "host_match list option"
  cr_rest :: other_keys

record connection_policy =
  cp_id :: "string option"
  cp_match :: "other_keys option"
  cp_rest :: other_keys

record caddy_server =
  sv_listen :: "string list option"
  sv_routes :: "caddy_route list option"
  sv_policies :: "connection_policy list option"
  sv_rest :: other_keys

record tls_policy =
  tp_id :: "string option"
  tp_subjects :: "string list option"
  tp_rest :: other_keys

record load_file =
  lf_id :: "string option"
  lf_certificate :: "string option"
  lf_key :: "string option"
  lf_tags :: "string list option"
  lf_rest :: other_keys

record http_app =
  ha_servers :: "(string \<times> caddy_server) list option"
  ha_rest :: other_keys

record tls_automation =
  ta_policies :: "tls_policy list option"
  ta_rest :: other_keys

record tls_certificates =
  tc_load_files :: "load_file list option"
  tc_rest :: other_keys

record tls_app =
  tl_automation :: "tls_automation option"
  tl_certificates :: "tls_certificates option"
  tl_rest :: other_keys

record caddy_apps =
  ap_http :: "http_app option"
  ap_tls :: "tls_app option"
  ap_rest :: other_keys

record caddy_config =
  cc_apps :: "caddy_apps option"
  cc_rest :: other_keys

definition empty_config :: caddy_config where
  "empty_config = \<lparr>cc_apps = None, cc_rest = []\<rparr>"

definition servers_of :: "caddy_config \<Rightarrow> (string \<times> caddy_server) list" where
  "servers_of c = or_empty (Option.bind (Option.bind (cc_apps c) ap_http) ha_servers)"

definition policies_of :: "caddy_config \<Rightarrow> tls_policy list" where
  "policies_of c = or_empty (Option.bind (Option.bind (Option.bind (cc_apps c) ap_tls) tl_automation) ta_policies)"

definition load_files_of :: "caddy_config \<Rightarrow> load_file list" where
  "load_files_of c = or_empty (Option.bind (Option.bind (Option.bind (cc_apps c) ap_tls) tl_certificates) tc_load_files)"

section \<open>Rendering\<close>

definition BELLHOP_ID_PREFIX :: string where
  "BELLHOP_ID_PREFIX = ''bellhop-''"

definition BELLHOP_TLS_POLICY_ID :: string where
  "BELLHOP_TLS_POLICY_ID = ''bellhop-tls''"

definition BELLHOP_TLS_FILES_ID :: string where
  "BELLHOP_TLS_FILES_ID = ''bellhop-tls-files''"

definition BELLHOP_TLS_CONNECTION_ID :: string where
  "BELLHOP_TLS_CONNECTION_ID = ''bellhop-tls-connection''"

definition BELLHOP_TLS_DEFAULT_ID :: string where
  "BELLHOP_TLS_DEFAULT_ID = ''bellhop-tls-default''"

definition BELLHOP_CERT_TAG :: string where
  "BELLHOP_CERT_TAG = ''bellhop-cert''"

definition routeId :: "proxy_route \<Rightarrow> string" where
  "routeId r = BELLHOP_ID_PREFIX @ ''route-'' @ hd (rt_hostnames r)"

text \<open>Whether an object with this \<open>@id\<close> is Bellhop's.\<close>

definition isBellhopObject :: "string option \<Rightarrow> bool" where
  "isBellhopObject i \<longleftrightarrow> (case i of None \<Rightarrow> False | Some s \<Rightarrow> startsWith s BELLHOP_ID_PREFIX)"

definition AUTHENTIK_COPY_HEADERS :: "string list" where
  "AUTHENTIK_COPY_HEADERS =
     [''X-Authentik-Username'', ''X-Authentik-Groups'', ''X-Authentik-Email'', ''X-Authentik-Name'', ''X-Authentik-Uid'']"

definition OUTPOST_AUTH_URI :: string where
  "OUTPOST_AUTH_URI = OUTPOST_PATH @ ''/auth/caddy''"

definition forwardAuthHandler :: "string \<Rightarrow> caddy_value" where
  "forwardAuthHandler outpost =
     (let copyRoutes = map (\<lambda>header.
            let placeholder = ''{http.reverse_proxy.header.'' @ header @ ''}''
            in JObj [(''handle'', JArr [JObj [(''handler'', JStr ''headers''),
                        (''request'', JObj [(''set'', JObj [(header, JArr [JStr placeholder])])])]]),
                     (''match'', JArr [JObj [(''not'', JArr [JObj [(''vars'', JObj [(placeholder, JArr [JStr []])])]])]])])
          (sort AUTHENTIK_COPY_HEADERS)
      in JObj
        [(''handle_response'', JArr [JObj
            [(''match'', JObj [(''status_code'', JArr [JNum 2])]),
             (''routes'', JArr (JObj [(''handle'', JArr [JObj [(''handler'', JStr ''vars'')]])] # copyRoutes))]]),
         (''handler'', JStr ''reverse_proxy''),
         (''headers'', JObj [(''request'', JObj [(''set'', JObj
            [(''X-Forwarded-Method'', JArr [JStr ''{http.request.method}'']),
             (''X-Forwarded-Uri'', JArr [JStr ''{http.request.uri}''])])])]),
         (''rewrite'', JObj [(''method'', JStr ''GET''), (''uri'', JStr OUTPOST_AUTH_URI)]),
         (''upstreams'', JArr [JObj [(''dial'', JStr outpost)]])])"

definition gate_exempt_paths :: "proxy_auth \<Rightarrow> string list" where
  "gate_exempt_paths a = (case a of ForwardGate ps raws \<Rightarrow> raws | _ \<Rightarrow> [])"

definition forward_subroutes :: "proxy_route \<Rightarrow> string \<Rightarrow> caddy_value list" where
  "forward_subroutes r outpost =
     [JObj ((''handle'', JArr [forwardAuthHandler outpost]) #
        (if gate_exempt_paths (rt_auth r) = [] then []
         else [(''match'', JArr [JObj [(''not'', JArr [JObj [(''path'', JArr (map JStr (gate_exempt_paths (rt_auth r))))]])]])])),
      JObj [(''handle'', JArr [JObj [(''handler'', JStr ''subroute''),
              (''routes'', JArr [JObj [(''handle'', JArr [JObj [(''handler'', JStr ''reverse_proxy''),
                 (''upstreams'', JArr [JObj [(''dial'', JStr outpost)]])]])]])]]),
            (''match'', JArr [JObj [(''path'', JArr [JStr (OUTPOST_PATH @ ''/*'')])]])]]"

definition backend_subroute :: "proxy_route \<Rightarrow> proxy_context \<Rightarrow> caddy_value" where
  "backend_subroute r ctx =
     JObj [(''handle'', JArr [JObj
       ([(''handler'', JStr ''reverse_proxy''),
         (''headers'', JObj [(''request'', JObj [(''set'', JObj
            [(''X-Forwarded-Port'', JArr [JStr (show_int (px_externalPort ctx))])])])])] @
        (if bk_insecureTls (rt_backend r)
         then [(''transport'', JObj [(''protocol'', JStr ''http''),
                 (''tls'', JObj [(''insecure_skip_verify'', JBool True)])])]
         else []) @
        [(''upstreams'', JArr [JObj [(''dial'',
            JStr (ip_text (bk_ip (rt_backend r)) @ '':'' @ show_int (bk_port (rt_backend r))))]])])])]"

definition caddy_renderRoute :: "proxy_route \<Rightarrow> proxy_context \<Rightarrow> caddy_route" where
  "caddy_renderRoute r ctx =
     \<lparr>cr_id = Some (routeId r),
      cr_match = Some [\<lparr>hm_host = Some (rt_hostnames r), hm_rest = []\<rparr>],
      cr_rest =
        [(''handle'', JArr [JObj [(''handler'', JStr ''subroute''),
            (''routes'', JArr ((if route_mode r = Some Forward then forward_subroutes r (outpost_addr ctx) else []) @
               [backend_subroute r ctx]))]]),
         (''terminal'', JBool True)]\<rparr>"

record caddy_tls_objects =
  to_policy :: "tls_policy option"
  to_loadFile :: "load_file option"
  to_connectionPolicy :: "connection_policy option"

definition no_tls_objects :: caddy_tls_objects where
  "no_tls_objects = \<lparr>to_policy = None, to_loadFile = None, to_connectionPolicy = None\<rparr>"

definition acmeDnsProviderObject :: "string \<Rightarrow> caddy_value option" where
  "acmeDnsProviderObject provider =
     (if provider = ''cloudflare''
      then Some (JObj [(''api_token'', JStr ''{env.CLOUDFLARE_API_TOKEN}''), (''name'', JStr ''cloudflare'')]) else None)"

definition acme_dns_issuer :: "proxy_context \<Rightarrow> caddy_value" where
  "acme_dns_issuer ctx =
     JObj [(''challenges'', JObj [(''dns'', JObj
        ((case acmeDnsProviderObject (px_acmeDnsProvider ctx) of None \<Rightarrow> [] | Some p \<Rightarrow> [(''provider'', p)]) @
         [(''resolvers'', JArr [JStr ''1.1.1.1'', JStr ''8.8.8.8''])]))]),
       (''module'', JStr ''acme'')]"

text \<open>\<open>None\<close> is the error for the source \<open>external\<close>.\<close>

definition renderTlsObjects :: "string list \<Rightarrow> proxy_context \<Rightarrow> caddy_tls_objects option" where
  "renderTlsObjects hostnames ctx =
     (if px_tlsSource ctx = ''acme-dns'' then
        Some (no_tls_objects\<lparr>to_policy := Some \<lparr>tp_id = Some BELLHOP_TLS_POLICY_ID, tp_subjects = Some hostnames,
          tp_rest = [(''issuers'', JArr [acme_dns_issuer ctx])]\<rparr>\<rparr>)
      else if px_tlsSource ctx = ''internal'' then
        Some (no_tls_objects\<lparr>to_policy := Some \<lparr>tp_id = Some BELLHOP_TLS_POLICY_ID, tp_subjects = Some hostnames,
          tp_rest = [(''issuers'', JArr [JObj [(''module'', JStr ''internal'')]])]\<rparr>\<rparr>)
      else if px_tlsSource ctx = ''files'' then
        Some (no_tls_objects\<lparr>
          to_loadFile := Some \<lparr>lf_id = Some BELLHOP_TLS_FILES_ID, lf_certificate = Some (px_certificatePath ctx),
            lf_key = Some (px_keyPath ctx), lf_tags = Some [BELLHOP_CERT_TAG], lf_rest = []\<rparr>,
          to_connectionPolicy := Some \<lparr>cp_id = Some BELLHOP_TLS_CONNECTION_ID,
            cp_match = Some [(''sni'', JArr (map JStr hostnames))],
            cp_rest = [(''certificate_selection'', JObj [(''any_tag'', JArr [JStr BELLHOP_CERT_TAG])])]\<rparr>\<rparr>)
      else if px_tlsSource ctx = ''acme-http'' then Some no_tls_objects
      else None)"

definition writesAutomationPolicy :: "proxy_context \<Rightarrow> bool option" where
  "writesAutomationPolicy ctx = map_option (\<lambda>t. to_policy t \<noteq> None) (renderTlsObjects [] ctx)"

definition renderDefaultConnectionPolicy :: connection_policy where
  "renderDefaultConnectionPolicy = \<lparr>cp_id = Some BELLHOP_TLS_DEFAULT_ID, cp_match = None, cp_rest = []\<rparr>"

section \<open>Planning\<close>

datatype caddy_claim = ByRoute string | ByTlsPolicy

record caddy_conflict =
  cf_hostname :: string
  cf_owner :: "owner_type \<times> string"
  cf_claim :: caddy_claim

datatype change_kind = AddObj | ReplaceObj | RemoveObj | ReorderObj

datatype change_object = RouteObj | TlsPolicyObj | TlsFilesObj | TlsConnectionObj

record caddy_change =
  ch_kind :: change_kind
  ch_object :: change_object
  ch_hostnames :: "string list"
  ch_route :: "proxy_route option"
  ch_certificatePath :: "string option"

record caddy_plan =
  pl_config :: "caddy_config option"
  pl_changes :: "caddy_change list"
  pl_conflicts :: "caddy_conflict list"
  pl_routes :: "caddy_route list"
  pl_policy :: "tls_policy option"
  pl_loadFile :: "load_file option"
  pl_connections :: "connection_policy list"

datatype caddy_error = ExternalSource | HttpsServers "string list" string

definition listensOnHttps :: "caddy_server \<Rightarrow> bool" where
  "listensOnHttps sv \<longleftrightarrow> list_ex (\<lambda>address. endsWith address '':443'') (or_empty (sv_listen sv))"

definition routeHosts :: "caddy_route \<Rightarrow> string list" where
  "routeHosts r = concat (map (\<lambda>m. or_empty (hm_host m)) (or_empty (cr_match r)))"

definition targetServer ::
  "(string \<times> caddy_server) list \<Rightarrow> string \<Rightarrow> caddy_error + ((string \<times> caddy_server) list \<times> string)" where
  "targetServer servers host =
     (if servers = [] then
        Inr ([(''srv0'', \<lparr>sv_listen = Some ['':443''], sv_routes = Some [], sv_policies = None, sv_rest = []\<rparr>)], ''srv0'')
      else let https = map fst (filter (\<lambda>(name, sv). listensOnHttps sv) servers)
           in if length https \<noteq> 1 then Inl (HttpsServers https host) else Inr (servers, hd https))"

definition changeKind :: "'a option \<Rightarrow> 'a option \<Rightarrow> change_kind option" where
  "changeKind before after =
     (if after \<noteq> None \<and> before = None then Some AddObj
      else if after = None \<and> before \<noteq> None then Some RemoveObj
      else if after \<noteq> None \<and> before \<noteq> after then Some ReplaceObj
      else None)"

definition str_elements :: "caddy_value list \<Rightarrow> string list" where
  "str_elements js = concat (map (\<lambda>j. case j of JStr s \<Rightarrow> [s] | _ \<Rightarrow> []) js)"

definition sniOf :: "connection_policy option \<Rightarrow> string list" where
  "sniOf p = (case Option.bind (Option.bind p cp_match) (\<lambda>m. map_of m ''sni'') of
     Some (JArr js) \<Rightarrow> str_elements js | _ \<Rightarrow> [])"

definition differs_in :: "(caddy_server \<Rightarrow> 'a option) \<Rightarrow> caddy_config \<Rightarrow> caddy_config \<Rightarrow> bool" where
  "differs_in part before after \<longleftrightarrow>
     list_ex (\<lambda>n. Option.bind (jm_get (servers_of before) n) part \<noteq> Option.bind (jm_get (servers_of after) n) part)
       (uniq (map fst (servers_of before) @ map fst (servers_of after)))"

definition policies_option :: "caddy_config \<Rightarrow> tls_policy list option" where
  "policies_option c = Option.bind (Option.bind (Option.bind (cc_apps c) ap_tls) tl_automation) ta_policies"

definition load_files_option :: "caddy_config \<Rightarrow> load_file list option" where
  "load_files_option c = Option.bind (Option.bind (Option.bind (cc_apps c) ap_tls) tl_certificates) tc_load_files"

definition movedObjects :: "caddy_config \<Rightarrow> caddy_config \<Rightarrow> change_object list" where
  "movedObjects before after =
     (let moved =
        (if differs_in sv_routes before after then [RouteObj] else []) @
        (if policies_option before \<noteq> policies_option after then [TlsPolicyObj] else []) @
        (if load_files_option before \<noteq> load_files_option after then [TlsFilesObj] else []) @
        (if differs_in sv_policies before after then [TlsConnectionObj] else [])
      in if moved = [] then [RouteObj] else moved)"

subsection \<open>What the live configuration holds\<close>

definition tagged_routes :: "caddy_config \<Rightarrow> (string \<times> caddy_route) list" where
  "tagged_routes c =
     foldl (\<lambda>m r. if isBellhopObject (cr_id r) then jm_set (the (cr_id r)) r m else m) []
       (concat (map (\<lambda>(n, sv). or_empty (sv_routes sv)) (servers_of c)))"

definition tagged_connections :: "caddy_config \<Rightarrow> connection_policy list" where
  "tagged_connections c =
     concat (map (\<lambda>(n, sv). filter (\<lambda>p. isBellhopObject (cp_id p)) (or_empty (sv_policies sv))) (servers_of c))"

definition claim_host :: "caddy_claim \<Rightarrow> string \<Rightarrow> (string \<times> caddy_claim) list \<Rightarrow> (string \<times> caddy_claim) list" where
  "claim_host by h m = (if jm_has m (toLowerCase h) then m else jm_set (toLowerCase h) by m)"

definition claims_of :: "bool \<Rightarrow> caddy_config \<Rightarrow> (string \<times> caddy_claim) list" where
  "claims_of writesPolicy c =
     (let routes = concat (map (\<lambda>(n, sv). map (\<lambda>h. (h, ByRoute n)) (concat (map routeHosts
                     (filter (\<lambda>r. \<not> isBellhopObject (cr_id r)) (or_empty (sv_routes sv)))))) (servers_of c));
          policies = (if writesPolicy
                      then concat (map (\<lambda>p. map (\<lambda>h. (h, ByTlsPolicy)) (or_empty (tp_subjects p)))
                             (filter (\<lambda>p. \<not> isBellhopObject (tp_id p)) (policies_of c)))
                      else [])
      in foldl (\<lambda>m (h, by). claim_host by h m) [] (routes @ policies))"

fun split_routes :: "(string \<times> caddy_claim) list \<Rightarrow> proxy_route list \<Rightarrow> proxy_route list \<times> caddy_conflict list" where
  "split_routes claims [] = ([], [])"
| "split_routes claims (r # rs) =
     (let (kept, conflicts) = split_routes claims rs
      in case find (\<lambda>h. jm_has claims (toLowerCase h)) (rt_hostnames r) of
           None \<Rightarrow> (r # kept, conflicts)
         | Some h \<Rightarrow> (kept, \<lparr>cf_hostname = h, cf_owner = rt_owner r, cf_claim = the (jm_get claims (toLowerCase h))\<rparr> # conflicts))"

subsection \<open>The new configuration\<close>

definition edit_http :: "(http_app option \<Rightarrow> http_app option) \<Rightarrow> caddy_config \<Rightarrow> caddy_config" where
  "edit_http f c =
     (case cc_apps c of
        Some a \<Rightarrow> c\<lparr>cc_apps := Some (a\<lparr>ap_http := f (ap_http a)\<rparr>)\<rparr>
      | None \<Rightarrow> (case f None of None \<Rightarrow> c
                 | Some h \<Rightarrow> c\<lparr>cc_apps := Some \<lparr>ap_http = Some h, ap_tls = None, ap_rest = []\<rparr>\<rparr>))"

definition edit_tls :: "(tls_app option \<Rightarrow> tls_app option) \<Rightarrow> caddy_config \<Rightarrow> caddy_config" where
  "edit_tls f c =
     (case cc_apps c of
        Some a \<Rightarrow> c\<lparr>cc_apps := Some (a\<lparr>ap_tls := f (ap_tls a)\<rparr>)\<rparr>
      | None \<Rightarrow> (case f None of None \<Rightarrow> c
                 | Some t \<Rightarrow> c\<lparr>cc_apps := Some \<lparr>ap_http = None, ap_tls = Some t, ap_rest = []\<rparr>\<rparr>))"

definition strip_server :: "caddy_server \<Rightarrow> caddy_server" where
  "strip_server sv =
     sv\<lparr>sv_routes := map_option (filter (\<lambda>r. \<not> isBellhopObject (cr_id r))) (sv_routes sv),
        sv_policies :=
          (if list_ex (\<lambda>p. isBellhopObject (cp_id p)) (or_empty (sv_policies sv)) then
             (let rest = filter (\<lambda>p. \<not> isBellhopObject (cp_id p)) (or_empty (sv_policies sv))
              in if rest = [] then None else Some rest)
           else sv_policies sv)\<rparr>"

definition strip_servers :: "caddy_config \<Rightarrow> caddy_config" where
  "strip_servers c =
     edit_http (map_option (\<lambda>h. h\<lparr>ha_servers := map_option (map (\<lambda>(n, sv). (n, strip_server sv))) (ha_servers h)\<rparr>)) c"

definition set_servers :: "(string \<times> caddy_server) list \<Rightarrow> caddy_config \<Rightarrow> caddy_config" where
  "set_servers ss c =
     edit_http (\<lambda>h. case h of None \<Rightarrow> Some \<lparr>ha_servers = Some ss, ha_rest = []\<rparr>
                            | Some x \<Rightarrow> Some (x\<lparr>ha_servers := Some ss\<rparr>)) c"

text \<open>The connection policies Bellhop adds to the target server: its own, and a catch-all unless there is one.\<close>

definition desired_connections :: "connection_policy option \<Rightarrow> caddy_server \<Rightarrow> connection_policy list" where
  "desired_connections connectionPolicy sv =
     (case connectionPolicy of
        None \<Rightarrow> []
      | Some p \<Rightarrow> p # (if list_ex (\<lambda>q. cp_match q = None) (or_empty (sv_policies sv)) then []
                       else [renderDefaultConnectionPolicy]))"

definition place_on_server :: "caddy_route list \<Rightarrow> connection_policy option \<Rightarrow> caddy_server \<Rightarrow> caddy_server" where
  "place_on_server desiredRoutes connectionPolicy sv =
     (let sv' = sv\<lparr>sv_routes := Some (desiredRoutes @ or_empty (sv_routes sv))\<rparr>
      in case connectionPolicy of
           None \<Rightarrow> sv'
         | Some p \<Rightarrow> sv'\<lparr>sv_policies :=
             Some (p # or_empty (sv_policies sv) @ tl (desired_connections connectionPolicy sv))\<rparr>)"

definition place_routes ::
  "caddy_route list \<Rightarrow> connection_policy option \<Rightarrow> string \<Rightarrow> caddy_config \<Rightarrow>
   caddy_error + (caddy_config \<times> connection_policy list)" where
  "place_routes desiredRoutes connectionPolicy host c =
     (if desiredRoutes = [] then Inr (c, [])
      else case targetServer (servers_of c) host of
             Inl err \<Rightarrow> Inl err
           | Inr (servers, target) \<Rightarrow>
               (let sv = the (jm_get servers target)
                in Inr (set_servers (jm_set target (place_on_server desiredRoutes connectionPolicy sv) servers) c,
                        desired_connections connectionPolicy sv)))"

definition set_policies :: "tls_policy list \<Rightarrow> bool \<Rightarrow> tls_app option \<Rightarrow> tls_app option" where
  "set_policies newPolicies existed t =
     (if newPolicies \<noteq> [] then
        (let t' = (case t of None \<Rightarrow> \<lparr>tl_automation = None, tl_certificates = None, tl_rest = []\<rparr> | Some x \<Rightarrow> x);
             au = (case tl_automation t' of None \<Rightarrow> \<lparr>ta_policies = None, ta_rest = []\<rparr> | Some x \<Rightarrow> x)
         in Some (t'\<lparr>tl_automation := Some (au\<lparr>ta_policies := Some newPolicies\<rparr>)\<rparr>))
      else if existed then
        map_option (\<lambda>x. x\<lparr>tl_automation := Option.bind (tl_automation x)
          (\<lambda>au. if ta_rest au = [] then None else Some (au\<lparr>ta_policies := None\<rparr>))\<rparr>) t
      else t)"

definition set_load_files :: "load_file list \<Rightarrow> bool \<Rightarrow> tls_app option \<Rightarrow> tls_app option" where
  "set_load_files newLoadFiles existed t =
     (if newLoadFiles \<noteq> [] then
        (let t' = (case t of None \<Rightarrow> \<lparr>tl_automation = None, tl_certificates = None, tl_rest = []\<rparr> | Some x \<Rightarrow> x);
             ce = (case tl_certificates t' of None \<Rightarrow> \<lparr>tc_load_files = None, tc_rest = []\<rparr> | Some x \<Rightarrow> x)
         in Some (t'\<lparr>tl_certificates := Some (ce\<lparr>tc_load_files := Some newLoadFiles\<rparr>)\<rparr>))
      else if existed then
        map_option (\<lambda>x. x\<lparr>tl_certificates := Option.bind (tl_certificates x)
          (\<lambda>ce. if tc_rest ce = [] then None else Some (ce\<lparr>tc_load_files := None\<rparr>))\<rparr>) t
      else t)"

definition prune_tls :: "bool \<Rightarrow> tls_app option \<Rightarrow> tls_app option" where
  "prune_tls existed t =
     Option.bind t (\<lambda>x. if existed \<and> tl_automation x = None \<and> tl_certificates x = None \<and> tl_rest x = [] then None else Some x)"

definition cons_option :: "'a option \<Rightarrow> 'a list \<Rightarrow> 'a list" where
  "cons_option x xs = (case x of None \<Rightarrow> xs | Some y \<Rightarrow> y # xs)"

subsection \<open>Changes\<close>

definition route_changes :: "(string \<times> caddy_route) list \<Rightarrow> proxy_route list \<Rightarrow> proxy_context \<Rightarrow> caddy_change list" where
  "route_changes existing kept ctx =
     List.map_filter (\<lambda>r.
       let change = \<lambda>kind. Some \<lparr>ch_kind = kind, ch_object = RouteObj, ch_hostnames = rt_hostnames r,
                                   ch_route = Some r, ch_certificatePath = None\<rparr>
       in case jm_get existing (routeId r) of
            None \<Rightarrow> change AddObj
          | Some before \<Rightarrow> if before \<noteq> caddy_renderRoute r ctx then change ReplaceObj else None) kept @
     List.map_filter (\<lambda>(i, before).
       if i \<in> set (map routeId kept) then None
       else Some \<lparr>ch_kind = RemoveObj, ch_object = RouteObj, ch_hostnames = routeHosts before,
                  ch_route = None, ch_certificatePath = None\<rparr>) existing"

definition tls_change :: "change_kind option \<Rightarrow> change_object \<Rightarrow> string list \<Rightarrow> string option \<Rightarrow> caddy_change list" where
  "tls_change kind obj hosts cert =
     (case kind of None \<Rightarrow> []
      | Some k \<Rightarrow> [\<lparr>ch_kind = k, ch_object = obj, ch_hostnames = hosts, ch_route = None, ch_certificatePath = cert\<rparr>])"

definition or_else :: "'a option \<Rightarrow> 'a option \<Rightarrow> 'a option" where
  "or_else x y = (case x of None \<Rightarrow> y | Some _ \<Rightarrow> x)"

definition nonempty :: "'a list \<Rightarrow> 'a list option" where
  "nonempty xs = (if xs = [] then None else Some xs)"

abbreviation live_policy :: "caddy_config \<Rightarrow> tls_policy option" where
  "live_policy live \<equiv> find (\<lambda>p. isBellhopObject (tp_id p)) (policies_of live)"

abbreviation live_load_file :: "caddy_config \<Rightarrow> load_file option" where
  "live_load_file live \<equiv> find (\<lambda>f. isBellhopObject (lf_id f)) (load_files_of live)"

definition desired_tls :: "proxy_context \<Rightarrow> proxy_route list \<Rightarrow> caddy_tls_objects" where
  "desired_tls ctx kept =
     (if kept \<noteq> [] then the (renderTlsObjects (concat (map rt_hostnames kept)) ctx) else no_tls_objects)"

text \<open>The TLS containers of the new configuration, once the routes are placed.\<close>

definition new_config :: "caddy_config \<Rightarrow> caddy_tls_objects \<Rightarrow> caddy_config \<Rightarrow> caddy_config" where
  "new_config live desired placed =
     (let newPolicies = cons_option (to_policy desired) (filter (\<lambda>p. \<not> isBellhopObject (tp_id p)) (policies_of live));
          newLoadFiles = cons_option (to_loadFile desired) (filter (\<lambda>f. \<not> isBellhopObject (lf_id f)) (load_files_of live))
      in edit_tls (prune_tls (live_policy live \<noteq> None \<or> live_load_file live \<noteq> None))
           (edit_tls (set_load_files newLoadFiles (live_load_file live \<noteq> None))
             (edit_tls (set_policies newPolicies (live_policy live \<noteq> None)) placed)))"

definition listed_changes ::
  "caddy_config \<Rightarrow> proxy_route list \<Rightarrow> proxy_context \<Rightarrow> caddy_tls_objects \<Rightarrow> connection_policy list \<Rightarrow> caddy_change list" where
  "listed_changes live kept ctx desired desiredConnections =
     route_changes (tagged_routes live) kept ctx @
     tls_change (changeKind (live_policy live) (to_policy desired)) TlsPolicyObj
       (or_empty (Option.bind (or_else (to_policy desired) (live_policy live)) tp_subjects)) None @
     tls_change (changeKind (live_load_file live) (to_loadFile desired)) TlsFilesObj []
       (Option.bind (to_loadFile desired) lf_certificate) @
     tls_change (changeKind (nonempty (tagged_connections live)) (nonempty desiredConnections)) TlsConnectionObj
       (sniOf (or_else (to_connectionPolicy desired) (find (\<lambda>p. cp_match p \<noteq> None) (tagged_connections live)))) None"

definition reorder_changes :: "caddy_config \<Rightarrow> caddy_config \<Rightarrow> caddy_change list" where
  "reorder_changes live config =
     map (\<lambda>obj. \<lparr>ch_kind = ReorderObj, ch_object = obj, ch_hostnames = [], ch_route = None, ch_certificatePath = None\<rparr>)
       (movedObjects live config)"

definition planCaddyConfig ::
  "caddy_config option \<Rightarrow> proxy_route list \<Rightarrow> proxy_context \<Rightarrow> string \<Rightarrow> caddy_error + caddy_plan" where
  "planCaddyConfig current routes ctx host =
     (let live = (case current of None \<Rightarrow> empty_config | Some c \<Rightarrow> c)
      in case writesAutomationPolicy ctx of
           None \<Rightarrow> Inl ExternalSource
         | Some writesPolicy \<Rightarrow>
             (let (kept, conflicts) = split_routes (claims_of writesPolicy live) routes;
                  desiredRoutes = map (\<lambda>r. caddy_renderRoute r ctx) kept;
                  desired = desired_tls ctx kept
              in case place_routes desiredRoutes (to_connectionPolicy desired) host (strip_servers live) of
                   Inl err \<Rightarrow> Inl err
                 | Inr (placed, desiredConnections) \<Rightarrow>
                     (let config = new_config live desired placed;
                          listed = listed_changes live kept ctx desired desiredConnections;
                          changed = (config \<noteq> live)
                      in Inr \<lparr>pl_config = (if changed then Some config else None),
                              pl_changes = listed @ (if changed \<and> listed = [] then reorder_changes live config else []),
                              pl_conflicts = conflicts, pl_routes = desiredRoutes, pl_policy = to_policy desired,
                              pl_loadFile = to_loadFile desired, pl_connections = desiredConnections\<rparr>)))"

section \<open>Messages\<close>

definition NO_CHANGES_MESSAGE :: string where
  "NO_CHANGES_MESSAGE = ''No changes: Caddy'' @ sq @ ''s configuration already matches the inventory.''"

definition routeDetails :: "proxy_route \<Rightarrow> string" where
  "routeDetails r =
     (let n = length (gate_exempt_paths (rt_auth r));
          flags = (if bk_insecureTls (rt_backend r) then [''insecure backend TLS''] else []) @
            (case route_mode r of
               Some Forward \<Rightarrow>
                 [if n > 0 then ''forward-auth, '' @ show_nat n @ '' exempt path'' @ (if n = 1 then [] else ''s'') else ''forward-auth'']
             | Some Oidc \<Rightarrow> [''OIDC'']
             | None \<Rightarrow> []);
          target = '' -> '' @ ip_text (bk_ip (rt_backend r)) @ '':'' @ show_int (bk_port (rt_backend r))
      in if flags \<noteq> [] then target @ '' ('' @ join_with '', '' flags @ '')'' else target)"

fun change_symbol :: "change_kind \<Rightarrow> string" where
  "change_symbol AddObj = ''+''"
| "change_symbol ReplaceObj = ''~''"
| "change_symbol RemoveObj = ''-''"
| "change_symbol ReorderObj = ''~''"

fun moved_tls_label :: "change_object \<Rightarrow> string" where
  "moved_tls_label TlsPolicyObj = ''automation policy''"
| "moved_tls_label TlsFilesObj = ''certificate files''"
| "moved_tls_label TlsConnectionObj = ''connection policies''"
| "moved_tls_label RouteObj = []"

definition conflictClaim :: "caddy_claim \<Rightarrow> string" where
  "conflictClaim c = (case c of
     ByRoute server \<Rightarrow> ''a hand-authored route in server '' @ sq @ server @ sq
   | ByTlsPolicy \<Rightarrow> ''a hand-authored TLS automation policy'')"

definition change_line :: "caddy_change \<Rightarrow> string" where
  "change_line ch =
     (let symbol = change_symbol (ch_kind ch); n = show_nat (length (ch_hostnames ch))
      in if ch_kind ch = ReorderObj then
           (if ch_object ch = RouteObj then symbol @ '' move Bellhop routes ahead of hand-authored routes''
            else symbol @ '' move Bellhop TLS objects ahead of hand-authored ones ('' @ moved_tls_label (ch_object ch) @ '')'')
         else (case ch_object ch of
             TlsPolicyObj \<Rightarrow>
               if ch_kind ch = RemoveObj then symbol @ '' tls policy'' else symbol @ '' tls policy: '' @ n @ '' hostnames''
           | TlsFilesObj \<Rightarrow>
               if ch_kind ch = RemoveObj then symbol @ '' tls certificate files''
               else symbol @ '' tls certificate files: '' @ or_default (ch_certificatePath ch) ''undefined''
           | TlsConnectionObj \<Rightarrow>
               if ch_kind ch = RemoveObj then symbol @ '' tls connection policy''
               else symbol @ '' tls connection policy: '' @ n @ '' hostnames''
           | RouteObj \<Rightarrow>
               symbol @ '' route '' @ join_with '', '' (ch_hostnames ch) @
               (case ch_route ch of None \<Rightarrow> [] | Some r \<Rightarrow> routeDetails r)))"

text \<open>\<open>print\<close> is the indented JSON of the plan's Bellhop objects.\<close>

definition formatCaddyPreview :: "(caddy_plan \<Rightarrow> string) \<Rightarrow> caddy_plan \<Rightarrow> string" where
  "formatCaddyPreview print pl =
     (if pl_config pl = None \<and> pl_conflicts pl = [] then NO_CHANGES_MESSAGE
      else join_with LF
        (map change_line (pl_changes pl) @
         map (\<lambda>cf. ''! conflict '' @ cf_hostname cf @ '' (entry '' @ sq @ snd (cf_owner cf) @ sq @ ''): claimed by '' @
                conflictClaim (cf_claim cf)) (pl_conflicts pl) @
         (if pl_config pl = None then [[], ''Nothing else to change.'']
          else [[], ''Bellhop objects after this change:'', print pl])))"

definition formatConflictError :: "caddy_conflict list \<Rightarrow> string \<Rightarrow> string" where
  "formatConflictError conflicts host =
     join_with LF (map (\<lambda>cf.
       ''Hostname '' @ sq @ cf_hostname cf @ sq @ '' for entry '' @ sq @ snd (cf_owner cf) @ sq @ '' is already claimed by '' @
       conflictClaim (cf_claim cf) @ '' in Caddy'' @ sq @ ''s configuration on '' @ sq @ host @ sq @
       ''; it was left out. Remove or change that object, or mark the entry proxyManual.'') conflicts)"

section \<open>Lists of servers\<close>

abbreviation tagged_route :: "caddy_route \<Rightarrow> bool" where
  "tagged_route r \<equiv> isBellhopObject (cr_id r)"

abbreviation tagged_policy :: "connection_policy \<Rightarrow> bool" where
  "tagged_policy p \<equiv> isBellhopObject (cp_id p)"

lemma set_first_key:
  assumes "jm_get ss k = Some v"
  obtains pre post where "ss = pre @ (k, v) # post" and "k \<notin> fst ` set pre" and "\<And>w. jm_set k w ss = pre @ (k, w) # post"
proof -
  have "\<exists>pre post. ss = pre @ (k, v) # post \<and> k \<notin> fst ` set pre \<and> (\<forall>w. jm_set k w ss = pre @ (k, w) # post)"
    using assms
  proof (induction ss)
    case (Cons x ss)
    obtain n sv where x: "x = (n, sv)" by fastforce
    show ?case
    proof (cases "n = k")
      case True
      then show ?thesis using Cons.prems x by (intro exI [of _ "[]"] exI [of _ ss]) (simp add: jm_get_def jm_set_def)
    next
      case False
      then obtain pre post where "ss = pre @ (k, v) # post" "k \<notin> fst ` set pre" "\<forall>w. jm_set k w ss = pre @ (k, w) # post"
        using Cons x by (auto simp: jm_get_def)
      then show ?thesis using False x
        by (intro exI [of _ "x # pre"] exI [of _ post]) (auto simp: jm_set_def)
    qed
  qed (simp add: jm_get_def)
  then show thesis using that by blast
qed

lemma strip_server_parts [simp]:
  "sv_listen (strip_server sv) = sv_listen sv" "sv_rest (strip_server sv) = sv_rest sv"
  "or_empty (sv_routes (strip_server sv)) = filter (\<lambda>r. \<not> tagged_route r) (or_empty (sv_routes sv))"
  "or_empty (sv_policies (strip_server sv)) = filter (\<lambda>p. \<not> tagged_policy p) (or_empty (sv_policies sv))"
proof -
  have "filter (\<lambda>p. \<not> tagged_policy p) (or_empty (sv_policies sv)) = or_empty (sv_policies sv)"
    if "\<not> list_ex tagged_policy (or_empty (sv_policies sv))"
    using that by (simp add: list_ex_iff filter_id_conv)
  then show "or_empty (sv_policies (strip_server sv)) = filter (\<lambda>p. \<not> tagged_policy p) (or_empty (sv_policies sv))"
    by (simp add: strip_server_def or_empty_def [of "Some _"] or_empty_def [of None] Let_def)
qed (simp_all add: strip_server_def or_empty_def split: option.splits)

lemma listens_strip [simp]: "listensOnHttps (strip_server sv) = listensOnHttps sv"
  by (simp add: listensOnHttps_def)

lemma rendered_tagged [simp]:
  "isBellhopObject (cr_id (caddy_renderRoute r ctx))" "isBellhopObject (cp_id renderDefaultConnectionPolicy)"
  by (simp_all add: caddy_renderRoute_def renderDefaultConnectionPolicy_def isBellhopObject_def routeId_def
      startsWith_def BELLHOP_ID_PREFIX_def BELLHOP_TLS_DEFAULT_ID_def)

lemma tls_objects_tagged:
  assumes "renderTlsObjects hosts ctx = Some t"
  shows "to_policy t = Some p \<Longrightarrow> isBellhopObject (tp_id p)" "to_loadFile t = Some f \<Longrightarrow> isBellhopObject (lf_id f)"
    "to_connectionPolicy t = Some q \<Longrightarrow> isBellhopObject (cp_id q)"
  using assms
  by (auto simp: renderTlsObjects_def no_tls_objects_def isBellhopObject_def startsWith_def BELLHOP_ID_PREFIX_def
      BELLHOP_TLS_POLICY_ID_def BELLHOP_TLS_FILES_ID_def BELLHOP_TLS_CONNECTION_ID_def split: if_splits)

text \<open>What placing does to a stripped server, and what stripping it again leaves.\<close>

definition stripped :: "caddy_server \<Rightarrow> bool" where
  "stripped sv \<longleftrightarrow> (\<forall>r \<in> set (or_empty (sv_routes sv)). \<not> tagged_route r) \<and>
     (\<forall>p \<in> set (or_empty (sv_policies sv)). \<not> tagged_policy p)"

lemma stripped_strip: "stripped (strip_server sv)"
  by (simp add: stripped_def)

lemma strip_stripped: "stripped sv \<Longrightarrow> strip_server sv = sv"
  by (cases "sv_routes sv") (auto simp: stripped_def strip_server_def or_empty_def list_ex_iff filter_id_conv Let_def
      split: option.splits intro!: caddy_server.equality)

lemma place_parts:
  assumes "stripped sv" and "\<forall>r \<in> set rs. tagged_route r" and "\<And>p. cp = Some p \<Longrightarrow> tagged_policy p"
  shows "filter tagged_route (or_empty (sv_routes (place_on_server rs cp sv))) = rs"
    and "filter (\<lambda>r. \<not> tagged_route r) (or_empty (sv_routes (place_on_server rs cp sv))) = or_empty (sv_routes sv)"
    and "filter tagged_policy (or_empty (sv_policies (place_on_server rs cp sv))) = desired_connections cp sv"
    and "filter (\<lambda>p. \<not> tagged_policy p) (or_empty (sv_policies (place_on_server rs cp sv))) = or_empty (sv_policies sv)"
  using assms
  by (auto simp: place_on_server_def desired_connections_def stripped_def or_empty_def [of "Some _"] Let_def filter_id_conv
      filter_empty_conv split: option.splits)

lemma place_again:
  assumes "stripped sv" and "\<forall>r \<in> set rs. tagged_route r" and "\<And>p. cp = Some p \<Longrightarrow> tagged_policy p"
  shows "place_on_server rs cp (strip_server (place_on_server rs cp sv)) = place_on_server rs cp sv"
    and "desired_connections cp (strip_server (place_on_server rs cp sv)) = desired_connections cp sv"
proof -
  let ?sv = "strip_server (place_on_server rs cp sv)"
  have parts: "or_empty (sv_routes ?sv) = or_empty (sv_routes sv)" "or_empty (sv_policies ?sv) = or_empty (sv_policies sv)"
    using place_parts(2,4) [OF assms] by simp_all
  show conns: "desired_connections cp ?sv = desired_connections cp sv" by (simp only: desired_connections_def parts)
  have same: "sv_listen (place_on_server rs cp x) = sv_listen x" "sv_rest (place_on_server rs cp x) = sv_rest x" for x
    by (simp_all add: place_on_server_def Let_def split: option.splits)
  show "place_on_server rs cp ?sv = place_on_server rs cp sv"
  proof (cases cp)
    case None
    then have "\<not> list_ex tagged_policy (or_empty (sv_policies (place_on_server rs cp sv)))"
      using assms(1) by (auto simp: place_on_server_def Let_def list_ex_iff stripped_def)
    then have "sv_policies ?sv = sv_policies sv" using None by (simp add: strip_server_def place_on_server_def)
    then show ?thesis using None parts same [of ?sv] same [of sv]
      by (intro caddy_server.equality) (simp_all add: place_on_server_def)
  next
    case (Some p)
    then show ?thesis using parts conns same [of ?sv] same [of sv]
      by (intro caddy_server.equality) (simp_all add: place_on_server_def Let_def)
  qed
qed

section \<open>The containers\<close>

definition tls_update ::
  "tls_policy list \<Rightarrow> bool \<Rightarrow> load_file list \<Rightarrow> bool \<Rightarrow> tls_app option \<Rightarrow> tls_app option" where
  "tls_update ps ep fs ef t = prune_tls (ep \<or> ef) (set_load_files fs ef (set_policies ps ep t))"

lemma update_in_one:
  "edit_tls (prune_tls (ep \<or> ef)) (edit_tls (set_load_files fs ef) (edit_tls (set_policies ps ep) c)) =
     edit_tls (tls_update ps ep fs ef) c"
proof (cases "cc_apps c")
  case None
  then show ?thesis
    by (cases "ps = []"; cases "fs = []")
       (simp_all add: edit_tls_def tls_update_def set_policies_def set_load_files_def prune_tls_def Let_def)
next
  case (Some a)
  then show ?thesis by (simp add: edit_tls_def tls_update_def)
qed

definition has_policies :: "tls_policy list \<Rightarrow> tls_app option \<Rightarrow> bool" where
  "has_policies ps t \<longleftrightarrow> ps = [] \<or> (\<exists>x au. t = Some x \<and> tl_automation x = Some au \<and> ta_policies au = Some ps)"

definition has_files :: "load_file list \<Rightarrow> tls_app option \<Rightarrow> bool" where
  "has_files fs t \<longleftrightarrow> fs = [] \<or> (\<exists>x ce. t = Some x \<and> tl_certificates x = Some ce \<and> tc_load_files ce = Some fs)"

lemma has_set:
  "has_policies ps (set_policies ps ep t)" "has_files fs (set_load_files fs ef t)"
  "has_policies ps t \<Longrightarrow> has_policies ps (set_load_files fs ef t)"
  "has_policies ps t \<Longrightarrow> has_policies ps (prune_tls b t)" "has_files fs t \<Longrightarrow> has_files fs (prune_tls b t)"
  by (auto simp: has_policies_def has_files_def set_policies_def set_load_files_def prune_tls_def Let_def)

lemma has_unchanged:
  "has_policies ps t \<Longrightarrow> (ps = [] \<Longrightarrow> \<not> ep) \<Longrightarrow> set_policies ps ep t = t"
  "has_files fs t \<Longrightarrow> (fs = [] \<Longrightarrow> \<not> ef) \<Longrightarrow> set_load_files fs ef t = t"
  "has_policies ps t \<Longrightarrow> has_files fs t \<Longrightarrow> (ps = [] \<Longrightarrow> fs = [] \<Longrightarrow> \<not> b) \<Longrightarrow> prune_tls b t = t"
  by (cases t; auto simp: has_policies_def has_files_def set_policies_def set_load_files_def prune_tls_def)+

lemma tls_update_again:
  assumes "ps = [] \<Longrightarrow> \<not> ep'" and "fs = [] \<Longrightarrow> \<not> ef'"
  shows "tls_update ps ep' fs ef' (tls_update ps ep fs ef t) = tls_update ps ep fs ef t"
proof -
  let ?t = "tls_update ps ep fs ef t"
  have "has_policies ps ?t" "has_files fs ?t" by (simp_all add: tls_update_def has_set)
  then show ?thesis using assms by (simp add: tls_update_def [of ps ep'] has_unchanged)
qed

lemma servers_strip [simp]: "servers_of (strip_servers c) = map (\<lambda>(n, sv). (n, strip_server sv)) (servers_of c)"
  by (auto simp: strip_servers_def edit_http_def servers_of_def or_empty_def split: option.splits Option.bind_splits)

lemma servers_set [simp]: "servers_of (set_servers ss c) = ss"
  by (auto simp: set_servers_def edit_http_def servers_of_def or_empty_def split: option.splits)

lemma servers_edit_tls [simp]: "servers_of (edit_tls f c) = servers_of c"
  by (auto simp: edit_tls_def servers_of_def or_empty_def split: option.splits)

lemma tls_parts_http [simp]:
  "policies_of (edit_http f c) = policies_of c" "load_files_of (edit_http f c) = load_files_of c"
  by (auto simp: edit_http_def policies_of_def load_files_of_def or_empty_def split: option.splits)

lemma tls_parts_strip [simp]:
  "policies_of (strip_servers c) = policies_of c" "load_files_of (strip_servers c) = load_files_of c"
  "policies_of (set_servers ss c) = policies_of c" "load_files_of (set_servers ss c) = load_files_of c"
  by (simp_all add: strip_servers_def set_servers_def)

lemma strip_edit_tls: "strip_servers (edit_tls f c) = edit_tls f (strip_servers c)"
  by (cases "cc_apps c"; cases "f None") (simp_all add: strip_servers_def edit_tls_def edit_http_def)

lemma set_edit_tls: "set_servers ss (edit_tls f c) = edit_tls f (set_servers ss c)"
  by (cases "cc_apps c"; cases "f None") (simp_all add: set_servers_def edit_tls_def edit_http_def)

lemma set_strip_set: "set_servers ss (strip_servers (set_servers ss' c)) = set_servers ss c"
  by (cases "cc_apps c"; cases "Option.bind (cc_apps c) ap_http")
     (auto simp: set_servers_def strip_servers_def edit_http_def)

lemma strip_strip: "strip_servers (strip_servers c) = strip_servers c"
proof -
  have "(\<lambda>(n, sv). (n, strip_server sv)) \<circ> (\<lambda>(n, sv). (n, strip_server sv)) = (\<lambda>(n :: string, sv). (n, strip_server sv))"
    by (auto simp: strip_stripped [OF stripped_strip])
  then show ?thesis
    by (cases "cc_apps c") (simp_all add: strip_servers_def edit_http_def option.map_comp comp_def)
qed

definition tls_policies :: "tls_app option \<Rightarrow> tls_policy list" where
  "tls_policies t = or_empty (Option.bind (Option.bind t tl_automation) ta_policies)"

definition tls_files :: "tls_app option \<Rightarrow> load_file list" where
  "tls_files t = or_empty (Option.bind (Option.bind t tl_certificates) tc_load_files)"

lemma tls_lists_edit:
  "policies_of (edit_tls f c) = tls_policies (f (Option.bind (cc_apps c) ap_tls))"
  "load_files_of (edit_tls f c) = tls_files (f (Option.bind (cc_apps c) ap_tls))"
  "policies_of c = tls_policies (Option.bind (cc_apps c) ap_tls)"
  "load_files_of c = tls_files (Option.bind (cc_apps c) ap_tls)"
  by (auto simp: edit_tls_def tls_policies_def tls_files_def policies_of_def load_files_of_def or_empty_def
      split: option.splits Option.bind_splits)

lemma tls_lists_prune: "tls_policies (prune_tls b t) = tls_policies t" "tls_files (prune_tls b t) = tls_files t"
  by (cases t; simp add: prune_tls_def tls_policies_def tls_files_def or_empty_def)+

lemma tls_lists_set:
  "tls_policies (set_load_files fs ef t) = tls_policies t" "tls_files (set_policies ps ep t) = tls_files t"
  "tls_policies (set_policies ps ep t) = (if ps \<noteq> [] then ps else if ep then [] else tls_policies t)"
  "tls_files (set_load_files fs ef t) = (if fs \<noteq> [] then fs else if ef then [] else tls_files t)"
  by (cases t; auto simp: set_load_files_def set_policies_def tls_policies_def tls_files_def or_empty_def Let_def
      split: option.splits Option.bind_splits)+

lemma lists_updated:
  "policies_of c = [] \<or> ps \<noteq> [] \<or> ep \<Longrightarrow> policies_of (edit_tls (tls_update ps ep fs ef) c) = ps"
  "load_files_of c = [] \<or> fs \<noteq> [] \<or> ef \<Longrightarrow> load_files_of (edit_tls (tls_update ps ep fs ef) c) = fs"
  by (auto simp: tls_lists_edit(1,2) tls_lists_edit(3,4) [of c] tls_update_def tls_lists_prune tls_lists_set)

section \<open>What the operator's objects claim\<close>

definition operator_routes :: "caddy_config \<Rightarrow> (string \<times> caddy_route) list" where
  "operator_routes c =
     concat (map (\<lambda>(n, sv). map (Pair n) (filter (\<lambda>r. \<not> tagged_route r) (or_empty (sv_routes sv)))) (servers_of c))"

definition operator_policies :: "caddy_config \<Rightarrow> tls_policy list" where
  "operator_policies c = filter (\<lambda>p. \<not> isBellhopObject (tp_id p)) (policies_of c)"

definition operator_files :: "caddy_config \<Rightarrow> load_file list" where
  "operator_files c = filter (\<lambda>f. \<not> isBellhopObject (lf_id f)) (load_files_of c)"

definition operator_connections :: "caddy_config \<Rightarrow> (string \<times> connection_policy) list" where
  "operator_connections c =
     concat (map (\<lambda>(n, sv). map (Pair n) (filter (\<lambda>p. \<not> tagged_policy p) (or_empty (sv_policies sv)))) (servers_of c))"

definition claimed_hosts :: "bool \<Rightarrow> caddy_config \<Rightarrow> (string \<times> caddy_claim) list" where
  "claimed_hosts w c =
     concat (map (\<lambda>(n, r). map (\<lambda>h. (h, ByRoute n)) (routeHosts r)) (operator_routes c)) @
     (if w then concat (map (\<lambda>p. map (\<lambda>h. (h, ByTlsPolicy)) (or_empty (tp_subjects p))) (operator_policies c)) else [])"

lemma claims_hosts: "claims_of w c = foldl (\<lambda>m (h, by). claim_host by h m) [] (claimed_hosts w c)"
proof -
  have "map (\<lambda>h. (h, ByRoute n)) (concat (map routeHosts rs)) =
      concat (map (\<lambda>(n, r). map (\<lambda>h. (h, ByRoute n)) (routeHosts r)) (map (Pair n) rs))" for n rs
    by (induction rs) simp_all
  then have flat: "concat (map (\<lambda>(n, sv). map (\<lambda>h. (h, ByRoute n)) (concat (map routeHosts
        (filter (\<lambda>r. \<not> tagged_route r) (or_empty (sv_routes sv)))))) ss) =
      concat (map (\<lambda>(n, r). map (\<lambda>h. (h, ByRoute n)) (routeHosts r))
        (concat (map (\<lambda>(n, sv). map (Pair n) (filter (\<lambda>r. \<not> tagged_route r) (or_empty (sv_routes sv)))) ss)))" for ss :: "(string \<times> caddy_server) list"
    by (induction ss) auto
  show ?thesis
    unfolding claims_of_def claimed_hosts_def operator_routes_def operator_policies_def Let_def flat ..
qed

lemma claim_has: "jm_has (claim_host by h m) k \<longleftrightarrow> jm_has m k \<or> k = toLowerCase h"
  by (auto simp: claim_host_def jm_has_set)

lemma claims_fold:
  "jm_has (foldl (\<lambda>m (h, by). claim_host by h m) m hs) k \<longleftrightarrow> jm_has m k \<or> k \<in> (\<lambda>(h, by). toLowerCase h) ` set hs"
proof (induction hs arbitrary: m)
  case (Cons x hs)
  obtain h c where "x = (h, c)" by fastforce
  then show ?case by (auto simp: Cons.IH claim_has)
qed simp

lemma claims_has: "jm_has (claims_of w c) k \<longleftrightarrow> k \<in> toLowerCase ` fst ` set (claimed_hosts w c)"
  by (simp add: claims_hosts claims_fold image_image split_beta)

lemma find_props: "find P xs = None \<longleftrightarrow> (\<forall>x \<in> set xs. \<not> P x)" "find P xs = Some x \<Longrightarrow> x \<in> set xs \<and> P x"
  by (auto simp: find_None_iff find_Some_iff)

lemma split_routes_iff:
  assumes "split_routes claims rs = (kept, conflicts)"
  shows "kept = filter (\<lambda>r. \<forall>h \<in> set (rt_hostnames r). \<not> jm_has claims (toLowerCase h)) rs"
    and "map cf_owner conflicts =
      map rt_owner (filter (\<lambda>r. \<exists>h \<in> set (rt_hostnames r). jm_has claims (toLowerCase h)) rs)"
    and "\<forall>cf \<in> set conflicts. jm_has claims (toLowerCase (cf_hostname cf)) \<and>
      (\<exists>r \<in> set rs. rt_owner r = cf_owner cf \<and> cf_hostname cf \<in> set (rt_hostnames r))"
  using assms
proof (induction rs arbitrary: kept conflicts)
  case (Cons r rs)
  obtain k cs where tl: "split_routes claims rs = (k, cs)" by fastforce
  let ?found = "find (\<lambda>h. jm_has claims (toLowerCase h)) (rt_hostnames r)"
  have found: "?found = None \<longleftrightarrow> (\<forall>h \<in> set (rt_hostnames r). \<not> jm_has claims (toLowerCase h))"
    "?found = Some h \<Longrightarrow> h \<in> set (rt_hostnames r) \<and> jm_has claims (toLowerCase h)" for h
    by (rule find_props(1), rule find_props(2))
  {
    case 1
    then show ?case using Cons.IH(1) [OF tl] tl found by (cases ?found) auto
  next
    case 2
    then show ?case using Cons.IH(2) [OF tl] tl found by (cases ?found) auto
  next
    case 3
    then show ?case using Cons.IH(3) [OF tl] tl found by (cases ?found) auto
  }
qed simp_all

section \<open>Placing\<close>

definition list_routes :: "(caddy_route \<Rightarrow> bool) \<Rightarrow> (string \<times> caddy_server) list \<Rightarrow> (string \<times> caddy_route) list" where
  "list_routes P ss = concat (map (\<lambda>(n, sv). map (Pair n) (filter P (or_empty (sv_routes sv)))) ss)"

definition list_connections ::
  "(connection_policy \<Rightarrow> bool) \<Rightarrow> (string \<times> caddy_server) list \<Rightarrow> (string \<times> connection_policy) list" where
  "list_connections P ss = concat (map (\<lambda>(n, sv). map (Pair n) (filter P (or_empty (sv_policies sv)))) ss)"

lemma list_parts_simps [simp]:
  "list_routes P (xs @ ys) = list_routes P xs @ list_routes P ys" "list_routes P [] = []"
  "list_routes P ((n, sv) # xs) = map (Pair n) (filter P (or_empty (sv_routes sv))) @ list_routes P xs"
  "list_connections Q (xs @ ys) = list_connections Q xs @ list_connections Q ys" "list_connections Q [] = []"
  "list_connections Q ((n, sv) # xs) = map (Pair n) (filter Q (or_empty (sv_policies sv))) @ list_connections Q xs"
  by (simp_all add: list_routes_def list_connections_def)

lemma operator_lists:
  "operator_routes c = list_routes (\<lambda>r. \<not> tagged_route r) (servers_of c)"
  "operator_connections c = list_connections (\<lambda>p. \<not> tagged_policy p) (servers_of c)"
  by (simp_all add: operator_routes_def operator_connections_def list_routes_def list_connections_def)

definition strip_all :: "(string \<times> caddy_server) list \<Rightarrow> (string \<times> caddy_server) list" where
  "strip_all ss = map (\<lambda>(n, sv). (n, strip_server sv)) ss"

lemma strip_all_simps [simp]:
  "strip_all [] = []" "strip_all (xs @ ys) = strip_all xs @ strip_all ys"
  "strip_all ((n, sv) # xs) = (n, strip_server sv) # strip_all xs"
  by (simp_all add: strip_all_def)

lemma strip_all_lists:
  "list_routes (\<lambda>r. \<not> tagged_route r) (strip_all ss) = list_routes (\<lambda>r. \<not> tagged_route r) ss"
  "list_connections (\<lambda>p. \<not> tagged_policy p) (strip_all ss) = list_connections (\<lambda>p. \<not> tagged_policy p) ss"
  by (induction ss) auto

lemma all_stripped:
  assumes "\<forall>(n, sv) \<in> set ss. stripped sv"
  shows "strip_all ss = ss" "list_routes tagged_route ss = []" "list_connections tagged_policy ss = []"
  using assms by (induction ss) (auto simp: strip_stripped stripped_def filter_empty_conv)

lemma strip_all_stripped: "\<forall>(n, sv) \<in> set (strip_all ss). stripped sv"
  by (auto simp: strip_all_def stripped_strip)

lemma target_shape:
  assumes "targetServer ss host = Inr (ss', t)"
  shows "jm_get ss' t \<noteq> None" and "map fst (filter (\<lambda>(n, sv). listensOnHttps sv) ss') = [t]" and "ss' \<noteq> []"
    and "ss' = ss \<or> ss = [] \<and> ss' = [(''srv0'', \<lparr>sv_listen = Some ['':443''], sv_routes = Some [], sv_policies = None, sv_rest = []\<rparr>)]"
proof -
  have srv0: "listensOnHttps \<lparr>sv_listen = Some ['':443''], sv_routes = Some [], sv_policies = None, sv_rest = []\<rparr>"
    by code_simp
  let ?h = "map fst (filter (\<lambda>(n, sv). listensOnHttps sv) ss)"
  show names: "map fst (filter (\<lambda>(n, sv). listensOnHttps sv) ss') = [t]"
  proof (cases "ss = []")
    case False
    then have "length ?h = 1" "t = hd ?h" "ss' = ss" using assms by (auto simp: targetServer_def Let_def split: if_splits)
    then show ?thesis by (cases ?h) auto
  qed (use assms srv0 in \<open>auto simp: targetServer_def\<close>)
  then have "t \<in> fst ` set ss'" by (metis (no_types, lifting) filter_is_subset image_mono image_set list.set_intros(1) subsetD)
  then show "jm_get ss' t \<noteq> None" by (simp add: jm_get_def map_of_eq_None_iff)
  show "ss' \<noteq> []" using names by auto
  show "ss' = ss \<or> ss = [] \<and> ss' = [(''srv0'', \<lparr>sv_listen = Some ['':443''], sv_routes = Some [], sv_policies = None, sv_rest = []\<rparr>)]"
    using assms by (auto simp: targetServer_def Let_def split: if_splits)
qed

lemma target_again:
  assumes "map fst (filter (\<lambda>(n, sv). listensOnHttps sv) ss) = [t]"
  shows "targetServer ss host = Inr (ss, t)"
  using assms by (cases "ss = []") (simp_all add: targetServer_def Let_def)

text \<open>The base list of servers: the stripped live ones, or the new \<open>srv0\<close>.\<close>

lemma place_shape:
  assumes "place_routes rs cp host (strip_servers live) = Inr (placed, conns)" and "rs \<noteq> []"
  obtains pre t sv post where "placed = set_servers (pre @ (t, place_on_server rs cp sv) # post) (strip_servers live)"
    and "conns = desired_connections cp sv" and "t \<notin> fst ` set pre"
    and "\<forall>(n, x) \<in> set (pre @ (t, sv) # post). stripped x"
    and "map fst (filter (\<lambda>(n, x). listensOnHttps x) (pre @ (t, sv) # post)) = [t]"
    and "pre @ (t, sv) # post = strip_all (servers_of live) \<or>
      servers_of live = [] \<and> pre @ (t, sv) # post =
        [(''srv0'', \<lparr>sv_listen = Some ['':443''], sv_routes = Some [], sv_policies = None, sv_rest = []\<rparr>)]"
proof -
  obtain ss t where target: "targetServer (strip_all (servers_of live)) host = Inr (ss, t)"
    using assms by (auto simp: place_routes_def strip_all_def split: sum.splits)
  note shape = target_shape [OF target]
  obtain sv where sv: "jm_get ss t = Some sv" using shape(1) by auto
  obtain pre post where ss: "ss = pre @ (t, sv) # post" "t \<notin> fst ` set pre" "\<And>w. jm_set t w ss = pre @ (t, w) # post"
    using set_first_key [OF sv] by metis
  have placed: "placed = set_servers (jm_set t (place_on_server rs cp sv) ss) (strip_servers live)"
      "conns = desired_connections cp sv"
    using assms target sv by (auto simp: place_routes_def strip_all_def Let_def)
  have "\<forall>(n, x) \<in> set ss. stripped x"
    using shape(4)
  proof
    assume "ss = strip_all (servers_of live)"
    then show ?thesis using strip_all_stripped by simp
  qed (simp add: stripped_def or_empty_def)
  then show thesis
    using that [of pre t sv post] placed ss shape(2,4) by (auto simp: strip_all_def)
qed

section \<open>Plans\<close>

lemma plan_parts:
  assumes "planCaddyConfig current routes ctx host = Inr pl"
  defines "live \<equiv> case current of None \<Rightarrow> empty_config | Some c \<Rightarrow> c"
  obtains w kept conflicts placed conns where "writesAutomationPolicy ctx = Some w"
    and "split_routes (claims_of w live) routes = (kept, conflicts)"
    and "place_routes (map (\<lambda>r. caddy_renderRoute r ctx) kept) (to_connectionPolicy (desired_tls ctx kept)) host
           (strip_servers live) = Inr (placed, conns)"
    and "pl_config pl = (if new_config live (desired_tls ctx kept) placed \<noteq> live
           then Some (new_config live (desired_tls ctx kept) placed) else None)"
    and "pl_conflicts pl = conflicts" and "pl_routes pl = map (\<lambda>r. caddy_renderRoute r ctx) kept"
    and "pl_policy pl = to_policy (desired_tls ctx kept)" and "pl_loadFile pl = to_loadFile (desired_tls ctx kept)"
    and "pl_connections pl = conns"
    and "pl_changes pl = listed_changes live kept ctx (desired_tls ctx kept) conns @
           (if new_config live (desired_tls ctx kept) placed \<noteq> live \<and>
               listed_changes live kept ctx (desired_tls ctx kept) conns = []
            then reorder_changes live (new_config live (desired_tls ctx kept) placed) else [])"
  using assms(1) unfolding planCaddyConfig_def live_def [symmetric] Let_def
  by (auto split: option.splits sum.splits prod.splits)

lemma desired_tagged:
  assumes "writesAutomationPolicy ctx = Some w"
  shows "to_policy (desired_tls ctx kept) = Some p \<Longrightarrow> isBellhopObject (tp_id p)"
    and "to_loadFile (desired_tls ctx kept) = Some f \<Longrightarrow> isBellhopObject (lf_id f)"
    and "to_connectionPolicy (desired_tls ctx kept) = Some q \<Longrightarrow> tagged_policy q"
proof -
  have "renderTlsObjects hosts ctx \<noteq> None" for hosts
    using assms by (auto simp: writesAutomationPolicy_def renderTlsObjects_def split: if_splits)
  then obtain t where t: "renderTlsObjects (concat (map rt_hostnames kept)) ctx = Some t" by fastforce
  note tagged = tls_objects_tagged [OF t]
  show "to_policy (desired_tls ctx kept) = Some p \<Longrightarrow> isBellhopObject (tp_id p)"
    "to_loadFile (desired_tls ctx kept) = Some f \<Longrightarrow> isBellhopObject (lf_id f)"
    "to_connectionPolicy (desired_tls ctx kept) = Some q \<Longrightarrow> tagged_policy q"
    using tagged by (auto simp: desired_tls_def t no_tls_objects_def split: if_splits)
qed

lemma cons_option_find:
  assumes "\<And>y. x = Some y \<Longrightarrow> P y"
  shows "find P (cons_option x (filter (\<lambda>y. \<not> P y) ys)) = x"
    and "filter (\<lambda>y. \<not> P y) (cons_option x (filter (\<lambda>y. \<not> P y) ys)) = filter (\<lambda>y. \<not> P y) ys"
  using assms by (cases x; auto simp: cons_option_def find_None_iff)+

lemma new_config_lists:
  assumes "policies_of placed = policies_of live" and "load_files_of placed = load_files_of live"
  shows "policies_of (new_config live t placed) = cons_option (to_policy t) (operator_policies live)"
    and "load_files_of (new_config live t placed) = cons_option (to_loadFile t) (operator_files live)"
proof -
  have all_or: "xs = [] \<or> filter (\<lambda>x. \<not> P x) xs \<noteq> [] \<or> find P xs \<noteq> None" for P and xs :: "'a list"
    by (cases xs) auto
  have "policies_of placed = [] \<or> cons_option (to_policy t) (operator_policies live) \<noteq> [] \<or> live_policy live \<noteq> None"
    using all_or [of "policies_of live" "\<lambda>p. isBellhopObject (tp_id p)"] assms(1)
    by (auto simp: operator_policies_def cons_option_def split: option.splits)
  then show "policies_of (new_config live t placed) = cons_option (to_policy t) (operator_policies live)"
    by (simp add: new_config_def update_in_one operator_policies_def [symmetric] operator_files_def [symmetric]
        lists_updated(1))
  have "load_files_of placed = [] \<or> cons_option (to_loadFile t) (operator_files live) \<noteq> [] \<or> live_load_file live \<noteq> None"
    using all_or [of "load_files_of live" "\<lambda>f. isBellhopObject (lf_id f)"] assms(2)
    by (auto simp: operator_files_def cons_option_def split: option.splits)
  then show "load_files_of (new_config live t placed) = cons_option (to_loadFile t) (operator_files live)"
    by (simp add: new_config_def update_in_one operator_policies_def [symmetric] operator_files_def [symmetric]
        lists_updated(2))
qed

lemma tagged_lists:
  "tagged_connections c = map snd (list_connections tagged_policy (servers_of c))"
  "tagged_routes c = foldl (\<lambda>m r. jm_set (the (cr_id r)) r m) [] (map snd (list_routes tagged_route (servers_of c)))"
proof -
  have "map snd (list_connections tagged_policy ss) = concat (map (\<lambda>(n, sv). filter tagged_policy (or_empty (sv_policies sv))) ss)" for ss
    by (induction ss) (auto simp: comp_def)
  then show "tagged_connections c = map snd (list_connections tagged_policy (servers_of c))"
    by (simp add: tagged_connections_def)
  have routes: "map snd (list_routes tagged_route ss) = filter tagged_route (concat (map (\<lambda>(n, sv). or_empty (sv_routes sv)) ss))" for ss
    by (induction ss) (auto simp: comp_def)
  have "foldl (\<lambda>m r. if tagged_route r then jm_set (the (cr_id r)) r m else m) m rs =
      foldl (\<lambda>m r. jm_set (the (cr_id r)) r m) m (filter tagged_route rs)" for m rs
    by (induction rs arbitrary: m) simp_all
  then show "tagged_routes c = foldl (\<lambda>m r. jm_set (the (cr_id r)) r m) [] (map snd (list_routes tagged_route (servers_of c)))"
    by (simp add: tagged_routes_def routes)
qed

lemma servers_new_config [simp]: "servers_of (new_config live t placed) = servers_of placed"
  by (simp add: new_config_def update_in_one)

lemma servers_placed:
  assumes "place_routes rs cp host (strip_servers live) = Inr (placed, conns)"
    and "\<forall>r \<in> set rs. tagged_route r" and "\<And>p. cp = Some p \<Longrightarrow> tagged_policy p" and "rs = [] \<Longrightarrow> cp = None"
  shows "list_routes (\<lambda>r. \<not> tagged_route r) (servers_of placed) = operator_routes live"
    and "list_connections (\<lambda>p. \<not> tagged_policy p) (servers_of placed) = operator_connections live"
    and "map snd (list_routes tagged_route (servers_of placed)) = rs"
    and "map snd (list_connections tagged_policy (servers_of placed)) = conns"
    and "policies_of placed = policies_of live" and "load_files_of placed = load_files_of live"
    and "\<exists>again. place_routes rs cp host (strip_servers (edit_tls f placed)) = Inr (again, conns) \<and>
      again = edit_tls f placed"
proof -
  have all: "list_routes (\<lambda>r. \<not> tagged_route r) (servers_of placed) = operator_routes live \<and>
    list_connections (\<lambda>p. \<not> tagged_policy p) (servers_of placed) = operator_connections live \<and>
    map snd (list_routes tagged_route (servers_of placed)) = rs \<and>
    map snd (list_connections tagged_policy (servers_of placed)) = conns \<and>
    policies_of placed = policies_of live \<and> load_files_of placed = load_files_of live \<and>
    place_routes rs cp host (strip_servers (edit_tls f placed)) = Inr (edit_tls f placed, conns)"
  proof (cases "rs = []")
    case True
    then have placed: "placed = strip_servers live" "conns = []"
      using assms(1) by (simp_all add: place_routes_def)
    have "servers_of placed = strip_all (servers_of live)" by (simp add: placed strip_all_def)
    then show ?thesis
      using all_stripped [OF strip_all_stripped [of "servers_of live"]] strip_all_lists [of "servers_of live"] True
      by (simp add: placed(2) operator_lists) (simp add: placed(1) place_routes_def strip_edit_tls strip_strip)
  next
    case False
    obtain pre t sv post where placed: "placed = set_servers (pre @ (t, place_on_server rs cp sv) # post) (strip_servers live)"
      and conns: "conns = desired_connections cp sv" and t: "t \<notin> fst ` set pre"
      and stripped: "\<forall>(n, x) \<in> set (pre @ (t, sv) # post). stripped x"
      and https: "map fst (filter (\<lambda>(n, x). listensOnHttps x) (pre @ (t, sv) # post)) = [t]"
      and base: "pre @ (t, sv) # post = strip_all (servers_of live) \<or>
        servers_of live = [] \<and> pre @ (t, sv) # post =
          [(''srv0'', \<lparr>sv_listen = Some ['':443''], sv_routes = Some [], sv_policies = None, sv_rest = []\<rparr>)]"
      by (rule place_shape [OF assms(1) False])
    let ?new = "place_on_server rs cp sv"
    have sv: "stripped sv" and pre: "\<forall>(n, x) \<in> set pre. stripped x" and post: "\<forall>(n, x) \<in> set post. stripped x"
      using stripped by auto
    note parts = place_parts [OF sv assms(2,3)]
    note again = place_again [OF sv assms(2,3)]
    have servers: "servers_of placed = pre @ (t, ?new) # post" by (simp add: placed)
    have base_lists: "list_routes (\<lambda>r. \<not> tagged_route r) (pre @ (t, sv) # post) = operator_routes live \<and>
        list_connections (\<lambda>p. \<not> tagged_policy p) (pre @ (t, sv) # post) = operator_connections live"
      using base
    proof
      assume "pre @ (t, sv) # post = strip_all (servers_of live)"
      then show ?thesis by (simp only: operator_lists strip_all_lists)
    next
      assume "servers_of live = [] \<and> pre @ (t, sv) # post =
          [(''srv0'', \<lparr>sv_listen = Some ['':443''], sv_routes = Some [], sv_policies = None, sv_rest = []\<rparr>)]"
      then show ?thesis by (simp only: operator_lists) (simp add: or_empty_def)
    qed
    have unlisted: "filter (\<lambda>r. \<not> tagged_route r) (or_empty (sv_routes sv)) = or_empty (sv_routes sv)"
      "filter (\<lambda>p. \<not> tagged_policy p) (or_empty (sv_policies sv)) = or_empty (sv_policies sv)"
      using sv by (auto simp: stripped_def filter_id_conv)
    have lists: "list_routes (\<lambda>r. \<not> tagged_route r) (servers_of placed) = operator_routes live"
      "list_connections (\<lambda>p. \<not> tagged_policy p) (servers_of placed) = operator_connections live"
      using base_lists by (simp_all add: servers parts unlisted)
    have tags: "map snd (list_routes tagged_route (servers_of placed)) = rs"
      "map snd (list_connections tagged_policy (servers_of placed)) = conns"
      using all_stripped [OF pre] all_stripped [OF post] by (simp_all add: servers parts conns comp_def)
    have listens: "listensOnHttps ?new = listensOnHttps sv"
      by (simp add: place_on_server_def listensOnHttps_def Let_def split: option.splits)
    let ?ss = "pre @ (t, strip_server ?new) # post"
    have strip_new: "strip_all (servers_of placed) = ?ss"
      using all_stripped(1) [OF pre] all_stripped(1) [OF post] by (simp add: servers)
    have "map fst (filter (\<lambda>(n, x). listensOnHttps x) ?ss) = [t]" using https listens by auto
    then have target: "targetServer ?ss host = Inr (?ss, t)" by (rule target_again)
    have got: "jm_get ?ss t = Some (strip_server ?new)" and put: "jm_set t w ?ss = pre @ (t, w) # post" for w
      using t by (induction pre) (auto simp: jm_get_def jm_set_def)
    have "servers_of (strip_servers (edit_tls f placed)) = ?ss" using strip_new by (simp add: strip_all_def)
    then have "place_routes rs cp host (strip_servers (edit_tls f placed)) =
        Inr (set_servers (pre @ (t, ?new) # post) (strip_servers (edit_tls f placed)), conns)"
      by (simp add: place_routes_def False target got put again conns Let_def)
    moreover have "set_servers (pre @ (t, ?new) # post) (strip_servers (edit_tls f placed)) = edit_tls f placed"
      by (simp add: strip_edit_tls set_edit_tls placed set_strip_set)
    ultimately show ?thesis using lists tags by (simp add: placed)
  qed
  then show "list_routes (\<lambda>r. \<not> tagged_route r) (servers_of placed) = operator_routes live"
    "list_connections (\<lambda>p. \<not> tagged_policy p) (servers_of placed) = operator_connections live"
    "map snd (list_routes tagged_route (servers_of placed)) = rs"
    "map snd (list_connections tagged_policy (servers_of placed)) = conns"
    "policies_of placed = policies_of live" "load_files_of placed = load_files_of live"
    "\<exists>again. place_routes rs cp host (strip_servers (edit_tls f placed)) = Inr (again, conns) \<and>
      again = edit_tls f placed"
    by blast+
qed

section \<open>Planning is idempotent and leaves the operator's objects alone\<close>

lemma jm_tagged:
  assumes "distinct (map routeId kept)"
  shows "r \<in> set kept \<Longrightarrow>
      jm_get (foldl (\<lambda>m r. jm_set (the (cr_id r)) r m) m (map (\<lambda>r. caddy_renderRoute r ctx) kept)) (routeId r) =
      Some (caddy_renderRoute r ctx)"
    and "i \<notin> routeId ` set kept \<Longrightarrow>
      jm_get (foldl (\<lambda>m r. jm_set (the (cr_id r)) r m) m (map (\<lambda>r. caddy_renderRoute r ctx) kept)) i = jm_get m i"
    and "fst ` set (foldl (\<lambda>m r. jm_set (the (cr_id r)) r m) m (map (\<lambda>r. caddy_renderRoute r ctx) kept)) =
      fst ` set m \<union> routeId ` set kept"
  using assms
proof (induction kept arbitrary: m i)
  case (Cons q kept)
  have ids: "the (cr_id (caddy_renderRoute x ctx)) = routeId x" for x by (simp add: caddy_renderRoute_def)
  {
    case 1
    then show ?case using Cons.IH(1,2) by (cases "r = q") (auto simp: ids jm_get_set)
  next
    case 2
    then show ?case using Cons.IH(2) by (auto simp: ids jm_get_set)
  next
    case 3
    then show ?case using Cons.IH(3) by (auto simp: ids jm_set_def dom_update)
  }
qed simp_all

lemma no_route_changes:
  assumes "distinct (map routeId kept)"
  shows "route_changes (foldl (\<lambda>m r. jm_set (the (cr_id r)) r m) [] (map (\<lambda>r. caddy_renderRoute r ctx) kept)) kept ctx = []"
proof -
  let ?m = "foldl (\<lambda>m r. jm_set (the (cr_id r)) r m) [] (map (\<lambda>r. caddy_renderRoute r ctx) kept)"
  have none: "List.map_filter f xs = []" if "\<And>x. x \<in> set xs \<Longrightarrow> f x = None" for f :: "'x \<Rightarrow> 'y option" and xs
    using that by (induction xs) (auto simp: List.map_filter_simps)
  have "i \<in> routeId ` set kept" if "(i, x) \<in> set ?m" for i x
    using jm_tagged(3) [OF assms, of "[]" ctx] that by force
  then show ?thesis
    unfolding route_changes_def by (auto intro!: none simp: jm_tagged(1) [OF assms] Let_def)
qed

lemma changeKind_same [simp]: "changeKind x x = None"
  by (simp add: changeKind_def)

lemma split_kept_distinct:
  assumes "split_routes claims rs = (kept, conflicts)" and "distinct (map routeId rs)"
  shows "distinct (map routeId kept)" and "set kept \<subseteq> set rs"
  using split_routes_iff(1) [OF assms(1)] assms(2) by (auto simp: distinct_map_filter)

lemma edit_tls_again:
  assumes "\<And>t. f (g t) = g t"
  shows "edit_tls f (edit_tls g c) = edit_tls g c"
proof (cases "cc_apps c")
  case None
  then show ?thesis using assms [of None] by (cases "g None") (simp_all add: edit_tls_def)
qed (simp add: edit_tls_def assms)

text \<open>What holds of a planned configuration, and that its own plan is the same.\<close>

lemma plan_effect:
  assumes "writesAutomationPolicy ctx = Some w"
    and "place_routes (map (\<lambda>r. caddy_renderRoute r ctx) kept) (to_connectionPolicy (desired_tls ctx kept)) host
           (strip_servers live) = Inr (placed, conns)"
  defines "c \<equiv> new_config live (desired_tls ctx kept) placed"
  shows "operator_routes c = operator_routes live" and "operator_connections c = operator_connections live"
    and "operator_policies c = operator_policies live" and "operator_files c = operator_files live"
    and "map snd (list_routes tagged_route (servers_of c)) = map (\<lambda>r. caddy_renderRoute r ctx) kept"
    and "tagged_connections c = conns"
    and "live_policy c = to_policy (desired_tls ctx kept)" and "live_load_file c = to_loadFile (desired_tls ctx kept)"
    and "\<exists>again. place_routes (map (\<lambda>r. caddy_renderRoute r ctx) kept) (to_connectionPolicy (desired_tls ctx kept)) host
           (strip_servers c) = Inr (again, conns) \<and> new_config c (desired_tls ctx kept) again = c"
proof -
  let ?t = "desired_tls ctx kept"
  have tagged: "\<forall>r \<in> set (map (\<lambda>r. caddy_renderRoute r ctx) kept). tagged_route r" by simp
  have none: "map (\<lambda>r. caddy_renderRoute r ctx) kept = [] \<Longrightarrow> to_connectionPolicy ?t = None"
    by (simp add: desired_tls_def no_tls_objects_def)
  have conn: "\<And>p. to_connectionPolicy ?t = Some p \<Longrightarrow> tagged_policy p" by (rule desired_tagged(3) [OF assms(1)])
  note placed = servers_placed [OF assms(2) tagged conn none]
  note lists = new_config_lists [OF placed(5,6), where t = ?t]
  show "operator_routes c = operator_routes live" "operator_connections c = operator_connections live"
    using placed(1,2) by (simp_all add: c_def operator_lists)
  show "map snd (list_routes tagged_route (servers_of c)) = map (\<lambda>r. caddy_renderRoute r ctx) kept"
    "tagged_connections c = conns"
    using placed(3,4) by (simp_all add: c_def tagged_lists(1))
  have pol: "policies_of c = cons_option (to_policy ?t) (operator_policies live)"
    and fil: "load_files_of c = cons_option (to_loadFile ?t) (operator_files live)"
    using lists by (simp_all add: c_def)
  show op: "operator_policies c = operator_policies live"
    using cons_option_find(2) [OF desired_tagged(1) [OF assms(1)], where ys = "policies_of live"]
    by (simp add: operator_policies_def [of c] pol) (simp add: operator_policies_def)
  show of: "operator_files c = operator_files live"
    using cons_option_find(2) [OF desired_tagged(2) [OF assms(1)], where ys = "load_files_of live"]
    by (simp add: operator_files_def [of c] fil) (simp add: operator_files_def)
  show lp: "live_policy c = to_policy ?t"
    using cons_option_find(1) [OF desired_tagged(1) [OF assms(1)], where ys = "policies_of live"]
    by (simp add: pol operator_policies_def)
  show lf: "live_load_file c = to_loadFile ?t"
    using cons_option_find(1) [OF desired_tagged(2) [OF assms(1)], where ys = "load_files_of live"]
    by (simp add: fil operator_files_def)
  let ?ps = "cons_option (to_policy ?t) (operator_policies live)" and ?fs = "cons_option (to_loadFile ?t) (operator_files live)"
  let ?upd = "tls_update ?ps (live_policy live \<noteq> None) ?fs (live_load_file live \<noteq> None)"
  have c: "c = edit_tls ?upd placed"
    unfolding c_def new_config_def Let_def update_in_one operator_policies_def operator_files_def by simp
  obtain again where again: "place_routes (map (\<lambda>r. caddy_renderRoute r ctx) kept) (to_connectionPolicy ?t) host
      (strip_servers c) = Inr (again, conns)" "again = c"
    using placed(7) [where f = ?upd] unfolding c by blast
  have "new_config c ?t c = edit_tls (tls_update ?ps (live_policy c \<noteq> None) ?fs (live_load_file c \<noteq> None)) c"
    unfolding new_config_def Let_def update_in_one operator_policies_def [symmetric] operator_files_def [symmetric] op of ..
  also have "\<dots> = c"
  proof -
    let ?upd' = "tls_update ?ps (live_policy c \<noteq> None) ?fs (live_load_file c \<noteq> None)"
    have "?upd' (?upd t) = ?upd t" for t
      by (rule tls_update_again) (simp_all add: lp lf cons_option_def split: option.splits)
    note same = this
    have "edit_tls ?upd' (edit_tls ?upd placed) = edit_tls ?upd placed" by (rule edit_tls_again) (rule same)
    then show ?thesis by (simp only: c [symmetric])
  qed
  finally show "\<exists>again. place_routes (map (\<lambda>r. caddy_renderRoute r ctx) kept) (to_connectionPolicy ?t) host
           (strip_servers c) = Inr (again, conns) \<and> new_config c ?t again = c"
    using again by blast
qed

text \<open>The configuration Caddy runs after a plan is applied.\<close>

definition config_after :: "caddy_config option \<Rightarrow> caddy_plan \<Rightarrow> caddy_config" where
  "config_after current pl =
     (case pl_config pl of Some c \<Rightarrow> c | None \<Rightarrow> (case current of None \<Rightarrow> empty_config | Some c \<Rightarrow> c))"

lemma plan_result:
  assumes "planCaddyConfig current routes ctx host = Inr pl"
  defines "live \<equiv> case current of None \<Rightarrow> empty_config | Some c \<Rightarrow> c"
  obtains w kept placed conns where "writesAutomationPolicy ctx = Some w"
    and "split_routes (claims_of w live) routes = (kept, pl_conflicts pl)"
    and "place_routes (map (\<lambda>r. caddy_renderRoute r ctx) kept) (to_connectionPolicy (desired_tls ctx kept)) host
           (strip_servers live) = Inr (placed, conns)"
    and "config_after current pl = new_config live (desired_tls ctx kept) placed"
    and "pl_routes pl = map (\<lambda>r. caddy_renderRoute r ctx) kept" and "pl_connections pl = conns"
    and "pl_policy pl = to_policy (desired_tls ctx kept)" and "pl_loadFile pl = to_loadFile (desired_tls ctx kept)"
proof -
  obtain w kept conflicts placed conns where "writesAutomationPolicy ctx = Some w"
    "split_routes (claims_of w live) routes = (kept, conflicts)"
    "place_routes (map (\<lambda>r. caddy_renderRoute r ctx) kept) (to_connectionPolicy (desired_tls ctx kept)) host
           (strip_servers live) = Inr (placed, conns)"
    "pl_config pl = (if new_config live (desired_tls ctx kept) placed \<noteq> live
           then Some (new_config live (desired_tls ctx kept) placed) else None)"
    "pl_conflicts pl = conflicts" "pl_routes pl = map (\<lambda>r. caddy_renderRoute r ctx) kept"
    "pl_policy pl = to_policy (desired_tls ctx kept)" "pl_loadFile pl = to_loadFile (desired_tls ctx kept)"
    "pl_connections pl = conns"
    using plan_parts [OF assms(1)] unfolding live_def [symmetric] by metis
  then show thesis
    using that [of w kept placed conns] unfolding config_after_def live_def [symmetric] by (simp split: if_splits)
qed

lemma claims_kept:
  assumes "operator_routes c = operator_routes live" and "operator_policies c = operator_policies live"
  shows "claims_of w c = claims_of w live"
  by (simp only: claims_hosts claimed_hosts_def assms)

lemma servers_order:
  assumes "place_routes rs cp host (strip_servers live) = Inr (placed, conns)"
    and "\<forall>r \<in> set rs. tagged_route r" and "\<And>p. cp = Some p \<Longrightarrow> tagged_policy p"
  shows "\<forall>(n, sv) \<in> set (servers_of placed). or_empty (sv_routes sv) =
      filter tagged_route (or_empty (sv_routes sv)) @ filter (\<lambda>r. \<not> tagged_route r) (or_empty (sv_routes sv))"
    and "servers_of live \<noteq> [] \<Longrightarrow> map (\<lambda>(n, sv). (n, sv_listen sv, sv_rest sv)) (servers_of placed) =
      map (\<lambda>(n, sv). (n, sv_listen sv, sv_rest sv)) (servers_of live)"
proof -
  have plain: "or_empty (sv_routes sv) =
      filter tagged_route (or_empty (sv_routes sv)) @ filter (\<lambda>r. \<not> tagged_route r) (or_empty (sv_routes sv))"
    if "stripped sv" for sv
    using that by (auto simp: stripped_def filter_empty_conv filter_id_conv)
  have fields: "map (\<lambda>(n, sv). (n, sv_listen sv, sv_rest sv)) (strip_all ss) =
      map (\<lambda>(n, sv). (n, sv_listen sv, sv_rest sv)) ss" for ss
    by (induction ss) auto
  have both: "(\<forall>(n, sv) \<in> set (servers_of placed). or_empty (sv_routes sv) =
      filter tagged_route (or_empty (sv_routes sv)) @ filter (\<lambda>r. \<not> tagged_route r) (or_empty (sv_routes sv))) \<and>
    (servers_of live \<noteq> [] \<longrightarrow> map (\<lambda>(n, sv). (n, sv_listen sv, sv_rest sv)) (servers_of placed) =
      map (\<lambda>(n, sv). (n, sv_listen sv, sv_rest sv)) (servers_of live))"
  proof (cases "rs = []")
    case True
    then have "servers_of placed = strip_all (servers_of live)"
      using assms(1) by (auto simp: place_routes_def strip_all_def)
    then show ?thesis using plain strip_all_stripped [of "servers_of live"] fields by fastforce
  next
    case False
    obtain pre t sv post where placed: "placed = set_servers (pre @ (t, place_on_server rs cp sv) # post) (strip_servers live)"
      and stripped: "\<forall>(n, x) \<in> set (pre @ (t, sv) # post). stripped x"
      and base: "pre @ (t, sv) # post = strip_all (servers_of live) \<or> servers_of live = []"
      by (rule place_shape [OF assms(1) False]) blast
    let ?new = "place_on_server rs cp sv"
    have sv: "stripped sv" using stripped by auto
    have "or_empty (sv_routes ?new) = rs @ or_empty (sv_routes sv)"
      by (simp add: place_on_server_def Let_def or_empty_def split: option.splits)
    then have new: "or_empty (sv_routes ?new) =
        filter tagged_route (or_empty (sv_routes ?new)) @ filter (\<lambda>r. \<not> tagged_route r) (or_empty (sv_routes ?new))"
      using place_parts(1,2) [where cp = cp, OF sv assms(2,3)] by (simp only:)
    have same: "sv_listen ?new = sv_listen sv" "sv_rest ?new = sv_rest sv"
      by (simp_all add: place_on_server_def Let_def split: option.splits)
    have m: "map (\<lambda>(n, sv). (n, sv_listen sv, sv_rest sv)) (servers_of placed) =
        map (\<lambda>(n, sv). (n, sv_listen sv, sv_rest sv)) (pre @ (t, sv) # post)"
      by (simp add: same placed)
    have "servers_of live \<noteq> [] \<longrightarrow> map (\<lambda>(n, sv). (n, sv_listen sv, sv_rest sv)) (servers_of placed) =
        map (\<lambda>(n, sv). (n, sv_listen sv, sv_rest sv)) (servers_of live)"
    proof
      assume "servers_of live \<noteq> []"
      then have "pre @ (t, sv) # post = strip_all (servers_of live)" using base by simp
      then show "map (\<lambda>(n, sv). (n, sv_listen sv, sv_rest sv)) (servers_of placed) =
          map (\<lambda>(n, sv). (n, sv_listen sv, sv_rest sv)) (servers_of live)"
        by (simp only: m fields)
    qed
    moreover have "\<forall>(n, x) \<in> set (servers_of placed). or_empty (sv_routes x) =
        filter tagged_route (or_empty (sv_routes x)) @ filter (\<lambda>r. \<not> tagged_route r) (or_empty (sv_routes x))"
      using stripped plain new by (fastforce simp: placed)
    ultimately show ?thesis by blast
  qed
  then show "\<forall>(n, sv) \<in> set (servers_of placed). or_empty (sv_routes sv) =
      filter tagged_route (or_empty (sv_routes sv)) @ filter (\<lambda>r. \<not> tagged_route r) (or_empty (sv_routes sv))"
    "servers_of live \<noteq> [] \<Longrightarrow> map (\<lambda>(n, sv). (n, sv_listen sv, sv_rest sv)) (servers_of placed) =
      map (\<lambda>(n, sv). (n, sv_listen sv, sv_rest sv)) (servers_of live)"
    by blast+
qed

text \<open>
  C30: Planning is idempotent.  Once a planned configuration is what Caddy runs, planning the same routes again, which
  have distinct first host names, finds nothing to write and no change to list, whatever the live configuration held
  before and whichever TLS source is in use, and reports the same conflicts.
\<close>

theorem planned_config_is_settled:
  assumes "planCaddyConfig current routes ctx host = Inr pl" and "distinct (map routeId routes)"
  shows "\<exists>pl'. planCaddyConfig (Some (config_after current pl)) routes ctx host = Inr pl' \<and>
    pl_config pl' = None \<and> pl_changes pl' = [] \<and> pl_conflicts pl' = pl_conflicts pl"
proof -
  let ?live = "case current of None \<Rightarrow> empty_config | Some c \<Rightarrow> c"
  let ?c = "config_after current pl"
  obtain w kept placed conns where w: "writesAutomationPolicy ctx = Some w"
    and split: "split_routes (claims_of w ?live) routes = (kept, pl_conflicts pl)"
    and placed: "place_routes (map (\<lambda>r. caddy_renderRoute r ctx) kept) (to_connectionPolicy (desired_tls ctx kept)) host
           (strip_servers ?live) = Inr (placed, conns)"
    and c: "?c = new_config ?live (desired_tls ctx kept) placed"
    by (rule plan_result [OF assms(1)])
  note eff = plan_effect [OF w placed, folded c]
  have claims: "claims_of w ?c = claims_of w ?live" by (rule claims_kept [OF eff(1,3)])
  obtain again where again: "place_routes (map (\<lambda>r. caddy_renderRoute r ctx) kept) (to_connectionPolicy (desired_tls ctx kept)) host
           (strip_servers ?c) = Inr (again, conns)" "new_config ?c (desired_tls ctx kept) again = ?c"
    using eff(9) by blast
  have "route_changes (tagged_routes ?c) kept ctx = []"
    using no_route_changes [OF split_kept_distinct(1) [OF split assms(2)]] by (simp add: tagged_lists(2) eff(5))
  then have "listed_changes ?c kept ctx (desired_tls ctx kept) conns = []"
    by (simp add: listed_changes_def eff(6,7,8) tls_change_def)
  then show ?thesis
    by (simp add: planCaddyConfig_def w claims split again Let_def)
qed


text \<open>
  C32: No host name is taken over: the routes a plan renders are exactly those none of whose host names an untagged
  route of any server, or an untagged automation policy where Bellhop writes one, names in any case; each other
  route is reported as one conflict, in order, for a host name of its own; and in the configuration after the plan no
  route of Bellhop's shares a host name with a route of the operator's.
\<close>

theorem no_hostname_is_taken_over:
  assumes "planCaddyConfig (Some live) routes ctx host = Inr pl" and "writesAutomationPolicy ctx = Some w"
  defines "claimed \<equiv> \<lambda>h. toLowerCase h \<in> toLowerCase `
      ((\<Union>(n, q) \<in> set (operator_routes live). set (routeHosts q)) \<union>
       (if w then \<Union>p \<in> set (operator_policies live). set (or_empty (tp_subjects p)) else {}))"
  shows "pl_routes pl = map (\<lambda>r. caddy_renderRoute r ctx) (filter (\<lambda>r. \<forall>h \<in> set (rt_hostnames r). \<not> claimed h) routes) \<and>
    map cf_owner (pl_conflicts pl) = map rt_owner (filter (\<lambda>r. \<exists>h \<in> set (rt_hostnames r). claimed h) routes) \<and>
    (\<forall>cf \<in> set (pl_conflicts pl). claimed (cf_hostname cf) \<and>
      (\<exists>r \<in> set routes. rt_owner r = cf_owner cf \<and> cf_hostname cf \<in> set (rt_hostnames r))) \<and>
    (\<forall>b \<in> snd ` set (list_routes tagged_route (servers_of (config_after (Some live) pl))). \<forall>g \<in> set (routeHosts b).
      \<forall>q \<in> snd ` set (operator_routes (config_after (Some live) pl)). \<forall>h \<in> set (routeHosts q).
        toLowerCase g \<noteq> toLowerCase h)"
proof -
  let ?c = "config_after (Some live) pl"
  obtain kept placed conns where split: "split_routes (claims_of w live) routes = (kept, pl_conflicts pl)"
    and placed: "place_routes (map (\<lambda>r. caddy_renderRoute r ctx) kept) (to_connectionPolicy (desired_tls ctx kept)) host
           (strip_servers live) = Inr (placed, conns)"
    and c: "?c = new_config live (desired_tls ctx kept) placed"
    and pl: "pl_routes pl = map (\<lambda>r. caddy_renderRoute r ctx) kept"
    using plan_result [OF assms(1)] assms(2) by simp metis
  note eff = plan_effect [OF assms(2) placed, folded c]
  have claimed: "jm_has (claims_of w live) (toLowerCase h) \<longleftrightarrow> claimed h" for h
  proof -
    have "fst ` set (claimed_hosts w live) = (\<Union>(n, q) \<in> set (operator_routes live). set (routeHosts q)) \<union>
       (if w then \<Union>p \<in> set (operator_policies live). set (or_empty (tp_subjects p)) else {})"
      by (force simp: claimed_hosts_def)
    then show ?thesis by (simp add: claims_has claimed_def)
  qed
  note parts = split_routes_iff [OF split, unfolded claimed]
  have "toLowerCase g \<noteq> toLowerCase h"
    if b: "b \<in> snd ` set (list_routes tagged_route (servers_of ?c))" and g: "g \<in> set (routeHosts b)"
      and q: "q \<in> snd ` set (operator_routes ?c)" and h: "h \<in> set (routeHosts q)" for b g q h
  proof -
    have "b \<in> set (map (\<lambda>r. caddy_renderRoute r ctx) kept)" using b eff(5) by (metis image_set)
    then obtain r where r: "r \<in> set kept" "b = caddy_renderRoute r ctx" by auto
    then have "g \<in> set (rt_hostnames r)" using g by (simp add: routeHosts_def caddy_renderRoute_def or_empty_def)
    then have "\<not> claimed g" using r(1) parts(1) by auto
    moreover have "h \<in> (\<Union>(n, q) \<in> set (operator_routes live). set (routeHosts q))" using q h eff(1) by force
    ultimately show ?thesis unfolding claimed_def by auto
  qed
  then show ?thesis using parts pl by blast
qed

definition live_status :: caddy_config where
  "live_status =
     \<lparr>cc_apps = Some \<lparr>
        ap_http = Some \<lparr>ha_servers = Some [(''srv1'', \<lparr>sv_listen = Some ['':443''],
            sv_routes = Some
              [\<lparr>cr_id = None, cr_match = Some [\<lparr>hm_host = Some [''Status.lab.example''], hm_rest = []\<rparr>], cr_rest = []\<rparr>,
               \<lparr>cr_id = Some ''bellhop-route-old.lab.example'',
                 cr_match = Some [\<lparr>hm_host = Some [''old.lab.example''], hm_rest = []\<rparr>], cr_rest = []\<rparr>],
            sv_policies = None, sv_rest = []\<rparr>)], ha_rest = []\<rparr>,
        ap_tls = None, ap_rest = []\<rparr>,
      cc_rest = [(''logging'', JObj [])]\<rparr>"

definition demo_routes :: "proxy_route list" where
  "demo_routes = [sample_route\<lparr>rt_auth := OidcGate, rt_hostnames := [''wiki.lab.example'']\<rparr>,
     sample_route\<lparr>rt_owner := (OwnHost, ''status''), rt_hostnames := [''status.lab.example'']\<rparr>]"

lemma demo_plan:
  "case planCaddyConfig (Some live_status) demo_routes sample_context ''proxy'' of
     Inr pl \<Rightarrow> pl_config pl \<noteq> None \<and>
       map (\<lambda>ch. (ch_kind ch, ch_object ch, ch_hostnames ch)) (pl_changes pl) =
         [(AddObj, RouteObj, [''wiki.lab.example'']), (RemoveObj, RouteObj, [''old.lab.example'']), (AddObj, TlsFilesObj, []),
          (AddObj, TlsConnectionObj, [''wiki.lab.example''])] \<and>
       map cf_hostname (pl_conflicts pl) = [''status.lab.example''] \<and>
       map cr_id (pl_routes pl) = [Some ''bellhop-route-wiki.lab.example'']
   | Inl _ \<Rightarrow> False"
  "distinct (map routeId demo_routes)" "writesAutomationPolicy sample_context = Some False"
  by code_simp+

theorem planned_config_is_settled_witness:
  "\<exists>pl pl'. planCaddyConfig (Some live_status) demo_routes sample_context ''proxy'' = Inr pl \<and> pl_config pl \<noteq> None \<and>
    map cf_hostname (pl_conflicts pl) = [''status.lab.example''] \<and>
    planCaddyConfig (Some (config_after (Some live_status) pl)) demo_routes sample_context ''proxy'' = Inr pl' \<and>
    pl_config pl' = None \<and> pl_changes pl' = []"
proof -
  obtain pl where pl: "planCaddyConfig (Some live_status) demo_routes sample_context ''proxy'' = Inr pl"
      "pl_config pl \<noteq> None" "map cf_hostname (pl_conflicts pl) = [''status.lab.example'']"
    using demo_plan(1) by (auto split: sum.splits)
  show ?thesis
    using planned_config_is_settled [OF pl(1) demo_plan(2)]
    by (elim exE conjE) (rule exI, rule exI, intro conjI, rule pl(1), rule pl(2), rule pl(3), assumption+)
qed


theorem no_hostname_is_taken_over_witness:
  "\<exists>pl. planCaddyConfig (Some live_status) demo_routes sample_context ''proxy'' = Inr pl \<and>
    map cf_hostname (pl_conflicts pl) = [''status.lab.example''] \<and>
    (\<forall>b \<in> snd ` set (list_routes tagged_route (servers_of (config_after (Some live_status) pl))). \<forall>g \<in> set (routeHosts b).
      \<forall>q \<in> snd ` set (operator_routes (config_after (Some live_status) pl)). \<forall>h \<in> set (routeHosts q).
        toLowerCase g \<noteq> toLowerCase h)"
proof -
  obtain pl where pl: "planCaddyConfig (Some live_status) demo_routes sample_context ''proxy'' = Inr pl"
      "map cf_hostname (pl_conflicts pl) = [''status.lab.example'']"
    using demo_plan(1) by (auto split: sum.splits)
  show ?thesis
    using no_hostname_is_taken_over [OF pl(1) demo_plan(3)] pl by (intro exI [of _ pl]) blast
qed

section \<open>A path with a blank\<close>


end
