(* ===== verification/Remote_Targets.thy ===== *)
theory Remote_Targets
  imports File_Driver Inventory_Theorems
begin

text \<open>
  Running a command on a host or guest: \<open>src/src/lib/targets.ts\<close>.  The SSH client is the parameter \<open>exec\<close>, what
  a host's login shell answers for a command; \<open>parse\<close> is \<open>JSON.parse\<close> on the guest agent's answer, \<open>None\<close>
  where it throws.  A thrown error is \<open>Inl\<close>.
\<close>

section \<open>Targets\<close>

record exec_result =
  ex_stdout :: string
  ex_stderr :: string
  ex_code :: int

record ssh_target =
  st_host :: string
  st_user :: string
  st_port :: "int option"
  st_identityFile :: "string option"

datatype resolved_target = PveTarget host_entry | GuestTarget guest_type guest_entry host_entry

datatype target_error =
    UnknownEntry string
  | UnknownParent string string
  | UnknownHostGuest string
  | InvalidMid int
  | UnknownHost string
  | NoMidScheme string
  | VmidInUse int string "string option"

definition resolveTarget :: "inventory \<Rightarrow> string \<Rightarrow> target_error + resolved_target" where
  "resolveTarget iv name =
     (case find (\<lambda>h. e_name h = name) (i_hosts iv) of
        Some host \<Rightarrow> Inr (PveTarget host)
      | None \<Rightarrow>
          (case find (\<lambda>g. e_name g = name) (i_guests iv) of
             Some guest \<Rightarrow>
               (case find (\<lambda>h. e_name h = g_host guest) (i_hosts iv) of
                  None \<Rightarrow> Inl (UnknownParent name (g_host guest))
                | Some parent \<Rightarrow> Inr (GuestTarget (g_type guest) guest parent))
           | None \<Rightarrow> Inl (UnknownEntry name)))"

definition hostSshTarget :: "host_entry \<Rightarrow> ssh_target" where
  "hostSshTarget host =
     \<lparr>st_host = h_ssh_target host, st_user = h_ssh_user host, st_port = h_ssh_port host,
      st_identityFile = h_ssh_identity_file host\<rparr>"

definition VM_EXEC_TIMEOUT_SECONDS :: int where
  "VM_EXEC_TIMEOUT_SECONDS = 60"

definition shellQuote :: "string \<Rightarrow> string" where
  "shellQuote value =
     [CHR 39] @ concat (map (\<lambda>c. if c = CHR 39 then [CHR 39, CHR 92, CHR 39, CHR 39] else [c]) value) @ [CHR 39]"

record vm_envelope =
  ve_pid :: "int option"
  ve_exitcode :: "int option"
  ve_signal :: "int option"
  ve_outData :: "string option"
  ve_errData :: "string option"

definition lxc_command :: "int \<Rightarrow> string \<Rightarrow> string" where
  "lxc_command vmid command = ''pct exec '' @ show_int vmid @ '' -- sh -c '' @ shellQuote command"

definition vm_command :: "int \<Rightarrow> string \<Rightarrow> string" where
  "vm_command vmid command =
     ''qm guest exec '' @ show_int vmid @ '' --timeout '' @ show_int VM_EXEC_TIMEOUT_SECONDS @ '' -- sh -c '' @ shellQuote command"

definition vm_result :: "(string \<Rightarrow> vm_envelope option) \<Rightarrow> exec_result \<Rightarrow> exec_result" where
  "vm_result parse result =
     (if ex_code result \<noteq> 0 then result
      else case parse (ex_stdout result) of
        None \<Rightarrow> \<lparr>ex_stdout = [],
                  ex_stderr = ''qm guest exec output could not be parsed as JSON: '' @ trim_text (ex_stdout result), ex_code = 1\<rparr>
      | Some env \<Rightarrow>
          (case ve_exitcode env of
             Some exitcode \<Rightarrow> \<lparr>ex_stdout = or_empty (ve_outData env), ex_stderr = or_empty (ve_errData env),
                            ex_code = exitcode\<rparr>
           | None \<Rightarrow>
               (case ve_signal env of
                  Some sig \<Rightarrow>
                    (let errData = trim_text (or_empty (ve_errData env));
                         killedNote = ''killed by signal '' @ show_int sig
                     in \<lparr>ex_stdout = or_empty (ve_outData env),
                         ex_stderr = (if errData \<noteq> [] then errData @ LF @ killedNote else killedNote), ex_code = 1\<rparr>)
                | None \<Rightarrow>
                    \<lparr>ex_stdout = [],
                     ex_stderr = ''qm guest exec timed out after '' @ show_int VM_EXEC_TIMEOUT_SECONDS @
                       ''s; the command is still running in the guest'' @
                       (case ve_pid env of None \<Rightarrow> [] | Some pid \<Rightarrow> '' (pid '' @ show_int pid @ '')''), ex_code = 1\<rparr>)))"

definition runRemote ::
  "(string \<Rightarrow> vm_envelope option) \<Rightarrow> (ssh_target \<Rightarrow> string \<Rightarrow> exec_result) \<Rightarrow> inventory \<Rightarrow> string \<Rightarrow> string \<Rightarrow>
   target_error + exec_result" where
  "runRemote parse exec iv name command =
     (case resolveTarget iv name of
        Inl err \<Rightarrow> Inl err
      | Inr (PveTarget host) \<Rightarrow> Inr (exec (hostSshTarget host) command)
      | Inr (GuestTarget Lxc guest parent) \<Rightarrow> Inr (exec (hostSshTarget parent) (lxc_command (g_vmid guest) command))
      | Inr (GuestTarget Vm guest parent) \<Rightarrow>
          Inr (vm_result parse (exec (hostSshTarget parent) (vm_command (g_vmid guest) command))))"

datatype target_selector = SelectHost string | SelectAll | SelectPve | SelectGuests guest_type

definition selectTargets :: "inventory \<Rightarrow> target_selector \<Rightarrow> target_error + string list" where
  "selectTargets iv selector =
     (case selector of
        SelectHost name \<Rightarrow>
          (if list_ex (\<lambda>h. e_name h = name) (i_hosts iv) \<or> list_ex (\<lambda>g. e_name g = name) (i_guests iv) then Inr [name]
           else Inl (UnknownHostGuest name))
      | SelectAll \<Rightarrow> Inr (map e_name (i_hosts iv) @ map e_name (i_guests iv))
      | SelectPve \<Rightarrow> Inr (map e_name (i_hosts iv))
      | SelectGuests ty \<Rightarrow> Inr (map e_name (filter (\<lambda>g. g_type g = ty) (i_guests iv))))"

section \<open>MIDs\<close>

record resolved_mid =
  rm_vmid :: int
  rm_ip :: string
  rm_gateway :: string

definition resolveMid :: "inventory \<Rightarrow> string \<Rightarrow> int \<Rightarrow> target_error + resolved_mid" where
  "resolveMid iv hostName mid =
     (if mid < 1 \<or> mid > 254 then Inl (InvalidMid mid)
      else case find (\<lambda>h. e_name h = hostName) (i_hosts iv) of
        None \<Rightarrow> Inl (UnknownHost hostName)
      | Some host \<Rightarrow>
          (case h_midScheme host of
             None \<Rightarrow> Inl (NoMidScheme hostName)
           | Some scheme \<Rightarrow>
               Inr \<lparr>rm_vmid = ms_vmidBase scheme + mid,
                    rm_ip = ms_ipPrefix scheme @ show_int mid @ ''/'' @
                      show_int (case ms_cidrSuffix scheme of None \<Rightarrow> 16 | Some c \<Rightarrow> c),
                    rm_gateway = ms_gateway scheme\<rparr>))"

definition mids_on :: "inventory \<Rightarrow> string \<Rightarrow> int \<Rightarrow> int list" where
  "mids_on iv name base =
     sort (uniq (map (\<lambda>g. g_vmid g - base)
       (filter (\<lambda>g. g_host g = name \<and> 1 \<le> g_vmid g - base \<and> g_vmid g - base \<le> 254) (i_guests iv))))"

definition usedMidsByHost :: "inventory \<Rightarrow> string list \<Rightarrow> (string \<times> int list) list" where
  "usedMidsByHost iv hostNames =
     foldl (\<lambda>result name.
       case Option.bind (find (\<lambda>h. e_name h = name) (i_hosts iv)) h_midScheme of
         None \<Rightarrow> result
       | Some scheme \<Rightarrow> jm_set name (mids_on iv name (ms_vmidBase scheme)) result) [] hostNames"

definition stripCidr :: "string \<Rightarrow> string" where
  "stripCidr ip = hd (split_on (CHR ''/'') ip)"

definition vmid_query :: "int \<Rightarrow> string" where
  "vmid_query vmid =
     ''pct status '' @ show_int vmid @ '' >/dev/null 2>&1 || qm status '' @ show_int vmid @ '' >/dev/null 2>&1''"

text \<open>\<open>canSeeGuest\<close> is \<open>None\<close> for the command line and MCP.\<close>

definition checkVmidAvailable ::
  "(string \<Rightarrow> vm_envelope option) \<Rightarrow> (ssh_target \<Rightarrow> string \<Rightarrow> exec_result) \<Rightarrow> inventory \<Rightarrow> string \<Rightarrow> int \<Rightarrow>
   (string \<Rightarrow> bool) option \<Rightarrow> target_error + unit" where
  "checkVmidAvailable parse exec iv hostName vmid canSeeGuest =
     (case runRemote parse exec iv hostName (vmid_query vmid) of
        Inl err \<Rightarrow> Inl err
      | Inr result \<Rightarrow>
          if ex_code result \<noteq> 0 then Inr ()
          else let existing = find (\<lambda>g. g_host g = hostName \<and> g_vmid g = vmid) (i_guests iv)
               in Inl (VmidInUse vmid hostName
                    (case existing of
                       None \<Rightarrow> None
                     | Some g \<Rightarrow> if canSeeGuest = None \<or> the canSeeGuest (e_name g) then Some (e_name g) else None)))"

section \<open>What the parent host's shell reads\<close>

text \<open>
  The words of a simple POSIX command: blanks separate, a single-quoted part and a character after a backslash stand
  for themselves, and any other character with a meaning to the shell is not a simple command (\<open>None\<close>).
\<close>

definition sh_plain :: "char \<Rightarrow> bool" where
  "sh_plain c \<longleftrightarrow> is_alnum c \<or> c \<in> {CHR ''-'', CHR ''.'', CHR ''/'', CHR '':'', CHR ''_'', CHR '','', CHR ''@'', CHR ''%''}"

fun sh_scan :: "bool \<Rightarrow> string option \<Rightarrow> string \<Rightarrow> string list option" where
  "sh_scan inq w [] = (if inq then None else Some (case w of None \<Rightarrow> [] | Some v \<Rightarrow> [v]))"
| "sh_scan inq w (c # cs) =
     (if inq then (if c = CHR 39 then sh_scan False w cs else sh_scan True (Some (or_empty w @ [c])) cs)
      else if c = CHR '' '' then
        (case w of None \<Rightarrow> sh_scan False None cs | Some v \<Rightarrow> map_option (Cons v) (sh_scan False None cs))
      else if c = CHR 39 then sh_scan True (Some (or_empty w)) cs
      else if c = CHR 92 then
        (case cs of [] \<Rightarrow> None | d # ds \<Rightarrow> if d = CHR 10 then None else sh_scan False (Some (or_empty w @ [d])) ds)
      else if sh_plain c then sh_scan False (Some (or_empty w @ [c])) cs else None)"

definition sh_words :: "string \<Rightarrow> string list option" where
  "sh_words s = sh_scan False None s"

lemma scan_plain:
  "list_all sh_plain s \<Longrightarrow> s \<noteq> [] \<Longrightarrow> sh_scan False w (s @ rest) = sh_scan False (Some (or_empty w @ s)) rest"
proof (induction s arbitrary: w)
  case (Cons c s)
  have c: "c \<noteq> CHR '' ''" "c \<noteq> CHR 39" "c \<noteq> CHR 92" "sh_plain c"
    using Cons.prems(1) by (auto simp: sh_plain_def is_alnum_def in_range_def code_def)
  show ?case
  proof (cases "s = []")
    case True
    then show ?thesis using c by simp
  next
    case False
    then show ?thesis using Cons c by (simp add: or_empty_def)
  qed
qed simp

lemma scan_blank: "sh_scan False (Some v) (CHR '' '' # rest) = map_option (Cons v) (sh_scan False None rest)"
  by simp

lemma scan_quoted:
  "sh_scan True (Some v) (concat (map (\<lambda>c. if c = CHR 39 then [CHR 39, CHR 92, CHR 39, CHR 39] else [c]) s) @ rest) =
     sh_scan True (Some (v @ s)) rest"
proof (induction s arbitrary: v)
  case (Cons c s)
  show ?case using Cons.IH by (cases "c = CHR 39") (simp_all add: or_empty_def)
qed simp

lemma scan_shellQuote: "sh_scan False w (shellQuote s @ rest) = sh_scan False (Some (or_empty w @ s)) rest"
  by (simp add: shellQuote_def scan_quoted)

lemma digits_plain: "list_all is_digit s \<Longrightarrow> list_all sh_plain s"
  by (induction s) (auto simp: sh_plain_def is_digit_def is_alnum_def in_range_def code_def)

lemma show_int_plain: "list_all sh_plain (show_int i)" "show_int i \<noteq> []"
  using show_nat_digits [of "nat i"] show_nat_digits [of "nat (- i)"]
  by (auto simp: show_int_def sh_plain_def intro: digits_plain)

text \<open>
  C35: Whatever a command holds - quotes, line feeds, substitutions - the parent host's shell reads the line that carries
  it into a container or machine as one simple command whose last argument is exactly the command's text.
\<close>

theorem remote_command_is_one_argument:
  "sh_words (lxc_command vmid command) = Some [''pct'', ''exec'', show_int vmid, ''--'', ''sh'', ''-c'', command] \<and>
   sh_words (vm_command vmid command) =
     Some [''qm'', ''guest'', ''exec'', show_int vmid, ''--timeout'', ''60'', ''--'', ''sh'', ''-c'', command]"
proof -
  have word: "sh_scan False None (s @ CHR '' '' # rest) = map_option (Cons s) (sh_scan False None rest)"
    if "list_all sh_plain s" "s \<noteq> []" for s rest
    using scan_plain [OF that, of None "CHR '' '' # rest"] by (simp add: or_empty_def)
  have last: "sh_scan False None (shellQuote command) = Some [command]"
    using scan_shellQuote [of None command "[]"] by (simp add: or_empty_def)
  have words: "list_all sh_plain ''pct''" "list_all sh_plain ''exec''" "list_all sh_plain ''--''" "list_all sh_plain ''sh''"
      "list_all sh_plain ''-c''" "list_all sh_plain ''qm''" "list_all sh_plain ''guest''" "list_all sh_plain ''--timeout''"
      "list_all sh_plain ''60''" "show_int 60 = ''60''"
    by code_simp+
  have lxc: "lxc_command vmid command =
      ''pct'' @ CHR '' '' # ''exec'' @ CHR '' '' # show_int vmid @ CHR '' '' # ''--'' @ CHR '' '' # ''sh'' @ CHR '' '' #
      ''-c'' @ CHR '' '' # shellQuote command"
    by (simp add: lxc_command_def)
  have vm: "vm_command vmid command =
      ''qm'' @ CHR '' '' # ''guest'' @ CHR '' '' # ''exec'' @ CHR '' '' # show_int vmid @ CHR '' '' # ''--timeout'' @ CHR '' '' #
      ''60'' @ CHR '' '' # ''--'' @ CHR '' '' # ''sh'' @ CHR '' '' # ''-c'' @ CHR '' '' # shellQuote command"
    by (simp add: vm_command_def VM_EXEC_TIMEOUT_SECONDS_def words(10))
  show ?thesis
    unfolding sh_words_def lxc vm
    by (simp only: word words show_int_plain last list.distinct not_Cons_self2 option.map simp_thms)
qed

text \<open>
  C36: A command run in a machine counts as succeeded only when the guest agent answered, its answer parsed, and it names
  exit code 0: an answer that is no JSON, one of a killed command and one of a command still running are failures.
\<close>

theorem vm_success_is_the_guests:
  assumes "runRemote parse exec iv name command = Inr result"
    and "resolveTarget iv name = Inr (GuestTarget Vm guest parent)" and "ex_code result = 0"
  shows "\<exists>env. ex_code (exec (hostSshTarget parent) (vm_command (g_vmid guest) command)) = 0 \<and>
    parse (ex_stdout (exec (hostSshTarget parent) (vm_command (g_vmid guest) command))) = Some env \<and>
    ve_exitcode env = Some 0 \<and> ex_stdout result = or_empty (ve_outData env)"
  using assms by (auto simp: runRemote_def vm_result_def Let_def split: option.splits if_splits)

lemma jm_foldl_keys:
  "jm_get (foldl (\<lambda>result name. case f name of None \<Rightarrow> result | Some x \<Rightarrow> jm_set name (g name x) result) m names) k =
     (if k \<in> set names \<and> f k \<noteq> None then Some (g k (the (f k))) else jm_get m k)"
  by (induction names arbitrary: m) (auto simp: jm_get_set split: option.splits)

text \<open>
  The MIDs the web form is told are taken on a host are exactly those that resolve to the VMID of a guest on that
  host, ascending and without repetition; a host without a MID scheme is not listed.
\<close>

theorem used_mids_are_the_taken_vmids:
  assumes "jm_get (usedMidsByHost iv names) name = Some mids"
  shows "name \<in> set names \<and> sorted mids \<and> distinct mids \<and>
    (\<forall>mid. mid \<in> set mids \<longleftrightarrow> (\<exists>r g. resolveMid iv name mid = Inr r \<and> g \<in> set (i_guests iv) \<and> g_host g = name \<and>
       g_vmid g = rm_vmid r))"
proof -
  let ?f = "\<lambda>name. Option.bind (find (\<lambda>h. e_name h = name) (i_hosts iv)) h_midScheme"
  have get: "jm_get (usedMidsByHost iv names) name =
      (if name \<in> set names \<and> ?f name \<noteq> None then Some (mids_on iv name (ms_vmidBase (the (?f name)))) else None)"
    unfolding usedMidsByHost_def by (simp add: jm_foldl_keys)
  then obtain scheme where scheme: "?f name = Some scheme" "name \<in> set names" "mids = mids_on iv name (ms_vmidBase scheme)"
    using assms by (auto split: if_splits)
  have resolve: "resolveMid iv name mid =
      (if mid < 1 \<or> mid > 254 then Inl (InvalidMid mid)
       else Inr \<lparr>rm_vmid = ms_vmidBase scheme + mid,
         rm_ip = ms_ipPrefix scheme @ show_int mid @ ''/'' @
           show_int (case ms_cidrSuffix scheme of None \<Rightarrow> 16 | Some c \<Rightarrow> c), rm_gateway = ms_gateway scheme\<rparr>)" for mid
    using scheme(1) by (auto simp: resolveMid_def split: option.splits Option.bind_splits)
  have "mid \<in> set mids \<longleftrightarrow> (\<exists>r g. resolveMid iv name mid = Inr r \<and> g \<in> set (i_guests iv) \<and> g_host g = name \<and>
       g_vmid g = rm_vmid r)" for mid
    by (auto simp: resolve scheme(3) mids_on_def image_iff)
  then show ?thesis using scheme(2) by (simp add: scheme(3) mids_on_def)
qed

definition remote_inventory :: inventory where
  "remote_inventory = sample_inventory\<lparr>
     i_hosts := map (\<lambda>h. h\<lparr>h_midScheme := Some \<lparr>ms_vmidBase = 200, ms_ipPrefix = ''10.0.0.'', ms_cidrSuffix = None,
       ms_gateway = ''10.0.0.1''\<rparr>\<rparr>) (i_hosts sample_inventory),
     i_guests := map (\<lambda>g. g\<lparr>g_type := Vm, g_vmid := 207\<rparr>) (i_guests sample_inventory)\<rparr>"

lemma remote_facts:
  "(case resolveTarget remote_inventory ''wiki'' of
     Inr (GuestTarget ty g h) \<Rightarrow> ty = Vm \<and> g_vmid g = 207 \<and> g = hd (i_guests remote_inventory) \<and> h = hd (i_hosts remote_inventory)
   | _ \<Rightarrow> False)"
  "jm_get (usedMidsByHost remote_inventory [''pve1'']) ''pve1'' = Some [7]"
  by code_simp+

theorem vm_success_is_the_guests_witness:
  "\<exists>parse exec guest parent result. runRemote parse exec remote_inventory ''wiki'' ''id'' = Inr result \<and>
    resolveTarget remote_inventory ''wiki'' = Inr (GuestTarget Vm guest parent) \<and> ex_code result = 0 \<and>
    ex_stdout result = ''root'' \<and>
    (\<exists>env. parse (ex_stdout (exec (hostSshTarget parent) (vm_command (g_vmid guest) ''id''))) = Some env \<and>
       ve_exitcode env = Some 0)"
proof -
  let ?env = "\<lparr>ve_pid = None, ve_exitcode = Some 0, ve_signal = None, ve_outData = Some ''root'', ve_errData = None\<rparr>"
  let ?parse = "\<lambda>s :: string. if s = ''{}'' then Some ?env else None"
  let ?exec = "\<lambda>(t :: ssh_target) (c :: string). \<lparr>ex_stdout = ''{}'', ex_stderr = [], ex_code = 0\<rparr>"
  obtain guest parent where target: "resolveTarget remote_inventory ''wiki'' = Inr (GuestTarget Vm guest parent)"
    using remote_facts(1) by (auto split: sum.splits resolved_target.splits)
  have run: "runRemote ?parse ?exec remote_inventory ''wiki'' ''id'' =
      Inr \<lparr>ex_stdout = ''root'', ex_stderr = [], ex_code = 0\<rparr>"
    by (simp add: runRemote_def target vm_result_def or_empty_def)
  show ?thesis
    using vm_success_is_the_guests [OF run target] run target
    by (intro exI [of _ ?parse] exI [of _ ?exec] exI [of _ guest] exI [of _ parent] exI) auto
qed

theorem used_mids_are_the_taken_vmids_witness:
  "jm_get (usedMidsByHost remote_inventory [''pve1'']) ''pve1'' = Some [7] \<and>
   (\<exists>r g. resolveMid remote_inventory ''pve1'' 7 = Inr r \<and> g \<in> set (i_guests remote_inventory) \<and>
     g_host g = ''pve1'' \<and> g_vmid g = rm_vmid r)"
proof -
  have "(7 :: int) \<in> set [7] \<longleftrightarrow> (\<exists>r g. resolveMid remote_inventory ''pve1'' 7 = Inr r \<and> g \<in> set (i_guests remote_inventory) \<and>
     g_host g = ''pve1'' \<and> g_vmid g = rm_vmid r)"
    using used_mids_are_the_taken_vmids [OF remote_facts(2)] by blast
  moreover have "(7 :: int) \<in> set [7]" by simp
  ultimately show ?thesis using remote_facts(2) by blast
qed

end
