(* ===== verification/Caddy_Admin.thy ===== *)
theory Caddy_Admin
  imports Caddy_Json Remote_Targets
begin

text \<open>
  Caddy's admin API over the proxy host's shell, and the driver on top of it: \<open>src/src/lib/proxy/caddy-admin.ts\<close>,
  \<open>drivers/caddy-api.ts\<close>.  \<open>print\<close> is the compact JSON of a configuration, \<open>read_config\<close> is \<open>JSON.parse\<close> with the
  schema (the error's message where either refuses), \<open>read_error\<close> the \<open>error\<close> string of an answer, if it has one.
\<close>

section \<open>Commands\<close>

definition CADDY_ADMIN_ADDRESS :: string where
  "CADDY_ADMIN_ADDRESS = ''localhost:2019''"

definition CONFIG_URL :: string where
  "CONFIG_URL = ''http://'' @ CADDY_ADMIN_ADDRESS @ ''/config/''"

definition CADDYFILE_MODE_EXIT :: int where
  "CADDYFILE_MODE_EXIT = 3"

definition NO_CURL_EXIT :: int where
  "NO_CURL_EXIT = 4"

definition STATUS_MARKER :: string where
  "STATUS_MARKER = ''BELLHOP_HTTP_STATUS=''"

definition HEREDOC_TAG :: string where
  "HEREDOC_TAG = ''BELLHOP_CADDY_CONFIG''"

definition buildReadCommand :: "bool \<Rightarrow> string" where
  "buildReadCommand checkService =
     join_with LF
       ((if checkService
         then [''if systemctl is-active --quiet caddy.service 2>/dev/null; then exit '' @ show_int CADDYFILE_MODE_EXIT @ ''; fi'']
         else []) @
        [''command -v curl >/dev/null 2>&1 || exit '' @ show_int NO_CURL_EXIT, ''curl -sS -D - '' @ CONFIG_URL])"

definition write_line :: "string \<Rightarrow> string" where
  "write_line etag =
     ''curl -sS -X PATCH -H '' @ sq @ ''Content-Type: application/json'' @ sq @ '' -H '' @ singleQuote (''If-Match: '' @ etag) @ '' '' @
     ''--data-binary @- -w '' @ sq @ [CHR 92] @ ''n'' @ STATUS_MARKER @ ''%{http_code}'' @ [CHR 92] @ ''n'' @ sq @ '' '' @ CONFIG_URL @
     '' <<'' @ sq @ HEREDOC_TAG @ sq"

definition buildWriteCommand :: "(caddy_config \<Rightarrow> string) \<Rightarrow> caddy_config \<Rightarrow> string \<Rightarrow> string" where
  "buildWriteCommand print config etag =
     join_with LF
       [''command -v curl >/dev/null 2>&1 || exit '' @ show_int NO_CURL_EXIT, write_line etag, print config, HEREDOC_TAG]"

section \<open>Answers\<close>

record admin_response =
  ar_status :: nat
  ar_etag :: "string option"
  ar_body :: string

definition opt_cr :: "string \<Rightarrow> string" where
  "opt_cr s = (case s of [] \<Rightarrow> [] | c # cs \<Rightarrow> if c = CHR 13 then cs else s)"

text \<open>The text after a match of \<open>\r?\n\r?\n\<close> at the beginning, if there is one, and the leftmost such match.\<close>

definition line_end :: "string \<Rightarrow> string option" where
  "line_end s = (case opt_cr s of [] \<Rightarrow> None | c # cs \<Rightarrow> if c = CHR 10 then Some cs else None)"

definition blank_line :: "string \<Rightarrow> string option" where
  "blank_line s = Option.bind (line_end s) line_end"

fun split_head :: "string \<Rightarrow> string \<times> string" where
  "split_head [] = ([], [])"
| "split_head (c # cs) =
     (case blank_line (c # cs) of
        Some body \<Rightarrow> ([], body)
      | None \<Rightarrow> (case split_head cs of (h, body) \<Rightarrow> (c # h, body)))"

text \<open>\<open>split(/\r?\n/)\<close>: a line loses one carriage return before its line feed.\<close>

definition drop_cr :: "string \<Rightarrow> string" where
  "drop_cr l = (if l \<noteq> [] \<and> last l = CHR 13 then butlast l else l)"

definition header_lines :: "string \<Rightarrow> string list" where
  "header_lines s = (let ls = split_on (CHR 10) s in map drop_cr (butlast ls) @ [last ls])"

definition http_status :: "string \<Rightarrow> nat" where
  "http_status l =
     (if startsWith l ''HTTP/'' then
        (let version = takeWhile (\<lambda>c. is_digit c \<or> c = CHR ''.'') (drop 5 l);
             rest = drop (5 + length version) l
         in if version \<noteq> [] \<and> startsWith rest '' '' \<and> length (take 3 (drop 1 rest)) = 3 \<and>
               list_all is_digit (take 3 (drop 1 rest))
            then read_nat (take 3 (drop 1 rest)) else 0)
      else 0)"

definition is_etag_line :: "string \<Rightarrow> bool" where
  "is_etag_line l \<longleftrightarrow> toLowerCase (take 5 l) = ''etag:''"

definition parseReadOutput :: "string \<Rightarrow> admin_response" where
  "parseReadOutput stdout =
     (let (head, body) = split_head stdout; ls = header_lines head
      in \<lparr>ar_status = http_status (hd ls),
          ar_etag = map_option (\<lambda>l. trim_text (drop 5 l)) (find is_etag_line (tl ls)),
          ar_body = body\<rparr>)"

text \<open>Whether the rest of the output is the marker, three digits and white space: the status it names.\<close>

definition marker_status :: "string \<Rightarrow> nat option" where
  "marker_status s =
     (let rest = drop (length STATUS_MARKER) s
      in if startsWith s STATUS_MARKER \<and> length (take 3 rest) = 3 \<and> list_all is_digit (take 3 rest) \<and>
            list_all js_space (drop 3 rest)
         then Some (read_nat (take 3 rest)) else None)"

definition marker_at :: "string \<Rightarrow> nat option" where
  "marker_at s =
     (case s of
        [] \<Rightarrow> None
      | c # cs \<Rightarrow> if c = CHR 10 \<and> marker_status cs \<noteq> None then marker_status cs else marker_status s)"

fun find_marker :: "string \<Rightarrow> string \<Rightarrow> (nat \<times> string) option" where
  "find_marker before [] = None"
| "find_marker before (c # cs) =
     (case marker_at (c # cs) of
        Some status \<Rightarrow> Some (status, before)
      | None \<Rightarrow> find_marker (before @ [c]) cs)"

definition parseWriteOutput :: "string \<Rightarrow> nat \<times> string" where
  "parseWriteOutput stdout =
     (case find_marker [] stdout of
        None \<Rightarrow> (0, trim_text stdout)
      | Some (status, before) \<Rightarrow> (status, trim_text before))"

section \<open>Reading, writing and the driver\<close>

datatype admin_error =
    RemoteFailed target_error
  | CaddyfileMode
  | NoCurl
  | CannotRead string
  | ReadAnswered nat string
  | NoEtag
  | BadConfig string
  | CannotWrite string
  | ChangedMeanwhile
  | Rejected nat string
  | PlanRefused caddy_error
  | Conflicts "caddy_conflict list"

definition adminError :: "(string \<Rightarrow> string option) \<Rightarrow> string \<Rightarrow> string" where
  "adminError read_error body = (case read_error body of None \<Rightarrow> body | Some e \<Rightarrow> e)"

definition failure_text :: "exec_result \<Rightarrow> string" where
  "failure_text result =
     (if trim_text (ex_stderr result) \<noteq> [] then trim_text (ex_stderr result)
      else if trim_text (ex_stdout result) \<noteq> [] then trim_text (ex_stdout result)
      else ''exit code '' @ show_int (ex_code result))"

definition read_answer ::
  "(string \<Rightarrow> string + caddy_config option) \<Rightarrow> (string \<Rightarrow> string option) \<Rightarrow> bool \<Rightarrow> exec_result \<Rightarrow>
   admin_error + (caddy_config option \<times> string)" where
  "read_answer read_config read_error checkService result =
     (if ex_code result = CADDYFILE_MODE_EXIT \<and> checkService then Inl CaddyfileMode
      else if ex_code result = NO_CURL_EXIT then Inl NoCurl
      else if ex_code result \<noteq> 0 then Inl (CannotRead (failure_text result))
      else let response = parseReadOutput (ex_stdout result)
        in if ar_status response \<noteq> 200 then Inl (ReadAnswered (ar_status response) (adminError read_error (ar_body response)))
           else if \<not> has_text (ar_etag response) then Inl NoEtag
           else case read_config (ar_body response) of
                  Inl err \<Rightarrow> Inl (BadConfig err)
                | Inr config \<Rightarrow> Inr (config, the (ar_etag response)))"

definition readCaddyConfig ::
  "(string \<Rightarrow> target_error + exec_result) \<Rightarrow> (string \<Rightarrow> string + caddy_config option) \<Rightarrow> (string \<Rightarrow> string option) \<Rightarrow>
   bool \<Rightarrow> admin_error + (caddy_config option \<times> string)" where
  "readCaddyConfig run read_config read_error checkService =
     (case run (buildReadCommand checkService) of
        Inl err \<Rightarrow> Inl (RemoteFailed err)
      | Inr result \<Rightarrow> read_answer read_config read_error checkService result)"

definition write_answer :: "(string \<Rightarrow> string option) \<Rightarrow> exec_result \<Rightarrow> admin_error + unit" where
  "write_answer read_error result =
     (if ex_code result = NO_CURL_EXIT then Inl NoCurl
      else if ex_code result \<noteq> 0 then Inl (CannotWrite (failure_text result))
      else case parseWriteOutput (ex_stdout result) of (status, body) \<Rightarrow>
        if status = 200 then Inr ()
        else if status = 412 then Inl ChangedMeanwhile
        else Inl (Rejected status (adminError read_error body)))"

definition writeCaddyConfig ::
  "(string \<Rightarrow> target_error + exec_result) \<Rightarrow> (caddy_config \<Rightarrow> string) \<Rightarrow> (string \<Rightarrow> string option) \<Rightarrow>
   caddy_config \<Rightarrow> string \<Rightarrow> admin_error + unit" where
  "writeCaddyConfig run print read_error config etag =
     (case run (buildWriteCommand print config etag) of
        Inl err \<Rightarrow> Inl (RemoteFailed err)
      | Inr result \<Rightarrow> write_answer read_error result)"

text \<open>The driver's \<open>plan\<close> and \<open>apply\<close>; \<open>run\<close> is \<open>runRemote\<close> on the proxy host at that moment.\<close>

definition caddy_api_plan ::
  "(string \<Rightarrow> target_error + exec_result) \<Rightarrow> (string \<Rightarrow> string + caddy_config option) \<Rightarrow> (string \<Rightarrow> string option) \<Rightarrow>
   proxy_route list \<Rightarrow> proxy_context \<Rightarrow> string \<Rightarrow> admin_error + (caddy_plan \<times> string)" where
  "caddy_api_plan run read_config read_error routes ctx host =
     (case readCaddyConfig run read_config read_error True of
        Inl err \<Rightarrow> Inl err
      | Inr (live, etag) \<Rightarrow>
          (case planCaddyConfig live routes ctx host of
             Inl err \<Rightarrow> Inl (PlanRefused err)
           | Inr pl \<Rightarrow> Inr (pl, etag)))"

definition caddy_api_apply ::
  "(string \<Rightarrow> target_error + exec_result) \<Rightarrow> (caddy_config \<Rightarrow> string) \<Rightarrow> (string \<Rightarrow> string option) \<Rightarrow>
   caddy_plan \<times> string \<Rightarrow> admin_error + unit" where
  "caddy_api_apply run print read_error payload =
     (let (pl, etag) = payload;
          conflicted = (if pl_conflicts pl \<noteq> [] then Inl (Conflicts (pl_conflicts pl)) else Inr ())
      in case pl_config pl of
           None \<Rightarrow> conflicted
         | Some config \<Rightarrow>
             (case writeCaddyConfig run print read_error config etag of
                Inl err \<Rightarrow> Inl err
              | Inr _ \<Rightarrow> conflicted))"

section \<open>The status of a write\<close>

lemma marker_status_late:
  assumes "length u \<ge> 23" and "is_digit d"
  shows "marker_status (u @ [d, CHR 10]) = None"
proof -
  have len: "length STATUS_MARKER = 20" by (simp add: STATUS_MARKER_def)
  have "\<not> js_space d" using assms(2) by (auto simp: js_space_def is_digit_def in_range_def code_def)
  moreover have "drop 23 (u @ [d, CHR 10]) = drop 23 u @ [d, CHR 10]" using assms(1) by simp
  ultimately have "\<not> list_all js_space (drop 23 (u @ [d, CHR 10]))" by simp
  then show ?thesis by (simp add: marker_status_def len Let_def drop_drop del: drop_append)
qed

lemma find_marker_body:
  assumes "length d3 = 3" and "list_all is_digit d3"
  shows "find_marker before (body @ LF @ STATUS_MARKER @ d3 @ LF) = Some (read_nat d3, before @ body)"
proof (induction body arbitrary: before)
  case Nil
  have len: "length STATUS_MARKER = 20" by (simp add: STATUS_MARKER_def)
  have "marker_status (STATUS_MARKER @ d3 @ LF) = Some (read_nat d3)"
    using assms by (simp add: marker_status_def startsWith_def LF_def js_space_def in_range_def code_def)
  then show ?case by (simp add: LF_def marker_at_def)
next
  case (Cons c body)
  obtain e2 d where d3: "d3 = e2 @ [d]" "length e2 = 2"
    using assms(1) by (cases d3 rule: rev_cases) auto
  then have d: "is_digit d" using assms(2) by simp
  have late: "marker_status (x @ LF @ STATUS_MARKER @ d3 @ LF) = None" for x
    using marker_status_late [OF _ d, of "x @ LF @ STATUS_MARKER @ e2"] d3 by (simp add: STATUS_MARKER_def LF_def)
  have "marker_at ((c # body) @ LF @ STATUS_MARKER @ d3 @ LF) = None"
    using late [of body] late [of "c # body"] by (simp add: marker_at_def)
  then show ?case using Cons.IH [of "before @ [c]"] by simp
qed

text \<open>
  C34: The outcome of a write is the status curl reports and nothing the server says: whatever the answer's body holds,
  a line like the marker's included, the parsed status is that of the last line, and the body is the answer's.
\<close>

theorem write_status_is_curls:
  assumes "length digits = 3" and "list_all is_digit digits"
  shows "parseWriteOutput (body @ LF @ STATUS_MARKER @ digits @ LF) = (read_nat digits, trim_text body)"
  using find_marker_body [OF assms, of "[]" body] by (simp add: parseWriteOutput_def)

theorem write_status_is_curls_witness:
  "parseWriteOutput ((STATUS_MARKER @ ''200'') @ LF @ STATUS_MARKER @ ''412'' @ LF) = (412, trim_text (STATUS_MARKER @ ''200''))"
proof -
  have "length ''412'' = 3" "list_all is_digit ''412''" "read_nat ''412'' = 412" by code_simp+
  then show ?thesis using write_status_is_curls [of "''412''" "STATUS_MARKER @ ''200''"] by (simp only:)
qed

section \<open>The answer of a read\<close>

definition CRLF :: string where
  "CRLF = [CHR 13, CHR 10]"

definition header_line :: "string \<Rightarrow> bool" where
  "header_line l \<longleftrightarrow> l \<noteq> [] \<and> CHR 10 \<notin> set l \<and> CHR 13 \<notin> set l"

lemma no_blank_before:
  assumes "header_line (c # l)"
  shows "split_head (c # l @ CRLF @ rest) = (case split_head (l @ CRLF @ rest) of (h, body) \<Rightarrow> (c # h, body))"
proof -
  have "c \<noteq> CHR 10" "c \<noteq> CHR 13" using assms by (auto simp: header_line_def)
  then have "blank_line (c # l @ CRLF @ rest) = None" by (simp add: blank_line_def line_end_def opt_cr_def)
  then show ?thesis by simp
qed

lemma split_head_line:
  assumes "CHR 10 \<notin> set l" and "CHR 13 \<notin> set l"
  shows "split_head (l @ CRLF @ rest) = (case split_head (CRLF @ rest) of (h, body) \<Rightarrow> (l @ h, body))"
  using assms
proof (induction l)
  case (Cons c l)
  have "header_line (c # l)" using Cons.prems by (simp add: header_line_def)
  then show ?case using no_blank_before [of c l rest] Cons by (simp split: prod.splits)
qed (simp split: prod.splits)

lemma split_head_crlf:
  assumes "header_line l"
  shows "split_head (CRLF @ l @ CRLF @ rest) = (case split_head (l @ CRLF @ rest) of (h, body) \<Rightarrow> (CRLF @ h, body))"
proof -
  obtain c cs where l: "l = c # cs" "c \<noteq> CHR 10" "c \<noteq> CHR 13" using assms by (cases l) (auto simp: header_line_def)
  have "blank_line (CHR 13 # CHR 10 # l @ CRLF @ rest) = None" "blank_line (CHR 10 # l @ CRLF @ rest) = None"
    using l by (simp_all add: blank_line_def line_end_def opt_cr_def)
  then show ?thesis by (simp add: CRLF_def split: prod.splits)
qed

lemma split_head_headers:
  assumes "ls \<noteq> []" and "\<forall>l \<in> set ls. header_line l"
  shows "split_head (join_with CRLF ls @ CRLF @ CRLF @ body) = (join_with CRLF ls, body)"
  using assms
proof (induction ls rule: list_nonempty_induct)
  case (single l)
  have "blank_line (CRLF @ CRLF @ body) = Some body" by (simp add: blank_line_def line_end_def opt_cr_def CRLF_def)
  then have "split_head (CRLF @ CRLF @ body) = ([], body)" by (simp add: CRLF_def)
  then show ?case using split_head_line [of l "CRLF @ body"] single by (simp add: header_line_def)
next
  case (cons l ls)
  obtain m ms where ls: "ls = m # ms" using cons.hyps by (cases ls) auto
  obtain r where r: "join_with CRLF ls @ CRLF @ CRLF @ body = m @ CRLF @ r"
    by (cases ms) (auto simp: ls)
  have "split_head (CRLF @ join_with CRLF ls @ CRLF @ CRLF @ body) = (CRLF @ join_with CRLF ls, body)"
    using split_head_crlf [of m r] cons r by (simp add: ls)
  then show ?case
    using split_head_line [of l "join_with CRLF ls @ CRLF @ CRLF @ body"] cons.prems by (simp add: ls header_line_def)
qed

lemma header_lines_join:
  assumes "ls \<noteq> []" and "\<forall>l \<in> set ls. header_line l"
  shows "header_lines (join_with CRLF ls) = ls"
  using assms
proof (induction ls rule: list_nonempty_induct)
  case (single l)
  then show ?case by (simp add: header_lines_def header_line_def split_on_no_sep)
next
  case (cons l ls)
  obtain m ms where ls: "ls = m # ms" using cons.hyps by (cases ls) auto
  have l: "CHR 10 \<notin> set (l @ [CHR 13])" using cons.prems by (simp add: header_line_def)
  have "join_with CRLF (l # ls) = (l @ [CHR 13]) @ CHR 10 # join_with CRLF ls" by (simp add: ls CRLF_def)
  then have "split_on (CHR 10) (join_with CRLF (l # ls)) = (l @ [CHR 13]) # split_on (CHR 10) (join_with CRLF ls)"
    by (simp only: split_on_sep split_on_no_sep [OF l] append_Cons append_Nil)
  then show ?case using cons by (simp add: header_lines_def drop_cr_def Let_def)
qed

text \<open>
  Reading parses back what curl prints: for a status line and headers without line breaks, the parsed status is the
  status line's, the Etag the first Etag header's and the body every byte after the blank line, line breaks included.
\<close>

theorem read_output_parses_back:
  assumes "\<forall>l \<in> set (statusLine # headers). header_line l"
  shows "parseReadOutput (join_with CRLF (statusLine # headers) @ CRLF @ CRLF @ body) =
    \<lparr>ar_status = http_status statusLine, ar_etag = map_option (\<lambda>l. trim_text (drop 5 l)) (find is_etag_line headers),
     ar_body = body\<rparr>"
  using split_head_headers [OF _ assms, of body] header_lines_join [OF _ assms] by (simp add: parseReadOutput_def Let_def)

theorem read_output_parses_back_witness:
  "parseReadOutput (join_with CRLF [''HTTP/1.1 200 OK'', ''Server: Caddy'', ''Etag: abc''] @ CRLF @ CRLF @ ''{}'') =
    \<lparr>ar_status = 200, ar_etag = Some ''abc'', ar_body = ''{}''\<rparr>"
proof -
  have "\<forall>l \<in> set [''HTTP/1.1 200 OK'', ''Server: Caddy'', ''Etag: abc'']. header_line l" by (simp add: header_line_def)
  moreover have "http_status ''HTTP/1.1 200 OK'' = 200"
    "map_option (\<lambda>l. trim_text (drop 5 l)) (find is_etag_line [''Server: Caddy'', ''Etag: abc'']) = Some ''abc''"
    by code_simp+
  ultimately show ?thesis
    using read_output_parses_back [of "''HTTP/1.1 200 OK''" "[''Server: Caddy'', ''Etag: abc'']" "''{}''"] by (simp only:)
qed

section \<open>The configuration the shell sends\<close>

text \<open>Compact JSON is one line that begins with a brace, so the here-document holds exactly the configuration.\<close>

lemma write_sends_the_configuration:
  assumes "print config = CHR ''{'' # rest" and "CHR 10 \<notin> set (print config)" and "CHR 10 \<notin> set etag"
  shows "\<exists>before. text_lines (buildWriteCommand print config etag) = before @ [write_line etag, print config, HEREDOC_TAG] \<and>
    here_document HEREDOC_TAG [print config, HEREDOC_TAG] = ([print config], [])"
proof -
  have plain: "CHR 10 \<notin> set (write_line etag)" "CHR 10 \<notin> set HEREDOC_TAG"
    using assms(3) by (auto simp: write_line_def singleQuote_def sq_def STATUS_MARKER_def CONFIG_URL_def
        CADDY_ADMIN_ADDRESS_def HEREDOC_TAG_def)
  have "print config \<noteq> HEREDOC_TAG" using assms(1) by (simp add: HEREDOC_TAG_def)
  then have "here_document HEREDOC_TAG [print config, HEREDOC_TAG] = ([print config], [])"
    using here_document_ends [of HEREDOC_TAG "[print config]" "[]"] by simp
  moreover have "text_lines (buildWriteCommand print config etag) =
      text_lines (''command -v curl >/dev/null 2>&1 || exit '' @ show_int NO_CURL_EXIT) @ [write_line etag, print config, HEREDOC_TAG]"
    unfolding buildWriteCommand_def by (subst text_lines_join) (simp_all add: plain assms(2))
  ultimately show ?thesis by blast
qed

end
