(* ===== verification/Spec2Isabelle.thy ===== *)
theory Spec2Isabelle
  imports Job_Theorems Job_Web Prompt_Relay Prompt_Dialog Prompt_Watch Task_Scheduler Mcp_Theorems Guest_Edit Traefik_Config Caddy_Admin
begin

text \<open>
  A verification development of Bellhop, a homelab operations service: a web server, an MCP server and a
  command line that run provisioning and maintenance commands on Proxmox hosts over SSH.  The sources are
  under \<open>src/src\<close>; this library models the parts that carry the program's own state and decisions.

  The job system (\<open>web/jobs\<close>).  Every command that changes anything runs as a job.  \<open>Job_Store\<close>: the
  SQLite tables \<open>jobs\<close> and \<open>job_control_requests\<close> of \<open>job-store.ts\<close> as lists of rows in id order, one
  definition per statement.  \<open>Job_Runner\<close>: one process's \<open>JobRunner\<close> (\<open>job-runner.ts\<close>), its in-memory
  maps as association lists, one definition per method or per settled promise of its queue.
  \<open>Job_Runner_Inv\<close>: the invariant tying a runner's memory to its rows, preserved by every method.
  \<open>Job_System\<close>: the processes that share the database, as a step relation with reachable states.
  \<open>Job_Theorems\<close>: the properties of every reachable state.  \<open>Job_Control\<close>: cancelling, answering and
  dismissing a job from any process (\<open>job-control.ts\<close>).

  Prompt detection (\<open>web/jobs\<close>).  \<open>Terminal_Text\<close>: UTF-16 text, escape sequences, line keys.
  \<open>Prompt_Matcher\<close>: hints scraped from an install script as patterns (\<open>prompt-matcher.ts\<close>).
  \<open>Output_Activity\<close>: which output is new (\<open>output-activity.ts\<close>).  \<open>Prompt_Watch\<close>: the silence timer
  of \<open>JobSSHClient\<close> (\<open>job-ssh-client.ts\<close>) that pauses a job for the operator.

  Scheduled tasks.  \<open>Task_Schedules\<close>: the schedule rows and the HH:MM rule (\<open>lib/task-schedules.ts\<close>).
  \<open>Task_Scheduler\<close>: slots, ticks and started runs (\<open>web/tasks/scheduler.ts\<close>) over the job system.

  Job pages (\<open>web/jobs\<close>, \<open>web/routes/jobs.ts\<close>).  \<open>Utf8_Text\<close>: UTF-8 encoding, the runtime's decoder as a
  byte machine, and \<open>completeUtf8Length\<close> (\<open>job-log.ts\<close>).  \<open>Log_View\<close>: reading a log file and following it
  (\<open>job-tail.ts\<close>).  \<open>Job_Web\<close>: the socket of one job and the job routes, on top of the job system and
  the access rules.

  Prompts over MCP (\<open>mcp\<close>).  \<open>Prompt_Relay\<close>: the tracker of open dialogs (\<open>elicitation.ts\<close>), the wait loop
  (\<open>wait-for-job.ts\<close>) and its dialogs as steps over one job runner, with the invariant of the open dialogs.
  \<open>Prompt_Dialog\<close>: the text a dialog shows.

  Access.  \<open>Access_Control\<close>: the permission tables and the decisions on them (\<open>lib/permissions.ts\<close>,
  \<open>web/access.ts\<close>, \<open>web/auth.ts\<close>, \<open>web/impersonation.ts\<close> and their routes).  \<open>Access_Theorems\<close>: the
  decisions agree with each other and with the stored rule.

  Web login (\<open>web/login\<close>).  \<open>Login_Store\<close>: the sign-in attempts and sessions (\<open>session-store.ts\<close>), secrets
  kept as hashes.  \<open>Login_Sessions\<close>: one request's resolution and the re-check with the provider
  (\<open>sessions.ts\<close>), cut at its two waits so that other requests interleave.  \<open>Login_Theorems\<close>: what an
  answered user is backed by.

  MCP authorization (\<open>web/mcp\<close>).  \<open>Mcp_Auth_Store\<close>: clients, pending consents, codes, grants and tokens
  (\<open>auth-store.ts\<close>).  \<open>Mcp_OAuth\<close>: the provider's methods and the consent pages (\<open>oauth-provider.ts\<close>,
  \<open>consent.ts\<close>).  \<open>Mcp_Invariant\<close>: what every reachable store satisfies.  \<open>Mcp_Theorems\<close>: codes and
  refresh tokens work once, revocation is final, accepted tokens are a live admin's.

  Inventory (\<open>lib/inventory.ts\<close>, \<open>lib/settings.ts\<close>).  \<open>Js_Text\<close>: the string operations and the stable sort
  the sources use.  \<open>Settings_Schema\<close>: every setting with its check.  \<open>Inventory_Types\<close>: hosts, guests and
  external sites with their schemas.  \<open>Inventory_Rules\<close>: the cross-entry rules of \<open>validateInventory\<close> and the
  parsers of edited fields.  \<open>Inventory_Store\<close>: the tables, saving, loading and refreshing.
  \<open>Inventory_Theorems\<close>: what is saved is what loads.

  Reverse proxy (\<open>lib/proxy\<close>, \<open>commands/networking/sync-proxy.ts\<close>).  \<open>Proxy_Routes\<close>: routes and context from
  the inventory, the drivers' capabilities, the decisions of \<open>sync-proxy\<close>.  \<open>Nginx_Locations\<close>: nginx's
  configuration line by line (\<open>nginx-locations.ts\<close>, \<open>drivers/nginx.ts\<close>).  \<open>File_Driver\<close>: the shell script that
  backs up, writes, validates and reloads a proxy's files (\<open>file-driver.ts\<close>).  \<open>File_Proxies\<close>: what nginx, HAProxy
  and Caddy render and that no value ends a here-document.  \<open>Traefik_Config\<close>: Traefik's document and its check
  through the API (\<open>drivers/traefik.ts\<close>).  \<open>Caddy_Json\<close>: the plan of a configuration for Caddy's admin API
  against the live one (\<open>caddy-json.ts\<close>), and that it settles, keeps the operator's objects and takes no host over.
  \<open>Caddy_Admin\<close>: the commands that read and write that configuration and what they print (\<open>caddy-admin.ts\<close>).

  Remote commands.  \<open>Remote_Targets\<close>: from an inventory entry to the SSH connection and the command that runs in a
  container or machine, MIDs and VMIDs (\<open>lib/targets.ts\<close>).

  Settings and edits.  \<open>Config_Values\<close>: reading a setting from the environment or the two-second snapshot of the
  stored rows, and the Authentik settings (\<open>lib/config.ts\<close>, \<open>lib/authentik-config.ts\<close>).  \<open>Guest_Edit\<close>: an edit of
  a guest (\<open>operations/edit-guest.ts\<close>), its commit cut at the wait for the TLS probe so that other edits
  interleave; the push to the proxy after the save is left to its own component.

  Interfaces are locales, each interpreted on the model: \<open>keyed_update\<close> (a row update that keeps the key,
  \<open>Bellhop_Prelude\<close>), \<open>job_controls\<close> (what \<open>requestJobControl\<close> needs of a runner), \<open>local_calendar\<close> (the
  local time zone), \<open>task_jobs\<close> (what the scheduler needs of the job system), \<open>rule_table\<close> (what the
  decisions need of the permission tables) and \<open>auth_operation\<close> (what every operation keeps of the
  MCP authorization store).

  Conventions.  Instants are integers (milliseconds); ids are naturals; a \<open>Map\<close> is an association list in
  insertion order; a method that throws returns \<open>Inl\<close>.  Code that is not part of the repository is a
  parameter: the liveness of a pid, the local calendar, whether a shell's input is writable, which code
  points are letters, the hash and the random draws (\<open>crypto_ok\<close>: equal hashes only of equal secrets, and no
  draw repeats an earlier one), what the identity provider answers, the response of an MCP client, which texts parse as URLs, the outpost
  port of the Authentik configuration, the environment's variables, the yaml package and SHA-256.  Inventory text is over the characters U+0000 to U+00FF, ports and ids
  are integers, and \<open>Array.sort\<close> is the stable insertion sort, which it equals for a consistent comparator.  The only
  search that could run on is the scheduler's, a \<open>partial_function\<close>, whose result is proved to exist; every
  other loop is structurally or measure recursive.

  Not modelled: the SSH, HTTP and SQLite layers themselves, console capture, the web pages, and the bodies of
  the commands the jobs run; see the manifest for each part.
\<close>

end
